(* ===== verification/Sponge_Prelude.thy ===== *)
theory Sponge_Prelude
  imports Main "HOL-Library.Word"
begin

unbundle bit_operations_syntax

text \<open>
  Shared vocabulary of the development: the machine integers of the C++ code as words,
  C++ exceptions and undefined behaviour as values of a sum type, the sizes of containers,
  the arithmetic facts about words that the component theories use, and two generic
  interfaces (\<open>invariant_system\<close>, \<open>safe_machine\<close>) for components that are state machines.
\<close>

section \<open>Machine integers and errors\<close>

type_synonym u8 = "8 word"
type_synonym u16 = "16 word"
type_synonym u32 = "32 word"
type_synonym u64 = "64 word"
type_synonym bytes = "u8 list"

text \<open>
  What a C++ call can do other than return: throw \<^verbatim>\<open>std::runtime_error\<close>, \<^verbatim>\<open>std::out_of_range\<close>,
  \<^verbatim>\<open>std::length_error\<close> or the \<^verbatim>\<open>unix_error\<close> of \<^verbatim>\<open>util/util.hh\<close> (with the name of the system call and
  \<^verbatim>\<open>errno\<close>), or run into undefined behaviour (\<^verbatim>\<open>front()\<close> of an empty queue, an out-of-range
  \<^verbatim>\<open>operator[]\<close>, an oversized shift).
\<close>

datatype exn =
    Runtime_Error string
  | Out_Of_Range string
  | Length_Error string
  | Unix_Error string int
  | Undefined_Behaviour string

type_synonym 'a result = "exn + 'a"

definition bind_result :: "'a result \<Rightarrow> ('a \<Rightarrow> 'b result) \<Rightarrow> 'b result" where
  "bind_result r f = (case r of Inl e \<Rightarrow> Inl e | Inr x \<Rightarrow> f x)"

definition map_result :: "('a \<Rightarrow> 'b) \<Rightarrow> 'a result \<Rightarrow> 'b result" where
  "map_result f r = (case r of Inl e \<Rightarrow> Inl e | Inr x \<Rightarrow> Inr (f x))"

lemma bind_result_simps [simp]:
  "bind_result (Inl e) f = Inl e" "bind_result (Inr x) f = f x"
  by (simp_all add: bind_result_def)

lemma map_result_simps [simp]:
  "map_result g (Inl e) = Inl e" "map_result g (Inr x) = Inr (g x)"
  by (simp_all add: map_result_def)

lemma bind_result_cong [fundef_cong]:
  "r = r' \<Longrightarrow> (\<And>x. r' = Inr x \<Longrightarrow> f x = f' x) \<Longrightarrow> bind_result r f = bind_result r' f'"
  by (cases r') auto

lemma bind_result_Inr_iff: "bind_result r f = Inr y \<longleftrightarrow> (\<exists>x. r = Inr x \<and> f x = Inr y)"
  by (cases r) auto

lemma map_result_Inr_iff: "map_result f r = Inr y \<longleftrightarrow> (\<exists>x. r = Inr x \<and> y = f x)"
  by (cases r) auto

lemma map_result_map: "map_result f (map_result g x) = map_result (\<lambda>y. f (g y)) x"
  by (cases x) auto

lemma map_result_bind: "map_result f (bind_result x g) = bind_result x (\<lambda>y. map_result f (g y))"
  by (cases x) auto

lemma map_result_as_bind: "map_result f x = bind_result x (\<lambda>y. Inr (f y))"
  by (cases x) auto

lemma bind_result_map: "bind_result (map_result f x) g = bind_result x (\<lambda>y. g (f y))"
  by (cases x) auto

text \<open>
  A call that may throw but does not run into undefined behaviour, and whose result satisfies \<open>P\<close> if
  it returns.
\<close>

fun sound :: "('a \<Rightarrow> bool) \<Rightarrow> 'a result \<Rightarrow> bool" where
  "sound P (Inr x) = P x"
| "sound P (Inl (Undefined_Behaviour m)) = False"
| "sound P (Inl e) = True"

lemma sound_weaken: "sound P r \<Longrightarrow> (\<And>x. P x \<Longrightarrow> Q x) \<Longrightarrow> sound Q r"
  by (cases "(P, r)" rule: sound.cases) auto

lemma sound_bind: "sound P r \<Longrightarrow> (\<And>x. P x \<Longrightarrow> sound Q (f x)) \<Longrightarrow> sound Q (bind_result r f)"
  by (cases "(P, r)" rule: sound.cases) auto

lemma sound_map: "sound P r \<Longrightarrow> (\<And>x. P x \<Longrightarrow> Q (f x)) \<Longrightarrow> sound Q (map_result f r)"
  by (cases "(P, r)" rule: sound.cases) auto

lemma sound_any: "sound (\<lambda>_. True) r \<Longrightarrow> (\<And>x. r = Inr x \<Longrightarrow> P x) \<Longrightarrow> sound P r"
  by (cases r) (auto elim: sound.elims)

lemma sound_bind_eq: "sound (\<lambda>_. True) r \<Longrightarrow> (\<And>x. r = Inr x \<Longrightarrow> sound Q (f x)) \<Longrightarrow> sound Q (bind_result r f)"
  by (rule sound_bind[OF sound_any])

lemma sound_Inl: "sound P (Inl e) \<Longrightarrow> sound Q (Inl e)"
  by (cases e) simp_all

text \<open>The operations that have no undefined behaviour, whatever they are given.\<close>

named_theorems no_ub "operations without undefined behaviour"

lemma no_ub_bind [no_ub]: "sound (\<lambda>_. True) r \<Longrightarrow> (\<And>x. sound (\<lambda>_. True) (f x)) \<Longrightarrow> sound (\<lambda>_. True) (bind_result r f)"
  by (rule sound_bind)

lemma no_ub_map [no_ub]: "sound (\<lambda>_. True) r \<Longrightarrow> sound (\<lambda>_. True) (map_result f r)"
  by (rule sound_map)

section \<open>Sizes of containers\<close>

text \<open>
  \<^verbatim>\<open>size()\<close> of a C++ container is a \<^verbatim>\<open>size_t\<close>. A container that exists has fewer than
  \<open>2 ^ 64\<close> elements; \<open>fits\<close> states that of a list that stands for one.
\<close>

definition size_of :: "'a list \<Rightarrow> u64" where
  "size_of xs = of_nat (length xs)"

definition fits :: "'a list \<Rightarrow> bool" where
  "fits xs \<longleftrightarrow> length xs < 2 ^ 64"

lemma unat_of_nat_le: "unat (of_nat n :: 'a::len word) \<le> n"
  by (simp add: unsigned_of_nat take_bit_eq_mod)

lemma unat_of_nat_lt: "n < 2 ^ LENGTH('a) \<Longrightarrow> unat (of_nat n :: 'a::len word) = n"
  by (simp add: unsigned_of_nat take_bit_nat_eq_self_iff)

lemma unat_of_nat64: "n < 2 ^ 64 \<Longrightarrow> unat (of_nat n :: u64) = n"
  by (simp add: unsigned_of_nat take_bit_nat_eq_self_iff)

lemma unat_eq_of_nat: "unat (x :: 'a::len word) = k \<Longrightarrow> x = of_nat k"
  by auto

lemma unat_size_of: "fits xs \<Longrightarrow> unat (size_of xs) = length xs"
  by (simp add: size_of_def fits_def unat_of_nat64)

lemma unat_size_of_le: "unat (size_of xs) \<le> length xs"
  by (simp add: size_of_def unat_of_nat_le)

lemma size_of_Nil [simp]: "size_of [] = 0"
  by (simp add: size_of_def)

lemma size_of_append [simp]: "size_of (xs @ ys) = size_of xs + size_of ys"
  by (simp add: size_of_def)

lemma fits_Nil [simp]: "fits []"
  by (simp add: fits_def)

lemma fits_le: "length xs \<le> unat (n :: u64) \<Longrightarrow> fits xs"
  using unsigned_less[of n, where ?'a = nat] by (simp add: fits_def)

lemma fits_shorter: "fits ys \<Longrightarrow> length xs \<le> length ys \<Longrightarrow> fits xs"
  by (simp add: fits_def)

lemma size_of_take: "n \<le> size_of xs \<Longrightarrow> size_of (take (unat n) xs) = n"
  using unat_size_of_le[of xs] by (simp add: size_of_def word_le_nat_alt min_absorb2)

lemma size_of_drop: "n \<le> size_of xs \<Longrightarrow> size_of (drop (unat n) xs) = size_of xs - n"
proof -
  assume n: "n \<le> size_of xs"
  have "size_of (take (unat n) xs @ drop (unat n) xs) = size_of xs" by simp
  then have "n + size_of (drop (unat n) xs) = size_of xs"
    using n by (simp only: size_of_append size_of_take)
  then show ?thesis by (metis add_diff_cancel_left')
qed

section \<open>Words and natural numbers\<close>

lemma unat32_bound: "unat (x :: u32) < 4294967296"
  using unsigned_less[of x, where ?'a = nat] by simp

lemma unat64_bound: "unat (x :: u64) < 18446744073709551616"
  using unsigned_less[of x, where ?'a = nat] by simp

lemma unat16_bound: "unat (x :: u16) < 65536"
  using unsigned_less[of x, where ?'a = nat] by simp

lemma unat8_bound: "unat (x :: u8) < 256"
  using unsigned_less[of x, where ?'a = nat] by simp

lemma unat_ucast_up:
  assumes "LENGTH('a::len) \<le> LENGTH('b::len)"
  shows "unat (ucast (x :: 'a word) :: 'b word) = unat x"
proof -
  have "unat x < 2 ^ LENGTH('a)" by simp
  also have "(2 :: nat) ^ LENGTH('a) \<le> 2 ^ LENGTH('b)" using assms by simp
  finally show ?thesis by (simp add: unsigned_ucast_eq take_bit_nat_eq_self_iff)
qed

lemma unat_sub_le: "(b :: 'a::len word) \<le> a \<Longrightarrow> unat (a - b) = unat a - unat b"
  by (rule unat_sub)

lemma unat_add_lt:
  "unat a + unat b < 2 ^ LENGTH('a) \<Longrightarrow> unat ((a :: 'a::len word) + b) = unat a + unat b"
  by (simp add: unat_word_ariths)

text \<open>Numbers in decimal, as \<^verbatim>\<open>std::to_string\<close> prints them.\<close>

definition digit_char :: "nat \<Rightarrow> char" where
  "digit_char d = char_of (48 + d)"

fun decimal :: "nat \<Rightarrow> string" where
  "decimal n = (if n < 10 then [digit_char n] else decimal (n div 10) @ [digit_char (n mod 10)])"

declare decimal.simps [simp del]

definition decimal_int :: "int \<Rightarrow> string" where
  "decimal_int i = (if i < 0 then ''-'' @ decimal (nat (- i)) else decimal (nat i))"

text \<open>A lower-case hexadecimal digit, as \<^verbatim>\<open>std::hex\<close> prints it.\<close>

definition hex_digit :: "nat \<Rightarrow> char" where
  "hex_digit d = (if d < 10 then char_of (48 + d) else char_of (87 + d))"

section \<open>State machines\<close>

text \<open>
  Reachable states of a transition system, and the interface by which a component's
  invariant is proved: it holds initially and every step keeps it.
\<close>

inductive reachable :: "('s \<Rightarrow> bool) \<Rightarrow> ('s \<Rightarrow> 's \<Rightarrow> bool) \<Rightarrow> 's \<Rightarrow> bool"
  for start :: "'s \<Rightarrow> bool" and step :: "'s \<Rightarrow> 's \<Rightarrow> bool" where
  reach_start: "start s \<Longrightarrow> reachable start step s"
| reach_step: "reachable start step s \<Longrightarrow> step s t \<Longrightarrow> reachable start step t"

locale invariant_system =
  fixes start :: "'s \<Rightarrow> bool" and step :: "'s \<Rightarrow> 's \<Rightarrow> bool" and invar :: "'s \<Rightarrow> bool"
  assumes invar_start: "start s \<Longrightarrow> invar s"
    and invar_step: "invar s \<Longrightarrow> step s t \<Longrightarrow> invar t"
begin

lemma reachable_invar: "reachable start step s \<Longrightarrow> invar s"
  by (induction rule: reachable.induct) (auto intro: invar_start invar_step)

lemma reachable_step_invar: "reachable start step s \<Longrightarrow> step s t \<Longrightarrow> invar s \<and> invar t"
  using reachable_invar invar_step by blast

end

text \<open>
  A component whose operations may throw or hit undefined behaviour: \<open>run_events\<close> performs a
  sequence of calls and stops at the first failure. The interface promises that a call on a
  state that satisfies the invariant, with arguments the caller may pass, returns and keeps
  the invariant; its client lemma is that no sequence of such calls ever fails.
\<close>

fun run_events :: "('s \<Rightarrow> 'e \<Rightarrow> 's result) \<Rightarrow> 's \<Rightarrow> 'e list \<Rightarrow> 's result" where
  "run_events step s [] = Inr s"
| "run_events step s (e # es) = bind_result (step s e) (\<lambda>s'. run_events step s' es)"

lemma run_events_append:
  "run_events step s (es @ fs) = bind_result (run_events step s es) (\<lambda>t. run_events step t fs)"
proof (induction es arbitrary: s)
  case (Cons e es)
  then show ?case by (cases "step s e") simp_all
qed simp

locale safe_machine =
  fixes step :: "'s \<Rightarrow> 'e \<Rightarrow> 's result" and invar :: "'s \<Rightarrow> bool" and allowed :: "'e \<Rightarrow> bool"
  assumes safe_step: "invar s \<Longrightarrow> allowed e \<Longrightarrow> \<exists>t. step s e = Inr t \<and> invar t"
begin

lemma run_safe: "invar s \<Longrightarrow> \<forall>e \<in> set es. allowed e \<Longrightarrow> \<exists>t. run_events step s es = Inr t \<and> invar t"
proof (induction es arbitrary: s)
  case (Cons e es)
  from Cons.prems obtain t where t: "step s e = Inr t" "invar t"
    using safe_step[of s e] by auto
  with Cons.IH[of t] Cons.prems(2) show ?case by simp
qed simp

end

end
