(* ===== verification/Byte_Stream.thy ===== *)
theory Byte_Stream
  imports Sponge_Prelude
begin

text \<open>
  \<^verbatim>\<open>libsponge/byte_stream.{hh,cc}\<close>: the flow-controlled in-memory byte stream that every
  other TCP component reads from or writes to. Each method of the class is one definition;
  \<^verbatim>\<open>size_t\<close> is \<open>u64\<close>, \<^verbatim>\<open>std::string\<close> a list of bytes. The interface \<open>bounded_fifo\<close> states
  what a client may rely on, and is interpreted on the class's own \<^verbatim>\<open>write\<close> and \<^verbatim>\<open>read\<close>.
\<close>

section \<open>The model\<close>

record ByteStream =
  bs_capacity :: u64
  bs_bytes_written :: u64
  bs_bytes_read :: u64
  bs_input_ended :: bool
  bs_buffer :: bytes
  bs_error :: bool

text \<open>
  \<^verbatim>\<open>s.substr(pos, n)\<close>: at most \<open>n\<close> bytes from \<open>pos\<close> on. (It throws when \<^verbatim>\<open>pos > s.size()\<close>;
  both callers below pass a position that \<^verbatim>\<open>_available_output\<close> has clamped to the size.)
\<close>

definition substr :: "bytes \<Rightarrow> u64 \<Rightarrow> u64 \<Rightarrow> bytes" where
  "substr s pos n = take (unat n) (drop (unat pos) s)"

definition ByteStream_new :: "u64 \<Rightarrow> ByteStream" where
  "ByteStream_new capacity =
     \<lparr>bs_capacity = capacity, bs_bytes_written = 0, bs_bytes_read = 0,
      bs_input_ended = False, bs_buffer = [], bs_error = False\<rparr>"

definition ByteStream_buffer_size :: "ByteStream \<Rightarrow> u64" where
  "ByteStream_buffer_size s = size_of (bs_buffer s)"

definition ByteStream_buffer_empty :: "ByteStream \<Rightarrow> bool" where
  "ByteStream_buffer_empty s \<longleftrightarrow> bs_buffer s = []"

definition ByteStream_input_ended :: "ByteStream \<Rightarrow> bool" where
  "ByteStream_input_ended s = bs_input_ended s"

definition ByteStream_eof :: "ByteStream \<Rightarrow> bool" where
  "ByteStream_eof s \<longleftrightarrow> ByteStream_buffer_empty s \<and> ByteStream_input_ended s"

definition ByteStream_bytes_written :: "ByteStream \<Rightarrow> u64" where
  "ByteStream_bytes_written s = bs_bytes_written s"

definition ByteStream_bytes_read :: "ByteStream \<Rightarrow> u64" where
  "ByteStream_bytes_read s = bs_bytes_read s"

definition ByteStream_remaining_capacity :: "ByteStream \<Rightarrow> u64" where
  "ByteStream_remaining_capacity s = bs_capacity s - ByteStream_buffer_size s"

definition ByteStream_available_output :: "ByteStream \<Rightarrow> u64 \<Rightarrow> u64" where
  "ByteStream_available_output s len =
     (if len > ByteStream_buffer_size s then ByteStream_buffer_size s else len)"

definition ByteStream_pop :: "u64 \<Rightarrow> ByteStream \<Rightarrow> ByteStream" where
  "ByteStream_pop sz s =
     s\<lparr>bs_buffer := substr (bs_buffer s) sz (ByteStream_buffer_size s),
       bs_bytes_read := bs_bytes_read s + sz\<rparr>"

definition ByteStream_peek :: "ByteStream \<Rightarrow> u64 \<Rightarrow> bytes" where
  "ByteStream_peek s sz = substr (bs_buffer s) 0 sz"

definition ByteStream_write :: "bytes \<Rightarrow> ByteStream \<Rightarrow> u64 \<times> ByteStream" where
  "ByteStream_write data s =
     (let sz = if size_of data > ByteStream_remaining_capacity s
                 then ByteStream_remaining_capacity s else size_of data
      in (sz, s\<lparr>bs_buffer := bs_buffer s @ substr data 0 sz,
                  bs_bytes_written := bs_bytes_written s + sz\<rparr>))"

definition ByteStream_peek_output :: "ByteStream \<Rightarrow> u64 \<Rightarrow> bytes" where
  "ByteStream_peek_output s len = ByteStream_peek s (ByteStream_available_output s len)"

definition ByteStream_pop_output :: "u64 \<Rightarrow> ByteStream \<Rightarrow> ByteStream" where
  "ByteStream_pop_output len s = ByteStream_pop (ByteStream_available_output s len) s"

definition ByteStream_read :: "u64 \<Rightarrow> ByteStream \<Rightarrow> bytes \<times> ByteStream" where
  "ByteStream_read len s =
     (let sz = ByteStream_available_output s len;
          data = ByteStream_peek s sz
      in (data, ByteStream_pop sz s))"

definition ByteStream_end_input :: "ByteStream \<Rightarrow> ByteStream" where
  "ByteStream_end_input s = s\<lparr>bs_input_ended := True\<rparr>"

definition ByteStream_set_error :: "ByteStream \<Rightarrow> ByteStream" where
  "ByteStream_set_error s = s\<lparr>bs_error := True\<rparr>"

definition ByteStream_get_error :: "ByteStream \<Rightarrow> bool" where
  "ByteStream_get_error s = bs_error s"

lemmas ByteStream_accessors = ByteStream_buffer_size_def ByteStream_buffer_empty_def
  ByteStream_input_ended_def ByteStream_eof_def ByteStream_bytes_written_def
  ByteStream_bytes_read_def ByteStream_get_error_def

section \<open>The interface of a bounded byte queue\<close>

text \<open>
  What the owners of a stream rely on. \<open>fifo_exec\<close> performs a sequence of writes and reads and
  collects, in order, the bytes the queue accepted and the bytes it delivered.
\<close>

datatype 'a fifo_op = Enq "'a list" | Deq u64

fun fifo_exec ::
  "('a list \<Rightarrow> 's \<Rightarrow> u64 \<times> 's) \<Rightarrow> (u64 \<Rightarrow> 's \<Rightarrow> 'a list \<times> 's) \<Rightarrow> 's \<Rightarrow> 'a fifo_op list
     \<Rightarrow> 'a list \<times> 'a list \<times> 's" where
  "fifo_exec enq deq s [] = ([], [], s)"
| "fifo_exec enq deq s (Enq d # ops) =
     (let (n, s') = enq d s; (acc, del, t) = fifo_exec enq deq s' ops
      in (take (unat n) d @ acc, del, t))"
| "fifo_exec enq deq s (Deq n # ops) =
     (let (d, s') = deq n s; (acc, del, t) = fifo_exec enq deq s' ops
      in (acc, d @ del, t))"

text \<open>The same on a plain list with a capacity, as the specification.\<close>

fun queue_exec :: "nat \<Rightarrow> 'a list \<Rightarrow> 'a fifo_op list \<Rightarrow> 'a list \<times> 'a list \<times> 'a list" where
  "queue_exec capacity q [] = ([], [], q)"
| "queue_exec capacity q (Enq d # ops) =
     (let d' = take (capacity - length q) d; (acc, del, r) = queue_exec capacity (q @ d') ops in (d' @ acc, del, r))"
| "queue_exec capacity q (Deq n # ops) =
     (let (acc, del, r) = queue_exec capacity (drop (unat n) q) ops in (acc, take (unat n) q @ del, r))"

primrec op_fits :: "'a fifo_op \<Rightarrow> bool" where
  "op_fits (Enq d) = fits d"
| "op_fits (Deq n) = True"

locale bounded_fifo =
  fixes invar :: "'s \<Rightarrow> bool" and contents :: "'s \<Rightarrow> 'a list" and room :: "'s \<Rightarrow> nat"
    and enq :: "'a list \<Rightarrow> 's \<Rightarrow> u64 \<times> 's" and deq :: "u64 \<Rightarrow> 's \<Rightarrow> 'a list \<times> 's"
  assumes enq_invar: "invar s \<Longrightarrow> invar (snd (enq d s))"
    and enq_contents: "invar s \<Longrightarrow> contents (snd (enq d s)) = contents s @ take (unat (fst (enq d s))) d"
    and enq_accepts: "invar s \<Longrightarrow> fits d \<Longrightarrow> unat (fst (enq d s)) = min (length d) (room s)"
    and enq_room: "invar s \<Longrightarrow>
      room (snd (enq d s)) + length (contents (snd (enq d s))) = room s + length (contents s)"
    and deq_invar: "invar s \<Longrightarrow> invar (snd (deq n s))"
    and deq_contents: "invar s \<Longrightarrow> fst (deq n s) @ contents (snd (deq n s)) = contents s"
    and deq_length: "invar s \<Longrightarrow> length (fst (deq n s)) = min (unat n) (length (contents s))"
    and deq_room: "invar s \<Longrightarrow>
      room (snd (deq n s)) + length (contents (snd (deq n s))) = room s + length (contents s)"
begin

lemma exec_fifo:
  assumes "invar s" and "fifo_exec enq deq s ops = (acc, del, t)"
  shows "invar t \<and> contents s @ acc = del @ contents t
    \<and> room t + length (contents t) = room s + length (contents s)"
  using assms
proof (induction ops arbitrary: s acc del)
  case (Cons x ops)
  show ?case
  proof (cases x)
    case (Enq d)
    obtain acc' where e: "fifo_exec enq deq (snd (enq d s)) ops = (acc', del, t)"
      and acc: "acc = take (unat (fst (enq d s))) d @ acc'"
      using Cons.prems(2) Enq by (auto split: prod.splits)
    show ?thesis
      using Cons.IH[OF enq_invar[OF Cons.prems(1)] e] acc
      by (simp add: enq_contents[OF Cons.prems(1)] enq_room[OF Cons.prems(1), of d, symmetric])
  next
    case (Deq n)
    obtain del' where e: "fifo_exec enq deq (snd (deq n s)) ops = (acc, del', t)"
      and del: "del = fst (deq n s) @ del'"
      using Cons.prems(2) Deq by (auto split: prod.splits)
    have "contents s @ acc = fst (deq n s) @ contents (snd (deq n s)) @ acc"
      using deq_contents[OF Cons.prems(1), of n] by (metis append_assoc)
    then show ?thesis
      using Cons.IH[OF deq_invar[OF Cons.prems(1)] e] del deq_room[OF Cons.prems(1), of n] by simp
  qed
qed simp

text \<open>A write that fits is accepted whole; a read of at least the contents empties the queue.\<close>

lemma enq_whole: "invar s \<Longrightarrow> fits d \<Longrightarrow> length d \<le> room s \<Longrightarrow> contents (snd (enq d s)) = contents s @ d"
  by (simp add: enq_contents enq_accepts)

lemma deq_prefix: "invar s \<Longrightarrow> fst (deq n s) = take (unat n) (contents s)"
proof -
  assume s: "invar s"
  have "take (length (fst (deq n s))) (contents s) = fst (deq n s)"
    using deq_contents[OF s, of n] by (metis append_eq_conv_conj)
  then show ?thesis using deq_length[OF s, of n] by (simp add: min_def split: if_splits)
qed

lemma deq_all: "invar s \<Longrightarrow> length (contents s) \<le> unat n \<Longrightarrow> fst (deq n s) = contents s"
  by (simp add: deq_prefix)

lemma exec_refines:
  assumes "invar s" and "list_all op_fits ops" and "queue_exec (room s + length (contents s)) (contents s) ops = (acc, del, q)"
  shows "\<exists>t. fifo_exec enq deq s ops = (acc, del, t) \<and> contents t = q"
  using assms
proof (induction ops arbitrary: s acc del)
  case (Cons x ops)
  show ?case
  proof (cases x)
    case (Enq d)
    have d: "take (unat (fst (enq d s))) d = take (room s) d"
      using enq_accepts[OF Cons.prems(1), of d] Cons.prems(2) Enq by (simp add: min_def)
    let ?s = "snd (enq d s)" and ?C = "room s + length (contents s)"
    have c: "contents ?s = contents s @ take (room s) d" using enq_contents[OF Cons.prems(1), of d] d by simp
    obtain acc' where q: "queue_exec ?C (contents ?s) ops = (acc', del, q)" "acc = take (room s) d @ acc'"
      using Cons.prems(3) Enq by (auto simp: c Let_def split: prod.splits)
    then obtain t where "fifo_exec enq deq ?s ops = (acc', del, t)" "contents t = q"
      using Cons.IH[OF enq_invar[OF Cons.prems(1), of d]] Cons.prems(2) unfolding enq_room[OF Cons.prems(1), of d] by auto
    then show ?thesis using Enq q(2) d by (simp add: split_beta Let_def)
  next
    case (Deq n)
    let ?s = "snd (deq n s)" and ?C = "room s + length (contents s)"
    have c: "contents ?s = drop (unat n) (contents s)"
      using deq_contents[OF Cons.prems(1), of n] deq_prefix[OF Cons.prems(1), of n] by (metis append_take_drop_id same_append_eq)
    obtain del' where q: "queue_exec ?C (contents ?s) ops = (acc, del', q)" "del = take (unat n) (contents s) @ del'"
      using Cons.prems(3) Deq by (auto simp: c split: prod.splits)
    then obtain t where "fifo_exec enq deq ?s ops = (acc, del', t)" "contents t = q"
      using Cons.IH[OF deq_invar[OF Cons.prems(1), of n]] Cons.prems(2) unfolding deq_room[OF Cons.prems(1), of n] by auto
    then show ?thesis using Deq q(2) by (simp add: deq_prefix[OF Cons.prems(1)] split_beta Let_def)
  qed
qed simp

end

section \<open>ByteStream implements the interface\<close>

definition ByteStream_inv :: "ByteStream \<Rightarrow> bool" where
  "ByteStream_inv s \<longleftrightarrow> length (bs_buffer s) \<le> unat (bs_capacity s)
     \<and> bs_bytes_written s - bs_bytes_read s = size_of (bs_buffer s)"

lemma ByteStream_inv_new: "ByteStream_inv (ByteStream_new c)"
  by (simp add: ByteStream_inv_def ByteStream_new_def)

lemma ByteStream_inv_fits: "ByteStream_inv s \<Longrightarrow> fits (bs_buffer s)"
  unfolding ByteStream_inv_def by (blast intro: fits_le)

lemma unat_buffer_size: "ByteStream_inv s \<Longrightarrow> unat (ByteStream_buffer_size s) = length (bs_buffer s)"
  by (simp add: ByteStream_buffer_size_def unat_size_of ByteStream_inv_fits)

text \<open>The subtraction in \<^verbatim>\<open>remaining_capacity\<close> never wraps around.\<close>

lemma unat_remaining_capacity:
  "ByteStream_inv s \<Longrightarrow>
     unat (ByteStream_remaining_capacity s) = unat (bs_capacity s) - length (bs_buffer s)"
  using unat_buffer_size[of s]
  by (simp add: ByteStream_remaining_capacity_def ByteStream_inv_def unat_sub word_le_nat_alt)

lemma unat_available_output:
  "ByteStream_inv s \<Longrightarrow> unat (ByteStream_available_output s n) = min (unat n) (length (bs_buffer s))"
  using unat_buffer_size[of s] by (auto simp: ByteStream_available_output_def word_less_nat_alt)

lemma available_output_le: "ByteStream_available_output s n \<le> size_of (bs_buffer s)"
  by (auto simp: ByteStream_available_output_def ByteStream_buffer_size_def)

lemma write_size: "fst (ByteStream_write d s) \<le> size_of d"
  and write_room: "fst (ByteStream_write d s) \<le> ByteStream_remaining_capacity s"
  by (auto simp: ByteStream_write_def Let_def)

lemma write_buffer:
  "bs_buffer (snd (ByteStream_write d s)) = bs_buffer s @ take (unat (fst (ByteStream_write d s))) d"
  by (simp add: ByteStream_write_def Let_def substr_def)

lemma write_frame [simp]:
  "bs_capacity (snd (ByteStream_write d s)) = bs_capacity s"
  "bs_bytes_read (snd (ByteStream_write d s)) = bs_bytes_read s"
  "bs_input_ended (snd (ByteStream_write d s)) = bs_input_ended s"
  "bs_error (snd (ByteStream_write d s)) = bs_error s"
  by (simp_all add: ByteStream_write_def Let_def)

lemma write_bytes_written:
  "bs_bytes_written (snd (ByteStream_write d s)) = bs_bytes_written s + fst (ByteStream_write d s)"
  by (simp add: ByteStream_write_def Let_def)

lemma write_count:
  "ByteStream_inv s \<Longrightarrow> fits d \<Longrightarrow>
     unat (fst (ByteStream_write d s)) = min (length d) (unat (bs_capacity s) - length (bs_buffer s))"
  using unat_size_of[of d] unat_remaining_capacity[of s]
  by (auto simp: ByteStream_write_def Let_def word_less_nat_alt)

lemma write_inv:
  assumes "ByteStream_inv s" shows "ByteStream_inv (snd (ByteStream_write d s))"
proof -
  have "unat (fst (ByteStream_write d s)) \<le> unat (bs_capacity s) - length (bs_buffer s)"
    using write_room[of d s] unat_remaining_capacity[OF assms] by (simp add: word_le_nat_alt)
  then show ?thesis
    using assms size_of_take[OF write_size, of d s]
    by (auto simp: ByteStream_inv_def write_buffer write_bytes_written)
qed

lemma pop_output_buffer:
  "ByteStream_inv s \<Longrightarrow> bs_buffer (ByteStream_pop_output n s) = drop (unat n) (bs_buffer s)"
  using unat_available_output[of s n] unat_buffer_size[of s]
  by (auto simp: ByteStream_pop_output_def ByteStream_pop_def substr_def min_def)

lemma pop_output_frame [simp]:
  "bs_capacity (ByteStream_pop_output n s) = bs_capacity s"
  "bs_bytes_written (ByteStream_pop_output n s) = bs_bytes_written s"
  "bs_input_ended (ByteStream_pop_output n s) = bs_input_ended s"
  "bs_error (ByteStream_pop_output n s) = bs_error s"
  by (simp_all add: ByteStream_pop_output_def ByteStream_pop_def)

lemma peek_output_eq:
  "ByteStream_inv s \<Longrightarrow> ByteStream_peek_output s n = take (unat n) (bs_buffer s)"
  using unat_available_output[of s n]
  by (auto simp: ByteStream_peek_output_def ByteStream_peek_def substr_def min_def)

lemma pop_output_inv: "ByteStream_inv s \<Longrightarrow> ByteStream_inv (ByteStream_pop_output n s)"
proof -
  assume inv: "ByteStream_inv s"
  let ?a = "ByteStream_available_output s n"
  have "bs_buffer (ByteStream_pop_output n s) = drop (unat ?a) (bs_buffer s)"
    using unat_available_output[OF inv, of n] by (simp add: pop_output_buffer[OF inv] min_def)
  moreover have "size_of (drop (unat ?a) (bs_buffer s)) = size_of (bs_buffer s) - ?a"
    by (rule size_of_drop[OF available_output_le])
  ultimately show ?thesis using inv
    by (auto simp: ByteStream_inv_def ByteStream_pop_output_def ByteStream_pop_def algebra_simps)
qed

lemma read_eq: "ByteStream_read n s = (ByteStream_peek_output s n, ByteStream_pop_output n s)"
  by (simp add: ByteStream_read_def ByteStream_peek_output_def ByteStream_pop_output_def Let_def)

lemma read_bytes_read:
  "ByteStream_inv s \<Longrightarrow>
     bs_bytes_read (snd (ByteStream_read n s)) = bs_bytes_read s + size_of (fst (ByteStream_read n s))"
proof -
  assume inv: "ByteStream_inv s"
  let ?a = "ByteStream_available_output s n"
  have "fst (ByteStream_read n s) = take (unat ?a) (bs_buffer s)"
    by (simp add: ByteStream_read_def Let_def ByteStream_peek_def substr_def)
  then have "size_of (fst (ByteStream_read n s)) = ?a"
    using size_of_take[OF available_output_le] by simp
  then show ?thesis by (simp add: ByteStream_read_def Let_def ByteStream_pop_def)
qed

lemma end_input_inv: "ByteStream_inv s \<Longrightarrow> ByteStream_inv (ByteStream_end_input s)"
  and set_error_inv: "ByteStream_inv s \<Longrightarrow> ByteStream_inv (ByteStream_set_error s)"
  by (simp_all add: ByteStream_inv_def ByteStream_end_input_def ByteStream_set_error_def)

interpretation bs: bounded_fifo ByteStream_inv bs_buffer
  "\<lambda>s. unat (bs_capacity s) - length (bs_buffer s)" ByteStream_write ByteStream_read
proof (unfold_locales, goal_cases)
  case (1 s d) then show ?case by (rule write_inv)
next
  case (2 s d) show ?case by (rule write_buffer)
next
  case (3 s d) then show ?case by (rule write_count)
next
  case (4 s d) then show ?case using write_inv[of s d] by (simp add: ByteStream_inv_def)
next
  case (5 s n) then show ?case by (simp add: read_eq pop_output_inv)
next
  case (6 s n) then show ?case by (simp add: read_eq peek_output_eq pop_output_buffer)
next
  case (7 s n) then show ?case by (simp add: read_eq peek_output_eq)
next
  case (8 s n)
  then have "length (bs_buffer s) \<le> unat (bs_capacity s)" by (simp add: ByteStream_inv_def)
  with 8 show ?case by (simp add: read_eq pop_output_buffer)
qed

lemma exec_counters:
  assumes "ByteStream_inv s" and "fifo_exec ByteStream_write ByteStream_read s ops = (acc, del, t)"
  shows "bs_bytes_written t = bs_bytes_written s + size_of acc
    \<and> bs_bytes_read t = bs_bytes_read s + size_of del \<and> bs_capacity t = bs_capacity s"
  using assms
proof (induction ops arbitrary: s acc del)
  case (Cons x ops)
  show ?case
  proof (cases x)
    case (Enq d)
    let ?s = "snd (ByteStream_write d s)"
    obtain acc' where e: "fifo_exec ByteStream_write ByteStream_read ?s ops = (acc', del, t)"
      and acc: "acc = take (unat (fst (ByteStream_write d s))) d @ acc'"
      using Cons.prems(2) Enq by (auto split: prod.splits)
    show ?thesis
      using Cons.IH[OF write_inv[OF Cons.prems(1)] e] acc
      by (simp add: write_bytes_written size_of_take[OF write_size])
  next
    case (Deq n)
    let ?s = "snd (ByteStream_read n s)"
    obtain del' where e: "fifo_exec ByteStream_write ByteStream_read ?s ops = (acc, del', t)"
      and del: "del = fst (ByteStream_read n s) @ del'"
      using Cons.prems(2) Deq by (auto split: prod.splits)
    show ?thesis
      using Cons.IH[OF bs.deq_invar[OF Cons.prems(1)] e] del read_bytes_read[OF Cons.prems(1), of n]
      by (simp add: read_eq)
  qed
qed simp

section \<open>The stream as a state machine\<close>

inductive ByteStream_step :: "ByteStream \<Rightarrow> ByteStream \<Rightarrow> bool" where
  step_write: "ByteStream_step s (snd (ByteStream_write d s))"
| step_pop: "ByteStream_step s (ByteStream_pop_output n s)"
| step_read: "ByteStream_step s (snd (ByteStream_read n s))"
| step_end: "ByteStream_step s (ByteStream_end_input s)"
| step_error: "ByteStream_step s (ByteStream_set_error s)"

interpretation bs_sys: invariant_system "\<lambda>s. \<exists>c. s = ByteStream_new c" ByteStream_step ByteStream_inv
proof (unfold_locales, goal_cases)
  case 1 then show ?case by (auto simp: ByteStream_inv_new)
next
  case 2 then show ?case
    by (auto elim!: ByteStream_step.cases simp: read_eq
        intro: write_inv pop_output_inv end_input_inv set_error_inv)
qed

section \<open>Properties\<close>

text \<open>
  C35. A stream is a bounded first-in-first-out queue. Over any sequence of writes and reads on a fresh
  stream, each write accepts exactly as many bytes as there is room for, each read delivers exactly
  the oldest bytes up to the number asked for, and what is buffered is what a list of limited length
  would hold; the bytes accepted are, in order, the bytes delivered followed by the bytes still
  buffered, of which there are never more than the capacity; and the two counters are the numbers of
  bytes accepted and delivered.
\<close>

theorem ByteStream_refines_queue:
  assumes "list_all op_fits ops" and "queue_exec (unat capacity) [] ops = (accepted, delivered, q)"
  shows "\<exists>s. fifo_exec ByteStream_write ByteStream_read (ByteStream_new capacity) ops = (accepted, delivered, s) \<and> bs_buffer s = q
    \<and> accepted = delivered @ q \<and> length q \<le> unat capacity
    \<and> ByteStream_bytes_written s = size_of accepted \<and> ByteStream_bytes_read s = size_of delivered"
proof -
  obtain s where s: "fifo_exec ByteStream_write ByteStream_read (ByteStream_new capacity) ops = (accepted, delivered, s)" "bs_buffer s = q"
    using bs.exec_refines[OF ByteStream_inv_new[of capacity] assms(1)] assms(2) by (auto simp: ByteStream_new_def)
  then show ?thesis
    using bs.exec_fifo[OF ByteStream_inv_new s(1)] exec_counters[OF ByteStream_inv_new s(1)]
    by (intro exI[of _ s]) (simp add: ByteStream_new_def ByteStream_inv_def ByteStream_accessors)
qed

theorem ByteStream_refines_queue_witness:
  "\<exists>s. fifo_exec ByteStream_write ByteStream_read (ByteStream_new 3) [Enq [1, 2, 3, 4], Deq 2, Enq [5]]
      = ([1, 2, 3, 5], [1, 2], s) \<and> bs_buffer s = [3, 5]
    \<and> ByteStream_bytes_written s = 4 \<and> ByteStream_bytes_read s = 2"
proof -
  have "queue_exec (unat (3 :: u64)) [] [Enq [1, 2, 3, 4], Deq 2, Enq [5]] = ([1, 2, 3, 5], [1, 2], [3, 5 :: u8])"
    by (simp add: Let_def)
  then show ?thesis using ByteStream_refines_queue[of "[Enq [1, 2, 3, 4], Deq 2, Enq [5]]" 3] by (auto simp: fits_def size_of_def simp del: fifo_exec.simps)
qed

text \<open>
  Every reachable stream: whatever public methods were called in whatever order, the
  capacity is split exactly into the buffered bytes and \<^verbatim>\<open>remaining_capacity()\<close> (its
  subtraction never wraps), and \<^verbatim>\<open>bytes_written() - bytes_read()\<close> is \<^verbatim>\<open>buffer_size()\<close>.
\<close>

theorem ByteStream_reachable_accounting:
  assumes "reachable (\<lambda>s. \<exists>c. s = ByteStream_new c) ByteStream_step s"
  shows "unat (ByteStream_buffer_size s) + unat (ByteStream_remaining_capacity s) = unat (bs_capacity s)
    \<and> unat (ByteStream_buffer_size s) = length (bs_buffer s)
    \<and> ByteStream_bytes_written s - ByteStream_bytes_read s = ByteStream_buffer_size s"
proof -
  have inv: "ByteStream_inv s" using assms by (rule bs_sys.reachable_invar)
  show ?thesis using inv unat_buffer_size[OF inv] unat_remaining_capacity[OF inv]
    by (simp add: ByteStream_inv_def ByteStream_accessors)
qed

theorem ByteStream_reachable_accounting_witness:
  "unat (ByteStream_buffer_size (snd (ByteStream_write [7, 8] (ByteStream_new 5))))
   + unat (ByteStream_remaining_capacity (snd (ByteStream_write [7, 8] (ByteStream_new 5)))) = 5"
proof -
  let ?s = "snd (ByteStream_write [7, 8] (ByteStream_new 5))"
  have r: "reachable (\<lambda>s. \<exists>c. s = ByteStream_new c) ByteStream_step ?s"
    by (rule reach_step[of _ _ "ByteStream_new 5"]) (auto intro: reach_start step_write)
  show ?thesis using ByteStream_reachable_accounting[OF r] by (simp add: ByteStream_new_def)
qed

text \<open>
  \<^verbatim>\<open>write\<close> accepts as many bytes as fit, appends exactly those, counts them and changes
  nothing else; \<^verbatim>\<open>read\<close> returns and removes up to \<^verbatim>\<open>len\<close> bytes from the front, which is
  \<^verbatim>\<open>peek_output\<close> followed by \<^verbatim>\<open>pop_output\<close>.
\<close>

theorem ByteStream_write_read_spec:
  assumes "ByteStream_inv s" and "fits data"
  shows "ByteStream_write data s =
      (let k = min (length data) (unat (bs_capacity s) - length (bs_buffer s))
       in (of_nat k, s\<lparr>bs_buffer := bs_buffer s @ take k data,
                       bs_bytes_written := bs_bytes_written s + of_nat k\<rparr>))
    \<and> ByteStream_read len s = (ByteStream_peek_output s len, ByteStream_pop_output len s)
    \<and> ByteStream_read len s =
      (take (unat len) (bs_buffer s),
       s\<lparr>bs_buffer := drop (unat len) (bs_buffer s),
         bs_bytes_read := bs_bytes_read s + size_of (take (unat len) (bs_buffer s))\<rparr>)"
  (is "?W \<and> ?R \<and> ?P")
proof (intro conjI)
  let ?w = "ByteStream_write data s"
  let ?k = "min (length data) (unat (bs_capacity s) - length (bs_buffer s))"
  have k: "unat (fst ?w) = ?k" by (rule write_count[OF assms])
  have "of_nat (unat (fst ?w)) = fst ?w" by simp
  then have f: "fst ?w = of_nat ?k" unfolding k ..
  show ?W
    using f write_buffer[of data s] write_bytes_written[of data s] k
    by (intro prod_eqI) (simp_all add: Let_def)
  show ?R by (rule read_eq)
  show ?P
    using read_bytes_read[OF assms(1), of len]
    by (simp add: read_eq peek_output_eq[OF assms(1)] pop_output_buffer[OF assms(1)])
qed

theorem ByteStream_write_read_spec_witness:
  "ByteStream_write [1, 2, 3] (ByteStream_new 2)
     = (2, (ByteStream_new 2)\<lparr>bs_buffer := [1, 2], bs_bytes_written := 2\<rparr>)
   \<and> ByteStream_read 9 (ByteStream_new 2) = ([], ByteStream_new 2)"
proof -
  have "fits [1 :: u8, 2, 3]" by (simp add: fits_def)
  note spec = ByteStream_write_read_spec[OF ByteStream_inv_new this, of 2 9]
  show ?thesis
    using conjunct1[OF spec] conjunct2[OF conjunct2[OF spec]] by (simp add: ByteStream_new_def)
qed

text \<open>
  Ending the input does not stop the writer: a write after \<^verbatim>\<open>end_input()\<close> is accepted like
  any other, so a stream that has reached \<^verbatim>\<open>eof()\<close> can leave it again. (The class comment says
  that after the input has ended no more bytes can be written.)
\<close>

theorem ByteStream_write_after_end:
  assumes "ByteStream_inv s" and "ByteStream_eof s" and "bs_capacity s \<noteq> 0"
  shows "fst (ByteStream_write [b] s) = 1 \<and> bs_buffer (snd (ByteStream_write [b] s)) = [b]
    \<and> \<not> ByteStream_eof (snd (ByteStream_write [b] s))"
proof -
  have "0 < unat (bs_capacity s)" using assms(3) by (simp add: unat_gt_0)
  then have "unat (fst (ByteStream_write [b] s)) = 1"
    using write_count[OF assms(1), of "[b]"] assms(2) by (auto simp: fits_def ByteStream_accessors)
  then have "fst (ByteStream_write [b] s) = 1" by (simp add: word_unat_eq_iff)
  then show ?thesis using assms(2) write_buffer[of "[b]" s] by (simp add: ByteStream_accessors)
qed

theorem ByteStream_write_after_end_witness:
  "ByteStream_eof (ByteStream_end_input (ByteStream_new 4))
   \<and> \<not> ByteStream_eof (snd (ByteStream_write [9] (ByteStream_end_input (ByteStream_new 4))))"
proof -
  have h: "ByteStream_eof (ByteStream_end_input (ByteStream_new 4))"
    by (simp add: ByteStream_accessors ByteStream_end_input_def ByteStream_new_def)
  show ?thesis
    using ByteStream_write_after_end[OF end_input_inv[OF ByteStream_inv_new] h, of 9] h
    by (simp add: ByteStream_end_input_def ByteStream_new_def)
qed

end
