(* ===== verification/Stream_Reassembler.thy ===== *)
theory Stream_Reassembler
  imports Byte_Stream
begin

text \<open>
  \<^verbatim>\<open>libsponge/stream_reassembler.{hh,cc}\<close>: assembles possibly out-of-order, possibly
  overlapping excerpts of a byte stream into a \<open>ByteStream\<close>. The two deques \<^verbatim>\<open>_buffer\<close> and
  \<^verbatim>\<open>_state\<close> are lists; cell \<open>i\<close> holds the byte \<open>i\<close> places after the first unassembled one.
  Indices are \<^verbatim>\<open>uint64_t\<close> and wrap as in the code. \<^verbatim>\<open>front()\<close> of an empty deque and an
  out-of-range \<^verbatim>\<open>operator[]\<close> are undefined behaviour.

  The abstraction \<open>held\<close> is the set of stream positions the reassembler has, assembled or not;
  \<open>agrees\<close> says that every held byte is the byte of a given logical stream.
\<close>

section \<open>The model\<close>

record StreamReassembler =
  sr_output :: ByteStream
  sr_capacity :: u64
  sr_unassembled_bytes :: u64
  sr_eof :: bool
  sr_buffer :: bytes
  sr_state :: "bool list"

definition StreamReassembler_new :: "u64 \<Rightarrow> StreamReassembler" where
  "StreamReassembler_new capacity =
     \<lparr>sr_output = ByteStream_new capacity, sr_capacity = capacity, sr_unassembled_bytes = 0,
      sr_eof = False, sr_buffer = replicate (unat capacity) 32,
      sr_state = replicate (unat capacity) False\<rparr>"

definition StreamReassembler_unassembled_bytes :: "StreamReassembler \<Rightarrow> u64" where
  "StreamReassembler_unassembled_bytes r = sr_unassembled_bytes r"

definition StreamReassembler_empty :: "StreamReassembler \<Rightarrow> bool" where
  "StreamReassembler_empty r \<longleftrightarrow> StreamReassembler_unassembled_bytes r = 0"

text \<open>The loop that writes the substring into the buffer; \<open>data_index\<close> is its loop variable.\<close>

fun store_loop :: "u64 \<Rightarrow> u64 \<Rightarrow> u64 \<Rightarrow> u64 \<Rightarrow> bytes \<Rightarrow> bytes \<Rightarrow> bool list \<Rightarrow> u64
    \<Rightarrow> (bytes \<times> bool list \<times> u64) result" where
  "store_loop remaining first_unassembled index data_index [] buffer state unassembled =
     Inr (buffer, state, unassembled)"
| "store_loop remaining first_unassembled index data_index (b # data) buffer state unassembled =
     (let buffer_index = data_index + index - first_unassembled
      in if data_index + index < first_unassembled
         then store_loop remaining first_unassembled index (data_index + 1) data buffer state unassembled
         else if buffer_index \<ge> remaining then Inr (buffer, state, unassembled)
         else if unat buffer_index \<ge> length state \<or> unat buffer_index \<ge> length buffer
         then Inl (Undefined_Behaviour ''deque::operator[]'')
         else let unassembled' = (if \<not> state ! unat buffer_index then unassembled + 1 else unassembled);
                  state' = (if \<not> state ! unat buffer_index
                            then state[unat buffer_index := True] else state)
              in store_loop remaining first_unassembled index (data_index + 1) data
                   (buffer[unat buffer_index := b]) state' unassembled')"

text \<open>The loop that moves the contiguous bytes at the front into \<^verbatim>\<open>ret\<close>.\<close>

function retrieve_loop :: "u64 \<Rightarrow> bytes \<Rightarrow> bytes \<Rightarrow> bool list \<Rightarrow> (bytes \<times> bytes \<times> bool list) result" where
  "retrieve_loop remaining ret buffer state =
     (if state = [] then Inl (Undefined_Behaviour ''deque::front'')
      else if hd state \<and> size_of ret < remaining
      then if buffer = [] then Inl (Undefined_Behaviour ''deque::front'')
           else retrieve_loop remaining (ret @ [hd buffer]) (tl buffer @ [32]) (tl state @ [False])
      else Inr (ret, buffer, state))"
  by pat_completeness auto
termination
proof (relation "measure (\<lambda>(remaining, ret, buffer, state). unat remaining - unat (size_of ret))", goal_cases)
  case (2 remaining ret buffer state)
  then have "unat (size_of ret) < unat remaining" by (simp add: word_less_nat_alt)
  moreover from this have "unat (size_of ret + 1) = unat (size_of ret) + 1"
    using unat64_bound[of remaining] by (simp add: unat_word_ariths)
  ultimately show ?case by (simp add: size_of_def add.commute)
qed simp

declare retrieve_loop.simps [simp del]

definition StreamReassembler_push_substring ::
  "bytes \<Rightarrow> u64 \<Rightarrow> bool \<Rightarrow> StreamReassembler \<Rightarrow> StreamReassembler result" where
  "StreamReassembler_push_substring data index eof r =
     (let first_unread = ByteStream_bytes_read (sr_output r);
          first_unassembled = ByteStream_bytes_written (sr_output r);
          remaining = ByteStream_remaining_capacity (sr_output r);
          eof' = (if index + size_of data \<le> first_unread + sr_capacity r \<and> eof then True else sr_eof r)
      in bind_result
           (store_loop remaining first_unassembled index 0 data
              (sr_buffer r) (sr_state r) (sr_unassembled_bytes r))
           (\<lambda>(buffer, state, unassembled).
              bind_result (retrieve_loop remaining [] buffer state)
                (\<lambda>(ret, buffer', state').
                   let output = snd (ByteStream_write ret (sr_output r));
                       unassembled' = unassembled - size_of ret;
                       r' = r\<lparr>sr_output := output, sr_unassembled_bytes := unassembled',
                              sr_eof := eof', sr_buffer := buffer', sr_state := state'\<rparr>
                   in Inr (if eof' \<and> StreamReassembler_empty r'
                           then r'\<lparr>sr_output := ByteStream_end_input output\<rparr> else r'))))"

section \<open>The two loops\<close>

lemma length_filter_update:
  "i < length xs \<Longrightarrow> \<not> xs ! i \<Longrightarrow> length (filter (\<lambda>b. b) (xs[i := True])) = Suc (length (filter (\<lambda>b. b) xs))"
  by (induction xs arbitrary: i) (auto split: nat.splits)

lemma size_filter_update:
  "i < length xs \<Longrightarrow> \<not> xs ! i \<Longrightarrow> size_of (filter (\<lambda>b. b) (xs[i := True])) = size_of (filter (\<lambda>b. b) xs) + 1"
  by (simp add: size_of_def length_filter_update)

lemma update_set: "xs ! i \<Longrightarrow> xs[i := True] = xs"
  using list_update_id[of xs i] by simp

text \<open>
  What the store loop does, read over the natural numbers: it sets exactly the cells of the
  window that the excerpt covers, and counts the cells that were not set before. Here \<open>w\<close> is
  the first unassembled position, \<open>p\<close> the position of the first byte of \<open>data\<close>.
\<close>

definition covered :: "nat \<Rightarrow> nat \<Rightarrow> nat \<Rightarrow> nat \<Rightarrow> nat \<Rightarrow> bool" where
  "covered rem w p len i \<longleftrightarrow> i < rem \<and> p \<le> w + i \<and> w + i < p + len"

definition stored :: "nat \<Rightarrow> nat \<Rightarrow> nat \<Rightarrow> bytes \<Rightarrow> bytes \<times> bool list \<times> u64 \<Rightarrow> bytes \<times> bool list \<times> u64 \<Rightarrow> bool" where
  "stored rem w p data = (\<lambda>(buffer, state, un) (buffer', state', un').
     length buffer' = length buffer \<and> length state' = length state
     \<and> (\<forall>i < length state. state' ! i = (state ! i \<or> covered rem w p (length data) i))
     \<and> (\<forall>i < length buffer. buffer' ! i =
          (if covered rem w p (length data) i then data ! (w + i - p) else buffer ! i))
     \<and> un' - size_of (filter (\<lambda>b. b) state') = un - size_of (filter (\<lambda>b. b) state))"

lemma stored_none: "(\<And>i. \<not> covered rem w p (length data) i) \<Longrightarrow> stored rem w p data x x"
  by (simp add: stored_def split: prod.splits)

lemma covered_Suc: "covered rem w p (Suc n) i \<longleftrightarrow> (i < rem \<and> w + i = p) \<or> covered rem w (Suc p) n i"
  by (auto simp: covered_def)

lemma covered_index: "covered rem w (Suc p) n i \<Longrightarrow> (b # data) ! (w + i - p) = data ! (w + i - Suc p)"
  by (simp add: covered_def nth_Cons' Suc_diff_le)

lemma stored_skip:
  assumes "p < w" and "stored rem w (Suc p) data x y"
  shows "stored rem w p (b # data) x y"
  using assms by (auto simp: stored_def covered_Suc covered_index split: prod.splits)

lemma stored_put:
  assumes "w \<le> p" "p - w < rem" "p - w < length state" "length buffer = length state"
    and "stored rem w (Suc p) data
      (buffer[p - w := b], state[p - w := True], if state ! (p - w) then un else un + 1) y"
  shows "stored rem w p (b # data) (buffer, state, un) y"
proof -
  obtain buffer' state' un' where y: "y = (buffer', state', un')" by (cases y)
  have c: "\<not> covered rem w (Suc p) n (p - w)" for n using assms(1) by (simp add: covered_def)
  have e: "w + i = p \<longleftrightarrow> i = p - w" for i using assms(1) by auto
  have "size_of (filter (\<lambda>b. b) (state[p - w := True])) =
      (if state ! (p - w) then size_of (filter (\<lambda>b. b) state) else size_of (filter (\<lambda>b. b) state) + 1)"
    using assms(3) by (simp add: size_filter_update update_set)
  then show ?thesis using assms c unfolding y
    by (auto simp: stored_def covered_Suc covered_index e nth_list_update split: if_splits)
qed

lemma store_loop_spec:
  assumes "unat (data_index + index) + length data < 2 ^ 64"
    and "length buffer = length state" and "unat remaining \<le> length state"
  shows "\<exists>y. store_loop remaining first_unassembled index data_index data buffer state unassembled = Inr y
    \<and> stored (unat remaining) (unat first_unassembled) (unat (data_index + index)) data
        (buffer, state, unassembled) y"
  using assms
proof (induction remaining first_unassembled index data_index data buffer state unassembled
    rule: store_loop.induct)
  case (1 remaining first_unassembled index data_index buffer state unassembled)
  then show ?case by (simp add: stored_none covered_def)
next
  case (2 remaining fu index di b data buffer state un)
  let ?p = "unat (di + index)" and ?w = "unat fu" and ?r = "unat remaining"
  have "di + 1 + index = (di + index) + 1" by simp
  moreover have "unat ((di + index) + 1) = Suc ?p"
    using "2.prems"(1) by (subst unat_add_lt) auto
  ultimately have p1: "unat (di + 1 + index) = Suc ?p" by (simp only:)
  show ?case
  proof (cases "di + index < fu")
    case True
    then have "?p < ?w" by (simp add: word_less_nat_alt)
    moreover have "\<exists>y. store_loop remaining fu index (di + 1) data buffer state un = Inr y
        \<and> stored ?r ?w (Suc ?p) data (buffer, state, un) y"
      by (rule 2(1)[OF refl True, unfolded p1]) (use "2.prems" in simp_all)
    ultimately show ?thesis using True by (auto simp: Let_def intro: stored_skip)
  next
    case False
    then have wp: "?w \<le> ?p" and bi: "unat (di + index - fu) = ?p - ?w"
      by (simp_all add: word_less_nat_alt unat_sub word_le_nat_alt)
    show ?thesis
    proof (cases "di + index - fu \<ge> remaining")
      case True
      then have "?r \<le> ?p - ?w" using bi by (simp add: word_le_nat_alt)
      then have "stored ?r ?w ?p (b # data) x x" for x
        using wp by (intro stored_none) (auto simp: covered_def)
      with False True show ?thesis by (simp add: Let_def)
    next
      case small: False
      then have r: "?p - ?w < ?r" using bi by (simp add: word_le_nat_alt)
      have len: "\<not> (unat (di + index - fu) \<ge> length state \<or> unat (di + index - fu) \<ge> length buffer)"
        using r "2.prems" bi by simp
      let ?s = "if \<not> state ! (?p - ?w) then state[?p - ?w := True] else state"
      let ?u = "if \<not> state ! (?p - ?w) then un + 1 else un"
      let ?b = "buffer[?p - ?w := b]"
      have "\<exists>y. store_loop remaining fu index (di + 1) data ?b ?s ?u = Inr y
          \<and> stored ?r ?w (Suc ?p) data (?b, ?s, ?u) y"
        by (rule 2(2)[OF refl False small len refl refl, unfolded bi p1])
          (use "2.prems" in \<open>simp_all split: if_split\<close>)
      then obtain y where y: "store_loop remaining fu index (di + 1) data ?b ?s ?u = Inr y"
        and st: "stored ?r ?w (Suc ?p) data (?b, ?s, ?u) y" by blast
      have s: "?s = state[?p - ?w := True]" by (simp add: update_set)
      have u: "?u = (if state ! (?p - ?w) then un else un + 1)" by simp
      have st': "stored ?r ?w ?p (b # data) (buffer, state, un) y"
        using wp r "2.prems" by (intro stored_put st[unfolded s u]) simp_all
      have e: "store_loop remaining fu index di (b # data) buffer state un
          = store_loop remaining fu index (di + 1) data ?b ?s ?u"
        unfolding store_loop.simps(2) Let_def if_not_P[OF False] if_not_P[OF small] bi
        by (rule if_not_P, insert len, simp only: bi not_False_eq_True)
      show ?thesis by (rule exI[of _ y], rule conjI[OF trans[OF e y] st'])
    qed
  qed
qed

text \<open>The retrieve loop moves the leading set cells, as long as they fit into the output.\<close>

lemma takeWhile_snoc_False: "takeWhile (\<lambda>b. b) (xs @ [False]) = takeWhile (\<lambda>b. b) xs"
  by (induction xs) auto

lemma retrieve_loop_spec:
  assumes "length (takeWhile (\<lambda>b. b) state) = k" and "length buffer = length state" and "state \<noteq> []"
    and "length ret + k \<le> unat remaining"
  shows "retrieve_loop remaining ret buffer state =
    Inr (ret @ take k buffer, drop k buffer @ replicate k 32, drop k state @ replicate k False)"
  using assms
proof (induction k arbitrary: ret buffer state)
  case 0
  then have "\<not> hd state" by (cases state) (auto split: if_splits)
  with 0(3) show ?case by (subst retrieve_loop.simps) simp
next
  case (Suc k)
  obtain x state' where s': "state = x # state'" using Suc.prems(3) by (cases state) auto
  with Suc.prems(1) have s: "state = True # state'" by (cases x) auto
  obtain c buffer' where b: "buffer = c # buffer'" using Suc.prems(2) s by (cases buffer) auto
  have tw: "length (takeWhile (\<lambda>b. b) state') = k" using Suc.prems(1) s by simp
  have k: "length (takeWhile (\<lambda>b. b) (state' @ [False])) = k" "k \<le> length buffer'" "k \<le> length state'"
    using tw Suc.prems(2) s b length_takeWhile_le[of "\<lambda>b. b" state'] by (simp_all add: takeWhile_snoc_False)
  have "fits ret" using Suc.prems(4) by (intro fits_le[of _ remaining]) simp
  then have lt: "size_of ret < remaining" using Suc.prems(4) by (simp add: word_less_nat_alt unat_size_of)
  have "retrieve_loop remaining ret buffer state =
      retrieve_loop remaining (ret @ [c]) (buffer' @ [32]) (state' @ [False])"
    unfolding s b by (subst retrieve_loop.simps) (simp add: lt)
  also have "\<dots> = Inr ((ret @ [c]) @ take k (buffer' @ [32]), drop k (buffer' @ [32]) @ replicate k 32,
      drop k (state' @ [False]) @ replicate k False)"
    using k(1) Suc.prems(2,4) s b by (intro Suc.IH) simp_all
  also have "\<dots> = Inr (ret @ take (Suc k) buffer, drop (Suc k) buffer @ replicate (Suc k) 32,
      drop (Suc k) state @ replicate (Suc k) False)"
    unfolding s b using k(2,3) by simp
  finally show ?case .
qed

text \<open>
  Whatever the index, also when its arithmetic wraps around, the store loop stays inside the
  deques and sets cells of the window only.
\<close>

definition confined :: "nat \<Rightarrow> bytes \<times> bool list \<times> u64 \<Rightarrow> bytes \<times> bool list \<times> u64 \<Rightarrow> bool" where
  "confined rem = (\<lambda>(buffer, state, un) (buffer', state', un').
     length buffer' = length buffer \<and> length state' = length state
     \<and> (\<forall>i < length state. state' ! i \<longrightarrow> state ! i \<or> i < rem)
     \<and> un' - size_of (filter (\<lambda>b. b) state') = un - size_of (filter (\<lambda>b. b) state))"

lemma confined_put:
  assumes "k < rem" and "k < length state"
    and "confined rem (buffer[k := b], state[k := True], if state ! k then un else un + 1) y"
  shows "confined rem (buffer, state, un) y"
proof -
  have "size_of (filter (\<lambda>b. b) (state[k := True])) =
      (if state ! k then size_of (filter (\<lambda>b. b) state) else size_of (filter (\<lambda>b. b) state) + 1)"
    using assms(2) by (simp add: size_filter_update update_set)
  then show ?thesis using assms
    by (cases y) (auto simp: confined_def nth_list_update split: if_splits)
qed

lemma store_loop_confined:
  assumes "length buffer = length state" and "unat remaining \<le> length state"
  shows "\<exists>y. store_loop remaining first_unassembled index data_index data buffer state unassembled = Inr y
    \<and> confined (unat remaining) (buffer, state, unassembled) y"
  using assms
proof (induction remaining first_unassembled index data_index data buffer state unassembled
    rule: store_loop.induct)
  case (2 remaining fu index di b data buffer state un)
  let ?k = "unat (di + index - fu)"
  show ?case
  proof (cases "di + index < fu \<or> di + index - fu \<ge> remaining")
    case True
    then show ?thesis using 2(1) "2.prems" by (auto simp: Let_def confined_def)
  next
    case False
    then have c: "\<not> di + index < fu" "\<not> di + index - fu \<ge> remaining" by simp_all
    then have k: "?k < unat remaining" by (simp add: word_le_nat_alt)
    have len: "\<not> (?k \<ge> length state \<or> ?k \<ge> length buffer)" using k "2.prems" by simp
    let ?s = "if \<not> state ! ?k then state[?k := True] else state"
    let ?u = "if \<not> state ! ?k then un + 1 else un"
    have "\<exists>y. store_loop remaining fu index (di + 1) data (buffer[?k := b]) ?s ?u = Inr y
        \<and> confined (unat remaining) (buffer[?k := b], ?s, ?u) y"
      by (rule 2(2)[OF refl c len refl refl]) (use "2.prems" in \<open>simp_all split: if_split\<close>)
    then obtain y where y: "store_loop remaining fu index (di + 1) data (buffer[?k := b]) ?s ?u = Inr y"
      and st: "confined (unat remaining) (buffer[?k := b], ?s, ?u) y" by blast
    have s: "?s = state[?k := True]" by (simp add: update_set)
    have u: "?u = (if state ! ?k then un else un + 1)" by simp
    have "confined (unat remaining) (buffer, state, un) y"
      using k len by (intro confined_put[OF k _ st[unfolded s u]]) simp
    moreover have "store_loop remaining fu index di (b # data) buffer state un = Inr y"
      unfolding store_loop.simps(2) Let_def if_not_P[OF c(1)] if_not_P[OF c(2)] if_not_P[OF len]
      by (rule y)
    ultimately show ?thesis by blast
  qed
qed (simp add: confined_def)

lemma nth_takeWhile_holds: "i < length (takeWhile P xs) \<Longrightarrow> P (xs ! i)"
  using set_takeWhileD[OF nth_mem[of i "takeWhile P xs"]] by (simp add: takeWhile_nth)

section \<open>The invariant and the effect of a push\<close>

definition sr_window :: "StreamReassembler \<Rightarrow> nat" where
  "sr_window r = unat (sr_capacity r) - length (bs_buffer (sr_output r))"

definition StreamReassembler_inv :: "StreamReassembler \<Rightarrow> bool" where
  "StreamReassembler_inv r \<longleftrightarrow>
     ByteStream_inv (sr_output r) \<and> bs_capacity (sr_output r) = sr_capacity r \<and> sr_capacity r \<noteq> 0
     \<and> length (sr_buffer r) = unat (sr_capacity r) \<and> length (sr_state r) = unat (sr_capacity r)
     \<and> sr_unassembled_bytes r = size_of (filter (\<lambda>b. b) (sr_state r))
     \<and> (\<forall>i < length (sr_state r). sr_state r ! i \<longrightarrow> i < sr_window r)
     \<and> \<not> hd (sr_state r)
     \<and> (sr_eof r \<and> sr_unassembled_bytes r = 0 \<longrightarrow> bs_input_ended (sr_output r))"

lemma remaining_window:
  "StreamReassembler_inv r \<Longrightarrow> unat (ByteStream_remaining_capacity (sr_output r)) = sr_window r"
  by (simp add: StreamReassembler_inv_def unat_remaining_capacity sr_window_def)

definition push_result :: "bool \<Rightarrow> bytes \<Rightarrow> bool list \<Rightarrow> u64 \<Rightarrow> nat \<Rightarrow> StreamReassembler \<Rightarrow> StreamReassembler" where
  "push_result e b s u k r =
     (let out = snd (ByteStream_write (take k b) (sr_output r));
          u' = u - of_nat k
      in r\<lparr>sr_output := if e \<and> u' = 0 then ByteStream_end_input out else out,
           sr_unassembled_bytes := u', sr_eof := e,
           sr_buffer := drop k b @ replicate k 32, sr_state := drop k s @ replicate k False\<rparr>)"

lemma push_eq:
  fixes eof :: bool
  assumes inv: "StreamReassembler_inv r"
    and st: "store_loop (ByteStream_remaining_capacity (sr_output r)) (bs_bytes_written (sr_output r))
        index 0 data (sr_buffer r) (sr_state r) (sr_unassembled_bytes r) = Inr (b, s, u)"
    and len: "length b = unat (sr_capacity r)" "length s = unat (sr_capacity r)"
    and win: "\<forall>i < length s. s ! i \<longrightarrow> i < sr_window r"
  defines "k \<equiv> length (takeWhile (\<lambda>b. b) s)"
    and "e \<equiv> (if index + size_of data \<le> bs_bytes_read (sr_output r) + sr_capacity r \<and> eof
               then True else sr_eof r)"
  shows "k \<le> sr_window r \<and> StreamReassembler_push_substring data index eof r = Inr (push_result e b s u k r)"
proof -
  have k: "k \<le> sr_window r"
  proof (cases k)
    case (Suc j)
    then have j: "j < length (takeWhile (\<lambda>b. b) s)" by (simp add: k_def)
    then have "s ! j" by (rule nth_takeWhile_holds)
    moreover have "j < length s" using j length_takeWhile_le[of "\<lambda>b. b" s] by linarith
    ultimately show ?thesis using win Suc by auto
  qed simp
  have "s \<noteq> []" using len(2) inv by (auto simp: StreamReassembler_inv_def unat_eq_0)
  then have "retrieve_loop (ByteStream_remaining_capacity (sr_output r)) [] b s =
      Inr (take k b, drop k b @ replicate k 32, drop k s @ replicate k False)"
    using retrieve_loop_spec[of s k b "[]"] len k remaining_window[OF inv] by (simp add: k_def)
  moreover have "k \<le> length b" using len length_takeWhile_le[of "\<lambda>b. b" s] by (simp add: k_def)
  ultimately show ?thesis
    using st k by (simp add: StreamReassembler_push_substring_def ByteStream_accessors Let_def
        push_result_def StreamReassembler_empty_def StreamReassembler_unassembled_bytes_def
        size_of_def e_def)
qed

lemma filter_drop_takeWhile:
  "length (filter (\<lambda>b. b) xs) =
     length (takeWhile (\<lambda>b. b) xs) + length (filter (\<lambda>b. b) (drop (length (takeWhile (\<lambda>b. b) xs)) xs))"
  by (induction xs) auto

lemma push_result_output:
  fixes e :: bool and s :: "bool list" and u :: u64
  assumes "StreamReassembler_inv r" and "length b = unat (sr_capacity r)" and "k \<le> sr_window r"
  defines "out \<equiv> sr_output (push_result e b s u k r)"
  shows "bs_buffer out = bs_buffer (sr_output r) @ take k b \<and> ByteStream_inv out
    \<and> bs_bytes_written out = bs_bytes_written (sr_output r) + of_nat k
    \<and> bs_bytes_read out = bs_bytes_read (sr_output r) \<and> bs_capacity out = bs_capacity (sr_output r)
    \<and> bs_error out = bs_error (sr_output r)
    \<and> bs_input_ended out = (bs_input_ended (sr_output r) \<or> e \<and> u = of_nat k)"
proof -
  let ?w = "ByteStream_write (take k b) (sr_output r)"
  have inv: "ByteStream_inv (sr_output r)" and cap: "bs_capacity (sr_output r) = sr_capacity r"
    using assms(1) by (simp_all add: StreamReassembler_inv_def)
  have kc: "k \<le> unat (sr_capacity r)" using assms(3) by (simp add: sr_window_def)
  then have len: "length (take k b) = k" using assms(2) by simp
  have "fits (take k b)" using kc len by (intro fits_le[of _ "sr_capacity r"]) simp
  then have "unat (fst ?w) = k"
    using write_count[OF inv, of "take k b"] assms(3) len by (simp add: cap sr_window_def)
  moreover from this have "fst ?w = of_nat k" by (rule unat_eq_of_nat)
  ultimately show ?thesis
    using write_inv[OF inv, of "take k b"]
    by (auto simp: out_def push_result_def Let_def ByteStream_end_input_def write_buffer
        write_bytes_written ByteStream_inv_def)
qed

lemma push_result_inv:
  assumes inv: "StreamReassembler_inv r" and len: "length b = unat (sr_capacity r)" "length s = unat (sr_capacity r)"
    and win: "\<forall>i < length s. s ! i \<longrightarrow> i < sr_window r"
    and u: "u = size_of (filter (\<lambda>b. b) s)"
  defines "k \<equiv> length (takeWhile (\<lambda>b. b) s)"
  assumes k: "k \<le> sr_window r"
  shows "StreamReassembler_inv (push_result e b s u k r)"
proof -
  let ?r = "push_result e b s u k r"
  note out = push_result_output[OF inv len(1) k, of e s u]
  have c: "sr_capacity ?r = sr_capacity r" "bs_capacity (sr_output r) = sr_capacity r" "sr_capacity r \<noteq> 0"
    using inv by (simp_all add: push_result_def Let_def StreamReassembler_inv_def)
  have ks: "k \<le> length s" by (simp add: k_def length_takeWhile_le)
  have st: "sr_state ?r = drop k s @ replicate k False" by (simp add: push_result_def Let_def)
  have "length (filter (\<lambda>b. b) s) = k + length (filter (\<lambda>b. b) (drop k s))"
    unfolding k_def by (rule filter_drop_takeWhile)
  then have "length (filter (\<lambda>b. b) s) = k + length (filter (\<lambda>b. b) (sr_state ?r))"
    by (simp add: st)
  then have un: "sr_unassembled_bytes ?r = size_of (filter (\<lambda>b. b) (sr_state ?r))"
    by (simp add: push_result_def Let_def u size_of_def)
  have w: "sr_window ?r = sr_window r - k"
    using out c len(1) ks len(2) by (simp add: sr_window_def)
  have cells: "i < sr_window ?r" if "i < length (sr_state ?r)" "sr_state ?r ! i" for i
  proof -
    have "i + k < length s" "s ! (i + k)"
      using that ks unfolding st by (auto simp: nth_append add.commute split: if_splits)
    then have "i + k < sr_window r" using win by blast
    then show ?thesis unfolding w by simp
  qed
  have hd: "\<not> hd (sr_state ?r)"
  proof (cases "k < length s")
    case True
    then have "\<not> s ! k" unfolding k_def by (rule nth_length_takeWhile)
    with True show ?thesis by (simp add: st hd_append hd_drop_conv_nth)
  next
    case False
    then have "k = length s" "0 < k" using ks len(2) c(3) by (simp_all add: unat_gt_0)
    then show ?thesis unfolding st by (cases k) auto
  qed
  have lens: "length (sr_buffer ?r) = unat (sr_capacity r)" "length (sr_state ?r) = unat (sr_capacity r)"
    using ks len by (simp_all add: push_result_def Let_def)
  have z: "sr_eof ?r = e" "sr_unassembled_bytes ?r = u - of_nat k"
    by (simp_all add: push_result_def Let_def)
  have ended: "bs_input_ended (sr_output ?r) \<longleftrightarrow> bs_input_ended (sr_output r) \<or> e \<and> u = of_nat k"
    using out by blast
  have fin: "sr_eof ?r \<and> sr_unassembled_bytes ?r = 0 \<longrightarrow> bs_input_ended (sr_output ?r)"
    unfolding ended z by simp
  show ?thesis
    unfolding StreamReassembler_inv_def
    using out c hd lens un cells fin by auto
qed

lemma push_confined:
  assumes inv: "StreamReassembler_inv r"
  shows "\<exists>r'. StreamReassembler_push_substring data index eof r = Inr r' \<and> StreamReassembler_inv r'"
proof -
  have win: "unat (ByteStream_remaining_capacity (sr_output r)) = sr_window r" by (rule remaining_window[OF inv])
  have le: "length (sr_buffer r) = length (sr_state r)"
    "unat (ByteStream_remaining_capacity (sr_output r)) \<le> length (sr_state r)"
    using inv win by (simp_all add: StreamReassembler_inv_def sr_window_def)
  from store_loop_confined[OF le] obtain b s u where
    st: "store_loop (ByteStream_remaining_capacity (sr_output r)) (bs_bytes_written (sr_output r))
        index 0 data (sr_buffer r) (sr_state r) (sr_unassembled_bytes r) = Inr (b, s, u)"
    and cf: "confined (sr_window r) (sr_buffer r, sr_state r, sr_unassembled_bytes r) (b, s, u)"
    unfolding win by (metis prod_cases3)
  have len: "length b = unat (sr_capacity r)" "length s = unat (sr_capacity r)"
    and w: "\<forall>i < length s. s ! i \<longrightarrow> i < sr_window r" and u: "u = size_of (filter (\<lambda>b. b) s)"
    using cf inv by (auto simp: confined_def StreamReassembler_inv_def)
  show ?thesis using push_eq[OF inv st len w] push_result_inv[OF inv len w u] by blast
qed

section \<open>The abstraction: which positions of the stream are held\<close>

text \<open>
  \<open>bounded\<close>: the stream positions of the current window fit into 64 bits, so that the word
  arithmetic on them is that of the natural numbers. It holds for the first \<open>2 ^ 64\<close> bytes of a
  stream, less the capacity.
\<close>

definition sr_written :: "StreamReassembler \<Rightarrow> nat" where
  "sr_written r = unat (bs_bytes_written (sr_output r))"

definition sr_bounded :: "StreamReassembler \<Rightarrow> bool" where
  "sr_bounded r \<longleftrightarrow> unat (bs_bytes_read (sr_output r)) + unat (sr_capacity r) < 2 ^ 64"

definition held :: "StreamReassembler \<Rightarrow> nat set" where
  "held r = {n. n < sr_written r \<or> (sr_written r \<le> n \<and> n - sr_written r < length (sr_state r)
     \<and> sr_state r ! (n - sr_written r))}"

definition agrees :: "(nat \<Rightarrow> u8) \<Rightarrow> StreamReassembler \<Rightarrow> bool" where
  "agrees S r \<longleftrightarrow> (\<forall>i < length (sr_state r). sr_state r ! i \<longrightarrow> sr_buffer r ! i = S (sr_written r + i))"

lemma sr_written_read:
  assumes "StreamReassembler_inv r" and "sr_bounded r"
  shows "sr_written r = unat (bs_bytes_read (sr_output r)) + length (bs_buffer (sr_output r))"
proof -
  let ?o = "sr_output r"
  have inv: "ByteStream_inv ?o" and len: "length (bs_buffer ?o) \<le> unat (sr_capacity r)"
    using assms(1) by (auto simp: StreamReassembler_inv_def ByteStream_inv_def)
  have "bs_bytes_written ?o = bs_bytes_read ?o + size_of (bs_buffer ?o)"
    using inv by (simp add: ByteStream_inv_def algebra_simps)
  then show ?thesis
    using assms(2) len unat_size_of[OF ByteStream_inv_fits[OF inv]]
    by (simp add: sr_written_def sr_bounded_def unat_add_lt)
qed

lemma window_end:
  assumes "StreamReassembler_inv r" and "sr_bounded r"
  shows "sr_written r + sr_window r = unat (bs_bytes_read (sr_output r)) + unat (sr_capacity r)"
  using assms sr_written_read[OF assms] by (auto simp: sr_window_def StreamReassembler_inv_def ByteStream_inv_def)

lemma push_stored:
  assumes inv: "StreamReassembler_inv r" and bd: "sr_bounded r"
    and idx: "unat index + length data < 2 ^ 64"
    and push: "StreamReassembler_push_substring data index eof r = Inr r'"
  obtains b s u k e where
    "r' = push_result e b s u k r" "k = length (takeWhile (\<lambda>b. b) s)" "k \<le> sr_window r"
    "length b = unat (sr_capacity r)" "length s = unat (sr_capacity r)"
    "u = size_of (filter (\<lambda>b. b) s)"
    "\<forall>i < unat (sr_capacity r). s ! i = (sr_state r ! i \<or> covered (sr_window r) (sr_written r) (unat index) (length data) i)"
    "\<forall>i < unat (sr_capacity r). b ! i = (if covered (sr_window r) (sr_written r) (unat index) (length data) i
        then data ! (sr_written r + i - unat index) else sr_buffer r ! i)"
    "e = (if index + size_of data \<le> bs_bytes_read (sr_output r) + sr_capacity r \<and> eof then True else sr_eof r)"
proof -
  have win: "unat (ByteStream_remaining_capacity (sr_output r)) = sr_window r" by (rule remaining_window[OF inv])
  have le: "length (sr_buffer r) = length (sr_state r)"
    "unat (ByteStream_remaining_capacity (sr_output r)) \<le> length (sr_state r)"
    using inv win by (simp_all add: StreamReassembler_inv_def sr_window_def)
  have "unat (0 + index) + length data < 2 ^ 64" using idx by simp
  from store_loop_spec[OF this le] obtain b s u where
    st: "store_loop (ByteStream_remaining_capacity (sr_output r)) (bs_bytes_written (sr_output r))
        index 0 data (sr_buffer r) (sr_state r) (sr_unassembled_bytes r) = Inr (b, s, u)"
    and cf: "stored (sr_window r) (sr_written r) (unat index) data
      (sr_buffer r, sr_state r, sr_unassembled_bytes r) (b, s, u)"
    unfolding win sr_written_def by (metis prod_cases3 add_0)
  have len: "length b = unat (sr_capacity r)" "length s = unat (sr_capacity r)"
    and w: "\<forall>i < length s. s ! i \<longrightarrow> i < sr_window r" and u: "u = size_of (filter (\<lambda>b. b) s)"
    using cf inv by (auto simp: stored_def StreamReassembler_inv_def covered_def)
  show ?thesis
    using push_eq[OF inv st len w, of eof] push cf inv u len
    by (intro that[of _ b s u]) (auto simp: stored_def StreamReassembler_inv_def)
qed

lemma push_written:
  assumes inv: "StreamReassembler_inv r" and bd: "sr_bounded r" and len: "length b = unat (sr_capacity r)"
    and k: "k \<le> sr_window r"
  shows "sr_written (push_result e b s u k r) = sr_written r + k"
proof -
  note out = push_result_output[OF inv len k, of e s u]
  have "sr_written r + k < 2 ^ 64"
    using window_end[OF inv bd] k bd by (simp add: sr_bounded_def)
  then show ?thesis using out k
    by (simp add: sr_written_def unat_add_lt unat_of_nat64)
qed

text \<open>
  A push adds to the held positions exactly those of the excerpt that lie before the end of the
  window; afterwards the first unassembled position is the first one not held.
\<close>

lemma push_held:
  assumes "StreamReassembler_inv r" and "sr_bounded r" and "unat index + length data < 2 ^ 64"
    and "StreamReassembler_push_substring data index eof r = Inr r'"
  shows "held r' = held r \<union> {n. unat index \<le> n \<and> n < unat index + length data
      \<and> n < unat (bs_bytes_read (sr_output r)) + unat (sr_capacity r)}"
proof -
  obtain b s u k e where r': "r' = push_result e b s u k r"
    and k: "k = length (takeWhile (\<lambda>b. b) s)" "k \<le> sr_window r"
    and len: "length b = unat (sr_capacity r)" "length s = unat (sr_capacity r)"
    and s: "\<forall>i < unat (sr_capacity r). s ! i =
      (sr_state r ! i \<or> covered (sr_window r) (sr_written r) (unat index) (length data) i)"
    by (rule push_stored[OF assms], rule that)
  have w: "sr_written r' = sr_written r + k"
    unfolding r' by (rule push_written[OF assms(1,2) len(1) k(2)])
  have st: "sr_state r' = drop k s @ replicate k False" by (simp add: r' push_result_def Let_def)
  have ks: "k \<le> length s" by (simp add: k(1) length_takeWhile_le)
  have lead: "s ! i" if "i < k" for i
    using that unfolding k(1) by (rule nth_takeWhile_holds)
  have h: "n \<in> held r' \<longleftrightarrow> n < sr_written r \<or> (n - sr_written r < length s \<and> s ! (n - sr_written r))" for n
  proof (cases "n < sr_written r + k")
    case True
    then show ?thesis using w lead[of "n - sr_written r"] ks by (auto simp: held_def)
  next
    case False
    then have "n - sr_written r = (n - sr_written r') + k" using w by simp
    with False w ks show ?thesis by (auto simp: held_def st nth_append add.commute)
  qed
  have c: "covered (sr_window r) (sr_written r) (unat index) (length data) (n - sr_written r) \<longleftrightarrow>
      unat index \<le> n \<and> n < unat index + length data
      \<and> n < unat (bs_bytes_read (sr_output r)) + unat (sr_capacity r)" if "sr_written r \<le> n" for n
    using that window_end[OF assms(1,2)] by (auto simp: covered_def)
  have cap: "length (sr_state r) = unat (sr_capacity r)" "sr_window r \<le> unat (sr_capacity r)"
    using assms(1) by (simp_all add: StreamReassembler_inv_def sr_window_def)
  have b: "n - sr_written r < unat (sr_capacity r)"
    if "n < unat (bs_bytes_read (sr_output r)) + unat (sr_capacity r)" for n
    using that window_end[OF assms(1,2)] cap(2) assms(1)
    by (cases "sr_written r \<le> n") (auto simp: StreamReassembler_inv_def unat_gt_0)
  show ?thesis
  proof (rule set_eqI)
    fix n
    show "n \<in> held r' \<longleftrightarrow> n \<in> held r \<union> {n. unat index \<le> n \<and> n < unat index + length data
      \<and> n < unat (bs_bytes_read (sr_output r)) + unat (sr_capacity r)}"
    proof (cases "sr_written r \<le> n")
      case True
      then show ?thesis unfolding h using s c[OF True] b[of n] len cap(1) by (auto simp: held_def)
    next
      case False
      then show ?thesis unfolding h by (auto simp: held_def)
    qed
  qed
qed

lemma first_missing:
  assumes "sr_written r \<notin> held r"
  shows "(LEAST n. n \<notin> held r) = sr_written r"
  using assms by (intro Least_equality) (auto simp: held_def not_less)

lemma written_not_held: "StreamReassembler_inv r \<Longrightarrow> sr_written r \<notin> held r"
  by (cases "sr_state r") (auto simp: held_def StreamReassembler_inv_def)

text \<open>If the excerpt is one of the logical stream \<open>S\<close>, the bytes passed on are those of \<open>S\<close>.\<close>

lemma push_agrees:
  assumes "StreamReassembler_inv r" and "sr_bounded r" and "unat index + length data < 2 ^ 64"
    and "StreamReassembler_push_substring data index eof r = Inr r'"
    and agr: "agrees S r" and data: "\<forall>j < length data. data ! j = S (unat index + j)"
  shows "agrees S r' \<and> sr_written r \<le> sr_written r'
    \<and> bs_buffer (sr_output r') = bs_buffer (sr_output r) @ map S [sr_written r ..< sr_written r']"
proof -
  obtain b s u k e where r': "r' = push_result e b s u k r"
    and k: "k = length (takeWhile (\<lambda>b. b) s)" "k \<le> sr_window r"
    and len: "length b = unat (sr_capacity r)" "length s = unat (sr_capacity r)"
    and s: "\<forall>i < unat (sr_capacity r). s ! i =
      (sr_state r ! i \<or> covered (sr_window r) (sr_written r) (unat index) (length data) i)"
    and b: "\<forall>i < unat (sr_capacity r). b ! i =
      (if covered (sr_window r) (sr_written r) (unat index) (length data) i
       then data ! (sr_written r + i - unat index) else sr_buffer r ! i)"
    by (rule push_stored[OF assms(1-4)], rule that)
  have w: "sr_written r' = sr_written r + k"
    unfolding r' by (rule push_written[OF assms(1,2) len(1) k(2)])
  have ks: "k \<le> length s" by (simp add: k(1) length_takeWhile_le)
  have cell: "b ! i = S (sr_written r + i)" if "i < length s" "s ! i" for i
    using that s b len agr data assms(1)
    by (auto simp: agrees_def StreamReassembler_inv_def covered_def)
  have lead: "s ! i" if "i < k" for i
    using that unfolding k(1) by (rule nth_takeWhile_holds)
  have "take k b = map S [sr_written r ..< sr_written r + k]"
    using ks len cell lead by (intro nth_equalityI) auto
  moreover have "agrees S r'"
    using cell ks len w
    by (auto simp: agrees_def r' push_result_def Let_def nth_append add.assoc split: if_splits)
  ultimately show ?thesis
    using w push_result_output[OF assms(1) len(1) k(2), of e s u] by (simp add: r')
qed

lemma unassembled_card:
  assumes "StreamReassembler_inv r"
  shows "unat (sr_unassembled_bytes r) = card {n \<in> held r. sr_written r \<le> n}"
proof -
  let ?f = "filter (\<lambda>b. b) (sr_state r)"
  have "length ?f \<le> unat (sr_capacity r)"
    using assms length_filter_le[of "\<lambda>b. b" "sr_state r"] by (simp add: StreamReassembler_inv_def)
  then have "unat (sr_unassembled_bytes r) = length ?f"
    using assms by (simp add: StreamReassembler_inv_def unat_size_of[OF fits_le])
  also have "\<dots> = card {i. i < length (sr_state r) \<and> sr_state r ! i}"
    by (rule length_filter_conv_card)
  also have "\<dots> = card ((\<lambda>i. sr_written r + i) ` {i. i < length (sr_state r) \<and> sr_state r ! i})"
    by (rule card_image[symmetric]) (simp add: inj_on_def)
  also have "(\<lambda>i. sr_written r + i) ` {i. i < length (sr_state r) \<and> sr_state r ! i}
      = {n \<in> held r. sr_written r \<le> n}"
    by (auto simp: held_def image_iff) (metis le_add_diff_inverse)
  finally show ?thesis .
qed

section \<open>Whole runs: pushes interleaved with reads of the assembled stream\<close>

datatype sr_op = Sr_Push bytes u64 bool | Sr_Read u64

fun sr_exec :: "StreamReassembler \<Rightarrow> sr_op list \<Rightarrow> (bytes \<times> StreamReassembler) result" where
  "sr_exec r [] = Inr ([], r)"
| "sr_exec r (Sr_Push data index eof # ops) =
     bind_result (StreamReassembler_push_substring data index eof r) (\<lambda>r'. sr_exec r' ops)"
| "sr_exec r (Sr_Read n # ops) =
     (let (d, out) = ByteStream_read n (sr_output r)
      in map_result (\<lambda>(ds, t). (d @ ds, t)) (sr_exec (r\<lparr>sr_output := out\<rparr>) ops))"

text \<open>An empty substring is an excerpt wherever it is said to be.\<close>

definition excerpt :: "bytes \<Rightarrow> bytes \<Rightarrow> u64 \<Rightarrow> bool" where
  "excerpt S data index \<longleftrightarrow> data = [] \<or> (unat index + length data \<le> length S
     \<and> data = take (length data) (drop (unat index) S))"

fun excerpts :: "bytes \<Rightarrow> sr_op list \<Rightarrow> bool" where
  "excerpts S [] = True"
| "excerpts S (Sr_Push data index eof # ops) = (excerpt S data index \<and> excerpts S ops)"
| "excerpts S (Sr_Read n # ops) = excerpts S ops"

text \<open>The invariant of such a run: \<open>D\<close> are the bytes read from the output so far.\<close>

definition delivering :: "bytes \<Rightarrow> bytes \<Rightarrow> StreamReassembler \<Rightarrow> bool" where
  "delivering S D r \<longleftrightarrow> StreamReassembler_inv r \<and> agrees (\<lambda>n. S ! n) r \<and> held r \<subseteq> {..< length S}
     \<and> length S + unat (sr_capacity r) < 2 ^ 64
     \<and> unat (bs_bytes_read (sr_output r)) = length D
     \<and> sr_written r \<le> length S \<and> D @ bs_buffer (sr_output r) = take (sr_written r) S"

lemma delivering_bounded: "delivering S D r \<Longrightarrow> sr_bounded r"
proof -
  assume d: "delivering S D r"
  then have "length D + length (bs_buffer (sr_output r)) = sr_written r"
    unfolding delivering_def by (metis length_append length_take min.absorb2)
  with d show ?thesis by (simp add: delivering_def sr_bounded_def)
qed

lemma excerpt_nth:
  assumes "excerpt S data index"
  shows "\<forall>j < length data. data ! j = S ! (unat index + j)"
proof (intro allI impI)
  fix j assume j: "j < length data"
  then have eq: "data = take (length data) (drop (unat index) S)" and le: "unat index + length data \<le> length S"
    using assms unfolding excerpt_def by auto
  have "data ! j = take (length data) (drop (unat index) S) ! j" by (rule arg_cong[OF eq])
  then show "data ! j = S ! (unat index + j)" using j le by simp
qed

lemma push_frame:
  assumes "StreamReassembler_inv r" and "sr_bounded r" and "unat index + length data < 2 ^ 64"
    and "StreamReassembler_push_substring data index eof r = Inr r'"
  shows "sr_capacity r' = sr_capacity r \<and> bs_bytes_read (sr_output r') = bs_bytes_read (sr_output r)"
proof -
  obtain b s u k e where r': "r' = push_result e b s u k r" and k: "k \<le> sr_window r"
    and len: "length b = unat (sr_capacity r)"
    by (rule push_stored[OF assms], rule that)
  show ?thesis using push_result_output[OF assms(1) len k, of e s u]
    by (simp add: r') (simp add: push_result_def Let_def)
qed

lemma delivering_push:
  assumes d: "delivering S D r" and x: "excerpt S data index"
  shows "\<exists>r'. StreamReassembler_push_substring data index eof r = Inr r' \<and> delivering S D r'"
proof -
  have inv: "StreamReassembler_inv r" and bd: "sr_bounded r"
    using d delivering_bounded by (auto simp: delivering_def)
  obtain r' where push: "StreamReassembler_push_substring data index eof r = Inr r'"
    and inv': "StreamReassembler_inv r'" using push_confined[OF inv] by blast
  have idx: "unat index + length data < 2 ^ 64"
    using x d unat64_bound[of index] by (auto simp: excerpt_def delivering_def)
  have data: "\<forall>j < length data. data ! j = S ! (unat index + j)"
    using x by (rule excerpt_nth)
  have "agrees ((!) S) r" using d by (simp add: delivering_def)
  note ag = push_agrees[OF inv bd idx push this data]
  have h: "held r' \<subseteq> {..< length S}"
    using push_held[OF inv bd idx push] d x by (auto simp: delivering_def excerpt_def)
  have w: "sr_written r' \<le> length S"
  proof (rule ccontr)
    assume "\<not> sr_written r' \<le> length S"
    then have "length S \<in> held r'" by (simp add: held_def)
    with h show False by auto
  qed
  have fr: "sr_capacity r' = sr_capacity r \<and> bs_bytes_read (sr_output r') = bs_bytes_read (sr_output r)"
    by (rule push_frame[OF inv bd idx push])
  have "map ((!) S) [sr_written r ..< sr_written r'] = take (sr_written r' - sr_written r) (drop (sr_written r) S)"
    using w by (intro nth_equalityI) auto
  then have "D @ bs_buffer (sr_output r') = (D @ bs_buffer (sr_output r))
      @ take (sr_written r' - sr_written r) (drop (sr_written r) S)"
    using ag by simp
  also have "D @ bs_buffer (sr_output r) = take (sr_written r) S"
    using d by (simp add: delivering_def)
  also have "\<dots> @ take (sr_written r' - sr_written r) (drop (sr_written r) S)
      = take (sr_written r + (sr_written r' - sr_written r)) S" by (rule take_add[symmetric])
  finally have "D @ bs_buffer (sr_output r') = take (sr_written r') S" using ag by simp
  then show ?thesis using push inv' ag h w fr d by (auto simp: delivering_def)
qed

lemma read_output_inv:
  assumes "StreamReassembler_inv r"
  shows "StreamReassembler_inv (r\<lparr>sr_output := snd (ByteStream_read n (sr_output r))\<rparr>)"
proof -
  have inv: "ByteStream_inv (sr_output r)" using assms by (simp add: StreamReassembler_inv_def)
  have "length (bs_buffer (snd (ByteStream_read n (sr_output r)))) \<le> length (bs_buffer (sr_output r))"
    by (simp add: read_eq pop_output_buffer[OF inv])
  then show ?thesis using assms bs.deq_invar[OF inv, of n]
    by (fastforce simp: StreamReassembler_inv_def sr_window_def read_eq)
qed

lemma delivering_read:
  assumes d: "delivering S D r"
  shows "delivering S (D @ fst (ByteStream_read n (sr_output r)))
    (r\<lparr>sr_output := snd (ByteStream_read n (sr_output r))\<rparr>)"
proof -
  let ?o = "sr_output r" and ?r = "r\<lparr>sr_output := snd (ByteStream_read n (sr_output r))\<rparr>"
  have inv: "ByteStream_inv ?o" using d by (simp add: delivering_def StreamReassembler_inv_def)
  have w: "sr_written ?r = sr_written r" by (simp add: sr_written_def read_eq)
  have h: "held ?r = held r" "agrees ((!) S) ?r = agrees ((!) S) r"
    by (simp_all only: held_def agrees_def w) simp_all
  have D: "length D + length (bs_buffer ?o) = sr_written r" "sr_written r \<le> length S"
    using d unfolding delivering_def by (metis length_append length_take min.absorb2)+
  have sz: "fits (fst (ByteStream_read n ?o))"
    by (rule fits_shorter[OF ByteStream_inv_fits[OF inv]]) (simp add: bs.deq_length[OF inv])
  have lr: "length (fst (ByteStream_read n ?o)) \<le> length (bs_buffer ?o)" by (simp add: bs.deq_length[OF inv])
  have "unat (bs_bytes_read ?o + size_of (fst (ByteStream_read n ?o)))
      = length D + length (fst (ByteStream_read n ?o))"
    using d D lr unat_size_of[OF sz] by (subst unat_add_lt) (auto simp: delivering_def)
  then have br: "unat (bs_bytes_read (sr_output ?r)) = length (D @ fst (ByteStream_read n ?o))"
    using read_bytes_read[OF inv, of n] by simp
  have "(D @ fst (ByteStream_read n ?o)) @ bs_buffer (sr_output ?r) = take (sr_written r) S"
    using d bs.deq_contents[OF inv, of n] by (simp add: delivering_def)
  then show ?thesis using d br h w read_output_inv[of r n] by (simp add: delivering_def)
qed

lemma delivering_exec:
  assumes "delivering S D r" and "excerpts S ops"
  shows "\<exists>ds t. sr_exec r ops = Inr (ds, t) \<and> delivering S (D @ ds) t"
  using assms
proof (induction r ops arbitrary: D rule: sr_exec.induct)
  case (2 r data index eof ops)
  then show ?case using delivering_push[of S D r data index eof] by fastforce
next
  case (3 r n ops)
  obtain d out where rd: "ByteStream_read n (sr_output r) = (d, out)" by fastforce
  from delivering_read[OF "3.prems"(1), of n] rd have "delivering S (D @ d) (r\<lparr>sr_output := out\<rparr>)" by simp
  then obtain ds t where "sr_exec (r\<lparr>sr_output := out\<rparr>) ops = Inr (ds, t)" "delivering S ((D @ d) @ ds) t"
    using "3.IH"[OF rd[symmetric] refl] "3.prems"(2) by fastforce
  then show ?case using rd by simp
qed simp

lemma new_inv: "capacity \<noteq> 0 \<Longrightarrow> StreamReassembler_inv (StreamReassembler_new capacity)"
  by (auto simp: StreamReassembler_inv_def StreamReassembler_new_def ByteStream_inv_new sr_window_def
      unat_eq_0) (simp_all add: ByteStream_new_def)

lemma delivering_new:
  assumes "capacity \<noteq> 0" and "length S + unat capacity < 2 ^ 64"
  shows "delivering S [] (StreamReassembler_new capacity)"
  using new_inv[OF assms(1)] assms(2)
  by (auto simp: delivering_def agrees_def held_def sr_written_def StreamReassembler_new_def ByteStream_new_def)

lemma delivering_ended:
  assumes "delivering S D r" and "sr_eof r" and "sr_written r = length S"
  shows "bs_input_ended (sr_output r)"
proof -
  have inv: "StreamReassembler_inv r" and h: "held r \<subseteq> {..< length S}"
    using assms(1) by (simp_all add: delivering_def)
  have "{n \<in> held r. sr_written r \<le> n} = {}" using h assms(3) by auto
  then have "unat (sr_unassembled_bytes r) = 0"
    by (simp only: unassembled_card[OF inv] card.empty)
  then have "sr_unassembled_bytes r = 0" by (simp add: unat_eq_0)
  with inv assms(2) show ?thesis by (simp add: StreamReassembler_inv_def)
qed

section \<open>The reassembler as a machine that never fails\<close>

fun sr_step :: "StreamReassembler \<Rightarrow> sr_op \<Rightarrow> StreamReassembler result" where
  "sr_step r (Sr_Push data index eof) = StreamReassembler_push_substring data index eof r"
| "sr_step r (Sr_Read n) = Inr (r\<lparr>sr_output := snd (ByteStream_read n (sr_output r))\<rparr>)"

interpretation sr: safe_machine sr_step StreamReassembler_inv "\<lambda>_. True"
proof (unfold_locales, goal_cases)
  case (1 r x) then show ?case
    by (cases x) (simp_all add: push_confined read_output_inv)
qed

section \<open>Properties\<close>

text \<open>
  Memory safety: on a reassembler of non-zero capacity no sequence of pushes and reads, with
  any data, any 64-bit index (also one whose arithmetic wraps around) and any flags, reads an
  empty deque or indexes one out of range, and the class invariant holds throughout.
\<close>

theorem StreamReassembler_never_fails:
  assumes "capacity \<noteq> 0"
  shows "\<exists>r. run_events sr_step (StreamReassembler_new capacity) ops = Inr r \<and> StreamReassembler_inv r"
  using sr.run_safe[OF new_inv[OF assms], of ops] by simp

theorem StreamReassembler_never_fails_witness:
  "\<exists>r. run_events sr_step (StreamReassembler_new 8)
      [Sr_Push [1, 2] 18446744073709551615 True, Sr_Push [3] 4 False, Sr_Read 5] = Inr r
    \<and> StreamReassembler_inv r"
  by (rule StreamReassembler_never_fails) simp

text \<open>
  C2. Refinement of \<^verbatim>\<open>push_substring\<close>: the stream positions held afterwards are those held
  before together with the positions of the excerpt that lie below \<open>first_unread + capacity\<close>;
  the assembled prefix ends at the first position not held; and \<^verbatim>\<open>unassembled_bytes()\<close> is the
  number of held positions beyond it (each counted once).
\<close>

theorem push_substring_refines_held_set:
  assumes "StreamReassembler_inv r" and "sr_bounded r" and "unat index + length data < 2 ^ 64"
    and "StreamReassembler_push_substring data index eof r = Inr r'"
  shows "held r' = held r \<union> {n. unat index \<le> n \<and> n < unat index + length data
      \<and> n < unat (ByteStream_bytes_read (sr_output r)) + unat (sr_capacity r)}
    \<and> unat (ByteStream_bytes_written (sr_output r')) = (LEAST n. n \<notin> held r')
    \<and> unat (StreamReassembler_unassembled_bytes r') = card {n \<in> held r'. (LEAST n. n \<notin> held r') \<le> n}"
proof -
  obtain r'' where "StreamReassembler_push_substring data index eof r = Inr r''" "StreamReassembler_inv r''"
    using push_confined[OF assms(1)] by blast
  with assms(4) have inv': "StreamReassembler_inv r'" by simp
  have least: "(LEAST n. n \<notin> held r') = sr_written r'"
    using first_missing[OF written_not_held[OF inv']] .
  show ?thesis
    using push_held[OF assms] unassembled_card[OF inv']
    unfolding least by (simp add: ByteStream_accessors sr_written_def StreamReassembler_unassembled_bytes_def)
qed

theorem push_substring_refines_held_set_witness:
  "\<exists>r'. StreamReassembler_push_substring [7, 8, 9] 1 False (StreamReassembler_new 3) = Inr r'
    \<and> held r' = {1, 2} \<and> unat (ByteStream_bytes_written (sr_output r')) = (LEAST n. n \<notin> held r')"
proof -
  let ?r = "StreamReassembler_new 3"
  have inv: "StreamReassembler_inv ?r" by (rule new_inv) simp
  obtain r' where p: "StreamReassembler_push_substring [7, 8, 9] 1 False ?r = Inr r'"
    using push_confined[OF inv] by blast
  have b: "sr_bounded ?r" by (simp add: sr_bounded_def StreamReassembler_new_def ByteStream_new_def)
  have h: "held ?r = {}"
    by (auto simp: held_def sr_written_def StreamReassembler_new_def ByteStream_new_def)
  have s: "{n. Suc 0 \<le> n \<and> n < Suc (Suc (Suc (Suc 0))) \<and> n < 3} = {Suc 0, 2}" by auto
  have "unat (1 :: u64) + length [7 :: u8, 8, 9] < 2 ^ 64" by simp
  from push_substring_refines_held_set[OF inv b this p] p h s show ?thesis
    by (simp add: ByteStream_accessors StreamReassembler_new_def ByteStream_new_def)
qed

text \<open>
  C3. In-order delivery: if every substring pushed is an excerpt of one byte string \<open>S\<close>, in
  any order, with any overlaps, repetitions and interleaved reads, then the bytes read from the
  output followed by those still buffered there are exactly the first \<^verbatim>\<open>bytes_written()\<close> bytes of
  \<open>S\<close>. Once all of \<open>S\<close> is assembled and the end marker has been accepted, the output is ended.
\<close>

theorem StreamReassembler_delivers_in_order:
  assumes "capacity \<noteq> 0" and "length S + unat capacity < 2 ^ 64" and "excerpts S ops"
  shows "\<exists>delivered r. sr_exec (StreamReassembler_new capacity) ops = Inr (delivered, r)
    \<and> delivered @ bs_buffer (sr_output r) = take (unat (ByteStream_bytes_written (sr_output r))) S
    \<and> (sr_eof r \<and> unat (ByteStream_bytes_written (sr_output r)) = length S
         \<longrightarrow> ByteStream_input_ended (sr_output r))"
proof -
  obtain ds t where "sr_exec (StreamReassembler_new capacity) ops = Inr (ds, t)" "delivering S ([] @ ds) t"
    using delivering_exec[OF delivering_new[OF assms(1,2)] assms(3)] by blast
  then show ?thesis using delivering_ended[of S ds t]
    by (auto simp: delivering_def sr_written_def ByteStream_accessors)
qed

theorem StreamReassembler_delivers_in_order_witness:
  "\<exists>delivered r. sr_exec (StreamReassembler_new 4) [Sr_Push [12, 13] 2 True, Sr_Push [10, 11] 0 False, Sr_Read 3]
      = Inr (delivered, r)
    \<and> delivered @ bs_buffer (sr_output r)
        = take (unat (ByteStream_bytes_written (sr_output r))) [10, 11, 12, 13]"
  using StreamReassembler_delivers_in_order[of 4 "[10, 11, 12, 13]"
      "[Sr_Push [12, 13] 2 True, Sr_Push [10, 11] 0 False, Sr_Read 3]"]
  by (auto simp: excerpt_def)

text \<open>
  C36. An end marker that arrives early on an empty substring ends the stream although bytes
  before it are missing: on a fresh reassembler, pushing the empty string with the end flag at
  any position \<open>index\<close> up to the capacity ends the output with no byte written. (The comment of
  the parameter says that the end is the end of the entire stream.)
\<close>

theorem push_substring_premature_end:
  assumes "capacity \<noteq> 0" and "index \<le> capacity"
  shows "\<exists>r. StreamReassembler_push_substring [] index True (StreamReassembler_new capacity) = Inr r
    \<and> ByteStream_input_ended (sr_output r) \<and> ByteStream_eof (sr_output r)
    \<and> ByteStream_bytes_written (sr_output r) = 0"
proof -
  let ?r = "StreamReassembler_new capacity"
  have inv: "StreamReassembler_inv ?r" by (rule new_inv[OF assms(1)])
  have st: "store_loop (ByteStream_remaining_capacity (sr_output ?r)) (bs_bytes_written (sr_output ?r))
      index 0 [] (sr_buffer ?r) (sr_state ?r) (sr_unassembled_bytes ?r)
      = Inr (sr_buffer ?r, sr_state ?r, sr_unassembled_bytes ?r)" by simp
  have len: "length (sr_buffer ?r) = unat (sr_capacity ?r)" "length (sr_state ?r) = unat (sr_capacity ?r)"
    by (simp_all add: StreamReassembler_new_def)
  have tw: "takeWhile (\<lambda>b. b) (sr_state ?r) = []"
    by (simp add: StreamReassembler_new_def takeWhile_eq_Nil_iff)
  have w: "\<forall>i < length (sr_state ?r). sr_state ?r ! i \<longrightarrow> i < sr_window ?r"
    by (simp add: StreamReassembler_new_def)
  show ?thesis
    using push_eq[OF inv st len w, of True, unfolded tw] assms(2)
    by (simp add: push_result_def Let_def StreamReassembler_new_def ByteStream_new_def
        ByteStream_accessors ByteStream_end_input_def ByteStream_write_def substr_def)
qed

theorem push_substring_premature_end_witness:
  "\<exists>r. StreamReassembler_push_substring [] 5 True (StreamReassembler_new 8) = Inr r
    \<and> ByteStream_input_ended (sr_output r) \<and> ByteStream_eof (sr_output r)
    \<and> ByteStream_bytes_written (sr_output r) = 0"
  by (rule push_substring_premature_end) simp_all

end
