(* ===== verification/Wrapping_Integers.thy ===== *)
theory Wrapping_Integers
  imports Sponge_Prelude
begin

text \<open>
  \<^verbatim>\<open>libsponge/wrapping_integers.{hh,cc}\<close>: 32-bit sequence numbers relative to an initial
  sequence number, and their conversion to and from 64-bit absolute sequence numbers. The
  C++ arithmetic is on \<^verbatim>\<open>uint32_t\<close> and \<^verbatim>\<open>uint64_t\<close>, kept here at its width.
\<close>

section \<open>The model\<close>

datatype WrappingInt32 = WrappingInt32 (raw_value: u32)

text \<open>\<^verbatim>\<open>operator-(a, b)\<close> returns an \<^verbatim>\<open>int32_t\<close>: the difference read as two's complement.\<close>

definition WrappingInt32_diff :: "WrappingInt32 \<Rightarrow> WrappingInt32 \<Rightarrow> int" where
  "WrappingInt32_diff a b = sint (raw_value a - raw_value b)"

definition WrappingInt32_eq :: "WrappingInt32 \<Rightarrow> WrappingInt32 \<Rightarrow> bool" where
  "WrappingInt32_eq a b \<longleftrightarrow> raw_value a = raw_value b"

definition WrappingInt32_plus :: "WrappingInt32 \<Rightarrow> u32 \<Rightarrow> WrappingInt32" where
  "WrappingInt32_plus a b = WrappingInt32 (raw_value a + b)"

definition WrappingInt32_minus :: "WrappingInt32 \<Rightarrow> u32 \<Rightarrow> WrappingInt32" where
  "WrappingInt32_minus a b = WrappingInt32_plus a (- b)"

definition wrap :: "u64 \<Rightarrow> WrappingInt32 \<Rightarrow> WrappingInt32" where
  "wrap n isn = WrappingInt32_plus isn (ucast n)"

definition unwrap :: "WrappingInt32 \<Rightarrow> WrappingInt32 \<Rightarrow> u64 \<Rightarrow> u64" where
  "unwrap n isn checkpoint =
     (let lower_32 = ucast (raw_value n - raw_value isn) :: u64;
          upper_32 = drop_bit 32 (checkpoint - lower_32)
      in if checkpoint \<le> lower_32 then lower_32
         else let low = push_bit 32 upper_32 OR lower_32;
                  high = push_bit 32 (upper_32 + 1) OR lower_32
              in if checkpoint - low \<ge> high - checkpoint then high else low)"

section \<open>Reading the definitions over the natural numbers\<close>

lemma WrappingInt32_eq_iff [simp]: "WrappingInt32_eq a b \<longleftrightarrow> a = b"
  by (cases a; cases b) (simp add: WrappingInt32_eq_def)

lemma raw_value_wrap [simp]: "raw_value (wrap n isn) = raw_value isn + ucast n"
  by (simp add: wrap_def WrappingInt32_plus_def)

lemma wrap_0 [simp]: "wrap 0 isn = isn"
  by (cases isn) (simp add: wrap_def WrappingInt32_plus_def)

lemma wrap_plus: "WrappingInt32_plus (wrap n isn) (ucast (k :: u64)) = wrap (n + k) isn"
proof -
  have "(ucast (n + k) :: u32) = ucast n + ucast k"
    by (simp add: word_unat_eq_iff unsigned_ucast_eq take_bit_eq_mod unat_word_ariths
        mod_mod_cancel mod_add_eq)
  then show ?thesis
    by (simp add: wrap_def WrappingInt32_plus_def add.assoc)
qed

lemma minus_plus [simp]: "WrappingInt32_plus (WrappingInt32_minus a k) k = a"
  by (cases a) (simp add: WrappingInt32_minus_def WrappingInt32_plus_def)

lemma push_or_plus: "push_bit 32 u OR (ucast (l :: u32) :: u64) = push_bit 32 u + ucast l"
proof -
  have "push_bit 32 u AND (ucast l :: u64) = 0"
    by (rule bit_word_eqI) (auto simp: bit_simps dest: bit_imp_le_length)
  then show ?thesis by (simp add: disjunctive_add_eq_or)
qed

lemma unat_push32: "unat (push_bit 32 (u :: u64)) = unat u * 4294967296 mod 18446744073709551616"
  by (simp add: push_bit_eq_mult unat_word_ariths)

lemma unat_drop32: "unat (drop_bit 32 (u :: u64)) = unat u div 4294967296"
  by (simp add: drop_bit_eq_div unat_div)

lemma wrap_eq_iff: "wrap x isn = n \<longleftrightarrow> unat x mod 4294967296 = unat (raw_value n - raw_value isn)"
proof -
  have "wrap x isn = n \<longleftrightarrow> (ucast x :: u32) = raw_value n - raw_value isn"
    by (cases n) (auto simp: wrap_def WrappingInt32_plus_def algebra_simps)
  also have "\<dots> \<longleftrightarrow> unat (ucast x :: u32) = unat (raw_value n - raw_value isn)"
    by (simp add: word_unat_eq_iff)
  finally show ?thesis by (simp add: unsigned_ucast_eq take_bit_eq_mod)
qed

text \<open>
  The two candidates \<open>low\<close> and \<open>high\<close> do not overflow as long as the checkpoint is more than
  \<open>2 ^ 32\<close> below the largest 64-bit number, that is for the first \<open>2 ^ 64 - 2 ^ 32\<close> bytes of
  a stream.
\<close>

lemma unat_unwrap:
  assumes c: "unat cp < 18446744069414584320"
  shows "unat (unwrap n isn cp) =
    (let l = unat (raw_value n - raw_value isn); c = unat cp;
         low = (c - l) div 4294967296 * 4294967296 + l
     in if c \<le> l then l else if low + 4294967296 - c \<le> c - low then low + 4294967296 else low)"
proof (cases "unat cp \<le> unat (raw_value n - raw_value isn)")
  case True
  then show ?thesis
    by (simp add: unwrap_def Let_def word_le_nat_alt unat_ucast_up)
next
  case False
  define l where "l = unat (raw_value n - raw_value isn)"
  define k where "k = (unat cp - l) div 4294967296"
  let ?L = "ucast (raw_value n - raw_value isn) :: u64"
  let ?u = "drop_bit 32 (cp - ?L)"
  let ?lo = "push_bit 32 ?u OR ?L" and ?hi = "push_bit 32 (?u + 1) OR ?L"
  have l: "l < 4294967296" "unat ?L = l" by (simp_all add: l_def unat32_bound unat_ucast_up)
  have cl: "l < unat cp" using False l_def by simp
  have "unat (cp - ?L) = unat cp - l" using cl l(2) by (simp add: unat_sub word_le_nat_alt)
  then have u: "unat ?u = k" by (simp add: unat_drop32 k_def)
  have kb: "k * 4294967296 \<le> unat cp - l" "unat cp - l < k * 4294967296 + 4294967296" "k < 4294967295"
    unfolding k_def using c by auto
  have u1: "unat (?u + 1) = k + 1" using u kb by (simp add: unat_word_ariths)
  have low: "unat ?lo = k * 4294967296 + l"
    unfolding push_or_plus using u l kb by (simp add: unat_word_ariths unat_push32)
  have high: "unat ?hi = k * 4294967296 + l + 4294967296"
    unfolding push_or_plus using u1 l kb by (simp add: unat_word_ariths unat_push32)
  have d1: "unat (cp - ?lo) = unat cp - (k * 4294967296 + l)"
    using low kb cl by (simp add: unat_sub word_le_nat_alt)
  have d2: "unat (?hi - cp) = k * 4294967296 + l + 4294967296 - unat cp"
    using high kb cl by (simp add: unat_sub word_le_nat_alt)
  have "\<not> cp \<le> ?L" using cl l(2) by (simp add: word_le_nat_alt)
  then have "unwrap n isn cp = (if ?hi - cp \<le> cp - ?lo then ?hi else ?lo)"
    by (simp add: unwrap_def Let_def)
  then show ?thesis using False
    by (simp add: Let_def low high d1 d2 word_le_nat_alt flip: l_def k_def)
qed

lemma wrap_unwrap: "wrap (unwrap n isn cp) isn = n"
proof -
  let ?r = "raw_value n - raw_value isn"
  have a: "ucast (push_bit 32 u OR (ucast ?r :: u64)) = (?r :: u32)" for u
    by (rule bit_word_eqI) (auto simp: bit_simps dest: bit_imp_le_length)
  have b: "ucast (ucast ?r :: u64) = ?r"
    by (rule bit_word_eqI) (auto simp: bit_simps dest: bit_imp_le_length)
  have "ucast (unwrap n isn cp) = ?r"
    by (simp add: unwrap_def Let_def a b)
  then show ?thesis by (cases n) (simp add: wrap_def WrappingInt32_plus_def)
qed

text \<open>Among the numbers congruent to \<open>l\<close>, the code's choice is nearest to the checkpoint.\<close>

lemma closest_candidate:
  fixes x c l :: nat
  assumes x: "x mod M = l" and M: "0 < M"
  defines "low \<equiv> (c - l) div M * M + l"
  shows "\<bar>int (if c \<le> l then l else if low + M - c \<le> c - low then low + M else low) - int c\<bar>
     \<le> \<bar>int x - int c\<bar>"
proof (cases "c \<le> l")
  case True
  have "l \<le> x" using x by (metis mod_less_eq_dividend)
  with True show ?thesis by simp
next
  case False
  have "(c - l) div M * M \<le> c - l" "c - l < (c - l) div M * M + M"
    using M dividend_less_div_times[of M "c - l"] by (simp_all add: algebra_simps)
  with False have c: "low \<le> c" "c < low + M" unfolding low_def by linarith+
  have "x = x div M * M + l" using x by (metis div_mult_mod_eq)
  moreover have "x div M \<le> (c - l) div M \<or> (c - l) div M + 1 \<le> x div M" by linarith
  then have "x div M * M \<le> (c - l) div M * M \<or> (c - l) div M * M + M \<le> x div M * M"
    by (metis mult_le_mono1 add_mult_distrib mult_1)
  ultimately have "x \<le> low \<or> low + M \<le> x" unfolding low_def by linarith
  with c False show ?thesis by auto
qed

lemma unwrap_nearest:
  assumes "unat cp < 18446744069414584320" and "wrap x isn = n"
  shows "\<bar>int (unat (unwrap n isn cp)) - int (unat cp)\<bar> \<le> \<bar>int (unat x) - int (unat cp)\<bar>"
  using closest_candidate[of "unat x" 4294967296 "unat (raw_value n - raw_value isn)" "unat cp"]
    assms(2) unat_unwrap[OF assms(1), of n isn]
  by (simp add: wrap_eq_iff Let_def)

lemma mod_eq_close:
  fixes a b c :: int
  assumes "a mod (2 * M) = b mod (2 * M)" "\<bar>a - c\<bar> < M" "\<bar>b - c\<bar> < M" "0 < M"
  shows "a = b"
proof -
  have "2 * M dvd a - b" using assms(1) by (rule mod_eq_dvd_iff[THEN iffD1])
  moreover have "\<bar>a - b\<bar> < 2 * M" using assms by linarith
  ultimately show ?thesis using assms(4) dvd_imp_le_int[of "a - b" "2 * M"] by fastforce
qed

lemma unwrap_wrap_near:
  assumes cp: "unat cp < 18446744069414584320"
    and near: "\<bar>int (unat x) - int (unat cp)\<bar> < 2147483648"
  shows "unwrap (wrap x isn) isn cp = x"
proof -
  let ?y = "unwrap (wrap x isn) isn cp"
  have y: "\<bar>int (unat ?y) - int (unat cp)\<bar> < 2147483648"
    using unwrap_nearest[OF cp refl, of x isn] near by linarith
  have "unat ?y mod 4294967296 = unat x mod 4294967296"
    using wrap_unwrap[of "wrap x isn" isn cp, unfolded wrap_eq_iff]
      wrap_eq_iff[of x isn "wrap x isn"] by simp
  then have "int (unat ?y mod 4294967296) = int (unat x mod 4294967296)" by (rule arg_cong)
  then have m: "int (unat ?y) mod (2 * 2147483648) = int (unat x) mod (2 * 2147483648)"
    unfolding zmod_int by simp
  have "int (unat ?y) = int (unat x)"
    by (rule mod_eq_close[OF m y near]) simp
  then have "unat ?y = unat x" by (simp only: of_nat_eq_iff)
  then show ?thesis by (simp only: word_unat_eq_iff)
qed

section \<open>Properties\<close>

text \<open>
  C30. \<open>unwrap\<close> returns the 64-bit absolute sequence number that wraps to the given sequence
  number and is closest to the checkpoint, as its documentation promises, for every checkpoint
  below \<open>2 ^ 64 - 2 ^ 32\<close>.
\<close>

theorem unwrap_closest:
  assumes "unat checkpoint < 2 ^ 64 - 2 ^ 32"
  shows "wrap (unwrap n isn checkpoint) isn = n \<and>
    (\<forall>x. wrap x isn = n \<longrightarrow>
       \<bar>int (unat (unwrap n isn checkpoint)) - int (unat checkpoint)\<bar>
         \<le> \<bar>int (unat x) - int (unat checkpoint)\<bar>)"
proof (intro conjI allI impI)
  have cp: "unat checkpoint < 18446744069414584320" using assms by simp
  show "\<bar>int (unat (unwrap n isn checkpoint)) - int (unat checkpoint)\<bar>
      \<le> \<bar>int (unat x) - int (unat checkpoint)\<bar>" if "wrap x isn = n" for x
    by (rule unwrap_nearest[OF cp that])
qed (rule wrap_unwrap)

theorem unwrap_closest_witness:
  "unwrap (WrappingInt32 12) (WrappingInt32 10) 5000000000 = 4294967298
   \<and> wrap 2 (WrappingInt32 10) = WrappingInt32 12
   \<and> \<bar>int (unat (4294967298 :: u64)) - int (unat (5000000000 :: u64))\<bar>
       \<le> \<bar>int (unat (2 :: u64)) - int (unat (5000000000 :: u64))\<bar>"
proof -
  have u: "unwrap (WrappingInt32 12) (WrappingInt32 10) 5000000000 = 4294967298"
    by (simp add: unwrap_def drop_bit_eq_div push_bit_eq_mult)
  have w: "wrap 2 (WrappingInt32 10) = WrappingInt32 12"
    by (simp add: wrap_def WrappingInt32_plus_def)
  have h: "unat (5000000000 :: u64) < 2 ^ 64 - 2 ^ 32" by simp
  show ?thesis
    using unwrap_closest[OF h, of "WrappingInt32 12" "WrappingInt32 10"] u w by simp
qed

text \<open>
  Round trip: an absolute sequence number less than \<open>2 ^ 31\<close> away from the checkpoint is
  recovered exactly from its 32-bit form, whatever the initial sequence number is.
\<close>

theorem unwrap_wrap:
  assumes "unat checkpoint < 2 ^ 64 - 2 ^ 32"
    and "\<bar>int (unat n) - int (unat checkpoint)\<bar> < 2 ^ 31"
  shows "unwrap (wrap n isn) isn checkpoint = n"
  using unwrap_wrap_near[of checkpoint n isn] assms by simp

theorem unwrap_wrap_witness:
  "unwrap (wrap 5000000001 (WrappingInt32 4294967295)) (WrappingInt32 4294967295) 5000000000 = 5000000001"
  by (rule unwrap_wrap) simp_all

end
