(* ===== verification/Net_Buffer.thy ===== *)
theory Net_Buffer
  imports Sponge_Prelude
begin

text \<open>
  \<^verbatim>\<open>libsponge/util/buffer.{hh,cc}\<close>: \<^verbatim>\<open>Buffer\<close>, a shared read-only string that can discard
  bytes from its front, \<^verbatim>\<open>BufferList\<close>, a sequence of them, and \<^verbatim>\<open>BufferViewList\<close>. The storage
  is never mutated after construction, so sharing it is not observable and each \<^verbatim>\<open>Buffer\<close> is a
  value: the storage pointer (\<open>None\<close> for null) and the starting offset. The interface
  \<open>discardable\<close> is what the parsers rely on; all three classes implement it.
\<close>

section \<open>The model\<close>

record Buffer =
  buf_storage :: "bytes option"
  buf_starting_offset :: u64

definition Buffer_default :: Buffer where
  "Buffer_default = \<lparr>buf_storage = None, buf_starting_offset = 0\<rparr>"

definition Buffer_of_string :: "bytes \<Rightarrow> Buffer" where
  "Buffer_of_string s = \<lparr>buf_storage = Some s, buf_starting_offset = 0\<rparr>"

definition Buffer_str :: "Buffer \<Rightarrow> bytes" where
  "Buffer_str b = (case buf_storage b of None \<Rightarrow> [] | Some s \<Rightarrow> drop (unat (buf_starting_offset b)) s)"

definition Buffer_at :: "Buffer \<Rightarrow> u64 \<Rightarrow> u8 result" where
  "Buffer_at b n =
     (if unat n < length (Buffer_str b) then Inr (Buffer_str b ! unat n)
      else Inl (Out_Of_Range ''string_view::at''))"

definition Buffer_size :: "Buffer \<Rightarrow> u64" where
  "Buffer_size b = size_of (Buffer_str b)"

definition Buffer_copy :: "Buffer \<Rightarrow> bytes" where
  "Buffer_copy b = Buffer_str b"

definition Buffer_remove_prefix :: "u64 \<Rightarrow> Buffer \<Rightarrow> Buffer result" where
  "Buffer_remove_prefix n b =
     (if n > Buffer_size b then Inl (Out_Of_Range ''Buffer::remove_prefix'')
      else let offset = buf_starting_offset b + n
           in Inr (case buf_storage b of
                     None \<Rightarrow> b\<lparr>buf_starting_offset := offset\<rparr>
                   | Some s \<Rightarrow> if offset = size_of s
                              then \<lparr>buf_storage = None, buf_starting_offset = offset\<rparr>
                              else b\<lparr>buf_starting_offset := offset\<rparr>))"

type_synonym BufferList = "Buffer list"

definition BufferList_of_Buffer :: "Buffer \<Rightarrow> BufferList" where
  "BufferList_of_Buffer b = [b]"

definition BufferList_append :: "BufferList \<Rightarrow> BufferList \<Rightarrow> BufferList" where
  "BufferList_append bs other = bs @ other"

definition BufferList_of_string :: "bytes \<Rightarrow> BufferList" where
  "BufferList_of_string s = BufferList_append [] (BufferList_of_Buffer (Buffer_of_string s))"

text \<open>The conversion operator to \<^verbatim>\<open>Buffer\<close> throws unless the list has at most one element.\<close>

fun BufferList_to_Buffer :: "BufferList \<Rightarrow> Buffer result" where
  "BufferList_to_Buffer [] = Inr Buffer_default"
| "BufferList_to_Buffer [b] = Inr b"
| "BufferList_to_Buffer bs =
     Inl (Runtime_Error ''BufferList: please use concatenate() to combine a multi-Buffer BufferList into one Buffer'')"

primrec BufferList_concatenate :: "BufferList \<Rightarrow> bytes" where
  "BufferList_concatenate [] = []"
| "BufferList_concatenate (b # bs) = Buffer_str b @ BufferList_concatenate bs"

primrec BufferList_size :: "BufferList \<Rightarrow> u64" where
  "BufferList_size [] = 0"
| "BufferList_size (b # bs) = Buffer_size b + BufferList_size bs"

fun BufferList_remove_prefix :: "u64 \<Rightarrow> BufferList \<Rightarrow> BufferList result" where
  "BufferList_remove_prefix n [] =
     (if n > 0 then Inl (Out_Of_Range ''BufferList::remove_prefix'') else Inr [])"
| "BufferList_remove_prefix n (b # bs) =
     (if n > 0
      then if n < Buffer_size b
           then map_result (\<lambda>b'. b' # bs) (Buffer_remove_prefix n b)
           else BufferList_remove_prefix (n - Buffer_size b) bs
      else Inr (b # bs))"

type_synonym BufferViewList = "bytes list"

definition BufferViewList_of_string_view :: "bytes \<Rightarrow> BufferViewList" where
  "BufferViewList_of_string_view s = [s]"

definition BufferViewList_of_BufferList :: "BufferList \<Rightarrow> BufferViewList" where
  "BufferViewList_of_BufferList bs = map Buffer_str bs"

fun BufferViewList_remove_prefix :: "u64 \<Rightarrow> BufferViewList \<Rightarrow> BufferViewList result" where
  "BufferViewList_remove_prefix n [] =
     (if n > 0 then Inl (Out_Of_Range ''BufferListView::remove_prefix'') else Inr [])"
| "BufferViewList_remove_prefix n (v # vs) =
     (if n > 0
      then if n < size_of v then Inr (drop (unat n) v # vs)
           else BufferViewList_remove_prefix (n - size_of v) vs
      else Inr (v # vs))"

primrec BufferViewList_size :: "BufferViewList \<Rightarrow> u64" where
  "BufferViewList_size [] = 0"
| "BufferViewList_size (v # vs) = size_of v + BufferViewList_size vs"

text \<open>An \<^verbatim>\<open>iovec\<close> is the memory it points at together with its length.\<close>

definition BufferViewList_as_iovecs :: "BufferViewList \<Rightarrow> (bytes \<times> u64) list" where
  "BufferViewList_as_iovecs vs = map (\<lambda>v. (v, size_of v)) vs"

section \<open>The interface: a byte string that can be consumed from its front\<close>

locale discardable =
  fixes invar :: "'b \<Rightarrow> bool" and view :: "'b \<Rightarrow> bytes" and discard :: "u64 \<Rightarrow> 'b \<Rightarrow> 'b result"
  assumes view_fits: "invar b \<Longrightarrow> fits (view b)"
    and discard_ok: "invar b \<Longrightarrow> unat n \<le> length (view b) \<Longrightarrow>
      \<exists>b'. discard n b = Inr b' \<and> invar b' \<and> view b' = drop (unat n) (view b)"
    and discard_short: "invar b \<Longrightarrow> length (view b) < unat n \<Longrightarrow> \<exists>m. discard n b = Inl (Out_Of_Range m)"
begin

lemma discard_iff: "invar b \<Longrightarrow> (\<exists>b'. discard n b = Inr b') \<longleftrightarrow> unat n \<le> length (view b)"
  using discard_ok[of b n] discard_short[of b n] by (metis Inl_Inr_False not_le)

lemma discard_view: "invar b \<Longrightarrow> discard n b = Inr b' \<Longrightarrow> invar b' \<and> view b' = drop (unat n) (view b)"
  using discard_ok[of b n] discard_iff[of b n] by fastforce

text \<open>Discarding in two steps is discarding at once.\<close>

lemma discard_twice:
  assumes "invar b" and "discard m b = Inr b'" and "discard n b' = Inr b''"
  shows "\<exists>c. discard (m + n) b = Inr c \<and> view c = view b''"
proof -
  have b': "invar b'" "view b' = drop (unat m) (view b)" using discard_view[OF assms(1,2)] by auto
  have b'': "view b'' = drop (unat n) (view b')" using discard_view[OF b'(1) assms(3)] by auto
  have "unat m \<le> length (view b)" "unat n \<le> length (view b')"
    using assms discard_iff b'(1) by blast+
  then have le: "unat m + unat n \<le> length (view b)" using b'(2) by simp
  then have "unat m + unat n < 2 ^ LENGTH(64)" using view_fits[OF assms(1)] by (simp add: fits_def)
  then have u: "unat (m + n) = unat m + unat n" by (rule unat_add_lt)
  then show ?thesis using discard_ok[OF assms(1), of "m + n"] le b' b'' by (auto simp: add.commute)
qed

end

section \<open>Buffer, BufferList and BufferViewList implement it\<close>

definition Buffer_inv :: "Buffer \<Rightarrow> bool" where
  "Buffer_inv b \<longleftrightarrow> (case buf_storage b of None \<Rightarrow> True
     | Some s \<Rightarrow> fits s \<and> unat (buf_starting_offset b) \<le> length s)"

lemma Buffer_str_of_string [simp]: "Buffer_str (Buffer_of_string s) = s"
  by (simp add: Buffer_str_def Buffer_of_string_def)

lemma Buffer_str_default [simp]: "Buffer_str Buffer_default = []"
  by (simp add: Buffer_str_def Buffer_default_def)

lemma Buffer_inv_of_string [simp]: "Buffer_inv (Buffer_of_string s) \<longleftrightarrow> fits s"
  by (simp add: Buffer_inv_def Buffer_of_string_def)

lemma Buffer_inv_default [simp]: "Buffer_inv Buffer_default"
  by (simp add: Buffer_inv_def Buffer_default_def)

lemma Buffer_str_fits: "Buffer_inv b \<Longrightarrow> fits (Buffer_str b)"
  by (auto simp: Buffer_inv_def Buffer_str_def fits_def split: option.splits)

lemma unat_Buffer_size: "Buffer_inv b \<Longrightarrow> unat (Buffer_size b) = length (Buffer_str b)"
  by (simp add: Buffer_size_def unat_size_of Buffer_str_fits)

interpretation buffer: discardable Buffer_inv Buffer_str Buffer_remove_prefix
proof (unfold_locales, goal_cases)
  case (1 b) then show ?case by (rule Buffer_str_fits)
next
  case (2 b n)
  show ?case
  proof (cases "buf_storage b")
    case None
    with 2 show ?thesis
      by (auto simp: Buffer_remove_prefix_def Buffer_str_def Buffer_inv_def Buffer_size_def
          word_less_nat_alt)
  next
    case (Some s)
    let ?o = "buf_starting_offset b"
    have f: "fits s" "unat ?o \<le> length s" using 2(1) Some by (simp_all add: Buffer_inv_def)
    have n: "unat n \<le> length s - unat ?o" using 2(2) Some by (simp add: Buffer_str_def)
    have u: "unat (?o + n) = unat ?o + unat n"
      using f n by (intro unat_add_lt) (simp add: fits_def)
    have "\<not> n > Buffer_size b" using 2 unat_Buffer_size[of b] by (simp add: word_less_nat_alt)
    moreover have "?o + n = size_of s \<longleftrightarrow> unat ?o + unat n = length s"
      using u unat_size_of[OF f(1)] by (metis word_unat_eq_iff)
    ultimately show ?thesis using Some f n u
      by (auto simp: Buffer_remove_prefix_def Let_def Buffer_str_def Buffer_inv_def add.commute)
  qed
next
  case (3 b n)
  then show ?case using unat_Buffer_size[of b]
    by (simp add: Buffer_remove_prefix_def word_less_nat_alt)
qed

definition BufferList_inv :: "BufferList \<Rightarrow> bool" where
  "BufferList_inv bs \<longleftrightarrow> (\<forall>b \<in> set bs. Buffer_inv b) \<and> fits (BufferList_concatenate bs)"

lemma concatenate_append [simp]:
  "BufferList_concatenate (xs @ ys) = BufferList_concatenate xs @ BufferList_concatenate ys"
  by (induction xs) simp_all

lemma BufferList_size_eq: "BufferList_size bs = size_of (BufferList_concatenate bs)"
  by (induction bs) (simp_all add: Buffer_size_def)

lemma view_list_remove_prefix:
  assumes "fits (concat vs)"
  shows "if unat n \<le> length (concat vs)
    then \<exists>vs'. BufferViewList_remove_prefix n vs = Inr vs' \<and> concat vs' = drop (unat n) (concat vs)
    else \<exists>m. BufferViewList_remove_prefix n vs = Inl (Out_Of_Range m)"
  using assms
proof (induction n vs rule: BufferViewList_remove_prefix.induct)
  case (1 n)
  then show ?case by (auto simp: word_gt_0 unat_eq_0)
next
  case (2 n v vs)
  have f: "fits v" "fits (concat vs)" using 2(2) by (auto simp: fits_def)
  show ?case
  proof (cases "n > 0 \<and> \<not> n < size_of v")
    case True
    then have "length v \<le> unat n" using unat_size_of[OF f(1)] by (simp add: word_less_nat_alt)
    moreover from this have "unat (n - size_of v) = unat n - length v"
      using unat_size_of[OF f(1)] by (simp add: unat_sub word_le_nat_alt)
    ultimately show ?thesis using 2(1)[OF _ _ f(2)] True by (auto split: if_splits)
  next
    case False
    then show ?thesis using unat_size_of[OF f(1)] by (auto simp: word_less_nat_alt word_gt_0 unat_eq_0)
  qed
qed

interpretation views: discardable "\<lambda>vs. fits (concat vs)" concat BufferViewList_remove_prefix
proof (unfold_locales, goal_cases)
  case (2 b n)
  then obtain vs where vs: "BufferViewList_remove_prefix n b = Inr vs" "concat vs = drop (unat n) (concat b)"
    using view_list_remove_prefix[of b n] by auto
  moreover have "fits (concat vs)" by (rule fits_shorter[OF 2(1)]) (simp add: vs)
  ultimately show ?case by blast
next
  case (3 b n) then show ?case using view_list_remove_prefix[of b n] by auto
qed simp

lemma concatenate_views: "BufferList_concatenate bs = concat (BufferViewList_of_BufferList bs)"
  by (induction bs) (simp_all add: BufferViewList_of_BufferList_def)

text \<open>The two lists discard in lockstep: the views of the buffers are the views.\<close>

lemma BufferList_remove_prefix_views:
  assumes "\<forall>b \<in> set bs. Buffer_inv b"
  shows "case BufferList_remove_prefix n bs of
      Inr bs' \<Rightarrow> BufferViewList_remove_prefix n (BufferViewList_of_BufferList bs)
                   = Inr (BufferViewList_of_BufferList bs') \<and> (\<forall>b \<in> set bs'. Buffer_inv b)
    | Inl e \<Rightarrow> \<exists>m m'. e = Out_Of_Range m
        \<and> BufferViewList_remove_prefix n (BufferViewList_of_BufferList bs) = Inl (Out_Of_Range m')"
  using assms
proof (induction n bs rule: BufferList_remove_prefix.induct)
  case (2 n b bs)
  have b: "Buffer_inv b" and bs: "\<forall>b \<in> set bs. Buffer_inv b" using 2(2) by auto
  show ?case
  proof (cases "n > 0 \<and> n < Buffer_size b")
    case True
    then have "unat n \<le> length (Buffer_str b)" using unat_Buffer_size[OF b] by (simp add: word_less_nat_alt)
    then obtain b' where "Buffer_remove_prefix n b = Inr b'" "Buffer_inv b'"
      "Buffer_str b' = drop (unat n) (Buffer_str b)" using buffer.discard_ok[OF b] by blast
    with True bs show ?thesis by (simp add: BufferViewList_of_BufferList_def Buffer_size_def)
  next
    case False
    with 2(1) bs b show ?thesis
      by (cases "n > 0") (auto simp: BufferViewList_of_BufferList_def Buffer_size_def split: sum.splits)
  qed
qed (simp add: BufferViewList_of_BufferList_def)

interpretation buffers: discardable BufferList_inv BufferList_concatenate BufferList_remove_prefix
proof (unfold_locales, goal_cases)
  case (1 b) then show ?case by (simp add: BufferList_inv_def)
next
  case (2 b n)
  then have i: "\<forall>x \<in> set b. Buffer_inv x" and f: "fits (concat (BufferViewList_of_BufferList b))"
    by (simp_all add: BufferList_inv_def concatenate_views)
  from views.discard_ok[OF f, of n] 2(2) BufferList_remove_prefix_views[OF i, of n] show ?case
    by (auto simp: BufferList_inv_def concatenate_views split: sum.splits)
next
  case (3 b n)
  then have i: "\<forall>x \<in> set b. Buffer_inv x" and f: "fits (concat (BufferViewList_of_BufferList b))"
    by (simp_all add: BufferList_inv_def concatenate_views)
  from views.discard_short[OF f, of n] 3(2) BufferList_remove_prefix_views[OF i, of n] show ?case
    by (auto simp: concatenate_views split: sum.splits)
qed

section \<open>Properties\<close>

text \<open>
  C31. A \<^verbatim>\<open>BufferList\<close> behaves as the one string it concatenates to: appending concatenates,
  the size is the length, \<^verbatim>\<open>remove_prefix(n)\<close> drops the first \<open>n\<close> bytes, splitting a buffer
  where it must, and throws exactly when there are fewer; so it is with the \<^verbatim>\<open>BufferViewList\<close>
  made from it.
\<close>

theorem BufferList_is_its_concatenation:
  assumes "BufferList_inv bs"
  shows "BufferList_concatenate (BufferList_append bs other)
      = BufferList_concatenate bs @ BufferList_concatenate other
    \<and> unat (BufferList_size bs) = length (BufferList_concatenate bs)
    \<and> (case BufferList_remove_prefix n bs of
         Inl e \<Rightarrow> length (BufferList_concatenate bs) < unat n \<and> (\<exists>m. e = Out_Of_Range m)
       | Inr bs' \<Rightarrow> unat n \<le> length (BufferList_concatenate bs) \<and> BufferList_inv bs'
           \<and> BufferList_concatenate bs' = drop (unat n) (BufferList_concatenate bs)
           \<and> BufferViewList_remove_prefix n (BufferViewList_of_BufferList bs)
               = Inr (BufferViewList_of_BufferList bs'))"
proof -
  have i: "\<forall>b \<in> set bs. Buffer_inv b" and f: "fits (BufferList_concatenate bs)"
    using assms by (simp_all add: BufferList_inv_def)
  show ?thesis
  proof (cases "BufferList_remove_prefix n bs")
    case (Inl e)
    then have "\<not> unat n \<le> length (BufferList_concatenate bs)"
      using buffers.discard_iff[OF assms, of n] by auto
    moreover from this have "\<exists>m. e = Out_Of_Range m"
      using buffers.discard_short[OF assms, of n] Inl by auto
    ultimately show ?thesis using Inl f
      by (simp add: BufferList_append_def BufferList_size_eq unat_size_of)
  next
    case (Inr bs')
    then show ?thesis
      using buffers.discard_iff[OF assms, of n] buffers.discard_view[OF assms Inr]
        BufferList_remove_prefix_views[OF i, of n] f
      by (simp add: BufferList_append_def BufferList_size_eq unat_size_of)
  qed
qed

theorem BufferList_is_its_concatenation_witness:
  "unat (BufferList_size [Buffer_of_string [1, 2], Buffer_of_string [3, 4]]) = 4
   \<and> (case BufferList_remove_prefix 3 [Buffer_of_string [1, 2], Buffer_of_string [3, 4]] of
        Inl e \<Rightarrow> False | Inr bs' \<Rightarrow> BufferList_concatenate bs' = [4])"
proof -
  let ?bs = "[Buffer_of_string [1, 2], Buffer_of_string [3, 4]]"
  have i: "BufferList_inv ?bs" by (simp add: BufferList_inv_def fits_def)
  show ?thesis
    using BufferList_is_its_concatenation[OF i, of "[]" 3]
    by (cases "BufferList_remove_prefix 3 ?bs") (simp_all del: BufferList_remove_prefix.simps BufferList_size.simps)
qed

end
