(* ===== verification/Net_Parser.thy ===== *)
theory Net_Parser
  imports Net_Buffer
begin

text \<open>
  \<^verbatim>\<open>libsponge/util/parser.{hh,cc}\<close>: \<^verbatim>\<open>NetParser\<close> reads big-endian integers off the front of a
  \<^verbatim>\<open>Buffer\<close> and remembers an error; \<^verbatim>\<open>NetUnparser\<close> writes them. The templates \<^verbatim>\<open>_parse_int<T>\<close> and
  \<^verbatim>\<open>_unparse_int<T>\<close> are definitions over any word length. The interface \<open>wire_int\<close> is what the
  header codecs use of one integer width.
\<close>

section \<open>The model\<close>

datatype ParseResult = NoError | BadChecksum | PacketTooShort | WrongIPVersion | HeaderTooShort
  | TruncatedPacket | Unsupported

text \<open>
  \<^verbatim>\<open>as_string\<close> indexes an array of six names; the seventh enumerator is out of its range.
\<close>

definition as_string :: "ParseResult \<Rightarrow> string result" where
  "as_string r =
     (let names = [''NoError'', ''BadChecksum'', ''PacketTooShort'', ''WrongIPVersion'',
                   ''HeaderTooShort'', ''TruncatedPacket''];
          i = (case r of NoError \<Rightarrow> 0 | BadChecksum \<Rightarrow> 1 | PacketTooShort \<Rightarrow> 2 | WrongIPVersion \<Rightarrow> 3
               | HeaderTooShort \<Rightarrow> 4 | TruncatedPacket \<Rightarrow> 5 | Unsupported \<Rightarrow> (6::nat))
      in if i < length names then Inr (names ! i) else Inl (Undefined_Behaviour ''_names[r]''))"

record NetParser =
  np_buffer :: Buffer
  np_error :: ParseResult

definition NetParser_new :: "Buffer \<Rightarrow> NetParser" where
  "NetParser_new b = \<lparr>np_buffer = b, np_error = NoError\<rparr>"

definition NetParser_set_error :: "ParseResult \<Rightarrow> NetParser \<Rightarrow> NetParser" where
  "NetParser_set_error r p = p\<lparr>np_error := r\<rparr>"

definition NetParser_error :: "NetParser \<Rightarrow> bool" where
  "NetParser_error p \<longleftrightarrow> np_error p \<noteq> NoError"

definition NetParser_check_size :: "u64 \<Rightarrow> NetParser \<Rightarrow> NetParser" where
  "NetParser_check_size sz p =
     (if sz > Buffer_size (np_buffer p) then NetParser_set_error PacketTooShort p else p)"

text \<open>
  The two calls on the buffer below cannot throw: both come after \<^verbatim>\<open>_check_size\<close>, whose guard is
  that of \<^verbatim>\<open>Buffer::remove_prefix\<close> (lemma \<open>check_size_safe\<close>).
\<close>

definition NetParser_discard :: "u64 \<Rightarrow> NetParser \<Rightarrow> NetParser" where
  "NetParser_discard n p =
     (case Buffer_remove_prefix n (np_buffer p) of Inl e \<Rightarrow> p | Inr b \<Rightarrow> p\<lparr>np_buffer := b\<rparr>)"

definition NetParser_parse_int :: "NetParser \<Rightarrow> 'a::len word \<times> NetParser" where
  "NetParser_parse_int p =
     (let len = LENGTH('a) div 8; p = NetParser_check_size (of_nat len) p
      in if NetParser_error p then (0, p)
         else (foldl (\<lambda>ret i. push_bit 8 ret + ucast (Buffer_str (np_buffer p) ! i)) 0 [0..<len],
               NetParser_discard (of_nat len) p))"

definition NetParser_u8 :: "NetParser \<Rightarrow> u8 \<times> NetParser" where
  "NetParser_u8 = NetParser_parse_int"

definition NetParser_u16 :: "NetParser \<Rightarrow> u16 \<times> NetParser" where
  "NetParser_u16 = NetParser_parse_int"

definition NetParser_u32 :: "NetParser \<Rightarrow> u32 \<times> NetParser" where
  "NetParser_u32 = NetParser_parse_int"

definition NetParser_remove_prefix :: "u64 \<Rightarrow> NetParser \<Rightarrow> NetParser" where
  "NetParser_remove_prefix n p =
     (let p = NetParser_check_size n p in if NetParser_error p then p else NetParser_discard n p)"

definition NetUnparser_unparse_int :: "bytes \<Rightarrow> 'a::len word \<Rightarrow> bytes" where
  "NetUnparser_unparse_int s val =
     (let len = LENGTH('a) div 8
      in s @ map (\<lambda>i. ucast (and (drop_bit ((len - i - 1) * 8) val) 0xff)) [0..<len])"

definition NetUnparser_u8 :: "bytes \<Rightarrow> u8 \<Rightarrow> bytes" where
  "NetUnparser_u8 = NetUnparser_unparse_int"

definition NetUnparser_u16 :: "bytes \<Rightarrow> u16 \<Rightarrow> bytes" where
  "NetUnparser_u16 = NetUnparser_unparse_int"

definition NetUnparser_u32 :: "bytes \<Rightarrow> u32 \<Rightarrow> bytes" where
  "NetUnparser_u32 = NetUnparser_unparse_int"

text \<open>
  \<^verbatim>\<open>for (auto &byte : array) byte = p.u8();\<close>, the loop by which the link-layer headers read
  fixed-size arrays.
\<close>

primrec parse_array :: "(NetParser \<Rightarrow> 'w \<times> NetParser) \<Rightarrow> nat \<Rightarrow> NetParser \<Rightarrow> 'w list \<times> NetParser" where
  "parse_array get 0 p = ([], p)"
| "parse_array get (Suc n) p =
     (let (x, p) = get p; (xs, p) = parse_array get n p in (x # xs, p))"

section \<open>Parser states as the bytes left to read\<close>

definition np_view :: "NetParser \<Rightarrow> bytes" where
  "np_view p = Buffer_str (np_buffer p)"

definition np_ok :: "NetParser \<Rightarrow> bool" where
  "np_ok p \<longleftrightarrow> Buffer_inv (np_buffer p)"

lemma np_new [simp]:
  "np_view (NetParser_new b) = Buffer_str b" "np_ok (NetParser_new b) \<longleftrightarrow> Buffer_inv b"
  "np_error (NetParser_new b) = NoError" "np_buffer (NetParser_new b) = b"
  by (simp_all add: np_view_def np_ok_def NetParser_new_def)

lemma np_set_error [simp]:
  "np_view (p\<lparr>np_error := e\<rparr>) = np_view p" "np_ok (p\<lparr>np_error := e\<rparr>) \<longleftrightarrow> np_ok p"
  by (simp_all add: np_view_def np_ok_def)

lemma check_size_safe:
  "np_error (NetParser_check_size n p) = NoError \<Longrightarrow>
    \<exists>b. Buffer_remove_prefix n (np_buffer p) = Inr b"
  by (auto simp: NetParser_check_size_def NetParser_set_error_def Buffer_remove_prefix_def Let_def
      split: if_splits)

lemma np_error_discard [simp]: "np_error (NetParser_discard n p) = np_error p"
  by (simp add: NetParser_discard_def split: sum.splits)

lemma np_ok_discard [simp]: "np_ok p \<Longrightarrow> np_ok (NetParser_discard n p)"
  using buffer.discard_view[of "np_buffer p" n]
  by (auto simp: NetParser_discard_def np_ok_def split: sum.splits)

lemma np_view_discard [simp]:
  "np_ok p \<Longrightarrow> unat n \<le> length (np_view p) \<Longrightarrow> np_view (NetParser_discard n p) = drop (unat n) (np_view p)"
  using buffer.discard_ok[of "np_buffer p" n]
  by (auto simp: NetParser_discard_def np_ok_def np_view_def)

lemma check_size_eq:
  "np_ok p \<Longrightarrow> NetParser_check_size n p =
    (if length (np_view p) < unat n then p\<lparr>np_error := PacketTooShort\<rparr> else p)"
  by (simp add: NetParser_check_size_def np_ok_def np_view_def word_less_nat_alt unat_Buffer_size
      NetParser_set_error_def)

lemma remove_prefix_eq:
  "np_ok p \<Longrightarrow> np_error p = NoError \<Longrightarrow> unat n \<le> length (np_view p) \<Longrightarrow>
    NetParser_remove_prefix n p = NetParser_discard n p"
  by (simp add: NetParser_remove_prefix_def check_size_eq NetParser_error_def)

lemma remove_prefix_short:
  "np_ok p \<Longrightarrow> length (np_view p) < unat n \<Longrightarrow>
    NetParser_remove_prefix n p = p\<lparr>np_error := PacketTooShort\<rparr>"
  by (simp add: NetParser_remove_prefix_def check_size_eq NetParser_error_def)

text \<open>A parser without an error that has exactly the bytes \<open>bs\<close> left.\<close>

definition np_at :: "NetParser \<Rightarrow> bytes \<Rightarrow> bool" where
  "np_at p bs \<longleftrightarrow> np_ok p \<and> np_error p = NoError \<and> np_view p = bs"

lemma np_at_new [simp]: "np_at (NetParser_new b) bs \<longleftrightarrow> Buffer_inv b \<and> Buffer_str b = bs"
  by (simp add: np_at_def)

lemma np_at_discard: "np_at p bs \<Longrightarrow> unat n \<le> length bs \<Longrightarrow> np_at (NetParser_discard n p) (drop (unat n) bs)"
  by (simp add: np_at_def)

lemma np_at_remove_prefix:
  "np_at p bs \<Longrightarrow> unat n \<le> length bs \<Longrightarrow> np_at (NetParser_remove_prefix n p) (drop (unat n) bs)"
  by (simp add: np_at_def remove_prefix_eq)

text \<open>
  What is left after any sequence of reads: \<open>Some bs\<close>, the bytes not yet read, or \<open>None\<close> once a read
  has run out of them.
\<close>

definition np_is :: "NetParser \<Rightarrow> bytes option \<Rightarrow> bool" where
  "np_is p left = (case left of Some bs \<Rightarrow> np_at p bs | None \<Rightarrow> np_ok p \<and> np_error p = PacketTooShort)"

definition advance :: "nat \<Rightarrow> bytes option \<Rightarrow> bytes option" where
  "advance n left = (case left of None \<Rightarrow> None | Some bs \<Rightarrow> if n \<le> length bs then Some (drop n bs) else None)"

lemma advance_advance [simp]: "advance m (advance n left) = advance (n + m) left"
  by (auto simp: advance_def add.commute split: option.splits)

lemma advance_Some [simp]: "n \<le> length bs \<Longrightarrow> advance n (Some bs) = Some (drop n bs)"
  by (simp add: advance_def)

lemma advance_short [simp]: "length bs < n \<Longrightarrow> advance n (Some bs) = None"
  by (simp add: advance_def)

lemma np_is_Some [simp]: "np_is p (Some bs) = np_at p bs"
  by (simp add: np_is_def)

lemma np_is_error: "np_is p left \<Longrightarrow> np_error p = (if left = None then PacketTooShort else NoError)"
  by (auto simp: np_is_def np_at_def split: option.splits)

lemma set_error_same: "np_error p = e \<Longrightarrow> p\<lparr>np_error := e\<rparr> = p"
  by auto

lemma np_is_remove_prefix:
  "np_is p left \<Longrightarrow> np_is (NetParser_remove_prefix n p) (advance (unat n) left)"
  by (auto simp: np_is_def np_at_def advance_def remove_prefix_eq remove_prefix_short
      NetParser_remove_prefix_def check_size_eq NetParser_error_def split: option.splits)

section \<open>Integers on the wire\<close>

definition int_of_bytes :: "bytes \<Rightarrow> 'a::len word" where
  "int_of_bytes bs = foldl (\<lambda>ret b. push_bit 8 ret + ucast b) 0 bs"

lemma foldl_nth_take:
  "n \<le> length xs \<Longrightarrow> foldl (\<lambda>a i. f a (xs ! i)) z [0..<n] = foldl f z (take n xs)"
  by (induction n) (simp_all add: take_Suc_conv_app_nth)

lemma parse_int_eq:
  fixes p :: NetParser
  assumes "np_ok p" and "np_error p = NoError" and "LENGTH('a::len) div 8 \<le> length (np_view p)"
  shows "(NetParser_parse_int p :: 'a word \<times> NetParser)
    = (int_of_bytes (take (LENGTH('a) div 8) (np_view p)), NetParser_discard (of_nat (LENGTH('a) div 8)) p)"
proof -
  let ?n = "LENGTH('a) div 8"
  have "fits (np_view p)" using assms(1) by (simp add: np_ok_def np_view_def Buffer_str_fits)
  then have "unat (of_nat ?n :: u64) = ?n" using assms(3) by (intro unat_of_nat64) (simp add: fits_def)
  then show ?thesis using assms foldl_nth_take[OF assms(3), of "\<lambda>ret b. push_bit 8 ret + ucast b" "0 :: 'a word"]
    by (simp add: NetParser_parse_int_def check_size_eq NetParser_error_def int_of_bytes_def np_view_def
        Let_def)
qed

lemma parse_int_short:
  assumes "np_ok p" and "length (np_view p) < LENGTH('a::len) div 8" and "LENGTH('a) div 8 < 2 ^ 64"
  shows "(NetParser_parse_int p :: 'a word \<times> NetParser) = (0, p\<lparr>np_error := PacketTooShort\<rparr>)"
  using assms by (simp add: NetParser_parse_int_def check_size_eq NetParser_error_def unat_of_nat64)

lemmas wire_get_eq =
  parse_int_eq[where 'a = 8, folded NetParser_u8_def, simplified]
  parse_int_eq[where 'a = 16, folded NetParser_u16_def, simplified]
  parse_int_eq[where 'a = 32, folded NetParser_u32_def, simplified]

lemmas wire_get_short =
  parse_int_short[where 'a = 8, folded NetParser_u8_def, simplified]
  parse_int_short[where 'a = 16, folded NetParser_u16_def, simplified]
  parse_int_short[where 'a = 32, folded NetParser_u32_def, simplified]

lemma parse_int_stuck:
  "np_error p = PacketTooShort \<Longrightarrow> NetParser_parse_int p = (0, p)"
  by (simp add: NetParser_parse_int_def NetParser_check_size_def NetParser_set_error_def
      NetParser_error_def set_error_same Let_def)

lemmas wire_get_stuck =
  parse_int_stuck[where 'a = 8, folded NetParser_u8_def]
  parse_int_stuck[where 'a = 16, folded NetParser_u16_def]
  parse_int_stuck[where 'a = 32, folded NetParser_u32_def]

lemma upt_wire: "[0..<2] = [0, 1 :: nat]" "[0..<4] = [0, 1, 2, 3 :: nat]"
  by (simp_all add: upt_rec)

lemma wire_put_eq:
  "NetUnparser_u8 s a = s @ [a]"
  "NetUnparser_u16 s b = s @ [ucast (drop_bit 8 b), ucast b]"
  "NetUnparser_u32 s c = s @ [ucast (drop_bit 24 c), ucast (drop_bit 16 c), ucast (drop_bit 8 c), ucast c]"
proof -
  have m: "(ucast (and x 0xff) :: u8) = ucast x" for x :: "'b::len word"
  proof -
    have "(0xff :: 'b word) = mask 8" by (simp add: mask_eq_exp_minus_1)
    then show ?thesis by (simp add: bit_eq_iff bit_ucast_iff bit_and_iff bit_mask_iff)
        (metis bit_imp_le_length bit_word_ucast_iff linorder_not_less)
  qed
  show "NetUnparser_u8 s a = s @ [a]"
    using m[of a] by (simp add: NetUnparser_u8_def NetUnparser_unparse_int_def Let_def)
  show "NetUnparser_u16 s b = s @ [ucast (drop_bit 8 b), ucast b]"
    by (simp add: NetUnparser_u16_def NetUnparser_unparse_int_def Let_def m upt_wire)
  show "NetUnparser_u32 s c = s @ [ucast (drop_bit 24 c), ucast (drop_bit 16 c), ucast (drop_bit 8 c), ucast c]"
    by (simp add: NetUnparser_u32_def NetUnparser_unparse_int_def Let_def m upt_wire)
qed

lemma ucast_byte: "(ucast (ucast (x :: 'a::len word) :: u8) :: 'a word) = take_bit 8 x"
  by (rule bit_eqI) (auto simp: bit_ucast_iff bit_take_bit_iff)

lemma join_bytes:
  "push_bit 8 (drop_bit (n + 8) (x :: 'a::len word)) + take_bit 8 (drop_bit n x) = drop_bit n x"
  using bits_ident[of 8 "drop_bit n x"] by (simp add: drop_bit_drop_bit add.commute)

lemma int_of_bytes_16 [simp]:
  "int_of_bytes [ucast (drop_bit 8 (b :: u16)), ucast b] = b"
proof -
  have "take_bit 8 (drop_bit 8 b) = drop_bit 8 b"
    by (rule bit_eqI) (auto simp: bit_take_bit_iff bit_drop_bit_eq dest: bit_imp_le_length)
  then show ?thesis using join_bytes[of 0 b] by (simp add: int_of_bytes_def ucast_byte)
qed

lemma int_of_bytes_32 [simp]:
  "int_of_bytes [ucast (drop_bit 24 (c :: u32)), ucast (drop_bit 16 c), ucast (drop_bit 8 c), ucast c] = c"
proof -
  have "take_bit 8 (drop_bit 24 c) = drop_bit 24 c"
    by (rule bit_eqI) (auto simp: bit_take_bit_iff bit_drop_bit_eq dest: bit_imp_le_length)
  then show ?thesis using join_bytes[of 0 c] join_bytes[of 8 c] join_bytes[of 16 c]
    by (simp add: int_of_bytes_def ucast_byte)
qed

lemma int_of_bytes_8 [simp]: "int_of_bytes [a :: u8] = a"
  by (simp add: int_of_bytes_def)

section \<open>The interface of one integer width\<close>

locale wire_int =
  fixes width :: nat and put :: "bytes \<Rightarrow> 'w::zero \<Rightarrow> bytes" and get :: "NetParser \<Rightarrow> 'w \<times> NetParser"
  assumes put_append: "put s v = s @ put [] v"
    and put_length: "length (put [] v) = width"
    and get_put: "np_at p (put [] v @ rest) \<Longrightarrow> \<exists>p'. get p = (v, p') \<and> np_at p' rest"
    and get_advance: "np_is p left \<Longrightarrow> np_is (snd (get p)) (advance width left)"
begin

lemma put_fold: "foldl put s vs = s @ concat (map (put []) vs)"
proof (induction vs arbitrary: s)
  case (Cons v vs)
  then show ?case using put_append[of s v] by simp
qed simp

lemma get_fst: "np_at p (put [] v @ rest) \<Longrightarrow> fst (get p) = v"
  using get_put by fastforce

lemma get_snd: "np_at p (put [] v @ rest) \<Longrightarrow> np_at (snd (get p)) rest"
  using get_put by fastforce

lemma array_advance: "np_is p left \<Longrightarrow> np_is (snd (parse_array get n p)) (advance (n * width) left)"
proof (induction n arbitrary: p left)
  case 0
  then show ?case by (cases left) (simp_all add: advance_def)
next
  case (Suc n)
  from Suc.IH[OF get_advance[OF Suc.prems]] show ?case by (simp add: split_beta)
qed

lemma array_put:
  "np_at p (concat (map (put []) vs) @ rest) \<Longrightarrow>
    \<exists>p'. parse_array get (length vs) p = (vs, p') \<and> np_at p' rest"
proof (induction vs arbitrary: p)
  case (Cons v vs)
  then obtain q where q: "get p = (v, q)" "np_at q (concat (map (put []) vs) @ rest)"
    using get_put[of p v "concat (map (put []) vs) @ rest"] by auto
  with Cons.IH[of q] show ?case by auto
qed simp

end

interpretation wire8: wire_int 1 NetUnparser_u8 NetParser_u8
  by unfold_locales (auto simp: wire_put_eq wire_get_eq wire_get_short wire_get_stuck np_at_def np_is_def
      advance_def Suc_le_eq split: option.splits)

interpretation wire16: wire_int 2 NetUnparser_u16 NetParser_u16
  by unfold_locales (auto simp: wire_put_eq wire_get_eq wire_get_short wire_get_stuck np_at_def np_is_def
      advance_def split: option.splits)

interpretation wire32: wire_int 4 NetUnparser_u32 NetParser_u32
  by unfold_locales (auto simp: wire_put_eq wire_get_eq wire_get_short wire_get_stuck np_at_def np_is_def
      advance_def split: option.splits)

lemma u8_nth: "np_at p (drop i bs) \<Longrightarrow> i < length bs \<Longrightarrow> fst (NetParser_u8 p) = bs ! i"
  using wire8.get_fst[of p "bs ! i" "drop (Suc i) bs"] by (simp add: Cons_nth_drop_Suc wire_put_eq)

section \<open>Properties\<close>

text \<open>
  Printing a parse result reads past the end of the table of names for exactly one of the
  results the parsers can return, \<^verbatim>\<open>ParseResult::Unsupported\<close>, and gives the enumerator's own name
  for every other one, distinct results having distinct names.
\<close>

theorem as_string_Unsupported:
  "((\<exists>m. as_string r = Inl (Undefined_Behaviour m)) \<longleftrightarrow> r = Unsupported)
   \<and> (as_string r = as_string r' \<longleftrightarrow> r = r')"
  by (cases r; cases r') (simp_all add: as_string_def)

end
