(* ===== verification/Internet_Checksum.thy ===== *)
theory Internet_Checksum
  imports Net_Parser
begin

text \<open>
  \<^verbatim>\<open>InternetChecksum\<close> of \<^verbatim>\<open>libsponge/util/util.{hh,cc}\<close>: a 32-bit running sum of big-endian 16-bit
  words with a byte parity, folded to 16 bits and complemented by \<^verbatim>\<open>value()\<close>. The reference is
  the ones'-complement sum over the naturals; the carries of the folding loop are arithmetic
  modulo 65535.
\<close>

section \<open>The model\<close>

record InternetChecksum =
  ck_sum :: u32
  ck_parity :: bool

definition InternetChecksum_new :: "u32 \<Rightarrow> InternetChecksum" where
  "InternetChecksum_new initial_sum = \<lparr>ck_sum = initial_sum, ck_parity = False\<rparr>"

primrec InternetChecksum_add :: "bytes \<Rightarrow> InternetChecksum \<Rightarrow> InternetChecksum" where
  "InternetChecksum_add [] c = c"
| "InternetChecksum_add (b # data) c =
     (let val = (ucast b :: u16); val = (if \<not> ck_parity c then push_bit 8 val else val)
      in InternetChecksum_add data \<lparr>ck_sum = ck_sum c + ucast val, ck_parity = \<not> ck_parity c\<rparr>)"

lemma and_ffff: "and (r :: u32) 0xffff = take_bit 16 r"
proof -
  have "(0xffff :: u32) = mask 16" by (simp add: mask_eq_exp_minus_1)
  then show ?thesis by (simp add: take_bit_eq_mask)
qed

lemma unat_take16: "unat (and (r :: u32) 0xffff) = unat r mod 65536"
  by (simp add: and_ffff unsigned_take_bit_eq) (simp add: take_bit_eq_mod)

lemma unat_drop16: "unat (drop_bit 16 (r :: u32)) = unat r div 65536"
  by (simp add: drop_bit_eq_div unat_div)

lemma carry_unat:
  "unat (drop_bit 16 (r :: u32) + and r 0xffff) = unat r div 65536 + unat r mod 65536"
proof -
  have "unat r div 65536 < 65536" using unat32_bound[of r] by simp
  moreover have "unat r mod 65536 < 65536" by simp
  ultimately have "unat r div 65536 + unat r mod 65536 < 2 ^ LENGTH(32)" by simp
  then show ?thesis using unat_drop16[of r] unat_take16[of r] unat_add_lt[of "drop_bit 16 r" "and r 0xffff"]
    by simp
qed

function cksum_fold :: "u32 \<Rightarrow> u32" where
  "cksum_fold ret = (if ret > 0xffff then cksum_fold (drop_bit 16 ret + and ret 0xffff) else ret)"
  by auto

termination
proof (relation "measure unat", simp)
  fix ret :: u32 assume "ret > 0xffff"
  then have "unat ret > 65535" by (simp add: word_less_nat_alt)
  then have "unat ret div 65536 > 0" by (simp add: div_greater_zero_iff)
  moreover have "unat ret = 65536 * (unat ret div 65536) + unat ret mod 65536" by simp
  ultimately have "unat ret div 65536 + unat ret mod 65536 < unat ret" by linarith
  then show "(drop_bit 16 ret + and ret 0xffff, ret) \<in> measure unat" using carry_unat[of ret] by simp
qed

declare cksum_fold.simps [simp del]

definition InternetChecksum_value :: "InternetChecksum \<Rightarrow> u16" where
  "InternetChecksum_value c = ucast (not (cksum_fold (ck_sum c)))"

section \<open>The ones'-complement reference\<close>

fun ones_sum :: "bool \<Rightarrow> bytes \<Rightarrow> nat" where
  "ones_sum odd_byte [] = 0"
| "ones_sum odd_byte (b # bs) = (if odd_byte then unat b else 256 * unat b) + ones_sum (\<not> odd_byte) bs"

definition ones_residue :: "nat \<Rightarrow> nat" where
  "ones_residue n = (if n = 0 then 0 else (n - 1) mod 65535 + 1)"

lemma residue_small: "n \<le> 65535 \<Longrightarrow> ones_residue n = n"
  by (simp add: ones_residue_def)

lemma residue_carry: "n > 65535 \<Longrightarrow> ones_residue (n div 65536 + n mod 65536) = ones_residue n"
proof -
  assume "n > 65535"
  then have "n div 65536 \<noteq> 0" by simp
  then obtain q where q: "n div 65536 = Suc q" by (cases "n div 65536") auto
  have n: "n = 65536 * Suc q + n mod 65536" using q by (metis mult_div_mod_eq)
  have "n - 1 = (n div 65536 + n mod 65536 - 1) + 65535 * Suc q" using n q by simp
  then have "(n - 1) mod 65535 = (n div 65536 + n mod 65536 - 1) mod 65535"
    by (metis mod_mult_self2)
  then show ?thesis using q \<open>n > 65535\<close> by (simp add: ones_residue_def)
qed

lemma cksum_fold_residue: "unat (cksum_fold r) = ones_residue (unat r)"
proof (induction r rule: cksum_fold.induct)
  case (1 r)
  show ?case
  proof (cases "r > 0xffff")
    case True
    then have "unat r > 65535" by (simp add: word_less_nat_alt)
    then show ?thesis using 1[OF True] True residue_carry[of "unat r"] carry_unat[of r]
      by (subst cksum_fold.simps) simp
  next
    case False
    then have "unat r \<le> 65535" by (simp add: word_less_nat_alt)
    then show ?thesis using False residue_small[of "unat r"] by (subst cksum_fold.simps) simp
  qed
qed

lemma residue_le: "ones_residue n \<le> 65535"
  by (simp add: ones_residue_def Suc_le_eq)

lemma InternetChecksum_value_eq:
  "unat (InternetChecksum_value c) = 65535 - ones_residue (unat (ck_sum c))"
proof -
  let ?r = "cksum_fold (ck_sum c)"
  have le: "unat ?r \<le> 65535" using cksum_fold_residue[of "ck_sum c"] residue_le by simp
  have "not ?r = (- 1) - ?r" by (simp add: not_eq_complement)
  then have "unat (not ?r) = 2 ^ 32 - 1 - unat ?r" by (simp add: unat_sub_le unsigned_minus_1_eq_mask mask_eq_exp_minus_1)
  also have "\<dots> mod 65536 = 65535 - unat ?r"
  proof -
    have "(2 ^ 32 - 1 - unat ?r :: nat) = (65535 - unat ?r) + 65536 * 65535" using le by simp
    then show ?thesis by (simp only: mod_mult_self2) simp
  qed
  finally have m: "unat (not ?r) mod 65536 = 65535 - unat ?r" .
  have "unat (ucast (not ?r) :: u16) = unat (not ?r) mod 65536"
    by (simp add: unsigned_ucast_eq take_bit_eq_mod)
  then show ?thesis using m cksum_fold_residue[of "ck_sum c"] by (simp add: InternetChecksum_value_def)
qed

lemma add_sum:
  "ck_sum (InternetChecksum_add data c) = ck_sum c + of_nat (ones_sum (ck_parity c) data)"
proof (induction data arbitrary: c)
  case (Cons b data)
  have s: "(ucast (push_bit 8 (ucast b :: u16)) :: u32) = of_nat (256 * unat b)"
  proof (rule word_unat_eq_iff[THEN iffD2])
    have b: "unat b < 256" using unat8_bound[of b] by simp
    have p: "unat (push_bit 8 (ucast b :: u16)) = unat b * 256"
      using b by (simp add: push_bit_eq_mult unat_word_ariths unat_ucast_up)
    show "unat (ucast (push_bit 8 (ucast b :: u16)) :: u32) = unat (of_nat (256 * unat b) :: u32)"
      using b p unat_of_nat_lt[where 'a = 32, of "256 * unat b"]
      by (simp add: unat_ucast_up del: of_nat_mult)
  qed
  have t: "(ucast (ucast b :: u16) :: u32) = of_nat (unat b)"
    by (rule unat_eq_of_nat) (simp add: unat_ucast_up)
  show ?case using Cons.IH s t by (simp add: Let_def)
qed simp

lemma add_parity: "ck_parity (InternetChecksum_add data c) = (ck_parity c \<noteq> odd (length data))"
  by (induction data arbitrary: c) (auto simp: Let_def)

lemma ones_sum_append: "ones_sum p (xs @ ys) = ones_sum p xs + ones_sum (p \<noteq> odd (length xs)) ys"
  by (induction p xs rule: ones_sum.induct) auto

lemma add_append: "InternetChecksum_add (xs @ ys) c = InternetChecksum_add ys (InternetChecksum_add xs c)"
  by (induction xs arbitrary: c) (simp_all add: Let_def)

lemma ones_sum_word: "ones_sum False [ucast (drop_bit 8 k), ucast k] = unat (k :: u16)"
proof -
  have "unat (ucast (drop_bit 8 k) :: u8) = unat k div 256"
  proof -
    have "unat k div 256 < 256" using unat16_bound[of k] by simp
    then show ?thesis by (simp add: unsigned_ucast_eq drop_bit_eq_div unat_div take_bit_eq_mod)
  qed
  moreover have "unat (ucast k :: u8) = unat k mod 256"
    by (simp add: unsigned_ucast_eq take_bit_eq_mod)
  ultimately show ?thesis by simp
qed

lemma residue_complement: "ones_residue (n + (65535 - ones_residue n)) = 65535"
proof (cases "n = 0")
  case False
  have "n = ones_residue n + 65535 * ((n - 1) div 65535)"
    using False mult_div_mod_eq[of 65535 "n - 1"] by (simp add: ones_residue_def)
  then have "n + (65535 - ones_residue n) = 65535 * ((n - 1) div 65535) + 65535"
    using residue_le[of n] by linarith
  moreover have "ones_residue (65535 * q + 65535) = 65535" for q
  proof -
    have "65535 * q + 65535 - 1 = 65534 + 65535 * q" by simp
    then have "(65535 * q + 65535 - 1) mod 65535 = 65534" by (simp only: mod_mult_self2) simp
    then show ?thesis by (simp add: ones_residue_def)
  qed
  ultimately show ?thesis by simp
qed (simp add: ones_residue_def)

lemma sum_no_overflow:
  "unat (init :: u32) + ones_sum p d < 2 ^ 32 \<Longrightarrow>
    unat (init + of_nat (ones_sum p d)) = unat init + ones_sum p d"
  using unat_of_nat_lt[where 'a = 32, of "ones_sum p d"] unat_add_lt[of init "of_nat (ones_sum p d)"]
  by simp

lemma checksum_insert:
  fixes init :: u32
  assumes "even (length pre)"
    and "unat init + ones_sum False (pre @ [0, 0] @ post) + 65535 < 2 ^ 32"
    and "k = InternetChecksum_value (InternetChecksum_add (pre @ [0, 0] @ post) (InternetChecksum_new init))"
  shows "InternetChecksum_value
      (InternetChecksum_add (NetUnparser_u16 pre k @ post) (InternetChecksum_new init)) = 0"
proof -
  let ?S = "unat init + ones_sum False (pre @ [0, 0] @ post)"
  have "unat k = 65535 - ones_residue ?S"
    using assms(3) sum_no_overflow[of init False "pre @ [0, 0] @ post"] assms(2)
    by (simp add: InternetChecksum_value_eq add_sum InternetChecksum_new_def)
  moreover have t: "unat init + ones_sum False (NetUnparser_u16 pre k @ post) = ?S + unat k"
    using assms(1) ones_sum_word[of k] by (simp add: wire_put_eq ones_sum_append)
  moreover have "unat init + ones_sum False (NetUnparser_u16 pre k @ post) < 2 ^ 32"
    using assms(2) t unat16_bound[of k] by simp
  ultimately have "unat (InternetChecksum_value (InternetChecksum_add (NetUnparser_u16 pre k @ post)
      (InternetChecksum_new init))) = 0"
    using sum_no_overflow[of init False "NetUnparser_u16 pre k @ post"] residue_complement[of ?S]
    by (simp add: InternetChecksum_value_eq add_sum InternetChecksum_new_def add.assoc)
  then show ?thesis by (simp add: unat_eq_0)
qed

lemma checksum_zero_iff:
  "InternetChecksum_value c = 0 \<longleftrightarrow> ck_sum c \<noteq> 0 \<and> unat (ck_sum c) mod 65535 = 0"
proof -
  have "ones_residue n = 65535 \<longleftrightarrow> n \<noteq> 0 \<and> n mod 65535 = 0" for n
    unfolding ones_residue_def by (cases n) (simp_all add: mod_Suc)
  then show ?thesis using InternetChecksum_value_eq[of c] residue_le[of "unat (ck_sum c)"]
    by (metis diff_is_0_eq le_antisym unat_eq_0 diff_self_eq_0)
qed

text \<open>A bound on the sum that holds for anything that fits in an IP datagram.\<close>

lemma ones_sum_le: "ones_sum p d \<le> 65280 * length d"
proof (induction p d rule: ones_sum.induct)
  case (2 p b bs)
  have "unat b \<le> 255" using unat8_bound[of b] by simp
  then show ?case using 2 by (cases p) simp_all
qed simp

section \<open>Properties\<close>

text \<open>
  The Internet checksum verifies: computed over data whose checksum field, at an even offset,
  is zero, and then written there in network order, it makes the checksum of the whole zero, for
  any initial sum, as long as the 32-bit accumulator does not overflow; and in general a checksum
  is zero exactly when the ones'-complement sum is a nonzero multiple of 65535, so every change
  of the data that alters the sum modulo 65535 is detected.
\<close>

theorem InternetChecksum_verifies:
  fixes init :: u32
  assumes "even (length pre)"
    and "unat init + ones_sum False (pre @ [0, 0] @ post) + 65535 < 2 ^ 32"
    and "k = InternetChecksum_value (InternetChecksum_add (pre @ [0, 0] @ post) (InternetChecksum_new init))"
  shows "InternetChecksum_value
      (InternetChecksum_add (NetUnparser_u16 pre k @ post) (InternetChecksum_new init)) = 0
    \<and> (InternetChecksum_value c = 0 \<longleftrightarrow> ck_sum c \<noteq> 0 \<and> unat (ck_sum c) mod 65535 = 0)"
  using checksum_insert[OF assms] checksum_zero_iff[of c] by (rule conjI)

theorem InternetChecksum_verifies_witness:
  "InternetChecksum_value (InternetChecksum_add (NetUnparser_u16 [69, 0]
     (InternetChecksum_value (InternetChecksum_add [69, 0, 0, 0, 7] (InternetChecksum_new 255))) @ [7])
     (InternetChecksum_new 255)) = 0"
  using InternetChecksum_verifies[of "[69, 0]" 255 "[7]" _ "InternetChecksum_new 0", OF _ _ refl] by simp

text \<open>
  C34. \<^verbatim>\<open>InternetChecksum::value()\<close> is the ones'-complement checksum: the folding loop terminates on
  every sum, and the value is the 16-bit complement of the ones'-complement residue of the initial
  sum plus the big-endian 16-bit words of all the data added, in however many pieces it was added.
\<close>

theorem InternetChecksum_value_spec:
  assumes "unat init + ones_sum False (concat pieces) < 2 ^ 32"
  shows "unat (InternetChecksum_value (fold InternetChecksum_add pieces (InternetChecksum_new init)))
    = 65535 - ones_residue (unat init + ones_sum False (concat pieces))"
proof -
  have "fold InternetChecksum_add pieces c = InternetChecksum_add (concat pieces) c" for c
    by (induction pieces arbitrary: c) (simp_all add: add_append)
  moreover have "unat (init + of_nat (ones_sum False (concat pieces)))
      = unat init + ones_sum False (concat pieces)"
    using assms unat_of_nat_lt[where 'a = 32, of "ones_sum False (concat pieces)"]
      unat_add_lt[of init "of_nat (ones_sum False (concat pieces))"] by simp
  ultimately show ?thesis by (simp add: InternetChecksum_value_eq add_sum InternetChecksum_new_def)
qed

theorem InternetChecksum_value_spec_witness:
  "unat (InternetChecksum_value (fold InternetChecksum_add [[255], [255, 1]] (InternetChecksum_new 1))) = 65278"
  using InternetChecksum_value_spec[of 1 "[[255], [255, 1]]"] by (simp add: ones_residue_def)

end
