(* ===== verification/TCP_Header.thy ===== *)
theory TCP_Header
  imports Wrapping_Integers Internet_Checksum
begin

text \<open>
  \<^verbatim>\<open>libsponge/tcp_helpers/tcp_header.{hh,cc}\<close> and \<^verbatim>\<open>tcp_segment.{hh,cc}\<close>: the header record, its
  parser and serializer, and segments with their checksum over the pseudo-header.
\<close>

section \<open>The header\<close>

record TCPHeader =
  tcp_sport :: u16
  tcp_dport :: u16
  tcp_seqno :: WrappingInt32
  tcp_ackno :: WrappingInt32
  tcp_doff :: u8
  tcp_urg :: bool
  tcp_ack :: bool
  tcp_psh :: bool
  tcp_rst :: bool
  tcp_syn :: bool
  tcp_fin :: bool
  tcp_win :: u16
  tcp_cksum :: u16
  tcp_uptr :: u16

definition TCPHeader_default :: TCPHeader where
  "TCPHeader_default =
     \<lparr>tcp_sport = 0, tcp_dport = 0, tcp_seqno = WrappingInt32 0, tcp_ackno = WrappingInt32 0,
      tcp_doff = 5, tcp_urg = False, tcp_ack = False, tcp_psh = False, tcp_rst = False,
      tcp_syn = False, tcp_fin = False, tcp_win = 0, tcp_cksum = 0, tcp_uptr = 0\<rparr>"

text \<open>Every field is assigned before any return, so the header's earlier contents do not matter.\<close>

definition TCPHeader_parse :: "NetParser \<Rightarrow> ParseResult \<times> TCPHeader \<times> NetParser" where
  "TCPHeader_parse p =
     (let (sport, p) = NetParser_u16 p;
          (dport, p) = NetParser_u16 p;
          (seqno, p) = NetParser_u32 p;
          (ackno, p) = NetParser_u32 p;
          (doff_b, p) = NetParser_u8 p;
          doff = drop_bit 4 doff_b;
          (fl_b, p) = NetParser_u8 p;
          (win, p) = NetParser_u16 p;
          (cksum, p) = NetParser_u16 p;
          (uptr, p) = NetParser_u16 p;
          h = \<lparr>tcp_sport = sport, tcp_dport = dport, tcp_seqno = WrappingInt32 seqno,
               tcp_ackno = WrappingInt32 ackno, tcp_doff = doff,
               tcp_urg = (and fl_b 32 \<noteq> 0), tcp_ack = (and fl_b 16 \<noteq> 0),
               tcp_psh = (and fl_b 8 \<noteq> 0), tcp_rst = (and fl_b 4 \<noteq> 0),
               tcp_syn = (and fl_b 2 \<noteq> 0), tcp_fin = (and fl_b 1 \<noteq> 0),
               tcp_win = win, tcp_cksum = cksum, tcp_uptr = uptr\<rparr>
      in if doff < 5 then (HeaderTooShort, h, p)
         else let p = NetParser_remove_prefix (ucast doff * 4 - 20) p
              in if NetParser_error p then (np_error p, h, p) else (NoError, h, p))"

text \<open>\<^verbatim>\<open>std::string::resize\<close>: truncate, or pad with zero bytes.\<close>

definition string_resize :: "nat \<Rightarrow> bytes \<Rightarrow> bytes" where
  "string_resize n s = take n s @ replicate (n - length s) 0"

definition TCPHeader_flags :: "TCPHeader \<Rightarrow> u8" where
  "TCPHeader_flags h =
     or (if tcp_urg h then 32 else 0) (or (if tcp_ack h then 16 else 0) (or (if tcp_psh h then 8 else 0)
       (or (if tcp_rst h then 4 else 0) (or (if tcp_syn h then 2 else 0) (if tcp_fin h then 1 else 0)))))"

definition TCPHeader_serialize :: "TCPHeader \<Rightarrow> bytes result" where
  "TCPHeader_serialize h =
     (if tcp_doff h < 5 then Inl (Runtime_Error ''TCP header too short'')
      else let ret = NetUnparser_u16 [] (tcp_sport h);
               ret = NetUnparser_u16 ret (tcp_dport h);
               ret = NetUnparser_u32 ret (raw_value (tcp_seqno h));
               ret = NetUnparser_u32 ret (raw_value (tcp_ackno h));
               ret = NetUnparser_u8 ret (push_bit 4 (tcp_doff h));
               ret = NetUnparser_u8 ret (TCPHeader_flags h);
               ret = NetUnparser_u16 ret (tcp_win h);
               ret = NetUnparser_u16 ret (tcp_cksum h);
               ret = NetUnparser_u16 ret (tcp_uptr h)
           in Inr (string_resize (4 * unat (tcp_doff h)) ret))"

definition TCPHeader_eq :: "TCPHeader \<Rightarrow> TCPHeader \<Rightarrow> bool" where
  "TCPHeader_eq h other \<longleftrightarrow>
     tcp_seqno h = tcp_seqno other \<and> tcp_ackno h = tcp_ackno other \<and> tcp_doff h = tcp_doff other
     \<and> tcp_urg h = tcp_urg other \<and> tcp_ack h = tcp_ack other \<and> tcp_psh h = tcp_psh other
     \<and> tcp_rst h = tcp_rst other \<and> tcp_syn h = tcp_syn other \<and> tcp_fin h = tcp_fin other
     \<and> tcp_win h = tcp_win other \<and> tcp_uptr h = tcp_uptr other"

section \<open>Segments\<close>

record TCPSegment =
  seg_header :: TCPHeader
  seg_payload :: Buffer

definition TCPSegment_default :: TCPSegment where
  "TCPSegment_default = \<lparr>seg_header = TCPHeader_default, seg_payload = Buffer_default\<rparr>"

text \<open>\<^verbatim>\<open>parse\<close> leaves the segment as it was when the checksum is bad.\<close>

definition TCPSegment_parse :: "Buffer \<Rightarrow> u32 \<Rightarrow> TCPSegment \<Rightarrow> ParseResult \<times> TCPSegment" where
  "TCPSegment_parse buf datagram_layer_checksum seg =
     (let check = InternetChecksum_add (Buffer_str buf) (InternetChecksum_new datagram_layer_checksum)
      in if InternetChecksum_value check \<noteq> 0 then (BadChecksum, seg)
         else let (_, h, p) = TCPHeader_parse (NetParser_new buf)
              in (np_error p, \<lparr>seg_header = h, seg_payload = np_buffer p\<rparr>))"

definition TCPSegment_length_in_sequence_space :: "TCPSegment \<Rightarrow> u64" where
  "TCPSegment_length_in_sequence_space seg =
     size_of (Buffer_str (seg_payload seg)) + (if tcp_syn (seg_header seg) then 1 else 0)
     + (if tcp_fin (seg_header seg) then 1 else 0)"

definition TCPSegment_serialize :: "u32 \<Rightarrow> TCPSegment \<Rightarrow> BufferList result" where
  "TCPSegment_serialize datagram_layer_checksum seg =
     (let header_out = (seg_header seg)\<lparr>tcp_cksum := 0\<rparr>
      in bind_result (TCPHeader_serialize header_out) (\<lambda>s.
         let check = InternetChecksum_add s (InternetChecksum_new datagram_layer_checksum);
             check = InternetChecksum_add (Buffer_str (seg_payload seg)) check;
             header_out = header_out\<lparr>tcp_cksum := InternetChecksum_value check\<rparr>
         in map_result (\<lambda>s. BufferList_append (BufferList_append [] (BufferList_of_string s))
                              (BufferList_of_Buffer (seg_payload seg)))
              (TCPHeader_serialize header_out)))"

section \<open>Parsing what was serialized\<close>

definition tcp_fixed_part :: "TCPHeader \<Rightarrow> bytes" where
  "tcp_fixed_part h =
     NetUnparser_u16 [] (tcp_sport h) @ NetUnparser_u16 [] (tcp_dport h)
     @ NetUnparser_u32 [] (raw_value (tcp_seqno h)) @ NetUnparser_u32 [] (raw_value (tcp_ackno h))
     @ [push_bit 4 (tcp_doff h), TCPHeader_flags h] @ NetUnparser_u16 [] (tcp_win h)"

definition tcp_bytes :: "TCPHeader \<Rightarrow> bytes" where
  "tcp_bytes h = tcp_fixed_part h @ NetUnparser_u16 [] (tcp_cksum h) @ NetUnparser_u16 [] (tcp_uptr h)
     @ replicate (4 * unat (tcp_doff h) - 20) 0"

lemma length_tcp_fixed_part [simp]: "length (tcp_fixed_part h) = 16"
  by (simp add: tcp_fixed_part_def wire_put_eq)

lemma length_tcp_bytes: "5 \<le> tcp_doff h \<Longrightarrow> length (tcp_bytes h) = 4 * unat (tcp_doff h)"
  by (simp add: tcp_bytes_def wire_put_eq word_le_nat_alt)

lemma TCPHeader_serialize_eq:
  assumes "5 \<le> tcp_doff h"
  shows "TCPHeader_serialize h = Inr (tcp_bytes h)"
proof -
  let ?s = "tcp_fixed_part h @ NetUnparser_u16 [] (tcp_cksum h) @ NetUnparser_u16 [] (tcp_uptr h)"
  have "length ?s = 20" by (simp add: wire_put_eq)
  then have "string_resize (4 * unat (tcp_doff h)) ?s = ?s @ replicate (4 * unat (tcp_doff h) - 20) 0"
    using assms unfolding string_resize_def by (simp add: word_le_nat_alt)
  moreover have "TCPHeader_serialize h = Inr (string_resize (4 * unat (tcp_doff h)) ?s)"
    using assms unfolding TCPHeader_serialize_def tcp_fixed_part_def wire_put_eq Let_def
    by (simp only: append_assoc append.simps leD if_False)
  ultimately show ?thesis by (simp only: tcp_bytes_def append_assoc)
qed

lemma and_bit:
  "and x 32 \<noteq> 0 \<longleftrightarrow> bit (x :: u8) 5" "and x 16 \<noteq> 0 \<longleftrightarrow> bit x 4" "and x 8 \<noteq> 0 \<longleftrightarrow> bit x 3"
  "and x 4 \<noteq> 0 \<longleftrightarrow> bit x 2" "and x 2 \<noteq> 0 \<longleftrightarrow> bit x 1" "and x 1 \<noteq> 0 \<longleftrightarrow> bit x 0"
  using and_exp_eq_0_iff_not_bit[of x 5] and_exp_eq_0_iff_not_bit[of x 4] and_exp_eq_0_iff_not_bit[of x 3]
    and_exp_eq_0_iff_not_bit[of x 2] and_exp_eq_0_iff_not_bit[of x 1] and_exp_eq_0_iff_not_bit[of x 0]
  by simp_all

lemma flags_bits:
  "bit (TCPHeader_flags h) 5 = tcp_urg h" "bit (TCPHeader_flags h) 4 = tcp_ack h"
  "bit (TCPHeader_flags h) 3 = tcp_psh h" "bit (TCPHeader_flags h) 2 = tcp_rst h"
  "bit (TCPHeader_flags h) (Suc 0) = tcp_syn h" "bit (TCPHeader_flags h) 0 = tcp_fin h"
  unfolding TCPHeader_flags_def bit_or_iff by (auto split: if_splits)

lemma nibble_roundtrip: "d < 16 \<Longrightarrow> drop_bit 4 (push_bit 4 d) = (d :: u8)"
proof -
  assume "d < 16"
  then have "unat d < 16" by (simp add: word_less_nat_alt)
  then have "unat (push_bit 4 d) = unat d * 16" by (simp add: push_bit_eq_mult unat_word_ariths)
  then show ?thesis by (simp add: word_unat_eq_iff drop_bit_eq_div unat_div)
qed

lemma TCPHeader_parse_fixed:
  assumes "np_at p (tcp_fixed_part h @ NetUnparser_u16 [] (tcp_cksum h) @ NetUnparser_u16 [] (tcp_uptr h) @ rest)"
    and "tcp_doff h < 16"
  shows "\<exists>q. np_at q rest \<and> TCPHeader_parse p =
    (if tcp_doff h < 5 then (HeaderTooShort, h, q)
     else let q = NetParser_remove_prefix (ucast (tcp_doff h) * 4 - 20) q in (np_error q, h, q))"
proof -
  have "np_at p (NetUnparser_u16 [] (tcp_sport h) @ NetUnparser_u16 [] (tcp_dport h)
     @ NetUnparser_u32 [] (raw_value (tcp_seqno h)) @ NetUnparser_u32 [] (raw_value (tcp_ackno h))
     @ NetUnparser_u8 [] (push_bit 4 (tcp_doff h)) @ NetUnparser_u8 [] (TCPHeader_flags h)
     @ NetUnparser_u16 [] (tcp_win h) @ NetUnparser_u16 [] (tcp_cksum h) @ NetUnparser_u16 [] (tcp_uptr h) @ rest)"
    using assms(1) by (simp add: tcp_fixed_part_def wire_put_eq)
  note a1 = wire16.get_snd[OF this] and v1 = wire16.get_fst[OF this]
  note a2 = wire16.get_snd[OF a1] and v2 = wire16.get_fst[OF a1]
  note a3 = wire32.get_snd[OF a2] and v3 = wire32.get_fst[OF a2]
  note a4 = wire32.get_snd[OF a3] and v4 = wire32.get_fst[OF a3]
  note a5 = wire8.get_snd[OF a4] and v5 = wire8.get_fst[OF a4]
  note a6 = wire8.get_snd[OF a5] and v6 = wire8.get_fst[OF a5]
  note a7 = wire16.get_snd[OF a6] and v7 = wire16.get_fst[OF a6]
  note a8 = wire16.get_snd[OF a7] and v8 = wire16.get_fst[OF a7]
  note a9 = wire16.get_snd[OF a8] and v9 = wire16.get_fst[OF a8]
  note v = v1 v2 v3 v4 v5 v6 v7 v8 v9
  define q where "q = snd (NetParser_u16 (snd (NetParser_u16 (snd (NetParser_u16 (snd (NetParser_u8
    (snd (NetParser_u8 (snd (NetParser_u32 (snd (NetParser_u32 (snd (NetParser_u16 (snd (NetParser_u16 p)))))))))))))))))"
  have "np_at q rest" unfolding q_def by (rule a9)
  moreover have "TCPHeader_parse p =
    (if tcp_doff h < 5 then (HeaderTooShort, h, q)
     else let q = NetParser_remove_prefix (ucast (tcp_doff h) * 4 - 20) q in (np_error q, h, q))"
    unfolding TCPHeader_parse_def Let_def split_beta v and_bit q_def[symmetric] One_nat_def flags_bits
      nibble_roundtrip[OF assms(2)] WrappingInt32.collapse
    by (simp add: NetParser_error_def)
  ultimately show ?thesis by blast
qed

section \<open>Parsing arbitrary bytes\<close>

lemma TCPHeader_parse_any:
  assumes "np_at p bs"
  shows "\<exists>q. np_is q (advance 20 (Some bs)) \<and>
    (let (r, h, p') = TCPHeader_parse p in
       (20 \<le> length bs \<longrightarrow> tcp_doff h = drop_bit 4 (bs ! 12))
     \<and> (if tcp_doff h < 5 then r = HeaderTooShort \<and> p' = q
        else r = np_error p' \<and> p' = NetParser_remove_prefix (ucast (tcp_doff h) * 4 - 20) q))"
proof -
  note a1 = wire16.get_advance[OF np_is_Some[THEN iffD2, OF assms]]
  note a2 = wire16.get_advance[OF a1]
  note a3 = wire32.get_advance[OF a2]
  note a4 = wire32.get_advance[OF a3]
  note a5 = wire8.get_advance[OF a4]
  note a6 = wire8.get_advance[OF a5]
  note a7 = wire16.get_advance[OF a6]
  note a8 = wire16.get_advance[OF a7]
  note a9 = wire16.get_advance[OF a8]
  define p4 where "p4 = snd (NetParser_u32 (snd (NetParser_u32 (snd (NetParser_u16 (snd (NetParser_u16 p)))))))"
  define q where "q = snd (NetParser_u16 (snd (NetParser_u16 (snd (NetParser_u16 (snd (NetParser_u8
    (snd (NetParser_u8 p4)))))))))"
  have q: "np_is q (advance 20 (Some bs))" using a9 by (simp add: q_def p4_def)
  have "fst (NetParser_u8 p4) = bs ! 12" if "20 \<le> length bs" using a4 that u8_nth[of p4 12 bs] by (simp add: p4_def)
  then show ?thesis using q unfolding TCPHeader_parse_def Let_def split_beta p4_def[symmetric] q_def[symmetric]
    by (intro exI[of _ q]) (simp add: NetParser_error_def)
qed

lemma doff_skip: "5 \<le> d \<Longrightarrow> d < 16 \<Longrightarrow> unat (ucast (d :: u8) * 4 - 20 :: u64) = 4 * unat d - 20"
proof -
  assume d: "5 \<le> d" "d < 16"
  then have n: "5 \<le> unat d" "unat d < 16" by (simp_all add: word_le_nat_alt word_less_nat_alt)
  have m: "unat (ucast d * 4 :: u64) = unat d * 4" using n by (simp add: unat_word_ariths unat_ucast_up)
  then have "(20 :: u64) \<le> ucast d * 4" using n by (simp add: word_le_nat_alt)
  then show ?thesis using m by (simp add: unat_sub_le)
qed

lemma nibble_bound: "drop_bit 4 (b :: u8) < 16"
proof -
  have "unat (drop_bit 4 b) < 16" using unat8_bound[of b] by (simp add: drop_bit_eq_div unat_div)
  then show ?thesis by (simp add: word_less_nat_alt)
qed

lemma TCPHeader_parse_serialized:
  assumes "5 \<le> tcp_doff h" and "tcp_doff h < 16" and "np_at p (tcp_bytes h @ payload)"
  shows "\<exists>q. TCPHeader_parse p = (NoError, h, q) \<and> np_at q payload"
proof -
  let ?pad = "replicate (4 * unat (tcp_doff h) - 20) (0 :: u8)"
  obtain q where q: "np_at q (?pad @ payload)" and e: "TCPHeader_parse p =
      (if tcp_doff h < 5 then (HeaderTooShort, h, q)
       else let q = NetParser_remove_prefix (ucast (tcp_doff h) * 4 - 20) q in (np_error q, h, q))"
    using TCPHeader_parse_fixed[of p h "?pad @ payload"] assms(2,3) by (auto simp: tcp_bytes_def)
  have "np_at (NetParser_remove_prefix (ucast (tcp_doff h) * 4 - 20) q) payload"
    using np_at_remove_prefix[OF q, of "ucast (tcp_doff h) * 4 - 20"] doff_skip[OF assms(1,2)] by simp
  then show ?thesis using e assms(1) by (simp add: Let_def not_less np_at_def)
qed

lemma TCPSegment_serialize_eq:
  assumes "5 \<le> tcp_doff (seg_header seg)"
    and "k = InternetChecksum_value (InternetChecksum_add
      (tcp_bytes ((seg_header seg)\<lparr>tcp_cksum := 0\<rparr>) @ Buffer_str (seg_payload seg)) (InternetChecksum_new ck))"
  shows "TCPSegment_serialize ck seg
    = Inr [Buffer_of_string (tcp_bytes ((seg_header seg)\<lparr>tcp_cksum := k\<rparr>)), seg_payload seg]"
  using assms by (simp add: TCPSegment_serialize_def TCPHeader_serialize_eq add_append Let_def
      BufferList_append_def BufferList_of_string_def BufferList_of_Buffer_def)

text \<open>What \<^verbatim>\<open>serialize\<close> emits has checksum zero.\<close>

lemma TCPSegment_checksum_zero:
  assumes "5 \<le> tcp_doff h" and "tcp_doff h < 16" and "length payload \<le> 65475" and "unat ck < 2 ^ 23"
    and "k = InternetChecksum_value (InternetChecksum_add (tcp_bytes (h\<lparr>tcp_cksum := 0\<rparr>) @ payload)
      (InternetChecksum_new ck))"
  shows "InternetChecksum_value (InternetChecksum_add (tcp_bytes (h\<lparr>tcp_cksum := k\<rparr>) @ payload)
    (InternetChecksum_new ck)) = 0"
proof -
  let ?post = "NetUnparser_u16 [] (tcp_uptr h) @ replicate (4 * unat (tcp_doff h) - 20) 0 @ payload"
  have split: "tcp_bytes (h\<lparr>tcp_cksum := c\<rparr>) @ payload = NetUnparser_u16 (tcp_fixed_part h) c @ ?post" for c
    by (simp add: tcp_bytes_def tcp_fixed_part_def TCPHeader_flags_def wire_put_eq)
  have z: "NetUnparser_u16 (tcp_fixed_part h) 0 @ ?post = tcp_fixed_part h @ [0, 0] @ ?post"
    by (simp add: wire_put_eq)
  have "unat (tcp_doff h) < 16" using assms(2) by (simp add: word_less_nat_alt)
  then have "length (tcp_fixed_part h @ [0, 0] @ ?post) \<le> 65535"
    using assms(3) by (simp add: wire_put_eq)
  then have "ones_sum False (tcp_fixed_part h @ [0, 0] @ ?post) \<le> 65280 * 65535"
    using ones_sum_le[of False "tcp_fixed_part h @ [0, 0] @ ?post"] by linarith
  then have "unat ck + ones_sum False (tcp_fixed_part h @ [0, 0] @ ?post) + 65535 < 2 ^ 32"
    using assms(4) by simp
  then show ?thesis using checksum_insert[of "tcp_fixed_part h" ck ?post k] assms(5) split z by simp
qed

section \<open>Properties\<close>

text \<open>
  The TCP header round trip: every header whose data offset is between 5 and 15 words
  serializes to exactly \<^verbatim>\<open>4 * doff\<close> bytes, and parsing them, whatever payload follows, gives back
  the header, every field of it, with no error and with the payload left to read; a smaller data
  offset is refused by \<^verbatim>\<open>serialize\<close>.
\<close>

theorem TCPHeader_roundtrip:
  assumes "5 \<le> tcp_doff h" and "tcp_doff h < 16" and "length payload < 2 ^ 63" and "tcp_doff bad < 5"
  shows "(\<exists>s q. TCPHeader_serialize h = Inr s \<and> length s = 4 * unat (tcp_doff h)
      \<and> TCPHeader_parse (NetParser_new (Buffer_of_string (s @ payload))) = (NoError, h, q)
      \<and> np_at q payload)
    \<and> TCPHeader_serialize bad = Inl (Runtime_Error ''TCP header too short'')"
proof -
  have "4 * unat (tcp_doff h) < 64" using assms(2) by (simp add: word_less_nat_alt)
  then have "fits (tcp_bytes h @ payload)"
    using length_tcp_bytes[OF assms(1)] assms(3) by (simp add: fits_def)
  then have "\<exists>q. TCPHeader_parse (NetParser_new (Buffer_of_string (tcp_bytes h @ payload))) = (NoError, h, q)
      \<and> np_at q payload"
    by (intro TCPHeader_parse_serialized[OF assms(1,2)]) simp
  then show ?thesis using TCPHeader_serialize_eq[OF assms(1)] length_tcp_bytes[OF assms(1)] assms(4)
    by (auto simp: TCPHeader_serialize_def)
qed

theorem TCPHeader_roundtrip_witness:
  "\<exists>s q. TCPHeader_serialize (TCPHeader_default\<lparr>tcp_doff := 7, tcp_syn := True, tcp_win := 1000\<rparr>) = Inr s
     \<and> length s = 28
     \<and> TCPHeader_parse (NetParser_new (Buffer_of_string (s @ [1, 2])))
         = (NoError, TCPHeader_default\<lparr>tcp_doff := 7, tcp_syn := True, tcp_win := 1000\<rparr>, q)"
  using TCPHeader_roundtrip[of "TCPHeader_default\<lparr>tcp_doff := 7, tcp_syn := True, tcp_win := 1000\<rparr>" "[1, 2]"
      "TCPHeader_default\<lparr>tcp_doff := 3\<rparr>"] by auto

text \<open>
  C31. The TCP segment round trip: a segment that fits in an IP datagram, serialized over any
  pseudo-header checksum, parses back with no error to the same header, up to the checksum field
  that \<^verbatim>\<open>serialize\<close> fills in, and the same payload.
\<close>

theorem TCPSegment_roundtrip:
  assumes "5 \<le> tcp_doff (seg_header seg)" and "tcp_doff (seg_header seg) < 16"
    and "length (Buffer_str (seg_payload seg)) \<le> 65475" and "unat ck < 2 ^ 23"
  shows "\<exists>bl seg' k. TCPSegment_serialize ck seg = Inr bl
    \<and> TCPSegment_parse (Buffer_of_string (BufferList_concatenate bl)) ck seg0 = (NoError, seg')
    \<and> seg_header seg' = (seg_header seg)\<lparr>tcp_cksum := k\<rparr>
    \<and> Buffer_str (seg_payload seg') = Buffer_str (seg_payload seg)
    \<and> TCPSegment_length_in_sequence_space seg' = TCPSegment_length_in_sequence_space seg"
proof -
  let ?h = "seg_header seg" let ?pl = "Buffer_str (seg_payload seg)"
  define k where "k = InternetChecksum_value (InternetChecksum_add (tcp_bytes (?h\<lparr>tcp_cksum := 0\<rparr>) @ ?pl)
    (InternetChecksum_new ck))"
  let ?bytes = "tcp_bytes (?h\<lparr>tcp_cksum := k\<rparr>) @ ?pl"
  have "4 * unat (tcp_doff ?h) < 64" using assms(2) by (simp add: word_less_nat_alt)
  then have "fits ?bytes"
    using length_tcp_bytes[of "?h\<lparr>tcp_cksum := k\<rparr>"] assms(1,3) by (simp add: fits_def)
  then obtain q where "TCPHeader_parse (NetParser_new (Buffer_of_string ?bytes)) = (NoError, ?h\<lparr>tcp_cksum := k\<rparr>, q)"
    and "np_at q ?pl"
    using TCPHeader_parse_serialized[of "?h\<lparr>tcp_cksum := k\<rparr>" "NetParser_new (Buffer_of_string ?bytes)" ?pl]
      assms(1,2) by auto
  then show ?thesis
    using TCPSegment_serialize_eq[OF assms(1) k_def] TCPSegment_checksum_zero[OF assms k_def]
    by (simp add: TCPSegment_parse_def np_at_def np_view_def TCPSegment_length_in_sequence_space_def)
      (rule exI[of _ k], rule refl)
qed

theorem TCPSegment_roundtrip_witness:
  "\<exists>bl seg'. TCPSegment_serialize 42 \<lparr>seg_header = TCPHeader_default\<lparr>tcp_fin := True\<rparr>,
       seg_payload = Buffer_of_string [104, 105]\<rparr> = Inr bl
     \<and> TCPSegment_parse (Buffer_of_string (BufferList_concatenate bl)) 42 TCPSegment_default = (NoError, seg')
     \<and> Buffer_str (seg_payload seg') = [104, 105]"
  using TCPSegment_roundtrip[of "\<lparr>seg_header = TCPHeader_default\<lparr>tcp_fin := True\<rparr>,
    seg_payload = Buffer_of_string [104, 105]\<rparr>" 42 TCPSegment_default] by (auto simp: TCPHeader_default_def)

text \<open>
  What \<^verbatim>\<open>TCPSegment::parse\<close> returns on any bytes: \<^verbatim>\<open>BadChecksum\<close>, the segment untouched, when the
  checksum does not verify; \<^verbatim>\<open>PacketTooShort\<close> when there are fewer than 20 bytes or fewer than the
  data offset claims; and otherwise \<^verbatim>\<open>NoError\<close>, the payload being what follows the header. It never
  returns \<^verbatim>\<open>HeaderTooShort\<close>: a data offset below 5 words, which \<^verbatim>\<open>TCPHeader::parse\<close> refuses, is
  accepted, because only the parser's own error is returned.
\<close>

theorem TCPSegment_parse_result:
  assumes "Buffer_inv buf"
  defines "bs \<equiv> Buffer_str buf"
  defines "doff \<equiv> drop_bit 4 (bs ! 12)"
  shows "(let (r, seg') = TCPSegment_parse buf ck seg in
    if InternetChecksum_value (InternetChecksum_add bs (InternetChecksum_new ck)) \<noteq> 0
    then r = BadChecksum \<and> seg' = seg
    else if length bs < 20 \<or> length bs < 4 * unat doff then r = PacketTooShort
    else r = NoError \<and> tcp_doff (seg_header seg') = doff
       \<and> Buffer_str (seg_payload seg') = drop (if doff < 5 then 20 else 4 * unat doff) bs
       \<and> fst (TCPHeader_parse (NetParser_new buf)) = (if doff < 5 then HeaderTooShort else NoError))"
proof -
  obtain r h p where P: "TCPHeader_parse (NetParser_new buf) = (r, h, p)" by (metis prod_cases3)
  have at: "np_at (NetParser_new buf) bs" using assms(1) by (simp add: bs_def)
  obtain q where q: "np_is q (advance 20 (Some bs))"
    and d: "20 \<le> length bs \<Longrightarrow> tcp_doff h = doff"
    and e: "if tcp_doff h < 5 then r = HeaderTooShort \<and> p = q
      else r = np_error p \<and> p = NetParser_remove_prefix (ucast (tcp_doff h) * 4 - 20) q"
    using TCPHeader_parse_any[OF at] P by (auto simp: doff_def)
  have lt: "doff < 16" unfolding doff_def by (rule nibble_bound)
  consider "length bs < 20" | "20 \<le> length bs" "doff < 5" | "20 \<le> length bs" "\<not> doff < 5" by linarith
  then show ?thesis
  proof cases
    case 1
    then have "np_is q None" using q by simp
    then have "np_is p None" using e np_is_remove_prefix[of q None "ucast (tcp_doff h) * 4 - 20"]
      by (auto simp: advance_def split: if_splits)
    then show ?thesis using 1 P np_is_error[of p None] by (simp add: TCPSegment_parse_def bs_def)
  next
    case 2
    then have "np_at p (drop 20 bs)" using q d e by simp
    moreover have "4 * unat doff < 20" using 2 by (simp add: word_less_nat_alt)
    ultimately show ?thesis using 2 P d e
      by (simp add: TCPSegment_parse_def bs_def np_at_def np_view_def)
  next
    case 3
    then have n: "unat (ucast doff * 4 - 20 :: u64) = 4 * unat doff - 20" "5 \<le> unat doff"
      using doff_skip lt by (simp_all add: not_less word_le_nat_alt)
    have "np_is p (advance (4 * unat doff) (Some bs))"
      using np_is_remove_prefix[OF q, of "ucast doff * 4 - 20"] n 3 d e by (simp del: advance_Some)
    then show ?thesis using 3 P d e n np_is_error[of p]
      by (cases "length bs < 4 * unat doff")
        (auto simp: TCPSegment_parse_def bs_def np_at_def np_view_def)
  qed
qed

theorem TCPSegment_parse_result_witness:
  "(let (r, seg') = TCPSegment_parse (Buffer_of_string [0, 0, 0, 0, 0, 0, 0, 0, 0, 0, 0, 0, 64, 0, 0, 0, 191, 255, 0, 0]) 0
      TCPSegment_default in r = NoError)
   \<and> fst (TCPHeader_parse (NetParser_new (Buffer_of_string
      [0, 0, 0, 0, 0, 0, 0, 0, 0, 0, 0, 0, 64, 0, 0, 0, 191, 255, 0, 0]))) = HeaderTooShort"
proof -
  let ?b = "Buffer_of_string [0, 0, 0, 0, 0, 0, 0, 0, 0, 0, 0, 0, 64, 0, 0, 0, 191, 255, 0, 0]"
  have i: "Buffer_inv ?b" by (simp add: fits_def)
  have ck: "InternetChecksum_value (InternetChecksum_add (Buffer_str ?b) (InternetChecksum_new 0)) = 0"
    by (simp add: checksum_zero_iff add_sum InternetChecksum_new_def)
  have n: "Buffer_str ?b ! 12 = 64" "length (Buffer_str ?b) = 20" by simp_all
  have d: "drop_bit 4 (64 :: u8) = 4" by simp
  show ?thesis using TCPSegment_parse_result[OF i, of 0 TCPSegment_default] ck
    unfolding n d by (auto simp: split_beta Let_def)
qed

end
