(* ===== verification/Stream_Segments.thy ===== *)
theory Stream_Segments
  imports Stream_Reassembler TCP_Header
begin

text \<open>
  The contract between the two ends of a connection: what it means that a segment belongs to a
  byte stream \<open>S\<close> numbered from an initial sequence number. The SYN has the sequence number
  \<open>isn\<close> and byte \<open>i\<close> of the stream has \<open>isn + 1 + i\<close>. The sender is shown to emit such segments
  only, the receiver to reassemble the stream from them.
\<close>

definition stream_segment :: "bytes \<Rightarrow> WrappingInt32 \<Rightarrow> nat \<Rightarrow> TCPSegment \<Rightarrow> bool" where
  "stream_segment S isn i seg \<longleftrightarrow>
     (let h = seg_header seg; data = Buffer_str (seg_payload seg)
      in (tcp_syn h \<longrightarrow> i = 0 \<and> tcp_seqno h = isn)
         \<and> (data \<noteq> [] \<and> \<not> tcp_syn h \<longrightarrow> tcp_seqno h = wrap (of_nat (i + 1)) isn)
         \<and> excerpt S data (of_nat i))"

lemma excerpt_append: "excerpt S data i \<Longrightarrow> excerpt (S @ T) data i"
  unfolding excerpt_def by (elim disjE) auto

lemma stream_segment_append: "stream_segment S isn i seg \<Longrightarrow> stream_segment (S @ T) isn i seg"
  by (auto simp: stream_segment_def Let_def excerpt_append)

text \<open>It depends on the sequence number, the SYN flag and the payload only.\<close>

lemma stream_segment_cong:
  assumes "tcp_seqno (seg_header seg') = tcp_seqno (seg_header seg)"
    and "tcp_syn (seg_header seg') = tcp_syn (seg_header seg)"
    and "Buffer_str (seg_payload seg') = Buffer_str (seg_payload seg)"
  shows "stream_segment S isn i seg' = stream_segment S isn i seg"
  using assms by (simp add: stream_segment_def Let_def)

end
