(* ===== verification/TCP_Receiver.thy ===== *)
theory TCP_Receiver
  imports Stream_Segments
begin

text \<open>
  \<^verbatim>\<open>libsponge/tcp_receiver.{hh,cc}\<close>: the receiver finds the stream index of each segment by
  unwrapping its sequence number, pushes the payload into its reassembler, and reports the
  acknowledgment number and the window.
\<close>

section \<open>The model\<close>

record TCPReceiver =
  rx_reassembler :: StreamReassembler
  rx_capacity :: u64
  rx_is_syn :: bool
  rx_is_fin :: bool
  rx_isn :: WrappingInt32

definition TCPReceiver_new :: "u64 \<Rightarrow> TCPReceiver" where
  "TCPReceiver_new capacity =
     \<lparr>rx_reassembler = StreamReassembler_new capacity, rx_capacity = capacity, rx_is_syn = False,
      rx_is_fin = False, rx_isn = WrappingInt32 0\<rparr>"

definition TCPReceiver_stream_out :: "TCPReceiver \<Rightarrow> ByteStream" where
  "TCPReceiver_stream_out r = sr_output (rx_reassembler r)"

definition TCPReceiver_first_unassembled :: "TCPReceiver \<Rightarrow> u64" where
  "TCPReceiver_first_unassembled r = ByteStream_bytes_written (TCPReceiver_stream_out r)"

definition TCPReceiver_unassembled_bytes :: "TCPReceiver \<Rightarrow> u64" where
  "TCPReceiver_unassembled_bytes r = StreamReassembler_unassembled_bytes (rx_reassembler r)"

definition TCPReceiver_segment_received :: "TCPSegment \<Rightarrow> TCPReceiver \<Rightarrow> TCPReceiver result" where
  "TCPReceiver_segment_received seg r =
     (let header = seg_header seg; syn = tcp_syn header; fin = tcp_fin header; seqno = tcp_seqno header;
          r = (if \<not> rx_is_syn r \<and> syn then r\<lparr>rx_is_syn := True, rx_isn := seqno\<rparr> else r)
      in if \<not> rx_is_syn r then Inr r
         else let r = (if fin then r\<lparr>rx_is_fin := True\<rparr> else r);
                  data = Buffer_copy (seg_payload seg);
                  stream_index = unwrap (WrappingInt32_plus seqno (if syn then 1 else 0)) (rx_isn r)
                                   (TCPReceiver_first_unassembled r) - 1
              in map_result (\<lambda>ra. r\<lparr>rx_reassembler := ra\<rparr>)
                   (StreamReassembler_push_substring data stream_index fin (rx_reassembler r)))"

definition TCPReceiver_ackno :: "TCPReceiver \<Rightarrow> WrappingInt32 option" where
  "TCPReceiver_ackno r =
     (if \<not> rx_is_syn r then None
      else let abs_seqno = (if rx_is_syn r then 1 else 0) + TCPReceiver_first_unassembled r
             + (if rx_is_fin r \<and> StreamReassembler_empty (rx_reassembler r) then 1 else 0)
           in Some (wrap abs_seqno (rx_isn r)))"

definition TCPReceiver_window_size :: "TCPReceiver \<Rightarrow> u64" where
  "TCPReceiver_window_size r = rx_capacity r - ByteStream_buffer_size (TCPReceiver_stream_out r)"

text \<open>The application reads through \<^verbatim>\<open>stream_out()\<close>.\<close>

definition TCPReceiver_read :: "u64 \<Rightarrow> TCPReceiver \<Rightarrow> bytes \<times> TCPReceiver" where
  "TCPReceiver_read n r =
     (let (d, out) = ByteStream_read n (TCPReceiver_stream_out r)
      in (d, r\<lparr>rx_reassembler := (rx_reassembler r)\<lparr>sr_output := out\<rparr>\<rparr>))"

text \<open>A connection that is reset marks the stream: \<^verbatim>\<open>stream_out().set_error()\<close>.\<close>

definition TCPReceiver_set_error :: "TCPReceiver \<Rightarrow> TCPReceiver" where
  "TCPReceiver_set_error r =
     r\<lparr>rx_reassembler := (rx_reassembler r)\<lparr>sr_output := ByteStream_set_error (TCPReceiver_stream_out r)\<rparr>\<rparr>"

section \<open>The invariant\<close>

definition TCPReceiver_inv :: "TCPReceiver \<Rightarrow> bool" where
  "TCPReceiver_inv r \<longleftrightarrow> StreamReassembler_inv (rx_reassembler r) \<and> rx_capacity r = sr_capacity (rx_reassembler r)"

lemma push_capacity:
  assumes "StreamReassembler_push_substring data index eof r = Inr r'"
  shows "sr_capacity r' = sr_capacity r"
  using assms by (auto simp: StreamReassembler_push_substring_def bind_result_Inr_iff Let_def split: if_splits)

lemma rx_new_inv: "capacity \<noteq> 0 \<Longrightarrow> TCPReceiver_inv (TCPReceiver_new capacity)"
  using new_inv by (simp add: TCPReceiver_inv_def TCPReceiver_new_def StreamReassembler_new_def)

lemma segment_received_safe:
  assumes "TCPReceiver_inv r"
  shows "\<exists>r'. TCPReceiver_segment_received seg r = Inr r' \<and> TCPReceiver_inv r'
    \<and> rx_is_syn r' = (rx_is_syn r \<or> tcp_syn (seg_header seg)) \<and> rx_capacity r' = rx_capacity r"
proof -
  have "\<exists>ra. StreamReassembler_push_substring d i f (rx_reassembler r) = Inr ra \<and> StreamReassembler_inv ra
      \<and> sr_capacity ra = sr_capacity (rx_reassembler r)" for d i f
    using push_confined[of "rx_reassembler r" d i f] push_capacity assms by (auto simp: TCPReceiver_inv_def)
  moreover obtain i where "i = unwrap (WrappingInt32_plus (tcp_seqno (seg_header seg))
      (if tcp_syn (seg_header seg) then 1 else 0)) (if rx_is_syn r then rx_isn r else tcp_seqno (seg_header seg))
      (TCPReceiver_first_unassembled r) - 1" by simp
  ultimately obtain ra where
    "StreamReassembler_push_substring (Buffer_copy (seg_payload seg)) i (tcp_fin (seg_header seg)) (rx_reassembler r) = Inr ra"
    "StreamReassembler_inv ra" "sr_capacity ra = sr_capacity (rx_reassembler r)"
    and i: "i = unwrap (WrappingInt32_plus (tcp_seqno (seg_header seg))
      (if tcp_syn (seg_header seg) then 1 else 0)) (if rx_is_syn r then rx_isn r else tcp_seqno (seg_header seg))
      (TCPReceiver_first_unassembled r) - 1" by blast
  then show ?thesis using assms
    by (cases "rx_is_syn r"; cases "tcp_syn (seg_header seg)"; cases "tcp_fin (seg_header seg)")
      (simp_all add: TCPReceiver_segment_received_def TCPReceiver_first_unassembled_def
        TCPReceiver_stream_out_def TCPReceiver_inv_def)
qed

lemma rx_read_inv: "TCPReceiver_inv r \<Longrightarrow> TCPReceiver_inv (snd (TCPReceiver_read n r))"
  using read_output_inv[of "rx_reassembler r" n]
  by (simp add: TCPReceiver_inv_def TCPReceiver_read_def TCPReceiver_stream_out_def split_beta)

lemma set_error_bs [simp]:
  "bs_buffer (ByteStream_set_error s) = bs_buffer s" "bs_capacity (ByteStream_set_error s) = bs_capacity s"
  "bs_input_ended (ByteStream_set_error s) = bs_input_ended s"
  "bs_bytes_read (ByteStream_set_error s) = bs_bytes_read s"
  "bs_bytes_written (ByteStream_set_error s) = bs_bytes_written s"
  by (simp_all add: ByteStream_set_error_def)

lemma rx_error_inv: "TCPReceiver_inv r \<Longrightarrow> TCPReceiver_inv (TCPReceiver_set_error r)"
  using set_error_inv[of "sr_output (rx_reassembler r)"]
  by (simp add: TCPReceiver_set_error_def TCPReceiver_stream_out_def TCPReceiver_inv_def StreamReassembler_inv_def
      sr_window_def)

lemma unat_window_size:
  "TCPReceiver_inv r \<Longrightarrow> unat (TCPReceiver_window_size r) = sr_window (rx_reassembler r)"
proof -
  assume "TCPReceiver_inv r"
  then have i: "StreamReassembler_inv (rx_reassembler r)" "bs_capacity (sr_output (rx_reassembler r)) = rx_capacity r"
    by (simp_all add: TCPReceiver_inv_def StreamReassembler_inv_def)
  then show ?thesis using remaining_window[OF i(1)]
    by (simp add: TCPReceiver_window_size_def TCPReceiver_stream_out_def ByteStream_remaining_capacity_def)
qed

datatype rx_op = Rx_Segment TCPSegment | Rx_Read u64

fun rx_step :: "TCPReceiver \<Rightarrow> rx_op \<Rightarrow> TCPReceiver result" where
  "rx_step r (Rx_Segment seg) = TCPReceiver_segment_received seg r"
| "rx_step r (Rx_Read n) = Inr (snd (TCPReceiver_read n r))"

interpretation rx: safe_machine rx_step TCPReceiver_inv "\<lambda>_. True"
proof (unfold_locales, goal_cases)
  case (1 r x)
  then show ?case using segment_received_safe[OF 1(1)] by (cases x) (auto simp: rx_read_inv)
qed

lemma rx_run_syn:
  assumes "TCPReceiver_inv r0"
  shows "\<exists>r. run_events rx_step r0 ops = Inr r \<and> TCPReceiver_inv r \<and> rx_capacity r = rx_capacity r0
    \<and> (rx_is_syn r \<longleftrightarrow> rx_is_syn r0 \<or> (\<exists>seg. Rx_Segment seg \<in> set ops \<and> tcp_syn (seg_header seg)))"
  using assms
proof (induction ops arbitrary: r0)
  case (Cons x ops)
  show ?case
  proof (cases x)
    case (Rx_Segment seg)
    then obtain r1 where "rx_step r0 x = Inr r1" "TCPReceiver_inv r1" "rx_capacity r1 = rx_capacity r0"
      "rx_is_syn r1 = (rx_is_syn r0 \<or> tcp_syn (seg_header seg))"
      using segment_received_safe[OF Cons.prems, of seg] by auto
    with Cons.IH[of r1] Rx_Segment show ?thesis by auto
  next
    case (Rx_Read n)
    have "rx_capacity (snd (TCPReceiver_read n r0)) = rx_capacity r0"
      "rx_is_syn (snd (TCPReceiver_read n r0)) = rx_is_syn r0"
      by (simp_all add: TCPReceiver_read_def split_beta)
    with Cons.IH[OF rx_read_inv[OF Cons.prems], of n] Rx_Read show ?thesis by auto
  qed
qed simp

section \<open>A peer that sends one stream\<close>

text \<open>
  The states of a receiver whose peer sends segments of the stream \<open>S\<close> only, in any order, lost or
  repeated, each starting (if it has a payload) less than \<open>2 ^ 31\<close> from the receiver's first unassembled byte; \<open>D\<close> is
  what the application has read.
\<close>

inductive rx_session :: "bytes \<Rightarrow> WrappingInt32 \<Rightarrow> u64 \<Rightarrow> TCPReceiver \<Rightarrow> bytes \<Rightarrow> bool"
  for S :: bytes and isn :: WrappingInt32 and capacity :: u64 where
  session_start: "rx_session S isn capacity (TCPReceiver_new capacity) []"
| session_segment: "rx_session S isn capacity r' D"
    if "rx_session S isn capacity r D" and "stream_segment S isn i seg"
      and "Buffer_str (seg_payload seg) \<noteq> [] \<longrightarrow>
        \<bar>int i + 1 - int (unat (TCPReceiver_first_unassembled r))\<bar> < 2 ^ 31"
      and "TCPReceiver_segment_received seg r = Inr r'"
| session_read: "rx_session S isn capacity (snd (TCPReceiver_read n r)) (D @ fst (TCPReceiver_read n r))"
    if "rx_session S isn capacity r D"
| session_error: "rx_session S isn capacity (TCPReceiver_set_error r) D" if "rx_session S isn capacity r D"

lemma stream_segment_index:
  assumes "stream_segment S isn i seg" and "Buffer_str (seg_payload seg) \<noteq> []" and "i < 2 ^ 64 - 1" and "unat cp < 2 ^ 63"
    and "\<bar>int i + 1 - int (unat cp)\<bar> < 2 ^ 31"
  shows "unwrap (WrappingInt32_plus (tcp_seqno (seg_header seg)) (if tcp_syn (seg_header seg) then 1 else 0)) isn cp - 1
    = of_nat i"
proof -
  have u: "unat (of_nat (i + 1) :: u64) = i + 1" using assms(3) by (intro unat_of_nat64) simp
  have "WrappingInt32_plus (tcp_seqno (seg_header seg)) (if tcp_syn (seg_header seg) then 1 else 0)
      = wrap (of_nat (i + 1)) isn"
    using assms(1,2) by (auto simp: stream_segment_def wrap_def WrappingInt32_plus_def Let_def split: if_splits)
  moreover have "unwrap (wrap (of_nat (i + 1)) isn) isn cp = of_nat (i + 1)"
    using assms(4,5) u by (intro unwrap_wrap_near) simp_all
  ultimately show ?thesis by simp
qed

lemma delivering_error:
  assumes "delivering S D ra"
  shows "delivering S D (ra\<lparr>sr_output := ByteStream_set_error (sr_output ra)\<rparr>)"
proof -
  let ?ra = "ra\<lparr>sr_output := ByteStream_set_error (sr_output ra)\<rparr>"
  have "held ?ra = held ra" "agrees f ?ra = agrees f ra" "sr_written ?ra = sr_written ra" for f
    by (simp_all add: held_def agrees_def sr_written_def)
  moreover have "StreamReassembler_inv ra \<Longrightarrow> StreamReassembler_inv ?ra"
    using set_error_inv[of "sr_output ra"] by (simp add: StreamReassembler_inv_def sr_window_def)
  ultimately show ?thesis using assms by (simp add: delivering_def)
qed

lemma session_delivering:
  assumes "rx_session S isn capacity r D" and "capacity \<noteq> 0" and "length S + unat capacity < 2 ^ 63"
  shows "delivering S D (rx_reassembler r) \<and> (rx_is_syn r \<longrightarrow> rx_isn r = isn) \<and> TCPReceiver_inv r"
  using assms
proof (induction rule: rx_session.induct)
  case session_start
  then show ?case using delivering_new[of capacity S] rx_new_inv[of capacity]
    by (simp add: TCPReceiver_new_def)
next
  case (session_segment r D i seg r')
  then have d: "delivering S D (rx_reassembler r)" and n: "rx_is_syn r \<longrightarrow> rx_isn r = isn"
    and inv: "TCPReceiver_inv r" by simp_all
  let ?h = "seg_header seg" and ?data = "Buffer_str (seg_payload seg)"
  have x: "excerpt S ?data (of_nat i)" and syn: "tcp_syn ?h \<Longrightarrow> tcp_seqno ?h = isn"
    using session_segment(2) by (auto simp: stream_segment_def Let_def)
  show ?case
  proof (cases "rx_is_syn r \<or> tcp_syn ?h")
    case False
    then show ?thesis using session_segment(4) d inv by (simp add: TCPReceiver_segment_received_def)
  next
    case True
    let ?j = "unwrap (WrappingInt32_plus (tcp_seqno ?h) (if tcp_syn ?h then 1 else 0)) isn
        (TCPReceiver_first_unassembled r) - 1"
    have w: "unat (TCPReceiver_first_unassembled r) \<le> length S"
      using d by (simp add: delivering_def sr_written_def TCPReceiver_first_unassembled_def
          TCPReceiver_stream_out_def ByteStream_accessors)
    then have wi: "int (unat (TCPReceiver_first_unassembled r)) \<le> int (length S)" by (simp only: of_nat_le_iff)
    have x': "excerpt S ?data ?j"
    proof (cases "?data = []")
      case False
      then have near: "\<bar>int i + 1 - int (unat (TCPReceiver_first_unassembled r))\<bar> < 2 ^ 31"
        using session_segment(3) by simp
      then have "int i < int (length S) + 2 ^ 31" using wi by linarith
      then have il: "i < 2 ^ 64 - 1" using session_segment(7) by simp
      have "?j = of_nat i"
        using w session_segment(7) by (intro stream_segment_index[OF session_segment(2) False il _ near]) simp
      then show ?thesis using x by simp
    qed (simp add: excerpt_def)
    obtain ra where ra: "StreamReassembler_push_substring ?data ?j (tcp_fin ?h) (rx_reassembler r) = Inr ra"
      and d': "delivering S D ra" using delivering_push[OF d x'] by blast
    have "rx_reassembler r' = ra" "rx_isn r' = isn"
      using True n syn ra session_segment(4)
      by (auto simp: TCPReceiver_segment_received_def Let_def Buffer_copy_def TCPReceiver_first_unassembled_def
          TCPReceiver_stream_out_def split: if_splits)
    then show ?thesis using d' segment_received_safe[OF inv, of seg] session_segment(4) by auto
  qed
next
  case (session_read r D n)
  then show ?case using delivering_read[of S D "rx_reassembler r" n] rx_read_inv[of r n]
    by (simp add: TCPReceiver_read_def TCPReceiver_stream_out_def split_beta)
next
  case (session_error r D)
  then show ?case using rx_error_inv[of r] delivering_error[of S D "rx_reassembler r"]
    by (simp add: TCPReceiver_set_error_def TCPReceiver_stream_out_def)
qed

lemma push_empty:
  assumes "StreamReassembler_inv r"
  shows "\<exists>r'. StreamReassembler_push_substring [] index eof r = Inr r'
    \<and> bs_bytes_written (sr_output r') = bs_bytes_written (sr_output r)
    \<and> sr_unassembled_bytes r' = sr_unassembled_bytes r
    \<and> bs_buffer (sr_output r') = bs_buffer (sr_output r)"
proof -
  have len: "length (sr_buffer r) = unat (sr_capacity r)" "length (sr_state r) = unat (sr_capacity r)"
    and w: "\<forall>i < length (sr_state r). sr_state r ! i \<longrightarrow> i < sr_window r"
    and hd: "takeWhile (\<lambda>b. b) (sr_state r) = []"
    using assms by (auto simp: StreamReassembler_inv_def takeWhile_eq_Nil_iff)
  show ?thesis using push_eq[OF assms _ len w, of index "[]" _ eof] push_result_output[OF assms len(1), of 0]
    by (auto simp: hd push_result_def Let_def)
qed

section \<open>Properties\<close>

text \<open>
  The receiver never fails and its window is right: after any sequence of segments, with any
  headers and payloads, and reads, no undefined behaviour was reached, the invariant holds, and
  \<^verbatim>\<open>window_size()\<close> is the capacity minus the bytes assembled but not read, with no wrap-around;
  there is an acknowledgment number exactly if one of the segments was a SYN.
\<close>

theorem TCPReceiver_never_fails:
  assumes "capacity \<noteq> 0"
  shows "\<exists>r. run_events rx_step (TCPReceiver_new capacity) ops = Inr r \<and> TCPReceiver_inv r
    \<and> unat (TCPReceiver_window_size r) + length (bs_buffer (TCPReceiver_stream_out r)) = unat capacity
    \<and> (TCPReceiver_ackno r \<noteq> None \<longleftrightarrow> (\<exists>seg. Rx_Segment seg \<in> set ops \<and> tcp_syn (seg_header seg)))"
proof -
  from rx_run_syn[OF rx_new_inv[OF assms], of ops] obtain r where r: "run_events rx_step (TCPReceiver_new capacity) ops = Inr r"
    "TCPReceiver_inv r" "rx_capacity r = capacity"
    "rx_is_syn r \<longleftrightarrow> (\<exists>seg. Rx_Segment seg \<in> set ops \<and> tcp_syn (seg_header seg))"
    by (auto simp: TCPReceiver_new_def)
  have "sr_window (rx_reassembler r) + length (bs_buffer (sr_output (rx_reassembler r))) = unat capacity"
    using r(2,3) by (auto simp: TCPReceiver_inv_def StreamReassembler_inv_def ByteStream_inv_def sr_window_def)
  then show ?thesis using r unat_window_size[OF r(2)]
    by (auto simp: TCPReceiver_stream_out_def TCPReceiver_ackno_def Let_def)
qed

theorem TCPReceiver_never_fails_witness:
  "\<exists>r. run_events rx_step (TCPReceiver_new 8)
      [Rx_Segment (TCPSegment_default\<lparr>seg_header := TCPHeader_default\<lparr>tcp_syn := True\<rparr>\<rparr>), Rx_Read 3] = Inr r
    \<and> TCPReceiver_inv r
    \<and> unat (TCPReceiver_window_size r) + length (bs_buffer (TCPReceiver_stream_out r)) = unat (8 :: u64)"
  using TCPReceiver_never_fails[of 8 "[Rx_Segment (TCPSegment_default\<lparr>seg_header := TCPHeader_default\<lparr>tcp_syn := True\<rparr>\<rparr>),
    Rx_Read 3]"] by auto

text \<open>
  C9. Reliable reception: whenever the peer's segments are those of one stream \<open>S\<close> numbered from
  its initial sequence number, in any order, lost, repeated or overlapping, what the application
  has read followed by what waits in \<^verbatim>\<open>stream_out()\<close> is a prefix of \<open>S\<close>, and before the FIN the
  acknowledgment number is the wrapped index of the first byte of \<open>S\<close> not assembled.
\<close>

theorem TCPReceiver_delivers_stream:
  assumes "rx_session S isn capacity r D" and "capacity \<noteq> 0" and "length S + unat capacity < 2 ^ 63"
  shows "D @ bs_buffer (TCPReceiver_stream_out r) = take (unat (TCPReceiver_first_unassembled r)) S
    \<and> unat (TCPReceiver_first_unassembled r) \<le> length S
    \<and> (rx_is_syn r \<and> \<not> rx_is_fin r \<longrightarrow>
         TCPReceiver_ackno r = Some (wrap (1 + TCPReceiver_first_unassembled r) isn))"
  using session_delivering[OF assms]
  by (auto simp: delivering_def sr_written_def TCPReceiver_first_unassembled_def TCPReceiver_stream_out_def
      TCPReceiver_ackno_def ByteStream_accessors)

theorem TCPReceiver_delivers_stream_witness:
  "\<exists>r. rx_session [7, 8] (WrappingInt32 5) 4 r []
    \<and> bs_buffer (TCPReceiver_stream_out r) = take (unat (TCPReceiver_first_unassembled r)) [7, 8]"
proof -
  let ?seg = "\<lparr>seg_header = TCPHeader_default\<lparr>tcp_syn := True, tcp_seqno := WrappingInt32 5\<rparr>,
    seg_payload = Buffer_of_string [7]\<rparr>"
  have "TCPReceiver_inv (TCPReceiver_new 4)" by (rule rx_new_inv) simp
  then obtain r where r: "TCPReceiver_segment_received ?seg (TCPReceiver_new 4) = Inr r"
    using segment_received_safe by blast
  have x: "stream_segment [7, 8] (WrappingInt32 5) 0 ?seg" by (simp add: stream_segment_def excerpt_def)
  have w: "unat (TCPReceiver_first_unassembled (TCPReceiver_new 4)) = 0"
    by (simp add: TCPReceiver_first_unassembled_def TCPReceiver_stream_out_def TCPReceiver_new_def
        StreamReassembler_new_def ByteStream_new_def ByteStream_accessors)
  have "rx_session [7, 8] (WrappingInt32 5) 4 r []"
    by (rule session_segment[OF session_start x _ r]) (simp only: w, simp)
  with TCPReceiver_delivers_stream[OF this] show ?thesis by auto
qed

text \<open>
  A FIN that arrives before the data it follows is acknowledged as if it had been received in
  order: on a receiver that has had only the SYN, a FIN segment without payload, with any
  sequence number, inside the window or not, makes the acknowledgment number jump to
  \<open>isn + 2\<close> although no byte of the stream was received. (The documentation of \<^verbatim>\<open>ackno()\<close> promises
  the first byte not received, \<open>isn + 1\<close>.)
\<close>

theorem early_FIN_is_acknowledged:
  assumes "TCPReceiver_inv r" and "rx_is_syn r" and "TCPReceiver_first_unassembled r = 0"
    and "TCPReceiver_unassembled_bytes r = 0"
    and "tcp_fin (seg_header seg)" and "\<not> tcp_syn (seg_header seg)" and "Buffer_str (seg_payload seg) = []"
  shows "\<exists>r'. TCPReceiver_segment_received seg r = Inr r' \<and> TCPReceiver_first_unassembled r' = 0
    \<and> TCPReceiver_ackno r' = Some (wrap 2 (rx_isn r))"
proof -
  let ?i = "unwrap (WrappingInt32_plus (tcp_seqno (seg_header seg)) 0) (rx_isn r) 0 - 1"
  obtain ra where "StreamReassembler_push_substring [] ?i True (rx_reassembler r) = Inr ra"
    "bs_bytes_written (sr_output ra) = 0" "sr_unassembled_bytes ra = 0"
    using push_empty[of "rx_reassembler r" ?i True] assms
    by (auto simp: TCPReceiver_inv_def TCPReceiver_first_unassembled_def TCPReceiver_stream_out_def
        TCPReceiver_unassembled_bytes_def StreamReassembler_unassembled_bytes_def ByteStream_accessors)
  then show ?thesis using assms
    by (simp add: TCPReceiver_segment_received_def Buffer_copy_def TCPReceiver_ackno_def
        TCPReceiver_first_unassembled_def TCPReceiver_stream_out_def ByteStream_accessors
        StreamReassembler_empty_def StreamReassembler_unassembled_bytes_def)
qed

theorem early_FIN_is_acknowledged_witness:
  "\<exists>r'. TCPReceiver_segment_received
      (TCPSegment_default\<lparr>seg_header := TCPHeader_default\<lparr>tcp_fin := True, tcp_seqno := WrappingInt32 1000\<rparr>\<rparr>)
      ((TCPReceiver_new 8)\<lparr>rx_is_syn := True\<rparr>) = Inr r'
    \<and> TCPReceiver_first_unassembled r' = 0 \<and> TCPReceiver_ackno r' = Some (WrappingInt32 2)"
proof -
  have i: "TCPReceiver_inv ((TCPReceiver_new 8)\<lparr>rx_is_syn := True\<rparr>)"
    using rx_new_inv[of 8] by (simp add: TCPReceiver_inv_def)
  show ?thesis
    using early_FIN_is_acknowledged[OF i, of "TCPSegment_default\<lparr>seg_header :=
        TCPHeader_default\<lparr>tcp_fin := True, tcp_seqno := WrappingInt32 1000\<rparr>\<rparr>"]
    by (simp add: TCPReceiver_first_unassembled_def TCPReceiver_stream_out_def TCPReceiver_new_def
        StreamReassembler_new_def ByteStream_new_def ByteStream_accessors TCPReceiver_unassembled_bytes_def
        StreamReassembler_unassembled_bytes_def TCPHeader_default_def TCPSegment_default_def wrap_def
        WrappingInt32_plus_def)
qed

end
