(* ===== verification/TCP_Sender.thy ===== *)
theory TCP_Sender
  imports Stream_Segments
begin

text \<open>
  \<^verbatim>\<open>libsponge/tcp_sender.{hh,cc}\<close> with the constants of \<^verbatim>\<open>tcp_helpers/tcp_config.hh\<close>: the sender
  cuts its outgoing stream into segments that fit the receiver's window, keeps the segments in
  flight, and retransmits the oldest when its timer expires. Windows are 16-bit, timeouts 32-bit
  and sequence numbers 64-bit, converted where the C++ converts them. The random initial
  sequence number is an argument of the constructor.
\<close>

section \<open>The model\<close>

definition DEFAULT_CAPACITY :: u64 where "DEFAULT_CAPACITY = 64000"
definition MAX_PAYLOAD_SIZE :: u64 where "MAX_PAYLOAD_SIZE = 1000"
definition TIMEOUT_DFLT :: u16 where "TIMEOUT_DFLT = 1000"
definition MAX_RETX_ATTEMPTS :: u32 where "MAX_RETX_ATTEMPTS = 8"

record TCPConfig =
  cfg_rt_timeout :: u16
  cfg_recv_capacity :: u64
  cfg_send_capacity :: u64
  cfg_fixed_isn :: "WrappingInt32 option"

definition TCPConfig_default :: TCPConfig where
  "TCPConfig_default =
     \<lparr>cfg_rt_timeout = TIMEOUT_DFLT, cfg_recv_capacity = DEFAULT_CAPACITY,
      cfg_send_capacity = DEFAULT_CAPACITY, cfg_fixed_isn = None\<rparr>"

record TCPSender =
  tx_isn :: WrappingInt32
  tx_window_size :: u16
  tx_receiver_window_size :: u16
  tx_segments_out :: "TCPSegment list"
  tx_outstanding_segments :: "TCPSegment list"
  tx_is_timer_on :: bool
  tx_initial_retransmission_timeout :: u32
  tx_retransmission_timeout :: u32
  tx_timer_elapsed :: u64
  tx_consecutive_retransmissions :: u64
  tx_stream :: ByteStream
  tx_fin :: bool
  tx_current_seqno :: u64
  tx_next_seqno :: u64

definition TCPSender_new :: "u64 \<Rightarrow> u16 \<Rightarrow> WrappingInt32 option \<Rightarrow> u32 \<Rightarrow> TCPSender" where
  "TCPSender_new capacity retx_timeout fixed_isn random =
     \<lparr>tx_isn = (case fixed_isn of Some isn \<Rightarrow> isn | None \<Rightarrow> WrappingInt32 random),
      tx_window_size = 1, tx_receiver_window_size = 1, tx_segments_out = [], tx_outstanding_segments = [],
      tx_is_timer_on = False, tx_initial_retransmission_timeout = ucast retx_timeout,
      tx_retransmission_timeout = ucast retx_timeout, tx_timer_elapsed = 0,
      tx_consecutive_retransmissions = 0, tx_stream = ByteStream_new capacity, tx_fin = False,
      tx_current_seqno = 0, tx_next_seqno = 0\<rparr>"

definition TCPSender_bytes_in_flight :: "TCPSender \<Rightarrow> u64" where
  "TCPSender_bytes_in_flight s = tx_next_seqno s - tx_current_seqno s"

definition TCPSender_consecutive_retransmissions :: "TCPSender \<Rightarrow> u32" where
  "TCPSender_consecutive_retransmissions s = ucast (tx_consecutive_retransmissions s)"

definition TCPSender_next_seqno :: "TCPSender \<Rightarrow> WrappingInt32" where
  "TCPSender_next_seqno s = wrap (tx_next_seqno s) (tx_isn s)"

text \<open>One iteration of the loop of \<^verbatim>\<open>fill_window\<close>: the segment it builds, and what it does with it.\<close>

definition fill_segment :: "bool \<Rightarrow> bool \<Rightarrow> bytes \<Rightarrow> TCPSender \<Rightarrow> TCPSegment" where
  "fill_segment syn fin payload s =
     \<lparr>seg_header = TCPHeader_default\<lparr>tcp_syn := syn, tcp_fin := fin,
        tcp_seqno := wrap (tx_next_seqno s) (tx_isn s)\<rparr>,
      seg_payload = Buffer_of_string payload\<rparr>"

definition fill_step :: "bool \<Rightarrow> bool \<Rightarrow> u64 \<Rightarrow> TCPSender \<Rightarrow> TCPSender" where
  "fill_step syn fin sz s =
     (let (payload, stream) = ByteStream_read sz (tx_stream s);
          segment = fill_segment syn fin payload s;
          len = TCPSegment_length_in_sequence_space segment;
          s = s\<lparr>tx_stream := stream, tx_next_seqno := tx_next_seqno s + len,
                tx_window_size := tx_window_size s - ucast len,
                tx_segments_out := tx_segments_out s @ [segment],
                tx_outstanding_segments := tx_outstanding_segments s @ [segment],
                tx_fin := (tx_fin s \<or> fin)\<rparr>
      in if \<not> tx_is_timer_on s
         then s\<lparr>tx_is_timer_on := True, tx_retransmission_timeout := tx_initial_retransmission_timeout s,
                tx_timer_elapsed := 0, tx_consecutive_retransmissions := 0\<rparr>
         else s)"

text \<open>The loop; \<open>n\<close> is the number of iterations left.\<close>

primrec fill_loop :: "nat \<Rightarrow> u64 \<Rightarrow> u64 \<Rightarrow> u64 \<Rightarrow> bool \<Rightarrow> bool \<Rightarrow> TCPSender \<Rightarrow> TCPSender" where
  "fill_loop 0 index num_segments payload_size has_syn reach_fin s = s"
| "fill_loop (Suc n) index num_segments payload_size has_syn reach_fin s =
     (let sz = (if index = num_segments - 1 then payload_size - MAX_PAYLOAD_SIZE * index else MAX_PAYLOAD_SIZE)
      in fill_loop n (index + 1) num_segments payload_size has_syn reach_fin
           (fill_step (index = 0 \<and> has_syn) (index = num_segments - 1 \<and> reach_fin) sz s))"

definition TCPSender_fill_window :: "TCPSender \<Rightarrow> TCPSender" where
  "TCPSender_fill_window s =
     (let has_syn = (tx_next_seqno s = 0);
          has_fin = (ByteStream_input_ended (tx_stream s) \<and> \<not> tx_fin s);
          total_window_size = of_bool has_syn + ByteStream_buffer_size (tx_stream s) + of_bool has_fin;
          reach_fin = (has_fin \<and> ucast (tx_window_size s) \<ge> total_window_size);
          actual_window_size = min total_window_size (ucast (tx_window_size s));
          actual_payload_size = actual_window_size - of_bool has_syn - of_bool reach_fin;
          num_segments = max ((actual_payload_size + MAX_PAYLOAD_SIZE - 1) div MAX_PAYLOAD_SIZE)
                             (of_bool (has_syn \<or> reach_fin))
      in fill_loop (unat num_segments) 0 num_segments actual_payload_size has_syn reach_fin s)"

text \<open>The loop of \<^verbatim>\<open>ack_received\<close> over the queue of outstanding segments.\<close>

primrec ack_loop :: "TCPSegment list \<Rightarrow> TCPSender \<Rightarrow> TCPSender" where
  "ack_loop [] s = s\<lparr>tx_outstanding_segments := []\<rparr>"
| "ack_loop (segment # rest) s =
     (if unwrap (tcp_seqno (seg_header segment)) (tx_isn s) (tx_next_seqno s)
           + TCPSegment_length_in_sequence_space segment > tx_current_seqno s
      then s\<lparr>tx_outstanding_segments := segment # rest\<rparr>
      else ack_loop rest
             (s\<lparr>tx_retransmission_timeout := tx_initial_retransmission_timeout s,
                tx_consecutive_retransmissions := 0, tx_timer_elapsed := 0\<rparr>))"

text \<open>The first assignments of \<^verbatim>\<open>ack_received\<close>.\<close>

definition ack_update :: "u64 \<Rightarrow> u16 \<Rightarrow> TCPSender \<Rightarrow> TCPSender" where
  "ack_update absolute_ackno window_size s =
     (let s = s\<lparr>tx_current_seqno := max (tx_current_seqno s) absolute_ackno,
                tx_receiver_window_size := window_size\<rparr>
      in s\<lparr>tx_window_size := ucast (max (ucast (max window_size 1) - TCPSender_bytes_in_flight s) 0)\<rparr>)"

definition TCPSender_ack_received :: "WrappingInt32 \<Rightarrow> u16 \<Rightarrow> TCPSender \<Rightarrow> TCPSender" where
  "TCPSender_ack_received ackno window_size s =
     (let absolute_ackno = unwrap ackno (tx_isn s) (tx_next_seqno s);
          timer_off = (\<lambda>s. if tx_outstanding_segments s = [] then s\<lparr>tx_is_timer_on := False\<rparr> else s)
      in if absolute_ackno \<le> tx_next_seqno s
         then let s = ack_update absolute_ackno window_size s
              in if \<not> tx_is_timer_on s then s
                 else timer_off (TCPSender_fill_window (ack_loop (tx_outstanding_segments s) s))
         else timer_off s)"

definition TCPSender_tick :: "u64 \<Rightarrow> TCPSender \<Rightarrow> TCPSender result" where
  "TCPSender_tick ms_since_last_tick s =
     (if \<not> tx_is_timer_on s then Inr s
      else let s = s\<lparr>tx_timer_elapsed := tx_timer_elapsed s + ms_since_last_tick\<rparr>
           in if tx_timer_elapsed s \<ge> ucast (tx_retransmission_timeout s)
              then case tx_outstanding_segments s of
                     [] \<Rightarrow> Inl (Undefined_Behaviour ''queue::front'')
                   | segment # _ \<Rightarrow>
                       let s = s\<lparr>tx_segments_out := tx_segments_out s @ [segment]\<rparr>;
                           s = (if tx_receiver_window_size s > 0
                                then s\<lparr>tx_consecutive_retransmissions := tx_consecutive_retransmissions s + 1,
                                       tx_retransmission_timeout := push_bit 1 (tx_retransmission_timeout s)\<rparr>
                                else s)
                       in Inr (s\<lparr>tx_timer_elapsed := 0\<rparr>)
              else Inr s)"

definition TCPSender_send_empty_segment :: "TCPSender \<Rightarrow> TCPSender" where
  "TCPSender_send_empty_segment s =
     s\<lparr>tx_segments_out := tx_segments_out s
         @ [TCPSegment_default\<lparr>seg_header := TCPHeader_default\<lparr>tcp_seqno := wrap (tx_next_seqno s) (tx_isn s)\<rparr>\<rparr>]\<rparr>"

text \<open>The writer's side, through \<^verbatim>\<open>stream_in()\<close>.\<close>

definition TCPSender_write :: "bytes \<Rightarrow> TCPSender \<Rightarrow> u64 \<times> TCPSender" where
  "TCPSender_write d s = (let (n, stream) = ByteStream_write d (tx_stream s) in (n, s\<lparr>tx_stream := stream\<rparr>))"

definition TCPSender_end_input :: "TCPSender \<Rightarrow> TCPSender" where
  "TCPSender_end_input s = s\<lparr>tx_stream := ByteStream_end_input (tx_stream s)\<rparr>"

text \<open>A connection that is reset marks the stream: \<^verbatim>\<open>stream_in().set_error()\<close>.\<close>

definition TCPSender_set_error :: "TCPSender \<Rightarrow> TCPSender" where
  "TCPSender_set_error s = s\<lparr>tx_stream := ByteStream_set_error (tx_stream s)\<rparr>"

section \<open>The invariant\<close>

definition seg_len :: "TCPSegment \<Rightarrow> nat" where
  "seg_len seg = unat (TCPSegment_length_in_sequence_space seg)"

text \<open>The segments occupy the absolute sequence numbers from \<open>a\<close> up to \<open>b\<close> without gaps.\<close>

fun seg_chain :: "WrappingInt32 \<Rightarrow> nat \<Rightarrow> TCPSegment list \<Rightarrow> nat \<Rightarrow> bool" where
  "seg_chain isn a [] b \<longleftrightarrow> a = b"
| "seg_chain isn a (seg # segs) b \<longleftrightarrow>
     tcp_seqno (seg_header seg) = wrap (of_nat a) isn \<and> 0 < seg_len seg \<and> seg_len seg \<le> 1002
     \<and> seg_chain isn (a + seg_len seg) segs b"

lemma seg_chain_append:
  "seg_chain isn a (xs @ ys) b \<longleftrightarrow> (\<exists>m. seg_chain isn a xs m \<and> seg_chain isn m ys b)"
  by (induction xs arbitrary: a) auto

lemma seg_chain_le: "seg_chain isn a segs b \<Longrightarrow> a \<le> b"
  by (induction segs arbitrary: a) fastforce+

lemma seg_chain_less: "seg_chain isn a segs b \<Longrightarrow> segs \<noteq> [] \<Longrightarrow> a < b"
  using seg_chain_le by (cases segs) fastforce+

text \<open>Sequence numbers: \<open>r\<close> bytes of the stream have been sent, after the SYN and before the FIN.\<close>

definition tx_numbered :: "TCPSender \<Rightarrow> bool" where
  "tx_numbered s \<longleftrightarrow>
     (if tx_next_seqno s = 0
      then bs_bytes_read (tx_stream s) = 0 \<and> \<not> tx_fin s \<and> tx_outstanding_segments s = [] \<and> 1 \<le> tx_window_size s
      else unat (tx_next_seqno s) = 1 + unat (bs_bytes_read (tx_stream s)) + of_bool (tx_fin s))"

text \<open>\<open>W\<close> is all that has been written to the outgoing stream.\<close>

definition tx_stream_ok :: "bytes \<Rightarrow> ByteStream \<Rightarrow> bool" where
  "tx_stream_ok W st \<longleftrightarrow> ByteStream_inv st \<and> length W < 2 ^ 62
     \<and> unat (bs_bytes_read st) + length (bs_buffer st) = length W
     \<and> bs_buffer st = drop (unat (bs_bytes_read st)) W"

definition tx_flight :: "nat \<Rightarrow> TCPSender \<Rightarrow> bool" where
  "tx_flight a s \<longleftrightarrow> seg_chain (tx_isn s) a (tx_outstanding_segments s) (unat (tx_next_seqno s))
     \<and> a \<le> unat (tx_current_seqno s) \<and> unat (tx_current_seqno s) \<le> unat (tx_next_seqno s)"

definition tx_first_unacked :: "nat \<Rightarrow> TCPSender \<Rightarrow> bool" where
  "tx_first_unacked a s \<longleftrightarrow> (case tx_outstanding_segments s of [] \<Rightarrow> True
     | seg # _ \<Rightarrow> unat (tx_current_seqno s) < a + seg_len seg)"

text \<open>
  The part of the invariant that holds also inside \<^verbatim>\<open>ack_received\<close>, where the timer may still be on
  with nothing outstanding.
\<close>

definition tx_core :: "bytes \<Rightarrow> TCPSender \<Rightarrow> bool" where
  "tx_core W s \<longleftrightarrow> tx_stream_ok W (tx_stream s) \<and> tx_numbered s
     \<and> (tx_fin s \<longrightarrow> bs_input_ended (tx_stream s) \<and> bs_buffer (tx_stream s) = [])
     \<and> (tx_outstanding_segments s \<noteq> [] \<longrightarrow> tx_is_timer_on s)
     \<and> (\<exists>a. tx_flight a s \<and> tx_first_unacked a s)
     \<and> (\<forall>seg \<in> set (tx_outstanding_segments s) \<union> set (tx_segments_out s).
          \<exists>i. stream_segment W (tx_isn s) i seg)"

definition TCPSender_inv :: "bytes \<Rightarrow> TCPSender \<Rightarrow> bool" where
  "TCPSender_inv W s \<longleftrightarrow> tx_core W s \<and> (tx_is_timer_on s \<longrightarrow> tx_outstanding_segments s \<noteq> [])"

lemma tx_next_bound:
  assumes "tx_stream_ok W (tx_stream s)" and "tx_numbered s"
  shows "unat (tx_next_seqno s) < 2 ^ 62 + 2"
  using assms by (auto simp: tx_stream_ok_def tx_numbered_def split: if_splits)

section \<open>Filling the window\<close>

lemma tx_stream_read:
  assumes "tx_stream_ok W st" and "unat n \<le> length (bs_buffer st)"
  shows "fst (ByteStream_read n st) = take (unat n) (bs_buffer st)
    \<and> bs_buffer (snd (ByteStream_read n st)) = drop (unat n) (bs_buffer st)
    \<and> unat (bs_bytes_read (snd (ByteStream_read n st))) = unat (bs_bytes_read st) + unat n
    \<and> tx_stream_ok W (snd (ByteStream_read n st))
    \<and> bs_input_ended (snd (ByteStream_read n st)) = bs_input_ended st"
proof -
  have inv: "ByteStream_inv st" using assms(1) by (simp add: tx_stream_ok_def)
  have d: "fst (ByteStream_read n st) = take (unat n) (bs_buffer st)" by (rule bs.deq_prefix[OF inv])
  have b: "bs_buffer (snd (ByteStream_read n st)) = drop (unat n) (bs_buffer st)"
    using bs.deq_contents[OF inv, of n] d by (metis append_take_drop_id same_append_eq)
  have "size_of (fst (ByteStream_read n st)) = n"
    using d assms(2) by (simp add: size_of_def)
  then have "bs_bytes_read (snd (ByteStream_read n st)) = bs_bytes_read st + n"
    using read_bytes_read[OF inv, of n] by simp
  moreover have "unat (bs_bytes_read st + n) = unat (bs_bytes_read st) + unat n"
  proof (rule unat_add_lt)
    have "unat (bs_bytes_read st) + length (bs_buffer st) < 2 ^ 62" using assms(1) by (simp add: tx_stream_ok_def)
    then show "unat (bs_bytes_read st) + unat n < 2 ^ LENGTH(64)" using assms(2) by simp
  qed
  ultimately have r: "unat (bs_bytes_read (snd (ByteStream_read n st))) = unat (bs_bytes_read st) + unat n" by simp
  have "tx_stream_ok W (snd (ByteStream_read n st))"
    using assms b r bs.deq_invar[OF inv, of n] unfolding tx_stream_ok_def by (auto simp: add.commute)
  then show ?thesis using d b r by (simp add: read_eq)
qed

lemma fill_segment_len:
  assumes "length payload \<le> 1000"
  shows "seg_len (fill_segment syn fin payload s) = length payload + of_bool syn + of_bool fin"
proof -
  have "unat (size_of payload) = length payload" using assms by (intro unat_size_of) (simp add: fits_def)
  then show ?thesis using assms
    by (simp add: seg_len_def TCPSegment_length_in_sequence_space_def fill_segment_def unat_word_ariths)
qed

lemma fill_segment_stream:
  assumes "tx_stream_ok W (tx_stream s)" and "tx_numbered s" and "n \<le> length (bs_buffer (tx_stream s))"
    and "syn \<longleftrightarrow> tx_next_seqno s = 0" and "\<not> tx_fin s"
  shows "stream_segment W (tx_isn s) (unat (bs_bytes_read (tx_stream s)))
    (fill_segment syn fin (take n (bs_buffer (tx_stream s))) s)"
proof -
  let ?r = "bs_bytes_read (tx_stream s)"
  have r0: "syn \<longrightarrow> ?r = 0" using assms(2,4) by (simp add: tx_numbered_def)
  have "\<not> syn \<longrightarrow> unat (tx_next_seqno s) = unat ?r + 1"
    using assms(2,4,5) by (auto simp: tx_numbered_def)
  then have "\<not> syn \<longrightarrow> tx_next_seqno s = of_nat (unat ?r + 1)" by (metis unat_eq_of_nat)
  moreover have "excerpt W (take n (bs_buffer (tx_stream s))) ?r"
    using assms(1,3) unfolding excerpt_def tx_stream_ok_def by auto
  ultimately show ?thesis using r0 assms(4)
    by (simp add: stream_segment_def fill_segment_def Let_def)
qed

lemma fill_step_fields:
  assumes "tx_stream_ok W (tx_stream s)" and "unat sz \<le> length (bs_buffer (tx_stream s))" and "unat sz \<le> 1000"
    and "unat sz + of_bool syn + of_bool fin \<le> unat (tx_window_size s)"
    and "unat (tx_next_seqno s) < 2 ^ 62 + 2"
  defines "s' \<equiv> fill_step syn fin sz s"
    and "seg \<equiv> fill_segment syn fin (take (unat sz) (bs_buffer (tx_stream s))) s"
    and "L \<equiv> unat sz + of_bool syn + of_bool fin"
  shows "seg_len seg = L" and "tx_stream s' = snd (ByteStream_read sz (tx_stream s))"
    and "unat (tx_next_seqno s') = unat (tx_next_seqno s) + L"
    and "unat (tx_window_size s') = unat (tx_window_size s) - L"
    and "tx_segments_out s' = tx_segments_out s @ [seg]"
    and "tx_outstanding_segments s' = tx_outstanding_segments s @ [seg]"
    and "tx_fin s' = (tx_fin s \<or> fin)" and "tx_is_timer_on s'" and "tx_isn s' = tx_isn s"
    and "tx_current_seqno s' = tx_current_seqno s"
proof -
  have d: "fst (ByteStream_read sz (tx_stream s)) = take (unat sz) (bs_buffer (tx_stream s))"
    using tx_stream_read[OF assms(1,2)] by simp
  have len: "seg_len seg = L"
    using assms(2,3) unfolding seg_def L_def by (subst fill_segment_len) (simp_all add: min_def)
  then show "seg_len seg = L" .
  let ?len = "TCPSegment_length_in_sequence_space seg"
  have u: "unat ?len = L" using len by (simp add: seg_len_def)
  have L: "L \<le> 1002" using assms(3) by (simp add: L_def)
  note f = s'_def fill_step_def split_beta d[folded seg_def] Let_def
  show "tx_stream s' = snd (ByteStream_read sz (tx_stream s))" and "tx_segments_out s' = tx_segments_out s @ [seg]"
    and "tx_outstanding_segments s' = tx_outstanding_segments s @ [seg]"
    and "tx_fin s' = (tx_fin s \<or> fin)" and "tx_is_timer_on s'" and "tx_isn s' = tx_isn s"
    and "tx_current_seqno s' = tx_current_seqno s"
    by (simp_all add: f seg_def)
  have "tx_next_seqno s' = tx_next_seqno s + ?len" by (simp add: f seg_def)
  then show "unat (tx_next_seqno s') = unat (tx_next_seqno s) + L"
    using u L assms(5) unat_add_lt[of "tx_next_seqno s" ?len] by simp
  have w: "unat (ucast ?len :: u16) = L" using u L by (simp add: unsigned_ucast_eq take_bit_eq_mod)
  moreover have "(ucast ?len :: u16) \<le> tx_window_size s"
    using w assms(4) by (simp add: word_le_nat_alt L_def)
  moreover have "tx_window_size s' = tx_window_size s - ucast ?len" by (simp add: f seg_def)
  ultimately show "unat (tx_window_size s') = unat (tx_window_size s) - L" by (simp add: unat_sub_le)
qed

text \<open>One iteration keeps the invariant, if it sends something and what it sends fits.\<close>

lemma fill_step_core:
  assumes core: "tx_core W s" and sz: "unat sz \<le> length (bs_buffer (tx_stream s))" "unat sz \<le> 1000"
    and fits: "unat sz + of_bool syn + of_bool fin \<le> unat (tx_window_size s)"
    and pos: "0 < unat sz + of_bool syn + of_bool fin"
    and syn: "syn \<longleftrightarrow> tx_next_seqno s = 0"
    and fin: "fin \<longrightarrow> bs_input_ended (tx_stream s) \<and> \<not> tx_fin s \<and> unat sz = length (bs_buffer (tx_stream s))"
  shows "tx_core W (fill_step syn fin sz s)"
proof -
  let ?s = "fill_step syn fin sz s" and ?L = "unat sz + of_bool syn + of_bool fin"
  let ?seg = "fill_segment syn fin (take (unat sz) (bs_buffer (tx_stream s))) s"
  have st: "tx_stream_ok W (tx_stream s)" and num: "tx_numbered s" using core by (simp_all add: tx_core_def)
  note f = fill_step_fields[OF st sz fits tx_next_bound[OF st num]]
  note rd = tx_stream_read[OF st sz(1)]
  have nf: "\<not> tx_fin s"
  proof
    assume "tx_fin s"
    then have "bs_buffer (tx_stream s) = []" "tx_next_seqno s \<noteq> 0" using core by (auto simp: tx_core_def tx_numbered_def)
    then show False using pos fin sz(1) syn \<open>tx_fin s\<close> by (auto split: if_splits)
  qed
  have seg: "stream_segment W (tx_isn s) (unat (bs_bytes_read (tx_stream s))) ?seg"
    by (rule fill_segment_stream[OF st num sz(1) syn nf])
  have "tx_numbered ?s"
    using num nf rd syn pos unfolding tx_numbered_def f(2,3,7) word_unat_eq_iff[of "tx_next_seqno ?s"]
    by (auto split: if_splits)
  moreover have "\<exists>a. tx_flight a ?s \<and> tx_first_unacked a ?s"
  proof -
    obtain a where a: "tx_flight a s" "tx_first_unacked a s" using core by (auto simp: tx_core_def)
    have "tcp_seqno (seg_header ?seg) = wrap (of_nat (unat (tx_next_seqno s))) (tx_isn s)"
      by (simp add: fill_segment_def)
    then have "tx_flight a ?s" using a(1) pos sz(2) f
      by (auto simp: tx_flight_def seg_chain_append)
    moreover have "tx_first_unacked a ?s" using a pos f
      by (cases "tx_outstanding_segments s") (auto simp: tx_first_unacked_def tx_flight_def)
    ultimately show ?thesis by blast
  qed
  moreover have "tx_fin ?s \<longrightarrow> bs_input_ended (tx_stream ?s) \<and> bs_buffer (tx_stream ?s) = []"
    using fin nf rd unfolding f(2,7) by auto
  moreover have "\<forall>x \<in> set (tx_outstanding_segments ?s) \<union> set (tx_segments_out ?s).
      \<exists>i. stream_segment W (tx_isn ?s) i x"
    using core seg unfolding f(5,6,9) by (auto simp: tx_core_def)
  moreover have "tx_stream_ok W (tx_stream ?s)" using rd f(2) by simp
  ultimately show ?thesis using f(8) unfolding tx_core_def by blast
qed

text \<open>
  The segments that carry given data from an absolute sequence number on: full ones, and a last one
  with what remains. The first has the SYN and the last the FIN, if they are to be sent.
\<close>

function window_segments :: "WrappingInt32 \<Rightarrow> nat \<Rightarrow> bool \<Rightarrow> bool \<Rightarrow> bytes \<Rightarrow> TCPSegment list" where
  "window_segments isn n syn fin data =
     (let seg = (\<lambda>fin data. \<lparr>seg_header = TCPHeader_default\<lparr>tcp_syn := syn, tcp_fin := fin, tcp_seqno := wrap (of_nat n) isn\<rparr>,
                   seg_payload = Buffer_of_string data\<rparr>)
      in if data = [] \<and> \<not> syn \<and> \<not> fin then []
         else if length data \<le> 1000 then [seg fin data]
         else seg False (take 1000 data) # window_segments isn (n + 1000 + of_bool syn) False fin (drop 1000 data))"
  by pat_completeness auto
termination by (relation "measure (\<lambda>(isn, n, syn, fin, data). length data)") auto

declare window_segments.simps [simp del]

lemma window_segments_Nil [simp]: "window_segments isn n syn fin data = [] \<longleftrightarrow> data = [] \<and> \<not> syn \<and> \<not> fin"
  by (subst window_segments.simps) (simp add: Let_def)

lemma window_segments_append:
  assumes "length data = 1000" and "rest \<noteq> []"
  shows "window_segments isn n syn fin (data @ rest)
    = window_segments isn n syn False data @ window_segments isn (n + 1000 + of_bool syn) False fin rest"
proof -
  have "data \<noteq> []" using assms(1) by auto
  then have "window_segments isn n syn False data = [\<lparr>seg_header = TCPHeader_default\<lparr>tcp_syn := syn, tcp_fin := False,
      tcp_seqno := wrap (of_nat n) isn\<rparr>, seg_payload = Buffer_of_string data\<rparr>]"
    using assms(1) by (subst window_segments.simps) (simp add: Let_def)
  moreover have "\<not> length (data @ rest) \<le> 1000" using assms by (cases rest) simp_all
  ultimately show ?thesis using assms(1) \<open>data \<noteq> []\<close>
    unfolding window_segments.simps[of isn n syn fin "data @ rest"] by (simp add: Let_def)
qed

lemma window_segments_payloads:
  "concat (map (\<lambda>seg. Buffer_str (seg_payload seg)) (window_segments isn n syn fin data)) = data
   \<and> (\<forall>seg \<in> set (window_segments isn n syn fin data). length (Buffer_str (seg_payload seg)) \<le> 1000)"
  by (induction isn n syn fin data rule: window_segments.induct) (subst (1 2) window_segments.simps, simp add: Let_def)

definition fill_queued :: "TCPSender \<Rightarrow> TCPSegment list \<Rightarrow> TCPSender \<Rightarrow> bool" where
  "fill_queued s segs s' \<longleftrightarrow> tx_segments_out s' = tx_segments_out s @ segs
     \<and> tx_outstanding_segments s' = tx_outstanding_segments s @ segs"

text \<open>The effect of sending \<open>p\<close> bytes of the stream, with or without the SYN and the FIN.\<close>

definition fill_effect :: "bytes \<Rightarrow> TCPSender \<Rightarrow> nat \<Rightarrow> bool \<Rightarrow> bool \<Rightarrow> TCPSender \<Rightarrow> bool" where
  "fill_effect W s p syn fin s' \<longleftrightarrow> tx_core W s'
     \<and> unat (tx_next_seqno s') = unat (tx_next_seqno s) + (p + of_bool syn + of_bool fin)
     \<and> unat (tx_window_size s') = unat (tx_window_size s) - (p + of_bool syn + of_bool fin)
     \<and> bs_buffer (tx_stream s') = drop p (bs_buffer (tx_stream s))
     \<and> bs_input_ended (tx_stream s') = bs_input_ended (tx_stream s)
     \<and> tx_fin s' = (tx_fin s \<or> fin) \<and> tx_isn s' = tx_isn s \<and> tx_current_seqno s' = tx_current_seqno s
     \<and> fill_queued s (window_segments (tx_isn s) (unat (tx_next_seqno s)) syn fin (take p (bs_buffer (tx_stream s)))) s'"

lemma fill_effect_refl: "tx_core W s \<Longrightarrow> fill_effect W s 0 False False s"
  by (simp add: fill_effect_def fill_queued_def)

lemma fill_effect_trans:
  assumes "fill_effect W s 1000 syn False s1" and "fill_effect W s1 q False fin s2"
    and "0 < q" and "1000 + q \<le> length (bs_buffer (tx_stream s))"
  shows "fill_effect W s (1000 + q) syn fin s2"
proof -
  let ?B = "bs_buffer (tx_stream s)" and ?n = "unat (tx_next_seqno s)"
  have s1: "bs_buffer (tx_stream s1) = drop 1000 ?B" "unat (tx_next_seqno s1) = ?n + 1000 + of_bool syn" "tx_isn s1 = tx_isn s"
    using assms(1) by (simp_all add: fill_effect_def)
  have "window_segments (tx_isn s) ?n syn fin (take (1000 + q) ?B)
      = window_segments (tx_isn s) ?n syn False (take 1000 ?B) @ window_segments (tx_isn s1) (unat (tx_next_seqno s1)) False fin (take q (drop 1000 ?B))"
    using window_segments_append[of "take 1000 ?B" "take q (drop 1000 ?B)"] assms(3,4) s1 by (simp add: take_add)
  then have "fill_queued s (window_segments (tx_isn s) ?n syn fin (take (1000 + q) ?B)) s2"
    using assms(1,2) s1 by (simp add: fill_effect_def fill_queued_def)
  then show ?thesis using assms(1,2) by (simp add: fill_effect_def add.commute)
qed

lemma fill_effect_nonempty:
  assumes "fill_effect W s p syn fin s'" and "p \<le> length (bs_buffer (tx_stream s))" and "0 < p + of_bool syn + of_bool fin"
  shows "tx_segments_out s' \<noteq> [] \<and> tx_outstanding_segments s' \<noteq> []"
  using assms by (auto simp: fill_effect_def fill_queued_def)

lemma fill_step_effect:
  assumes "tx_core W s" and "unat sz \<le> length (bs_buffer (tx_stream s))" and "unat sz \<le> 1000"
    and "unat sz + of_bool syn + of_bool fin \<le> unat (tx_window_size s)"
    and "0 < unat sz + of_bool syn + of_bool fin" and "syn \<longleftrightarrow> tx_next_seqno s = 0"
    and "fin \<longrightarrow> bs_input_ended (tx_stream s) \<and> \<not> tx_fin s \<and> unat sz = length (bs_buffer (tx_stream s))"
  shows "fill_effect W s (unat sz) syn fin (fill_step syn fin sz s)"
proof -
  have st: "tx_stream_ok W (tx_stream s)" and num: "tx_numbered s" using assms(1) by (simp_all add: tx_core_def)
  note f = fill_step_fields[OF st assms(2,3,4) tx_next_bound[OF st num]]
  have "window_segments (tx_isn s) (unat (tx_next_seqno s)) syn fin (take (unat sz) (bs_buffer (tx_stream s)))
      = [fill_segment syn fin (take (unat sz) (bs_buffer (tx_stream s))) s]"
    using assms(2,3,5) by (subst window_segments.simps) (auto simp: Let_def fill_segment_def)
  then have "fill_queued s (window_segments (tx_isn s) (unat (tx_next_seqno s)) syn fin (take (unat sz) (bs_buffer (tx_stream s))))
      (fill_step syn fin sz s)"
    unfolding fill_queued_def f by simp
  then show ?thesis
    using fill_step_core[OF assms] tx_stream_read[OF st assms(2)] unfolding fill_effect_def f by simp
qed

lemma of_nat64_eq: "k < 2 ^ 64 \<Longrightarrow> j < 2 ^ 64 \<Longrightarrow> (of_nat k :: u64) = of_nat j \<longleftrightarrow> k = j"
  by (metis unat_of_nat64)

lemma segments_count:
  assumes "N = max ((P + 999) div 1000) (of_bool b)"
  shows "P \<le> 1000 * N" and "N = Suc k \<Longrightarrow> 1000 * k \<le> P" and "N = Suc k \<Longrightarrow> P \<le> 1000 * k \<Longrightarrow> b \<and> k = 0"
    and "P < 65536 \<Longrightarrow> N \<le> 66"
proof -
  define D where "D = (P + 999) div 1000"
  have D: "P \<le> 1000 * D" "1000 * D \<le> P + 999" unfolding D_def by simp_all
  have N: "N = (if b \<and> D = 0 then 1 else D)" using assms unfolding D_def[symmetric] by (auto simp: max_def)
  show "P \<le> 1000 * N" using N D by (simp split: if_splits)
  show "N = Suc k \<Longrightarrow> 1000 * k \<le> P" using N D by (simp split: if_splits)
  show "N = Suc k \<Longrightarrow> P \<le> 1000 * k \<Longrightarrow> b \<and> k = 0" using N D by (simp split: if_splits)
  show "P < 65536 \<Longrightarrow> N \<le> 66" using N D by (simp split: if_splits)
qed

lemma window_left:
  "1000 * (k + 1) < P \<Longrightarrow> P - 1000 * k + c + d \<le> w \<Longrightarrow> P - 1000 * (k + 1) + d \<le> w - (1000 + c)" for k P c d w :: nat
  by simp

lemma fill_loop_effect:
  assumes "tx_core W s" and "N = max ((P + 999) div 1000) (of_bool (hs \<or> rf))" and "P < 65536" and "k + n = N"
    and "P - 1000 * k \<le> length (bs_buffer (tx_stream s))"
    and "(if n = 0 then 0 else P - 1000 * k + of_bool (k = 0 \<and> hs) + of_bool rf) \<le> unat (tx_window_size s)"
    and "(k = 0 \<and> hs) \<longleftrightarrow> tx_next_seqno s = 0"
    and "rf \<longrightarrow> bs_input_ended (tx_stream s) \<and> \<not> tx_fin s \<and> P - 1000 * k = length (bs_buffer (tx_stream s))"
  shows "fill_effect W s (P - 1000 * k) (n \<noteq> 0 \<and> k = 0 \<and> hs) (n \<noteq> 0 \<and> rf)
    (fill_loop n (of_nat k) (of_nat N) (of_nat P) hs rf s)"
  using assms
proof (induction n arbitrary: k s)
  case 0
  have "P \<le> 1000 * k" using segments_count(1)[OF 0(2)] 0(4) by simp
  then show ?case using fill_effect_refl[OF 0(1)] by simp
next
  case (Suc m)
  note count = segments_count[OF Suc.prems(2)]
  have N: "N \<le> 66" using count(4) Suc.prems(3) by simp
  have idx: "(of_nat k = (of_nat N - 1 :: u64)) \<longleftrightarrow> m = 0"
  proof -
    have "(of_nat N - 1 :: u64) = of_nat (N - 1)" using Suc.prems(4) by (simp add: of_nat_diff)
    moreover have "(of_nat k = (of_nat (N - 1) :: u64)) \<longleftrightarrow> k = N - 1"
      using N Suc.prems(4) by (intro of_nat64_eq) simp_all
    moreover have "k = N - 1 \<longleftrightarrow> m = 0" using Suc.prems(4) by linarith
    ultimately show ?thesis by (simp only:)
  qed
  have k0: "(of_nat k = (0 :: u64)) \<longleftrightarrow> k = 0"
    using N Suc.prems(4) of_nat64_eq[of k 0] by simp
  show ?case
  proof (cases "m = 0")
    case True
    then have k: "N = Suc k" using Suc.prems(4) by simp
    have le: "P - 1000 * k \<le> 1000" using count(1) k by simp
    have ge: "1000 * k \<le> P" using count(2)[OF k] .
    have sz: "(of_nat P - MAX_PAYLOAD_SIZE * of_nat k :: u64) = of_nat (P - 1000 * k)"
      using ge by (simp add: MAX_PAYLOAD_SIZE_def of_nat_diff)
    have u: "unat (of_nat (P - 1000 * k) :: u64) = P - 1000 * k" using le by (intro unat_of_nat64) simp
    have pos: "0 < P - 1000 * k + of_bool (k = 0 \<and> hs) + of_bool rf"
      using count(3)[OF k] by (cases "P \<le> 1000 * k") auto
    have w: "P - 1000 * k + of_bool (k = 0 \<and> hs) + of_bool rf \<le> unat (tx_window_size s)"
      using Suc.prems(6) by (simp only: nat.simps if_False)
    note e = fill_step_effect[OF Suc.prems(1), of "of_nat (P - 1000 * k)" "k = 0 \<and> hs" rf, unfolded u,
        OF Suc.prems(5) le w pos Suc.prems(7,8)]
    have "fill_loop (Suc m) (of_nat k) (of_nat N) (of_nat P) hs rf s
        = fill_step (k = 0 \<and> hs) rf (of_nat (P - 1000 * k)) s"
      unfolding True fill_loop.simps Let_def idx k0 sz by (simp only: True simp_thms if_True)
    then show ?thesis using e by (simp only: nat.simps simp_thms)
  next
    case False
    then obtain j where j: "m = Suc j" by (cases m) auto
    have "\<not> P \<le> 1000 * (k + m)" using count(3)[of "k + m"] Suc.prems(4) j by auto
    then have lt: "1000 * (k + 1) < P" using j by simp
    have u: "unat MAX_PAYLOAD_SIZE = 1000" by (simp add: MAX_PAYLOAD_SIZE_def)
    let ?s = "fill_step (k = 0 \<and> hs) False MAX_PAYLOAD_SIZE s"
    have w: "P - 1000 * k + of_bool (k = 0 \<and> hs) + of_bool rf \<le> unat (tx_window_size s)"
      using Suc.prems(6) by (simp only: nat.simps if_False)
    have e: "fill_effect W s 1000 (k = 0 \<and> hs) False ?s"
    proof (rule fill_step_effect[OF Suc.prems(1), of MAX_PAYLOAD_SIZE, unfolded u])
      show "1000 \<le> length (bs_buffer (tx_stream s))" using Suc.prems(5) lt by simp
      show "1000 + of_bool (k = 0 \<and> hs) + of_bool False \<le> unat (tx_window_size s)" using w lt by simp
    qed (use Suc.prems(7) in simp_all)
    have s: "tx_core W ?s" "unat (tx_next_seqno ?s) = unat (tx_next_seqno s) + (1000 + of_bool (k = 0 \<and> hs))"
      "unat (tx_window_size ?s) = unat (tx_window_size s) - (1000 + of_bool (k = 0 \<and> hs))"
      "bs_buffer (tx_stream ?s) = drop 1000 (bs_buffer (tx_stream s))"
      "bs_input_ended (tx_stream ?s) = bs_input_ended (tx_stream s)" "tx_fin ?s = tx_fin s"
      using e by (simp_all add: fill_effect_def)
    have nz: "tx_next_seqno ?s \<noteq> 0"
    proof
      assume "tx_next_seqno ?s = 0"
      then show False using s(2) by simp
    qed
    have R: "P - 1000 * (k + 1) = P - 1000 * k - 1000" by simp
    have "fill_effect W ?s (P - 1000 * (k + 1)) (m \<noteq> 0 \<and> k + 1 = 0 \<and> hs) (m \<noteq> 0 \<and> rf)
        (fill_loop m (of_nat (k + 1)) (of_nat N) (of_nat P) hs rf ?s)"
    proof (rule Suc.IH[OF s(1) Suc.prems(2,3)])
      show "k + 1 + m = N" using Suc.prems(4) by simp
      show "P - 1000 * (k + 1) \<le> length (bs_buffer (tx_stream ?s))" using Suc.prems(5) s(4) by simp
      show "(if m = 0 then 0 else P - 1000 * (k + 1) + of_bool (k + 1 = 0 \<and> hs) + of_bool rf)
          \<le> unat (tx_window_size ?s)"
        using window_left[OF lt w] s(3) by simp
      show "(k + 1 = 0 \<and> hs) \<longleftrightarrow> tx_next_seqno ?s = 0" using nz by simp
      show "rf \<longrightarrow> bs_input_ended (tx_stream ?s) \<and> \<not> tx_fin ?s
          \<and> P - 1000 * (k + 1) = length (bs_buffer (tx_stream ?s))"
        using Suc.prems(8) unfolding s(4,5,6) R by auto
    qed
    then have e': "fill_effect W ?s (P - 1000 * (k + 1)) False rf
        (fill_loop m (of_nat (k + 1)) (of_nat N) (of_nat P) hs rf ?s)" using False by simp
    have "fill_loop (Suc m) (of_nat k) (of_nat N) (of_nat P) hs rf s
        = fill_loop m (of_nat (k + 1)) (of_nat N) (of_nat P) hs rf ?s"
      unfolding fill_loop.simps Let_def idx k0 using False by (simp add: add.commute)
    moreover have q: "1000 + (P - 1000 * (k + 1)) = P - 1000 * k" "0 < P - 1000 * (k + 1)" using lt by simp_all
    ultimately show ?thesis using fill_effect_trans[OF e e' q(2)] Suc.prems(5) by (simp only: nat.simps simp_thms)
  qed
qed

definition fill_reach_fin :: "TCPSender \<Rightarrow> bool" where
  "fill_reach_fin s \<longleftrightarrow> bs_input_ended (tx_stream s) \<and> \<not> tx_fin s
     \<and> of_bool (tx_next_seqno s = 0) + length (bs_buffer (tx_stream s)) + 1 \<le> unat (tx_window_size s)"

definition fill_payload :: "TCPSender \<Rightarrow> nat" where
  "fill_payload s = min (length (bs_buffer (tx_stream s))) (unat (tx_window_size s) - of_bool (tx_next_seqno s = 0))"

lemma of_nat_max64: "a < 2 ^ 64 \<Longrightarrow> b < 2 ^ 64 \<Longrightarrow> max (of_nat a) (of_nat b :: u64) = of_nat (max a b)"
  by (simp add: max_def word_le_nat_alt unat_of_nat64)

lemma of_nat_div64: "a < 2 ^ 64 \<Longrightarrow> b < 2 ^ 64 \<Longrightarrow> (of_nat a :: u64) div of_nat b = of_nat (a div b)"
  by (rule unat_eq_of_nat) (simp add: unat_div unat_of_nat64)

text \<open>The arithmetic on \<^verbatim>\<open>size_t\<close> and \<^verbatim>\<open>uint16_t\<close> does not wrap around.\<close>

lemma fill_window_sizes:
  assumes "tx_core W s"
  defines "hs \<equiv> (tx_next_seqno s = 0)" and "hf \<equiv> (bs_input_ended (tx_stream s) \<and> \<not> tx_fin s)"
    and "rf \<equiv> fill_reach_fin s" and "P \<equiv> fill_payload s"
  defines "tw \<equiv> of_bool hs + ByteStream_buffer_size (tx_stream s) + of_bool hf :: u64"
  shows "(hf \<and> ucast (tx_window_size s) \<ge> tw) \<longleftrightarrow> rf"
    and "min tw (ucast (tx_window_size s)) - of_bool hs - of_bool rf = of_nat P"
    and "max ((of_nat P + MAX_PAYLOAD_SIZE - 1) div MAX_PAYLOAD_SIZE) (of_bool (hs \<or> rf))
      = (of_nat (max ((P + 999) div 1000) (of_bool (hs \<or> rf))) :: u64)"
    and "P + of_bool hs + of_bool rf \<le> unat (tx_window_size s)" and "P < 65536"
    and "rf \<longrightarrow> P = length (bs_buffer (tx_stream s))"
proof -
  let ?B = "length (bs_buffer (tx_stream s))" and ?w = "unat (tx_window_size s)"
  have st: "tx_stream_ok W (tx_stream s)" and num: "tx_numbered s" using assms(1) by (simp_all add: tx_core_def)
  have B: "?B < 2 ^ 62" using st unfolding tx_stream_ok_def by linarith
  have hs1: "hs \<longrightarrow> 1 \<le> ?w" using num by (auto simp: hs_def tx_numbered_def word_le_nat_alt)
  have w: "?w < 65536" by (rule unat16_bound)
  have uw: "unat (ucast (tx_window_size s) :: u64) = ?w" by (simp add: unat_ucast_up)
  have "ByteStream_buffer_size (tx_stream s) = of_nat ?B" by (simp add: ByteStream_accessors size_of_def)
  then have tot: "tw = of_nat (of_bool hs + ?B + of_bool hf)" by (simp add: tw_def)
  have ut: "unat tw = of_bool hs + ?B + of_bool hf"
    unfolding tot using B by (intro unat_of_nat64) simp
  show rf: "(hf \<and> ucast (tx_window_size s) \<ge> tw) \<longleftrightarrow> rf"
    unfolding word_le_nat_alt uw ut by (auto simp: rf_def fill_reach_fin_def hf_def hs_def)
  show rB: "rf \<longrightarrow> P = ?B" by (auto simp: rf_def fill_reach_fin_def P_def fill_payload_def)
  have m: "P + of_bool hs + of_bool rf = min (of_bool hs + ?B + of_bool hf) ?w"
    using hs1 by (auto simp: rf_def fill_reach_fin_def P_def fill_payload_def hs_def hf_def min_def)
  then show fit: "P + of_bool hs + of_bool rf \<le> ?w" by simp
  then show P: "P < 65536" using w by linarith
  have "min tw (ucast (tx_window_size s)) = of_nat (min (of_bool hs + ?B + of_bool hf) ?w)"
    using ut uw by (intro unat_eq_of_nat) (simp add: min_def word_le_nat_alt)
  then show "min tw (ucast (tx_window_size s)) - of_bool hs - of_bool rf = of_nat P"
    unfolding m[symmetric] by simp
  have "(of_nat P + MAX_PAYLOAD_SIZE - 1 :: u64) = of_nat (P + 999)" by (simp add: MAX_PAYLOAD_SIZE_def)
  moreover have "MAX_PAYLOAD_SIZE = of_nat 1000" by (simp add: MAX_PAYLOAD_SIZE_def)
  moreover have "(of_nat (P + 999) :: u64) div of_nat 1000 = of_nat ((P + 999) div 1000)"
    using P by (intro of_nat_div64) simp_all
  ultimately have "(of_nat P + MAX_PAYLOAD_SIZE - 1 :: u64) div MAX_PAYLOAD_SIZE = of_nat ((P + 999) div 1000)"
    by (simp only:)
  moreover have "(P + 999) div 1000 < 2 ^ 64" using P div_le_dividend[of "P + 999" 1000] by simp
  then have "max (of_nat ((P + 999) div 1000)) (of_nat (of_bool (hs \<or> rf)) :: u64)
      = of_nat (max ((P + 999) div 1000) (of_bool (hs \<or> rf)))"
    by (rule of_nat_max64) (simp add: of_bool_def)
  ultimately show "max ((of_nat P + MAX_PAYLOAD_SIZE - 1) div MAX_PAYLOAD_SIZE) (of_bool (hs \<or> rf))
      = (of_nat (max ((P + 999) div 1000) (of_bool (hs \<or> rf))) :: u64)"
    by (simp only: of_nat_of_bool)
qed

lemma fill_window_eq:
  assumes core: "tx_core W s"
  shows "TCPSender_fill_window s
    = (let N = max ((fill_payload s + 999) div 1000) (of_bool (tx_next_seqno s = 0 \<or> fill_reach_fin s))
       in fill_loop N 0 (of_nat N) (of_nat (fill_payload s)) (tx_next_seqno s = 0) (fill_reach_fin s) s)"
proof -
  let ?hs = "tx_next_seqno s = 0" and ?rf = "fill_reach_fin s" and ?P = "fill_payload s"
  let ?N = "max ((?P + 999) div 1000) (of_bool (?hs \<or> ?rf))"
  note sz = fill_window_sizes[OF core]
  have n: "unat (of_nat ?N :: u64) = ?N"
    using segments_count(4)[OF refl sz(5), of "?hs \<or> ?rf"] by (intro unat_of_nat64) simp
  show ?thesis
    unfolding TCPSender_fill_window_def Let_def ByteStream_input_ended_def sz(1,2,3) n by (rule refl)
qed

lemma fill_window_effect:
  assumes core: "tx_core W s"
  shows "fill_effect W s (fill_payload s) (tx_next_seqno s = 0) (fill_reach_fin s) (TCPSender_fill_window s)"
proof -
  let ?hs = "tx_next_seqno s = 0" and ?rf = "fill_reach_fin s" and ?P = "fill_payload s"
  let ?N = "max ((?P + 999) div 1000) (of_bool (?hs \<or> ?rf))"
  note sz = fill_window_sizes[OF core]
  have "fill_effect W s (?P - 1000 * 0) (?N \<noteq> 0 \<and> 0 = (0 :: nat) \<and> ?hs) (?N \<noteq> 0 \<and> ?rf)
      (fill_loop ?N (of_nat 0) (of_nat ?N) (of_nat ?P) ?hs ?rf s)"
  proof (rule fill_loop_effect[OF core refl sz(5)])
    show "?P - 1000 * 0 \<le> length (bs_buffer (tx_stream s))" by (simp add: fill_payload_def)
    show "(if ?N = 0 then 0 else ?P - 1000 * 0 + of_bool (0 = (0 :: nat) \<and> ?hs) + of_bool ?rf)
        \<le> unat (tx_window_size s)" using sz(4) by simp
    show "?rf \<longrightarrow> bs_input_ended (tx_stream s) \<and> \<not> tx_fin s \<and> ?P - 1000 * 0 = length (bs_buffer (tx_stream s))"
      using sz(6) by (simp add: fill_reach_fin_def)
  qed simp_all
  moreover have "(?N \<noteq> 0 \<and> ?hs) = ?hs" "(?N \<noteq> 0 \<and> ?rf) = ?rf" by auto
  ultimately show ?thesis unfolding fill_window_eq[OF core] Let_def by simp
qed

end
