(* ===== verification/TCP_Sender_Session.thy ===== *)
theory TCP_Sender_Session
  imports TCP_Sender
begin

text \<open>
  The invariant of the TCP sender over whole sessions: acknowledgments pop exactly the segments
  they cover, every operation keeps the invariant, the retransmission timer runs exactly while
  something is outstanding, and every segment that is ever emitted is one of the stream that was
  written. The properties of the sender are at the end.
\<close>

section \<open>Acknowledgments\<close>

lemma ack_loop_frame [simp]:
  "tx_stream (ack_loop segs s) = tx_stream s" "tx_fin (ack_loop segs s) = tx_fin s"
  "tx_next_seqno (ack_loop segs s) = tx_next_seqno s" "tx_current_seqno (ack_loop segs s) = tx_current_seqno s"
  "tx_isn (ack_loop segs s) = tx_isn s" "tx_window_size (ack_loop segs s) = tx_window_size s"
  "tx_segments_out (ack_loop segs s) = tx_segments_out s" "tx_is_timer_on (ack_loop segs s) = tx_is_timer_on s"
  by (induction segs arbitrary: s) simp_all

text \<open>
  The loop drops the segments that end at or before \<^verbatim>\<open>_current_seqno\<close>, and no other, because
  \<^verbatim>\<open>unwrap\<close> recovers the absolute sequence number of each.
\<close>

lemma ack_loop_flight:
  assumes "seg_chain (tx_isn s) a segs (unat (tx_next_seqno s))" and "a \<le> unat (tx_current_seqno s)"
    and "unat (tx_next_seqno s) - a < 2 ^ 31" and "unat (tx_next_seqno s) < 2 ^ 63"
    and "unat (tx_current_seqno s) \<le> unat (tx_next_seqno s)"
  shows "\<exists>b. tx_flight b (ack_loop segs s) \<and> tx_first_unacked b (ack_loop segs s) \<and> a \<le> b
    \<and> (\<exists>acked. segs = acked @ tx_outstanding_segments (ack_loop segs s) \<and> seg_chain (tx_isn s) a acked b)"
  using assms
proof (induction segs arbitrary: a s)
  case Nil
  then show ?case by (auto simp: tx_flight_def tx_first_unacked_def)
next
  case (Cons seg segs)
  have c: "seg_chain (tx_isn s) (a + seg_len seg) segs (unat (tx_next_seqno s))"
    and sq: "tcp_seqno (seg_header seg) = wrap (of_nat a) (tx_isn s)" using Cons.prems(1) by simp_all
  have le: "a + seg_len seg \<le> unat (tx_next_seqno s)" using seg_chain_le[OF c] .
  have ua: "unat (of_nat a :: u64) = a" using le Cons.prems(4) by (intro unat_of_nat64) simp
  have "unat (tx_next_seqno s) - a < 2147483648" using Cons.prems(3) by simp
  then have d: "\<bar>int (unat (of_nat a :: u64)) - int (unat (tx_next_seqno s))\<bar> < 2147483648"
    unfolding ua using le by linarith
  have uw: "unwrap (tcp_seqno (seg_header seg)) (tx_isn s) (tx_next_seqno s) = of_nat a"
    unfolding sq using Cons.prems(4) by (intro unwrap_wrap_near[OF _ d]) simp
  have e: "unat (of_nat a + TCPSegment_length_in_sequence_space seg) = a + seg_len seg"
    using le ua Cons.prems(4) unat_add_lt[of "of_nat a" "TCPSegment_length_in_sequence_space seg"]
    by (simp add: seg_len_def)
  show ?case
  proof (cases "unat (tx_current_seqno s) < a + seg_len seg")
    case True
    then have "ack_loop (seg # segs) s = s\<lparr>tx_outstanding_segments := seg # segs\<rparr>"
      using uw e by (simp add: word_less_nat_alt)
    then show ?thesis using Cons.prems True by (auto simp: tx_flight_def tx_first_unacked_def intro: exI[of _ "[]"])
  next
    case False
    let ?s = "s\<lparr>tx_retransmission_timeout := tx_initial_retransmission_timeout s,
      tx_consecutive_retransmissions := 0, tx_timer_elapsed := 0\<rparr>"
    have l: "ack_loop (seg # segs) s = ack_loop segs ?s" using False uw e by (simp add: word_less_nat_alt)
    have p3: "unat (tx_next_seqno s) - (a + seg_len seg) < 2 ^ 31" using Cons.prems(3) by linarith
    obtain b acked where "tx_flight b (ack_loop segs ?s)" "tx_first_unacked b (ack_loop segs ?s)"
      "a + seg_len seg \<le> b" "segs = acked @ tx_outstanding_segments (ack_loop segs ?s)"
      "seg_chain (tx_isn s) (a + seg_len seg) acked b"
      using Cons.IH[where s = ?s and a = "a + seg_len seg"] c False p3 Cons.prems(4,5) by auto
    then show ?thesis unfolding l using Cons.prems(1)
      by (intro exI[of _ b]) (auto intro: exI[of _ "seg # acked"])
  qed
qed

lemma flight_span:
  assumes "tx_flight a s" and "tx_first_unacked a s" and "unat (TCPSender_bytes_in_flight s) < 2 ^ 30"
  shows "unat (tx_next_seqno s) - a < 2 ^ 31"
proof -
  have "unat (TCPSender_bytes_in_flight s) = unat (tx_next_seqno s) - unat (tx_current_seqno s)"
    using assms(1) by (simp add: TCPSender_bytes_in_flight_def tx_flight_def unat_sub_le word_le_nat_alt)
  then show ?thesis using assms
    by (cases "tx_outstanding_segments s") (auto simp: tx_flight_def tx_first_unacked_def)
qed

lemma ack_update_frame [simp]:
  "tx_stream (ack_update a w s) = tx_stream s" "tx_fin (ack_update a w s) = tx_fin s"
  "tx_next_seqno (ack_update a w s) = tx_next_seqno s" "tx_isn (ack_update a w s) = tx_isn s"
  "tx_segments_out (ack_update a w s) = tx_segments_out s" "tx_is_timer_on (ack_update a w s) = tx_is_timer_on s"
  "tx_outstanding_segments (ack_update a w s) = tx_outstanding_segments s"
  "tx_current_seqno (ack_update a w s) = max (tx_current_seqno s) a"
  by (simp_all add: ack_update_def Let_def)

lemma ack_update_window:
  assumes "tx_current_seqno s \<le> tx_next_seqno s" and "a \<le> tx_next_seqno s"
    and "unat (tx_next_seqno s - max (tx_current_seqno s) a) \<le> unat (max w 1)"
  shows "unat (tx_window_size (ack_update a w s))
    = unat (max w 1) - unat (tx_next_seqno s - max (tx_current_seqno s) a)"
proof -
  let ?f = "tx_next_seqno s - max (tx_current_seqno s) a"
  have u: "unat (ucast (max w 1) :: u64) = unat (max w 1)" by (simp add: unat_ucast_up)
  have "unat (ucast (max w 1) - ?f) = unat (max w 1) - unat ?f"
    using assms(3) u by (subst unat_sub_le) (simp_all add: word_le_nat_alt)
  moreover have "tx_window_size (ack_update a w s) = ucast (ucast (max w 1) - ?f)"
    by (simp add: ack_update_def TCPSender_bytes_in_flight_def Let_def)
  ultimately show ?thesis using unat16_bound[of "max w 1"]
    by (simp add: unsigned_ucast_eq take_bit_eq_mod)
qed

lemma ack_update_numbered:
  assumes "tx_numbered s" and "tx_current_seqno s \<le> tx_next_seqno s" and "a \<le> tx_next_seqno s"
  shows "tx_numbered (ack_update a w s)"
proof (cases "tx_next_seqno s = 0")
  case True
  then have "tx_next_seqno s - max (tx_current_seqno s) a = 0" using assms(2,3) by simp
  then have "unat (tx_window_size (ack_update a w s)) = unat (max w 1)"
    using ack_update_window[OF assms(2,3), of w] by simp
  moreover have "1 \<le> unat (max w 1)" by (simp add: max_def word_le_nat_alt)
  ultimately show ?thesis using assms(1) True by (simp add: tx_numbered_def word_le_nat_alt)
next
  case False
  then show ?thesis using assms(1) by (simp add: tx_numbered_def)
qed

lemma ack_popped:
  fixes w :: u16
  assumes core: "tx_core W s" and on: "tx_outstanding_segments s \<noteq> []"
    and fl: "unat (TCPSender_bytes_in_flight s) < 2 ^ 30" and ack: "ack \<le> tx_next_seqno s"
  defines "l \<equiv> ack_loop (tx_outstanding_segments s) (ack_update ack w s)"
  shows "tx_core W l \<and> (\<exists>a b acked. tx_outstanding_segments s = acked @ tx_outstanding_segments l
    \<and> seg_chain (tx_isn s) a acked b \<and> tx_flight b l \<and> tx_first_unacked b l)"
proof -
  let ?u = "ack_update ack w s"
  obtain a where a: "tx_flight a s" "tx_first_unacked a s" using core by (auto simp: tx_core_def)
  have cn: "tx_current_seqno s \<le> tx_next_seqno s" using a(1) by (simp add: tx_flight_def word_le_nat_alt)
  have 1: "seg_chain (tx_isn ?u) a (tx_outstanding_segments s) (unat (tx_next_seqno ?u))"
    using a(1) by (simp add: tx_flight_def)
  have 2: "a \<le> unat (tx_current_seqno ?u)" and 5: "unat (tx_current_seqno ?u) \<le> unat (tx_next_seqno ?u)"
    using a(1) ack cn by (auto simp: max_def word_le_nat_alt tx_flight_def)
  have 3: "unat (tx_next_seqno ?u) - a < 2 ^ 31" and 4: "unat (tx_next_seqno ?u) < 2 ^ 63"
    using flight_span[OF a fl] tx_next_bound[of W s] core by (simp_all add: tx_core_def)
  obtain b acked where b: "tx_flight b l" "tx_first_unacked b l"
    "tx_outstanding_segments s = acked @ tx_outstanding_segments l" "seg_chain (tx_isn s) a acked b"
    using ack_loop_flight[OF 1 2 3 4 5, folded l_def] unfolding ack_update_frame by blast
  have "tx_next_seqno s \<noteq> 0" using core on by (auto simp: tx_core_def tx_numbered_def)
  then have "tx_numbered l" using core by (simp add: tx_core_def tx_numbered_def l_def)
  moreover have "set (tx_outstanding_segments l) \<subseteq> set (tx_outstanding_segments s)"
    using b(3) by (metis Un_upper2 set_append)
  ultimately have "tx_core W l" using core on b(1,2) unfolding tx_core_def
    by (simp add: l_def) blast
  then show ?thesis using b by blast
qed

lemma timer_off_inv:
  "tx_core W s \<Longrightarrow> tx_outstanding_segments s = [] \<Longrightarrow> TCPSender_inv W (s\<lparr>tx_is_timer_on := False\<rparr>)"
  by (simp add: TCPSender_inv_def tx_core_def tx_numbered_def tx_flight_def tx_first_unacked_def)

lemma ack_received_inv:
  assumes inv: "TCPSender_inv W s" and fl: "unat (TCPSender_bytes_in_flight s) < 2 ^ 30"
  shows "TCPSender_inv W (TCPSender_ack_received ackno w s)"
proof -
  let ?abs = "unwrap ackno (tx_isn s) (tx_next_seqno s)"
  let ?u = "ack_update ?abs w s"
  have core: "tx_core W s" and on: "tx_is_timer_on s \<longleftrightarrow> tx_outstanding_segments s \<noteq> []"
    using inv by (auto simp: TCPSender_inv_def tx_core_def)
  show ?thesis
  proof (cases "?abs \<le> tx_next_seqno s")
    case False
    then show ?thesis using inv timer_off_inv[OF core] by (simp add: TCPSender_ack_received_def)
  next
    case True
    obtain a where a: "tx_flight a s" "tx_first_unacked a s" using core by (auto simp: tx_core_def)
    have cn: "tx_current_seqno s \<le> tx_next_seqno s" using a(1) by (simp add: tx_flight_def word_le_nat_alt)
    have num: "tx_numbered ?u" using ack_update_numbered[OF _ cn True] core by (simp add: tx_core_def)
    have cu: "unat (max (tx_current_seqno s) ?abs) \<le> unat (tx_next_seqno s)"
      "a \<le> unat (max (tx_current_seqno s) ?abs)"
      using True cn a(1) by (auto simp: max_def word_le_nat_alt tx_flight_def)
    show ?thesis
    proof (cases "tx_is_timer_on s")
      case False
      then have "tx_core W ?u" using core on num cu a(1)
        by (auto simp: tx_core_def tx_flight_def tx_first_unacked_def)
      then show ?thesis using True False by (simp add: TCPSender_ack_received_def TCPSender_inv_def)
    next
      case on': True
      let ?l = "ack_loop (tx_outstanding_segments s) ?u"
      have "tx_core W ?l" using ack_popped[OF core _ fl True, of w] on on' by simp
      then have "tx_core W (TCPSender_fill_window ?l)" using fill_window_effect by (simp add: fill_effect_def)
      then show ?thesis using True on' timer_off_inv[of W "TCPSender_fill_window ?l"]
        by (simp add: TCPSender_ack_received_def TCPSender_inv_def Let_def)
    qed
  qed
qed

section \<open>The other operations\<close>

lemma new_tx_inv: "TCPSender_inv [] (TCPSender_new capacity retx_timeout fixed_isn random)"
  by (auto simp: TCPSender_inv_def tx_core_def TCPSender_new_def tx_stream_ok_def ByteStream_inv_new
      tx_numbered_def tx_flight_def tx_first_unacked_def ByteStream_new_def intro: ByteStream_inv_new[unfolded ByteStream_new_def])

lemma fill_window_inv:
  assumes "TCPSender_inv W s"
  shows "TCPSender_inv W (TCPSender_fill_window s)"
proof -
  have e: "fill_effect W s (fill_payload s) (tx_next_seqno s = 0) (fill_reach_fin s) (TCPSender_fill_window s)"
    using assms by (intro fill_window_effect) (simp add: TCPSender_inv_def)
  show ?thesis
  proof (cases "0 < fill_payload s + of_bool (tx_next_seqno s = 0) + of_bool (fill_reach_fin s)")
    case True
    moreover have "fill_payload s \<le> length (bs_buffer (tx_stream s))" by (simp add: fill_payload_def)
    ultimately show ?thesis using fill_effect_nonempty[OF e] e by (simp add: TCPSender_inv_def fill_effect_def)
  next
    case False
    then have "fill_payload s = 0" "tx_next_seqno s \<noteq> 0" "\<not> fill_reach_fin s" by auto
    then have "TCPSender_fill_window s = s"
      using fill_window_eq[of W s] assms by (simp add: TCPSender_inv_def)
    then show ?thesis using assms by simp
  qed
qed

text \<open>The invariant does not look at the timer's clock, nor at which good segments wait in the queue.\<close>

lemma TCPSender_inv_cong:
  assumes "TCPSender_inv W s"
    and "tx_stream s' = tx_stream s" "tx_next_seqno s' = tx_next_seqno s" "tx_current_seqno s' = tx_current_seqno s"
      "tx_fin s' = tx_fin s" "tx_isn s' = tx_isn s" "tx_outstanding_segments s' = tx_outstanding_segments s"
      "tx_is_timer_on s' = tx_is_timer_on s" "tx_window_size s' = tx_window_size s"
    and "\<forall>seg \<in> set (tx_segments_out s'). \<exists>i. stream_segment W (tx_isn s) i seg"
  shows "TCPSender_inv W s'"
  using assms(1,10) unfolding TCPSender_inv_def tx_core_def tx_numbered_def tx_flight_def tx_first_unacked_def assms(2-9)
  by blast

lemma TCPSender_inv_segments:
  assumes "TCPSender_inv W s" and "seg \<in> set (tx_outstanding_segments s) \<union> set (tx_segments_out s)"
  shows "\<exists>i. stream_segment W (tx_isn s) i seg"
  using assms unfolding TCPSender_inv_def tx_core_def by blast

lemma tick_inv:
  assumes "TCPSender_inv W s"
  shows "\<exists>s'. TCPSender_tick ms s = Inr s' \<and> TCPSender_inv W s'"
proof (cases "tx_is_timer_on s \<and> ucast (tx_retransmission_timeout s) \<le> tx_timer_elapsed s + ms")
  case True
  then obtain seg segs where q: "tx_outstanding_segments s = seg # segs"
    using assms by (cases "tx_outstanding_segments s") (auto simp: TCPSender_inv_def)
  then obtain s' where t: "TCPSender_tick ms s = Inr s'" and out: "tx_segments_out s' = tx_segments_out s @ [seg]"
    and f: "tx_stream s' = tx_stream s" "tx_next_seqno s' = tx_next_seqno s" "tx_current_seqno s' = tx_current_seqno s"
      "tx_fin s' = tx_fin s" "tx_isn s' = tx_isn s" "tx_outstanding_segments s' = tx_outstanding_segments s"
      "tx_is_timer_on s' = tx_is_timer_on s" "tx_window_size s' = tx_window_size s"
    using True by (simp add: TCPSender_tick_def Let_def)
  have "\<forall>x \<in> set (tx_segments_out s'). \<exists>i. stream_segment W (tx_isn s) i x"
    using TCPSender_inv_segments[OF assms] q out by auto
  then show ?thesis using t TCPSender_inv_cong[OF assms f] by blast
next
  case False
  have "\<forall>x \<in> set (tx_segments_out s). \<exists>i. stream_segment W (tx_isn s) i x"
    using TCPSender_inv_segments[OF assms] by blast
  then have "TCPSender_inv W (s\<lparr>tx_timer_elapsed := tx_timer_elapsed s + ms\<rparr>)"
    by (intro TCPSender_inv_cong[OF assms]) simp_all
  then show ?thesis using False assms by (simp add: TCPSender_tick_def Let_def)
qed

lemma send_empty_inv:
  assumes "TCPSender_inv W s"
  shows "TCPSender_inv W (TCPSender_send_empty_segment s)"
proof -
  have "stream_segment W (tx_isn s) 0 (TCPSegment_default\<lparr>seg_header := TCPHeader_default\<lparr>tcp_seqno := n\<rparr>\<rparr>)" for n
    by (simp add: TCPSegment_default_def TCPHeader_default_def stream_segment_def excerpt_def)
  then show ?thesis using TCPSender_inv_segments[OF assms]
    by (intro TCPSender_inv_cong[OF assms]) (auto simp: TCPSender_send_empty_segment_def)
qed

lemma drain_inv: "TCPSender_inv W s \<Longrightarrow> TCPSender_inv W (s\<lparr>tx_segments_out := []\<rparr>)"
  by (rule TCPSender_inv_cong) simp_all

lemma TCPSender_inv_stream:
  assumes "TCPSender_inv W s" and "tx_stream_ok W' st" and "bs_bytes_read st = bs_bytes_read (tx_stream s)"
    and "tx_fin s \<longrightarrow> bs_input_ended st \<and> bs_buffer st = []"
    and "\<And>i seg. stream_segment W (tx_isn s) i seg \<Longrightarrow> stream_segment W' (tx_isn s) i seg"
  shows "TCPSender_inv W' (s\<lparr>tx_stream := st\<rparr>)"
proof -
  let ?s = "s\<lparr>tx_stream := st\<rparr>"
  have "tx_numbered ?s" using assms(1,3) by (simp add: TCPSender_inv_def tx_core_def tx_numbered_def)
  moreover have "tx_flight a ?s = tx_flight a s" "tx_first_unacked a ?s = tx_first_unacked a s" for a
    by (simp_all add: tx_flight_def tx_first_unacked_def split: list.split)
  moreover have "\<forall>seg \<in> set (tx_outstanding_segments s) \<union> set (tx_segments_out s). \<exists>i. stream_segment W' (tx_isn s) i seg"
    using TCPSender_inv_segments[OF assms(1)] assms(5) by blast
  ultimately show ?thesis using assms(1,2,4) unfolding TCPSender_inv_def tx_core_def by simp
qed

lemma end_input_tx_inv:
  assumes "TCPSender_inv W s"
  shows "TCPSender_inv W (TCPSender_end_input s)"
  unfolding TCPSender_end_input_def
proof (rule TCPSender_inv_stream[OF assms])
  show "tx_stream_ok W (ByteStream_end_input (tx_stream s))"
    using assms end_input_inv[of "tx_stream s"]
    by (simp add: TCPSender_inv_def tx_core_def tx_stream_ok_def ByteStream_end_input_def)
qed (use assms in \<open>auto simp: ByteStream_end_input_def TCPSender_inv_def tx_core_def\<close>)

lemma write_tx_inv:
  assumes inv: "TCPSender_inv W s" and writable: "\<not> bs_input_ended (tx_stream s)" and len: "length W + length d < 2 ^ 62"
  shows "TCPSender_inv (W @ take (unat (fst (TCPSender_write d s))) d) (snd (TCPSender_write d s))"
proof -
  let ?st = "tx_stream s" and ?n = "unat (fst (ByteStream_write d (tx_stream s)))"
  have st: "tx_stream_ok W ?st" using inv by (simp add: TCPSender_inv_def tx_core_def)
  then have bi: "ByteStream_inv ?st" by (simp add: tx_stream_ok_def)
  have b: "bs_buffer (snd (ByteStream_write d ?st)) = bs_buffer ?st @ take ?n d" by (rule write_buffer)
  have r: "unat (bs_bytes_read ?st) + length (bs_buffer ?st) = length W"
    "bs_buffer ?st = drop (unat (bs_bytes_read ?st)) W" using st unfolding tx_stream_ok_def by blast+
  have "tx_stream_ok (W @ take ?n d) (snd (ByteStream_write d ?st))"
    unfolding tx_stream_ok_def b write_frame using r write_inv[OF bi, of d] len by auto
  moreover have "\<not> tx_fin s" using inv writable by (auto simp: TCPSender_inv_def tx_core_def)
  ultimately have "TCPSender_inv (W @ take ?n d) (s\<lparr>tx_stream := snd (ByteStream_write d ?st)\<rparr>)"
    by (intro TCPSender_inv_stream[OF inv]) (simp_all add: stream_segment_append)
  then show ?thesis by (simp add: TCPSender_write_def split_beta)
qed

lemma error_tx_inv:
  assumes "TCPSender_inv W s"
  shows "TCPSender_inv W (TCPSender_set_error s)"
  unfolding TCPSender_set_error_def
proof (rule TCPSender_inv_stream[OF assms])
  show "tx_stream_ok W (ByteStream_set_error (tx_stream s))"
    using assms set_error_inv[of "tx_stream s"]
    by (simp add: TCPSender_inv_def tx_core_def tx_stream_ok_def ByteStream_set_error_def)
qed (use assms in \<open>auto simp: ByteStream_set_error_def TCPSender_inv_def tx_core_def\<close>)

section \<open>Sessions\<close>

text \<open>
  The states of a sender driven in any way: \<open>W\<close> is everything its stream accepted and \<open>E\<close>
  every segment taken from \<^verbatim>\<open>segments_out()\<close> so far. Nothing is written after the end of input, and
  acknowledgments are processed while less than \<open>2 ^ 30\<close> sequence numbers are in flight, so that 32
  bits identify a segment.
\<close>

inductive tx_session :: "TCPSender \<Rightarrow> TCPSender \<Rightarrow> bytes \<Rightarrow> TCPSegment list \<Rightarrow> bool" for s0 :: TCPSender where
  tx_start: "tx_session s0 s0 [] []"
| tx_write: "tx_session s0 (snd (TCPSender_write d s)) (W @ take (unat (fst (TCPSender_write d s))) d) E"
    if "tx_session s0 s W E" and "\<not> ByteStream_input_ended (tx_stream s)" and "length W + length d < 2 ^ 62"
| tx_end: "tx_session s0 (TCPSender_end_input s) W E" if "tx_session s0 s W E"
| tx_fill: "tx_session s0 (TCPSender_fill_window s) W E" if "tx_session s0 s W E"
| tx_ack: "tx_session s0 (TCPSender_ack_received ackno w s) W E"
    if "tx_session s0 s W E" and "unat (TCPSender_bytes_in_flight s) < 2 ^ 30"
| tx_tick: "tx_session s0 s' W E" if "tx_session s0 s W E" and "TCPSender_tick ms s = Inr s'"
| tx_empty: "tx_session s0 (TCPSender_send_empty_segment s) W E" if "tx_session s0 s W E"
| tx_error: "tx_session s0 (TCPSender_set_error s) W E" if "tx_session s0 s W E"
| tx_drain: "tx_session s0 (s\<lparr>tx_segments_out := []\<rparr>) W (E @ tx_segments_out s)" if "tx_session s0 s W E"

lemma fill_loop_isn [simp]: "tx_isn (fill_loop n index num p hs rf s) = tx_isn s"
proof (induction n arbitrary: index s)
  case (Suc n)
  have "tx_isn (fill_step a b c s) = tx_isn s" for a b c by (simp add: fill_step_def split_beta Let_def)
  then show ?case by (simp only: fill_loop.simps Let_def Suc.IH)
qed simp

lemma fill_window_isn [simp]: "tx_isn (TCPSender_fill_window s) = tx_isn s"
  unfolding TCPSender_fill_window_def Let_def by (rule fill_loop_isn)

lemma ack_received_isn [simp]: "tx_isn (TCPSender_ack_received a w s) = tx_isn s"
  by (simp add: TCPSender_ack_received_def Let_def)

lemma tick_isn: "TCPSender_tick ms s = Inr s' \<Longrightarrow> tx_isn s' = tx_isn s"
  by (auto simp: TCPSender_tick_def Let_def split: if_splits list.splits)

lemma tx_isn_frame [simp]:
  "tx_isn (TCPSender_end_input s) = tx_isn s" "tx_isn (TCPSender_send_empty_segment s) = tx_isn s"
  "tx_isn (snd (TCPSender_write d s)) = tx_isn s" "tx_isn (TCPSender_set_error s) = tx_isn s"
  by (simp_all add: TCPSender_end_input_def TCPSender_send_empty_segment_def TCPSender_write_def
      TCPSender_set_error_def split_beta)

lemma tx_session_inv:
  assumes "tx_session s0 s W E" and "TCPSender_inv [] s0"
  shows "TCPSender_inv W s \<and> tx_isn s = tx_isn s0 \<and> (\<forall>seg \<in> set E. \<exists>i. stream_segment W (tx_isn s0) i seg)"
  using assms
proof (induction rule: tx_session.induct)
  case (tx_write s W E d)
  then show ?case using write_tx_inv[of W s d] stream_segment_append[of W "tx_isn s0"]
    by (fastforce simp: ByteStream_input_ended_def)
next
  case (tx_tick s W E ms s')
  then show ?case using tick_inv[of W s ms] tick_isn[of ms s s'] by auto
next
  case (tx_drain s W E)
  then show ?case using drain_inv[of W s] TCPSender_inv_segments[of W s] by auto
qed (simp_all add: end_input_tx_inv fill_window_inv ack_received_inv send_empty_inv error_tx_inv)

lemma flight_iff:
  assumes "TCPSender_inv W s"
  shows "unat (TCPSender_bytes_in_flight s) = unat (tx_next_seqno s) - unat (tx_current_seqno s)
    \<and> (tx_outstanding_segments s = [] \<longleftrightarrow> TCPSender_bytes_in_flight s = 0)"
proof -
  obtain a where a: "tx_flight a s" "tx_first_unacked a s" using assms by (auto simp: TCPSender_inv_def tx_core_def)
  have le: "tx_current_seqno s \<le> tx_next_seqno s" using a(1) by (simp add: tx_flight_def word_le_nat_alt)
  then have u: "unat (TCPSender_bytes_in_flight s) = unat (tx_next_seqno s) - unat (tx_current_seqno s)"
    by (simp add: TCPSender_bytes_in_flight_def unat_sub_le)
  have "tx_outstanding_segments s = [] \<longleftrightarrow> unat (tx_next_seqno s) - unat (tx_current_seqno s) = 0"
    using a seg_chain_le by (cases "tx_outstanding_segments s") (fastforce simp: tx_flight_def tx_first_unacked_def)+
  then show ?thesis using u by (metis unat_eq_0)
qed

lemma session_new_inv:
  "tx_session (TCPSender_new capacity rto fixed_isn random) s W E \<Longrightarrow>
    TCPSender_inv W s \<and> tx_isn s = tx_isn (TCPSender_new capacity rto fixed_isn random)
    \<and> (\<forall>seg \<in> set E. \<exists>i. stream_segment W (tx_isn (TCPSender_new capacity rto fixed_isn random)) i seg)"
  by (rule tx_session_inv[OF _ new_tx_inv])

section \<open>The retransmission timer\<close>

lemma fill_loop_timer:
  "tx_is_timer_on s \<Longrightarrow> tx_timer_elapsed (fill_loop n index num p hs rf s) = tx_timer_elapsed s
    \<and> tx_retransmission_timeout (fill_loop n index num p hs rf s) = tx_retransmission_timeout s
    \<and> tx_consecutive_retransmissions (fill_loop n index num p hs rf s) = tx_consecutive_retransmissions s
    \<and> tx_is_timer_on (fill_loop n index num p hs rf s)"
proof (induction n arbitrary: index s)
  case (Suc n)
  have "tx_timer_elapsed (fill_step x y z s) = tx_timer_elapsed s" "tx_is_timer_on (fill_step x y z s)"
    "tx_retransmission_timeout (fill_step x y z s) = tx_retransmission_timeout s"
    "tx_consecutive_retransmissions (fill_step x y z s) = tx_consecutive_retransmissions s" for x y z
    using Suc.prems by (simp_all add: fill_step_def split_beta Let_def)
  then show ?case using Suc.IH unfolding fill_loop.simps Let_def by simp
qed simp

lemma fill_window_timer:
  assumes "tx_is_timer_on s"
  shows "tx_timer_elapsed (TCPSender_fill_window s) = tx_timer_elapsed s"
    "tx_retransmission_timeout (TCPSender_fill_window s) = tx_retransmission_timeout s"
    "tx_consecutive_retransmissions (TCPSender_fill_window s) = tx_consecutive_retransmissions s"
    "tx_is_timer_on (TCPSender_fill_window s)"
  unfolding TCPSender_fill_window_def Let_def using fill_loop_timer[OF assms] by blast+

lemma ack_loop_length: "length (tx_outstanding_segments (ack_loop segs s)) \<le> length segs"
  by (induction segs arbitrary: s) (auto intro: le_SucI)

text \<open>The timer restarts if the loop drops anything.\<close>

lemma ack_loop_timer:
  "tx_timer_elapsed (ack_loop segs s) = (if tx_outstanding_segments (ack_loop segs s) = segs then tx_timer_elapsed s else 0)
   \<and> tx_retransmission_timeout (ack_loop segs s)
     = (if tx_outstanding_segments (ack_loop segs s) = segs then tx_retransmission_timeout s else tx_initial_retransmission_timeout s)
   \<and> tx_consecutive_retransmissions (ack_loop segs s)
     = (if tx_outstanding_segments (ack_loop segs s) = segs then tx_consecutive_retransmissions s else 0)"
proof (induction segs arbitrary: s)
  case (Cons seg segs)
  have "tx_outstanding_segments (ack_loop segs s') \<noteq> seg # segs" for s'
    using ack_loop_length[of segs s'] by auto
  then show ?case using Cons.IH by simp
qed simp

text \<open>The clock of the timer never holds more than a timeout does.\<close>

lemma fill_window_elapsed: "tx_timer_elapsed (TCPSender_fill_window s) = tx_timer_elapsed s \<or> tx_timer_elapsed (TCPSender_fill_window s) = 0"
proof -
  have "tx_timer_elapsed (fill_loop n index num p hs rf s) = tx_timer_elapsed s \<or> tx_timer_elapsed (fill_loop n index num p hs rf s) = 0"
    for n index num p hs rf
  proof (induction n arbitrary: index s)
    case (Suc n)
    have "tx_timer_elapsed (fill_step x y z s) = tx_timer_elapsed s \<or> tx_timer_elapsed (fill_step x y z s) = 0" for x y z
      by (simp add: fill_step_def split_beta Let_def)
    then show ?case using Suc.IH unfolding fill_loop.simps Let_def by metis
  qed simp
  then show ?thesis unfolding TCPSender_fill_window_def Let_def by blast
qed

lemma ack_received_elapsed:
  "tx_timer_elapsed (TCPSender_ack_received ackno w s) = tx_timer_elapsed s \<or> tx_timer_elapsed (TCPSender_ack_received ackno w s) = 0"
proof -
  let ?u = "ack_update (unwrap ackno (tx_isn s) (tx_next_seqno s)) w s"
  have "tx_timer_elapsed ?u = tx_timer_elapsed s" by (simp add: ack_update_def Let_def)
  then have "tx_timer_elapsed (ack_loop (tx_outstanding_segments s) ?u) \<in> {tx_timer_elapsed s, 0}"
    using ack_loop_timer[of "tx_outstanding_segments s" ?u] by auto
  then show ?thesis using fill_window_elapsed[of "ack_loop (tx_outstanding_segments s) ?u"] \<open>tx_timer_elapsed ?u = _\<close>
    by (auto simp: TCPSender_ack_received_def Let_def)
qed

lemma session_elapsed:
  assumes "tx_session (TCPSender_new capacity rto fixed_isn random) s W E"
  shows "unat (tx_timer_elapsed s) < 2 ^ 32"
  using assms
proof (induction rule: tx_session.induct)
  case (tx_fill s W E)
  then show ?case using fill_window_elapsed[of s] by auto
next
  case (tx_ack s W E ackno w)
  then show ?case using ack_received_elapsed[of ackno w s] by auto
next
  case (tx_tick s W E ms s')
  have "unat (ucast (tx_retransmission_timeout s) :: u64) < 2 ^ 32" using unat32_bound[of "tx_retransmission_timeout s"] by (simp add: unat_ucast_up)
  then show ?case using tx_tick(2,3)
    by (auto simp: TCPSender_tick_def Let_def word_le_nat_alt split: if_splits list.splits)
qed (simp_all add: TCPSender_new_def TCPSender_write_def TCPSender_end_input_def TCPSender_send_empty_segment_def TCPSender_set_error_def split_beta)

text \<open>Ticks before the timeout only advance the clock; the one that reaches it retransmits.\<close>

abbreviation run_ticks :: "TCPSender \<Rightarrow> u64 list \<Rightarrow> TCPSender result" where
  "run_ticks s mss \<equiv> run_events (\<lambda>s ms. TCPSender_tick ms s) s mss"

abbreviation total_ms :: "u64 list \<Rightarrow> nat" where
  "total_ms mss \<equiv> sum_list (map unat mss)"

lemma ticks_before:
  assumes "tx_is_timer_on s" and "unat (tx_timer_elapsed s) + total_ms mss < unat (tx_retransmission_timeout s)"
  shows "run_ticks s mss = Inr (s\<lparr>tx_timer_elapsed := of_nat (unat (tx_timer_elapsed s) + total_ms mss)\<rparr>)"
  using assms
proof (induction mss arbitrary: s)
  case (Cons ms mss)
  let ?s = "s\<lparr>tx_timer_elapsed := tx_timer_elapsed s + ms\<rparr>"
  have e: "unat (tx_timer_elapsed s + ms) = unat (tx_timer_elapsed s) + unat ms"
    using Cons.prems(2) unat32_bound[of "tx_retransmission_timeout s"] by (intro unat_add_lt) simp
  have "\<not> ucast (tx_retransmission_timeout s) \<le> tx_timer_elapsed s + ms"
    using Cons.prems(2) e by (simp add: word_le_nat_alt unat_ucast_up)
  then have "TCPSender_tick ms s = Inr ?s" using Cons.prems(1) by (simp add: TCPSender_tick_def Let_def)
  moreover have "run_ticks ?s mss = Inr (?s\<lparr>tx_timer_elapsed := of_nat (unat (tx_timer_elapsed ?s) + total_ms mss)\<rparr>)"
    using Cons.prems e by (intro Cons.IH) simp_all
  ultimately show ?case by (simp add: e add.assoc)
qed simp

lemma tick_expires:
  assumes "tx_is_timer_on s" and "tx_outstanding_segments s = seg # segs"
    and "unat (tx_retransmission_timeout s) \<le> unat (tx_timer_elapsed s) + unat ms" and "unat (tx_timer_elapsed s) + unat ms < 2 ^ 64"
  shows "TCPSender_tick ms s = Inr (s\<lparr>tx_timer_elapsed := 0, tx_segments_out := tx_segments_out s @ [seg],
      tx_consecutive_retransmissions := tx_consecutive_retransmissions s + of_bool (tx_receiver_window_size s \<noteq> 0),
      tx_retransmission_timeout := (if tx_receiver_window_size s = 0 then tx_retransmission_timeout s else 2 * tx_retransmission_timeout s)\<rparr>)"
proof -
  have "unat (tx_timer_elapsed s + ms) = unat (tx_timer_elapsed s) + unat ms" using assms(4) by (intro unat_add_lt) simp
  then have "ucast (tx_retransmission_timeout s) \<le> tx_timer_elapsed s + ms"
    using assms(3) by (simp add: word_le_nat_alt unat_ucast_up)
  then show ?thesis using assms(1,2)
    by (auto simp: TCPSender_tick_def Let_def push_bit_eq_mult word_gt_0 mult.commute)
qed

lemma first_expiry:
  assumes "mss \<noteq> []" and "R \<le> e + total_ms mss"
  shows "\<exists>pre ms post. mss = pre @ ms # post \<and> R \<le> e + total_ms pre + unat ms \<and> (pre = [] \<or> e + total_ms pre < R)"
  using assms
proof (induction mss arbitrary: e)
  case (Cons m mss)
  show ?case
  proof (cases "R \<le> e + unat m")
    case False
    then have "mss \<noteq> []" using Cons.prems(2) by auto
    then obtain pre ms post where "mss = pre @ ms # post" "R \<le> e + unat m + total_ms pre + unat ms" "pre = [] \<or> e + unat m + total_ms pre < R"
      using Cons.IH[of "e + unat m"] Cons.prems(2) by (auto simp: add.assoc)
    then show ?thesis using False by (intro exI[of _ "m # pre"] exI[of _ ms] exI[of _ post]) auto
  qed (force intro: exI[of _ "[]"])
qed simp

section \<open>What is sent and what is acknowledged\<close>

text \<open>After \<^verbatim>\<open>fill_window\<close> the window is exhausted, or there is nothing left to send.\<close>

definition window_filled :: "TCPSender \<Rightarrow> bool" where
  "window_filled s \<longleftrightarrow> tx_window_size s = 0
     \<or> ByteStream_buffer_empty (tx_stream s) \<and> (\<not> ByteStream_input_ended (tx_stream s) \<or> tx_fin s)"

lemma fill_window_filled:
  assumes "tx_core W s"
  shows "window_filled (TCPSender_fill_window s)"
proof (cases "unat (tx_window_size (TCPSender_fill_window s)) = 0")
  case False
  let ?B = "length (bs_buffer (tx_stream s))"
  note e = fill_window_effect[OF assms]
  have lt: "fill_payload s + of_bool (tx_next_seqno s = 0) + of_bool (fill_reach_fin s) < unat (tx_window_size s)"
    using False e by (simp add: fill_effect_def)
  then have B: "fill_payload s = ?B" by (auto simp: fill_payload_def min_def split: if_splits)
  then have "fill_reach_fin s \<or> tx_fin s \<or> \<not> bs_input_ended (tx_stream s)"
    using lt by (auto simp: fill_reach_fin_def split: if_splits)
  then show ?thesis using e B
    by (auto simp: window_filled_def fill_effect_def ByteStream_input_ended_def ByteStream_buffer_empty_def)
qed (simp add: window_filled_def unat_eq_0)

text \<open>One past the last absolute sequence number of the outstanding segment \<open>j\<close>: the segments after it follow without gaps up to \<^verbatim>\<open>_next_seqno\<close>.\<close>

definition seg_end :: "TCPSender \<Rightarrow> nat \<Rightarrow> nat" where
  "seg_end s j = unat (tx_next_seqno s) - sum_list (map seg_len (drop (Suc j) (tx_outstanding_segments s)))"

lemma seg_chain_sum: "seg_chain isn a segs b \<Longrightarrow> b = a + sum_list (map seg_len segs)"
proof (induction segs arbitrary: a)
  case (Cons seg segs)
  then have "seg_chain isn (a + seg_len seg) segs b" by simp
  from Cons.IH[OF this] show ?case by (simp only: add.assoc list.map sum_list.Cons)
qed simp

lemma seg_end_take:
  assumes "seg_chain isn a (tx_outstanding_segments s) (unat (tx_next_seqno s))"
  shows "seg_end s j = a + sum_list (map seg_len (take (Suc j) (tx_outstanding_segments s)))"
proof -
  let ?q = "tx_outstanding_segments s"
  have "sum_list (map seg_len ?q) = sum_list (map seg_len (take (Suc j) ?q)) + sum_list (map seg_len (drop (Suc j) ?q))"
    by (metis append_take_drop_id map_append sum_list_append)
  then show ?thesis using seg_chain_sum[OF assms] by (simp add: seg_end_def)
qed

lemma seg_end_mono:
  assumes "seg_chain isn a (tx_outstanding_segments s) (unat (tx_next_seqno s))" and "i \<le> j"
  shows "seg_end s i \<le> seg_end s j"
proof -
  let ?q = "tx_outstanding_segments s"
  have "take (Suc j) ?q = take (Suc i) ?q @ take (j - i) (drop (Suc i) ?q)"
    using assms(2) by (metis Suc_diff_le add_diff_inverse_nat diff_Suc_Suc not_less_eq_eq not_le take_add)
  then show ?thesis by (simp add: seg_end_take[OF assms(1)])
qed

lemma seg_end_seqno:
  assumes "seg_chain (tx_isn s) a (tx_outstanding_segments s) (unat (tx_next_seqno s))" and "j < length (tx_outstanding_segments s)"
  shows "tcp_seqno (seg_header (tx_outstanding_segments s ! j))
    = wrap (of_nat (seg_end s j - seg_len (tx_outstanding_segments s ! j))) (tx_isn s)"
proof -
  let ?q = "tx_outstanding_segments s"
  have "seg_chain (tx_isn s) a (take j ?q @ ?q ! j # drop (Suc j) ?q) (unat (tx_next_seqno s))"
    using assms by (simp add: id_take_nth_drop[symmetric])
  then obtain m where m: "seg_chain (tx_isn s) a (take j ?q) m" "tcp_seqno (seg_header (?q ! j)) = wrap (of_nat m) (tx_isn s)"
    by (auto simp: seg_chain_append)
  moreover have "seg_end s j = m + seg_len (?q ! j)"
    using seg_chain_sum[OF m(1)] assms(2) by (simp add: seg_end_take[OF assms(1)] take_Suc_conv_app_nth)
  ultimately show ?thesis by simp
qed

lemma acked_prefix:
  assumes q: "tx_outstanding_segments s = acked @ kept" and c: "seg_chain (tx_isn s) a acked b" "seg_chain (tx_isn s) b kept (unat (tx_next_seqno s))"
    and n: "b \<le> n" "kept = [] \<or> n < b + seg_len (hd kept)" and j: "j < length (tx_outstanding_segments s)"
  shows "j < length acked \<longleftrightarrow> seg_end s j \<le> n"
proof -
  have ch: "seg_chain (tx_isn s) a (tx_outstanding_segments s) (unat (tx_next_seqno s))"
    using q c by (auto simp: seg_chain_append)
  show ?thesis
  proof (cases "j < length acked")
    case True
    then obtain i where "length acked = Suc i" "j \<le> i" by (cases "length acked") auto
    then have "seg_end s j \<le> seg_end s i" "seg_end s i = b"
      using seg_end_mono[OF ch, of j i] seg_chain_sum[OF c(1)] by (simp, simp add: seg_end_take[OF ch] q)
    then show ?thesis using True n(1) by simp
  next
    case False
    then obtain x xs where k: "kept = x # xs" using j q by (cases kept) auto
    have "seg_end s (length acked) = b + seg_len x" using seg_chain_sum[OF c(1)] by (simp add: seg_end_take[OF ch] q k)
    then show ?thesis using False n(2) k seg_end_mono[OF ch, of "length acked" j] by simp
  qed
qed

lemma ack_received_effect:
  fixes window :: u16
  assumes core: "tx_core W s" and fl: "unat (TCPSender_bytes_in_flight s) < 2 ^ 30"
    and ack: "unwrap ackno (tx_isn s) (tx_next_seqno s) \<le> tx_next_seqno s" and on: "tx_is_timer_on s" "tx_outstanding_segments s \<noteq> []"
  defines "n \<equiv> max (tx_current_seqno s) (unwrap ackno (tx_isn s) (tx_next_seqno s))" and "q \<equiv> tx_outstanding_segments s"
    and "u \<equiv> ack_update (unwrap ackno (tx_isn s) (tx_next_seqno s)) window s"
    and "s' \<equiv> TCPSender_ack_received ackno window s"
  defines "new \<equiv> window_segments (tx_isn s) (unat (tx_next_seqno s)) False (fill_reach_fin u) (take (fill_payload u) (bs_buffer (tx_stream s)))"
  shows "\<exists>k \<le> length q.
    (\<forall>j < length q. (j < k \<longleftrightarrow> seg_end s j \<le> unat n)
         \<and> tcp_seqno (seg_header (q ! j)) = wrap (of_nat (seg_end s j - seg_len (q ! j))) (tx_isn s))
    \<and> tx_outstanding_segments s' = drop k q @ new \<and> tx_segments_out s' = tx_segments_out s @ new
    \<and> tx_current_seqno s' = n \<and> (tx_is_timer_on s' \<longleftrightarrow> drop k q @ new \<noteq> [])
    \<and> tx_timer_elapsed s' = (if k = 0 then tx_timer_elapsed s else 0)
    \<and> tx_retransmission_timeout s' = (if k = 0 then tx_retransmission_timeout s else tx_initial_retransmission_timeout s)
    \<and> tx_consecutive_retransmissions s' = (if k = 0 then tx_consecutive_retransmissions s else 0)
    \<and> window_filled s'"
proof -
  let ?l = "ack_loop q u"
  let ?f = "TCPSender_fill_window ?l"
  obtain a b acked where core': "tx_core W ?l" and b: "tx_flight b ?l" "tx_first_unacked b ?l"
    "q = acked @ tx_outstanding_segments ?l" "seg_chain (tx_isn s) a acked b"
    using ack_popped[OF core on(2) fl ack, of window] unfolding q_def u_def by blast
  have "tx_next_seqno s \<noteq> 0" using core on(2) by (auto simp: tx_core_def tx_numbered_def)
  moreover have "fill_reach_fin ?l = fill_reach_fin u" "fill_payload ?l = fill_payload u"
    by (simp_all add: fill_reach_fin_def fill_payload_def)
  ultimately have new: "tx_outstanding_segments ?f = tx_outstanding_segments ?l @ new" "tx_segments_out ?f = tx_segments_out s @ new"
    "tx_current_seqno ?f = n"
    using fill_window_effect[OF core'] by (simp_all add: fill_effect_def fill_queued_def n_def new_def u_def)
  have s': "s' = (if tx_outstanding_segments ?f = [] then ?f\<lparr>tx_is_timer_on := False\<rparr> else ?f)"
    using ack on by (simp add: s'_def q_def u_def TCPSender_ack_received_def Let_def)
  have d: "drop (length acked) q = tx_outstanding_segments ?l" using b(3) by (metis append_eq_conv_conj)
  have z: "tx_outstanding_segments ?l = q \<longleftrightarrow> length acked = 0" using b(3) by (metis append_self_conv2 length_0_conv)
  have n: "b \<le> unat n" "tx_outstanding_segments ?l = [] \<or> unat n < b + seg_len (hd (tx_outstanding_segments ?l))"
    using b(1,2) by (auto simp: tx_flight_def tx_first_unacked_def n_def u_def split: list.splits)
  have c: "seg_chain (tx_isn s) b (tx_outstanding_segments ?l) (unat (tx_next_seqno s))" using b(1) by (simp add: tx_flight_def u_def)
  have "seg_chain (tx_isn s) a (tx_outstanding_segments s) (unat (tx_next_seqno s))"
    using b(3,4) c unfolding q_def by (metis seg_chain_append)
  then have j: "\<forall>j < length q. (j < length acked \<longleftrightarrow> seg_end s j \<le> unat n)
      \<and> tcp_seqno (seg_header (q ! j)) = wrap (of_nat (seg_end s j - seg_len (q ! j))) (tx_isn s)"
    using acked_prefix[OF b(3)[unfolded q_def] b(4) c[unfolded q_def] n[unfolded q_def]] seg_end_seqno unfolding q_def by blast
  have t: "tx_is_timer_on ?l" using on by (simp add: u_def)
  have u: "tx_timer_elapsed u = tx_timer_elapsed s" "tx_retransmission_timeout u = tx_retransmission_timeout s"
    "tx_initial_retransmission_timeout u = tx_initial_retransmission_timeout s"
    "tx_consecutive_retransmissions u = tx_consecutive_retransmissions s" by (simp_all add: u_def ack_update_def Let_def)
  have w: "window_filled s'" using fill_window_filled[OF core'] by (simp add: s' window_filled_def)
  have "length acked \<le> length q" using b(3) by (metis length_append le_add1)
  then show ?thesis using j new d w fill_window_timer[OF t] ack_loop_timer[of q u, unfolded u z]
    by (intro exI[of _ "length acked"]) (simp add: s')
qed

section \<open>Properties\<close>

text \<open>
  The sender's bookkeeping, in every state of every session: the retransmission timer runs
  exactly while a segment is outstanding, which is exactly while \<^verbatim>\<open>bytes_in_flight()\<close> is not zero;
  the next absolute sequence number is one (for the SYN) plus the bytes taken from the stream plus
  one if the FIN was sent; and \<^verbatim>\<open>tick\<close> never reads the front of an empty queue.
\<close>

theorem TCPSender_bookkeeping:
  assumes "tx_session (TCPSender_new capacity rto fixed_isn random) s W E"
  shows "(tx_is_timer_on s \<longleftrightarrow> tx_outstanding_segments s \<noteq> [])
    \<and> (tx_outstanding_segments s = [] \<longleftrightarrow> TCPSender_bytes_in_flight s = 0)
    \<and> (tx_next_seqno s \<noteq> 0 \<longrightarrow> unat (tx_next_seqno s)
         = 1 + unat (ByteStream_bytes_read (tx_stream s)) + of_bool (tx_fin s))
    \<and> (\<exists>s'. TCPSender_tick ms s = Inr s')"
proof -
  have inv: "TCPSender_inv W s" using session_new_inv[OF assms] by simp
  then have "tx_is_timer_on s \<longleftrightarrow> tx_outstanding_segments s \<noteq> []" "tx_numbered s"
    by (auto simp: TCPSender_inv_def tx_core_def)
  then show ?thesis using flight_iff[OF inv] tick_inv[OF inv, of ms]
    by (auto simp: tx_numbered_def ByteStream_bytes_read_def)
qed

theorem TCPSender_bookkeeping_witness:
  "tx_is_timer_on (TCPSender_fill_window (TCPSender_new 10 1000 (Some (WrappingInt32 7)) 0))
   \<and> (\<exists>s'. TCPSender_tick 5000 (TCPSender_fill_window (TCPSender_new 10 1000 (Some (WrappingInt32 7)) 0)) = Inr s')"
proof -
  let ?s = "TCPSender_new 10 1000 (Some (WrappingInt32 7)) 0"
  have f: "tx_session ?s (TCPSender_fill_window ?s) [] []" by (rule tx_fill[OF tx_start])
  have "fill_effect [] ?s (fill_payload ?s) True (fill_reach_fin ?s) (TCPSender_fill_window ?s)"
    using fill_window_effect[of "[]" ?s] new_tx_inv[of 10 1000 "Some (WrappingInt32 7)" 0]
    by (simp add: TCPSender_inv_def TCPSender_new_def)
  then have "tx_outstanding_segments (TCPSender_fill_window ?s) \<noteq> []"
    using fill_effect_nonempty by (fastforce simp: fill_payload_def)
  then show ?thesis using TCPSender_bookkeeping[OF f, of 5000] by simp
qed

text \<open>
  C8. Every segment the sender ever emits, first transmissions, retransmissions and empty
  acknowledgments alike, is a segment of the byte stream written to it: its payload is what was
  written at the position its sequence number says, and a SYN carries the initial sequence number.
\<close>

theorem TCPSender_emits_stream:
  assumes "tx_session (TCPSender_new capacity rto fixed_isn random) s W E"
    and "seg \<in> set E \<union> set (tx_segments_out s) \<union> set (tx_outstanding_segments s)"
  shows "\<exists>i. stream_segment W (tx_isn (TCPSender_new capacity rto fixed_isn random)) i seg"
  using session_new_inv[OF assms(1)] TCPSender_inv_segments[of W s seg] assms(2) by auto

theorem TCPSender_emits_stream_witness:
  "\<exists>seg i. seg \<in> set (tx_segments_out (TCPSender_fill_window (TCPSender_new 10 1000 (Some (WrappingInt32 7)) 0)))
    \<and> stream_segment [] (WrappingInt32 7) i seg"
proof -
  let ?s = "TCPSender_new 10 1000 (Some (WrappingInt32 7)) 0"
  have f: "tx_session ?s (TCPSender_fill_window ?s) [] []" by (rule tx_fill[OF tx_start])
  have "fill_effect [] ?s (fill_payload ?s) True (fill_reach_fin ?s) (TCPSender_fill_window ?s)"
    using fill_window_effect[of "[]" ?s] new_tx_inv[of 10 1000 "Some (WrappingInt32 7)" 0]
    by (simp add: TCPSender_inv_def TCPSender_new_def)
  then have "tx_segments_out (TCPSender_fill_window ?s) \<noteq> []"
    using fill_effect_nonempty by (fastforce simp: fill_payload_def)
  then obtain seg where "seg \<in> set (tx_segments_out (TCPSender_fill_window ?s))" by fastforce
  then show ?thesis using TCPSender_emits_stream[OF f, of seg] by (auto simp: TCPSender_new_def)
qed

text \<open>
  C4. \<^verbatim>\<open>fill_window\<close> sends exactly what fits in the window. In any state of a session it takes
  \<open>sent = min (buffered bytes) (window - SYN)\<close> bytes from the stream and sends them in the segments
  \<open>window_segments\<close>: consecutive pieces of at most \<^verbatim>\<open>MAX_PAYLOAD_SIZE\<close> bytes, numbered from \<^verbatim>\<open>_next_seqno\<close> on, the
  first with the SYN if nothing was sent before, the last with the FIN if the input has ended, the
  FIN was not sent before, and everything including the FIN fits. These segments, and no others, are
  appended to both queues; the sequence space they use is what is taken off the window, and never
  more than it; and afterwards the window is exhausted or there is nothing left to send.
\<close>

theorem fill_window_fills:
  assumes "tx_session (TCPSender_new capacity rto fixed_isn random) s W E"
  defines "s' \<equiv> TCPSender_fill_window s" and "syn \<equiv> (tx_next_seqno s = 0)"
    and "fin \<equiv> (ByteStream_input_ended (tx_stream s) \<and> \<not> tx_fin s
      \<and> of_bool (tx_next_seqno s = 0) + length (bs_buffer (tx_stream s)) + 1 \<le> unat (tx_window_size s))"
    and "sent \<equiv> min (length (bs_buffer (tx_stream s))) (unat (tx_window_size s) - of_bool (tx_next_seqno s = 0))"
  defines "segs \<equiv> window_segments (tx_isn s) (unat (tx_next_seqno s)) syn fin (take sent (bs_buffer (tx_stream s)))"
  shows "tx_segments_out s' = tx_segments_out s @ segs \<and> tx_outstanding_segments s' = tx_outstanding_segments s @ segs
    \<and> concat (map (\<lambda>seg. Buffer_str (seg_payload seg)) segs) = take sent (bs_buffer (tx_stream s))
    \<and> list_all (\<lambda>seg. length (Buffer_str (seg_payload seg)) \<le> unat MAX_PAYLOAD_SIZE) segs
    \<and> bs_buffer (tx_stream s') = drop sent (bs_buffer (tx_stream s)) \<and> tx_fin s' = (tx_fin s \<or> fin)
    \<and> unat (tx_next_seqno s') = unat (tx_next_seqno s) + (sent + of_bool syn + of_bool fin)
    \<and> sent + of_bool syn + of_bool fin \<le> unat (tx_window_size s)
    \<and> unat (tx_window_size s') = unat (tx_window_size s) - (sent + of_bool syn + of_bool fin)
    \<and> window_filled s'"
proof -
  have core: "tx_core W s" using session_new_inv[OF assms(1)] by (simp add: TCPSender_inv_def)
  have p: "fill_payload s = sent" "fill_reach_fin s = fin"
    by (simp_all add: sent_def fill_payload_def fin_def fill_reach_fin_def ByteStream_input_ended_def)
  note e = fill_window_effect[OF core, unfolded p, folded s'_def syn_def]
  have "list_all (\<lambda>seg. length (Buffer_str (seg_payload seg)) \<le> unat MAX_PAYLOAD_SIZE) segs"
    using window_segments_payloads[of "tx_isn s"] by (simp add: segs_def list_all_iff MAX_PAYLOAD_SIZE_def)
  then show ?thesis using e fill_window_sizes(4)[OF core, unfolded p, folded syn_def] fill_window_filled[OF core, folded s'_def]
      window_segments_payloads[of "tx_isn s"] by (simp add: fill_effect_def fill_queued_def segs_def)
qed

text \<open>A sender that has three bytes to send, and its first transmission: the window of one is used for the SYN.\<close>

definition tx_example :: TCPSender where
  "tx_example = snd (TCPSender_write [104, 101, 121] (TCPSender_new 10 1000 (Some (WrappingInt32 7)) 0))"

lemma tx_example_session: "tx_session (TCPSender_new 10 1000 (Some (WrappingInt32 7)) 0) tx_example [104, 101, 121] []"
proof -
  let ?s = "TCPSender_new 10 1000 (Some (WrappingInt32 7)) 0"
  have "take (unat (fst (TCPSender_write [104, 101, 121] ?s))) [104, 101, 121] = [104, 101, 121 :: u8]" by code_simp
  then show ?thesis using tx_write[OF tx_start[of ?s], of "[104, 101, 121]"]
    by (simp add: tx_example_def TCPSender_new_def ByteStream_new_def ByteStream_input_ended_def)
qed

theorem fill_window_fills_witness:
  "map (\<lambda>seg. (tcp_syn (seg_header seg), tcp_seqno (seg_header seg), Buffer_str (seg_payload seg))) (tx_segments_out (TCPSender_fill_window tx_example))
      = [(True, WrappingInt32 7, [])]
   \<and> bs_buffer (tx_stream (TCPSender_fill_window tx_example)) = [104, 101, 121] \<and> tx_window_size (TCPSender_fill_window tx_example) = 0"
proof -
  have v: "tx_window_size tx_example = 1" "tx_next_seqno tx_example = 0" "bs_buffer (tx_stream tx_example) = [104, 101, 121]"
    "tx_segments_out tx_example = []" "tx_isn tx_example = WrappingInt32 7" "ByteStream_input_ended (tx_stream tx_example) = False"
    by code_simp+
  have w: "window_segments (WrappingInt32 7) 0 True False [] = [\<lparr>seg_header = TCPHeader_default\<lparr>tcp_syn := True, tcp_fin := False,
      tcp_seqno := WrappingInt32 7\<rparr>, seg_payload = Buffer_of_string []\<rparr>]"
    by (subst window_segments.simps) (simp add: wrap_def WrappingInt32_plus_def)
  from fill_window_fills[OF tx_example_session, unfolded v] show ?thesis by (simp add: w unat_eq_0)
qed

text \<open>
  C5. An acknowledgment removes exactly the segments it covers. One for a sequence number not yet sent
  changes nothing. Any other moves \<^verbatim>\<open>_current_seqno\<close> forward, never back; with the timer running, the
  outstanding segment \<open>j\<close>, which is the one with the sequence numbers just below \<open>seg_end s j\<close>, is
  dropped if and only if all of them are acknowledged, the others stay in their order; the timer is
  restarted with the initial timeout exactly if one is dropped, and runs on exactly while some
  segment is outstanding; and then the window, as the acknowledgment updates it, is filled: what fits
  is appended to both queues.
\<close>

theorem ack_received_removes_acked:
  fixes ackno :: WrappingInt32 and window :: u16
  assumes "tx_session (TCPSender_new capacity rto fixed_isn random) s W E"
    and "unat (TCPSender_bytes_in_flight s) < 2 ^ 30"
  defines "ack \<equiv> unwrap ackno (tx_isn s) (tx_next_seqno s)" and "q \<equiv> tx_outstanding_segments s"
    and "s' \<equiv> TCPSender_ack_received ackno window s"
  defines "u \<equiv> ack_update ack window s"
  defines "new \<equiv> window_segments (tx_isn s) (unat (tx_next_seqno s)) False (fill_reach_fin u) (take (fill_payload u) (bs_buffer (tx_stream s)))"
  shows "if tx_next_seqno s < ack then s' = s
    else if \<not> tx_is_timer_on s then s' = u \<and> q = []
    else \<exists>k \<le> length q.
      (\<forall>j < length q. (j < k \<longleftrightarrow> seg_end s j \<le> unat (max (tx_current_seqno s) ack))
           \<and> tcp_seqno (seg_header (q ! j)) = wrap (of_nat (seg_end s j - seg_len (q ! j))) (tx_isn s))
      \<and> tx_outstanding_segments s' = drop k q @ new \<and> tx_segments_out s' = tx_segments_out s @ new
      \<and> tx_current_seqno s' = max (tx_current_seqno s) ack
      \<and> (tx_is_timer_on s' \<longleftrightarrow> drop k q @ new \<noteq> [])
      \<and> tx_timer_elapsed s' = (if k = 0 then tx_timer_elapsed s else 0)
      \<and> tx_retransmission_timeout s' = (if k = 0 then tx_retransmission_timeout s else tx_initial_retransmission_timeout s)
      \<and> tx_consecutive_retransmissions s' = (if k = 0 then tx_consecutive_retransmissions s else 0)
      \<and> window_filled s'"
proof -
  have inv: "TCPSender_inv W s" using session_new_inv[OF assms(1)] by simp
  then have core: "tx_core W s" and on: "tx_is_timer_on s \<longleftrightarrow> q \<noteq> []"
    by (auto simp: TCPSender_inv_def tx_core_def q_def)
  consider "tx_next_seqno s < ack" | "ack \<le> tx_next_seqno s" "\<not> tx_is_timer_on s" | "ack \<le> tx_next_seqno s" "tx_is_timer_on s"
    by (meson not_le)
  then show ?thesis
  proof cases
    case 1
    have "s\<lparr>tx_is_timer_on := False\<rparr> = s" if "tx_outstanding_segments s = []" using that on by (simp add: q_def)
    then show ?thesis using 1 by (simp add: s'_def ack_def TCPSender_ack_received_def Let_def not_le)
  next
    case 2
    then show ?thesis using on by (simp add: s'_def u_def ack_def TCPSender_ack_received_def Let_def not_less)
  next
    case 3
    then show ?thesis using ack_received_effect[OF core assms(2) 3[unfolded ack_def], of window] on by (simp add: q_def s'_def new_def u_def ack_def not_less)
  qed
qed

text \<open>The acknowledgment of the SYN of the example: it is dropped, and the data is sent.\<close>

theorem ack_received_removes_acked_witness:
  "let s = TCPSender_fill_window tx_example; s' = TCPSender_ack_received (WrappingInt32 8) 5 s
   in length (tx_outstanding_segments s) = 1
     \<and> map (\<lambda>seg. Buffer_str (seg_payload seg)) (tx_outstanding_segments s') = [[104, 101, 121]]"
proof -
  let ?s = "TCPSender_fill_window tx_example"
  let ?s' = "TCPSender_ack_received (WrappingInt32 8) 5 ?s"
  have v: "tx_is_timer_on ?s" "unwrap (WrappingInt32 8) (tx_isn ?s) (tx_next_seqno ?s) = 1" "tx_next_seqno ?s = 1"
    "tx_current_seqno ?s = 0" "length (tx_outstanding_segments ?s) = 1" "seg_end ?s 0 = 1"
    "TCPSender_bytes_in_flight ?s = 1" by code_simp+
  have out: "map (\<lambda>seg. Buffer_str (seg_payload seg)) (tx_segments_out ?s) = [[]]"
    "map (\<lambda>seg. Buffer_str (seg_payload seg)) (tx_segments_out ?s') = [[], [104, 101, 121]]" by code_simp+
  obtain k new where "k \<le> 1" "0 < k" "tx_outstanding_segments ?s' = drop k (tx_outstanding_segments ?s) @ new"
    "tx_segments_out ?s' = tx_segments_out ?s @ new"
    using ack_received_removes_acked[OF tx_fill[OF tx_example_session], of "WrappingInt32 8" 5] v by fastforce
  then show ?thesis using out v(5) by (auto simp: Let_def)
qed

text \<open>
  C37. The window estimate underflows: \<^verbatim>\<open>max(max(window_size, 1) - bytes_in_flight(), 0)\<close> is computed in
  unsigned arithmetic, so when more is in flight than the peer now advertises, the estimate is not
  0 but wraps to \<open>65536\<close> minus the excess, and the sender goes on to send beyond the window. (The
  comment says that the lower bound of the estimate is 0.)
\<close>

theorem window_estimate_underflows:
  assumes "tx_current_seqno s \<le> tx_next_seqno s" and "ack \<le> tx_next_seqno s"
    and "unat (max window 1) < unat (tx_next_seqno s - max (tx_current_seqno s) ack)"
    and "unat (tx_next_seqno s - max (tx_current_seqno s) ack) < 65536"
  shows "unat (tx_window_size (ack_update ack window s))
    = 65536 - (unat (tx_next_seqno s - max (tx_current_seqno s) ack) - unat (max window 1))"
proof -
  let ?f = "tx_next_seqno s - max (tx_current_seqno s) ack" and ?w = "ucast (max window 1) :: u64"
  have w: "tx_window_size (ack_update ack window s) = ucast (?w - ?f)"
    by (simp add: ack_update_def TCPSender_bytes_in_flight_def Let_def)
  have u: "unat ?w = unat (max window 1)" by (simp add: unat_ucast_up)
  have "unat (?w - ?f) = unat ?w + 2 ^ 64 - unat ?f"
    using assms(3) u by (simp add: unat_sub_if')
  moreover define k where "k = unat ?f - unat (max window 1)"
  ultimately have d: "unat (?w - ?f) = 2 ^ 64 - k" using assms(3) u by (simp add: add.commute)
  have k: "0 < k" "k < 65536" using assms(3,4) by (simp_all add: k_def)
  have "(2 ^ 64 - k :: nat) = (65536 - k) + 65536 * 281474976710655" using k by simp
  then have "(2 ^ 64 - k) mod 65536 = 65536 - k" using k by (simp only: mod_mult_self2) simp
  moreover have "unat (tx_window_size (ack_update ack window s)) = unat (?w - ?f) mod 65536"
    unfolding w by (simp add: unsigned_ucast_eq take_bit_eq_mod)
  ultimately show ?thesis unfolding d k_def by (simp only:)
qed

theorem window_estimate_underflows_witness:
  "unat (tx_window_size (ack_update 1 1 ((TCPSender_new 10 1000 None 0)\<lparr>tx_next_seqno := 3, tx_current_seqno := 1\<rparr>)))
    = 65535"
  using window_estimate_underflows[of "(TCPSender_new 10 1000 None 0)\<lparr>tx_next_seqno := 3, tx_current_seqno := 1\<rparr>" 1 1]
  by simp

text \<open>
  C17. Retransmission happens when the timer expires, not earlier and not later. Take any ticks
  that together last at least as long as what is left of the timeout. Those before the first one at
  which the time since the timer started reaches the timeout only advance the clock; that one sends
  the oldest outstanding segment again, and nothing else, restarts the clock, and, unless the peer
  advertises no window, counts a retransmission and doubles the timeout.
\<close>

theorem retransmission_happens:
  assumes "tx_session (TCPSender_new capacity rto fixed_isn random) s W E"
    and "tx_outstanding_segments s = seg # segs" and "mss \<noteq> []" and "total_ms mss < 2 ^ 63"
    and "unat (tx_retransmission_timeout s) \<le> unat (tx_timer_elapsed s) + total_ms mss"
  shows "\<exists>pre ms post. mss = pre @ ms # post
    \<and> unat (tx_retransmission_timeout s) \<le> unat (tx_timer_elapsed s) + total_ms pre + unat ms
    \<and> (pre = [] \<or> unat (tx_timer_elapsed s) + total_ms pre < unat (tx_retransmission_timeout s))
    \<and> run_ticks s pre = Inr (s\<lparr>tx_timer_elapsed := of_nat (unat (tx_timer_elapsed s) + total_ms pre)\<rparr>)
    \<and> run_ticks s (pre @ [ms]) = Inr (s\<lparr>tx_timer_elapsed := 0, tx_segments_out := tx_segments_out s @ [seg],
        tx_consecutive_retransmissions := tx_consecutive_retransmissions s + of_bool (tx_receiver_window_size s \<noteq> 0),
        tx_retransmission_timeout := (if tx_receiver_window_size s = 0 then tx_retransmission_timeout s else 2 * tx_retransmission_timeout s)\<rparr>)"
proof -
  have on: "tx_is_timer_on s" using session_new_inv[OF assms(1)] assms(2) by (auto simp: TCPSender_inv_def tx_core_def)
  obtain pre ms post where p: "mss = pre @ ms # post" "unat (tx_retransmission_timeout s) \<le> unat (tx_timer_elapsed s) + total_ms pre + unat ms"
    "pre = [] \<or> unat (tx_timer_elapsed s) + total_ms pre < unat (tx_retransmission_timeout s)"
    using first_expiry[OF assms(3,5)] by blast
  let ?e = "unat (tx_timer_elapsed s) + total_ms pre" and ?s = "s\<lparr>tx_timer_elapsed := of_nat (unat (tx_timer_elapsed s) + total_ms pre)\<rparr>"
  have run: "run_ticks s pre = Inr ?s" using p(3) ticks_before[OF on] by auto
  have b: "?e + unat ms < 2 ^ 64" using session_elapsed[OF assms(1)] assms(4) p(1) by simp
  then have u: "unat (of_nat ?e :: u64) = ?e" by (intro unat_of_nat64) simp
  have "TCPSender_tick ms ?s = Inr (?s\<lparr>tx_timer_elapsed := 0, tx_segments_out := tx_segments_out ?s @ [seg],
        tx_consecutive_retransmissions := tx_consecutive_retransmissions ?s + of_bool (tx_receiver_window_size ?s \<noteq> 0),
        tx_retransmission_timeout := (if tx_receiver_window_size ?s = 0 then tx_retransmission_timeout ?s else 2 * tx_retransmission_timeout ?s)\<rparr>)"
    using on assms(2) p(2) b u by (intro tick_expires[of ?s seg segs]) simp_all
  then have "run_ticks s (pre @ [ms]) = Inr (s\<lparr>tx_timer_elapsed := 0, tx_segments_out := tx_segments_out s @ [seg],
        tx_consecutive_retransmissions := tx_consecutive_retransmissions s + of_bool (tx_receiver_window_size s \<noteq> 0),
        tx_retransmission_timeout := (if tx_receiver_window_size s = 0 then tx_retransmission_timeout s else 2 * tx_retransmission_timeout s)\<rparr>)"
    by (simp add: run_events_append run)
  then show ?thesis using p run by blast
qed

text \<open>Ticks of 400 milliseconds against the initial timeout of 1000: nothing happens at the second, and the SYN is sent again at the third.\<close>

theorem retransmission_happens_witness:
  "\<exists>s2 s3 seg. run_ticks (TCPSender_fill_window tx_example) [400, 400] = Inr s2 \<and> tx_timer_elapsed s2 = 800
     \<and> run_ticks (TCPSender_fill_window tx_example) [400, 400, 400] = Inr s3
     \<and> tx_segments_out s2 = [seg] \<and> tx_segments_out s3 = [seg, seg] \<and> tx_retransmission_timeout s3 = 2000"
proof -
  let ?s = "TCPSender_fill_window tx_example"
  have v: "unat (tx_retransmission_timeout ?s) = 1000" "unat (tx_timer_elapsed ?s) = 0" "tx_retransmission_timeout ?s = 1000"
    "length (tx_outstanding_segments ?s) = 1" "tx_outstanding_segments ?s = tx_segments_out ?s" "tx_receiver_window_size ?s = 1"
    by code_simp+
  then obtain seg where q: "tx_outstanding_segments ?s = seg # []" by (auto simp: length_Suc_conv)
  obtain pre ms post where p: "[400, 400, 400] = pre @ ms # post" "1000 \<le> total_ms pre + unat ms" "pre = [] \<or> total_ms pre < 1000"
    and r: "run_ticks ?s pre = Inr (?s\<lparr>tx_timer_elapsed := of_nat (total_ms pre)\<rparr>)"
      "run_ticks ?s (pre @ [ms]) = Inr (?s\<lparr>tx_timer_elapsed := 0, tx_segments_out := tx_segments_out ?s @ [seg],
        tx_consecutive_retransmissions := tx_consecutive_retransmissions ?s + 1, tx_retransmission_timeout := 2000\<rparr>)"
    using retransmission_happens[OF tx_fill[OF tx_example_session] q, of "[400, 400, 400]"] v by auto
  have "pre = [400, 400]" "ms = 400" using p(1,2) by (auto simp: Cons_eq_append_conv append_eq_Cons_conv)
  moreover have "tx_segments_out ?s = [seg]" using q v(5) by simp
  ultimately show ?thesis using r by (intro exI[of _ seg] exI conjI) (assumption | simp)+
qed

text \<open>
  Exponential backoff: when the timer expires, \<^verbatim>\<open>tick\<close> counts a retransmission and doubles the
  timeout if the peer's advertised window is not zero, and does neither if it is zero (a probe);
  before it expires \<^verbatim>\<open>tick\<close> only advances the clock, and it does nothing with the timer off.
\<close>

theorem tick_backs_off:
  assumes "tx_session (TCPSender_new capacity rto fixed_isn random) s W E"
  shows "TCPSender_tick ms s = Inr
    (if \<not> tx_is_timer_on s then s
     else if tx_timer_elapsed s + ms < ucast (tx_retransmission_timeout s)
     then s\<lparr>tx_timer_elapsed := tx_timer_elapsed s + ms\<rparr>
     else s\<lparr>tx_timer_elapsed := 0,
            tx_segments_out := tx_segments_out s @ [hd (tx_outstanding_segments s)],
            tx_consecutive_retransmissions := tx_consecutive_retransmissions s
              + (if tx_receiver_window_size s = 0 then 0 else 1),
            tx_retransmission_timeout := (if tx_receiver_window_size s = 0 then tx_retransmission_timeout s
              else 2 * tx_retransmission_timeout s)\<rparr>)"
proof -
  have "tx_is_timer_on s \<longleftrightarrow> tx_outstanding_segments s \<noteq> []"
    using session_new_inv[OF assms] by (auto simp: TCPSender_inv_def tx_core_def)
  then show ?thesis
    by (auto simp: TCPSender_tick_def Let_def not_le push_bit_eq_mult word_gt_0 mult.commute split: list.splits)
qed

theorem tick_backs_off_witness:
  "TCPSender_tick 5 (TCPSender_new 10 1000 None 3) = Inr (TCPSender_new 10 1000 None 3)"
  using tick_backs_off[OF tx_start[of "TCPSender_new 10 1000 None 3"], of 5] by (simp add: TCPSender_new_def)

end
