(* ===== verification/TCP_State.thy ===== *)
theory TCP_State
  imports TCP_Receiver TCP_Sender_Session
begin

text \<open>
  \<^verbatim>\<open>libsponge/tcp_helpers/tcp_state.{hh,cc}\<close>: the summary of a connection's sender, receiver and
  flags, and the summaries of the official TCP states it is compared with.
\<close>

section \<open>The model\<close>

definition RX_ERROR :: string where "RX_ERROR = ''error (connection was reset)''"
definition RX_LISTEN :: string where "RX_LISTEN = ''waiting for SYN: ackno is empty''"
definition RX_SYN_RECV :: string where
  "RX_SYN_RECV = ''SYN received (ackno exists), and input to stream hasn'' @ [CHR 0x27] @ ''t ended''"
definition RX_FIN_RECV :: string where "RX_FIN_RECV = ''input to stream has ended''"

definition TX_ERROR :: string where "TX_ERROR = ''error (connection was reset)''"
definition TX_CLOSED :: string where "TX_CLOSED = ''waiting for stream to begin (no SYN sent)''"
definition TX_SYN_SENT :: string where "TX_SYN_SENT = ''stream started but nothing acknowledged''"
definition TX_SYN_ACKED :: string where "TX_SYN_ACKED = ''stream ongoing''"
definition TX_FIN_SENT :: string where "TX_FIN_SENT = ''stream finished (FIN sent) but not fully acknowledged''"
definition TX_FIN_ACKED :: string where "TX_FIN_ACKED = ''stream finished and fully acknowledged''"

lemmas state_summaries = RX_ERROR_def RX_LISTEN_def RX_SYN_RECV_def RX_FIN_RECV_def TX_ERROR_def TX_CLOSED_def
  TX_SYN_SENT_def TX_SYN_ACKED_def TX_FIN_SENT_def TX_FIN_ACKED_def

record TCPState =
  st_sender :: string
  st_receiver :: string
  st_active :: bool
  st_linger_after_streams_finish :: bool

definition TCPState_eq :: "TCPState \<Rightarrow> TCPState \<Rightarrow> bool" where
  "TCPState_eq s other \<longleftrightarrow> st_active s = st_active other
     \<and> st_linger_after_streams_finish s = st_linger_after_streams_finish other
     \<and> st_sender s = st_sender other \<and> st_receiver s = st_receiver other"

definition to_string_bool :: "bool \<Rightarrow> string" where
  "to_string_bool b = (if b then ''1'' else ''0'')"

definition TCPState_name :: "TCPState \<Rightarrow> string" where
  "TCPState_name s = ''sender=`'' @ st_sender s @ ''`, receiver=`'' @ st_receiver s @ ''`, active=''
     @ to_string_bool (st_active s) @ '', linger_after_streams_finish=''
     @ to_string_bool (st_linger_after_streams_finish s)"

datatype State = LISTEN | SYN_RCVD | SYN_SENT | ESTABLISHED | CLOSE_WAIT | LAST_ACK | FIN_WAIT_1 | FIN_WAIT_2
  | CLOSING | TIME_WAIT | CLOSED | RESET

text \<open>The members that a case does not assign keep their initializers, \<^verbatim>\<open>true\<close>.\<close>

definition TCPState_of_State :: "State \<Rightarrow> TCPState" where
  "TCPState_of_State state =
     (let st = (\<lambda>r s. \<lparr>st_sender = s, st_receiver = r, st_active = True, st_linger_after_streams_finish = True\<rparr>)
      in case state of
           LISTEN \<Rightarrow> st RX_LISTEN TX_CLOSED
         | SYN_RCVD \<Rightarrow> st RX_SYN_RECV TX_SYN_SENT
         | SYN_SENT \<Rightarrow> st RX_LISTEN TX_SYN_SENT
         | ESTABLISHED \<Rightarrow> st RX_SYN_RECV TX_SYN_ACKED
         | CLOSE_WAIT \<Rightarrow> (st RX_FIN_RECV TX_SYN_ACKED)\<lparr>st_linger_after_streams_finish := False\<rparr>
         | LAST_ACK \<Rightarrow> (st RX_FIN_RECV TX_FIN_SENT)\<lparr>st_linger_after_streams_finish := False\<rparr>
         | CLOSING \<Rightarrow> st RX_FIN_RECV TX_FIN_SENT
         | FIN_WAIT_1 \<Rightarrow> st RX_SYN_RECV TX_FIN_SENT
         | FIN_WAIT_2 \<Rightarrow> st RX_SYN_RECV TX_FIN_ACKED
         | TIME_WAIT \<Rightarrow> st RX_FIN_RECV TX_FIN_ACKED
         | RESET \<Rightarrow> (st RX_ERROR TX_ERROR)\<lparr>st_linger_after_streams_finish := False, st_active := False\<rparr>
         | CLOSED \<Rightarrow> (st RX_FIN_RECV TX_FIN_ACKED)\<lparr>st_linger_after_streams_finish := False, st_active := False\<rparr>)"

definition state_summary_receiver :: "TCPReceiver \<Rightarrow> string" where
  "state_summary_receiver receiver =
     (if ByteStream_get_error (TCPReceiver_stream_out receiver) then RX_ERROR
      else if TCPReceiver_ackno receiver = None then RX_LISTEN
      else if ByteStream_input_ended (TCPReceiver_stream_out receiver) then RX_FIN_RECV
      else RX_SYN_RECV)"

definition state_summary_sender :: "TCPSender \<Rightarrow> string" where
  "state_summary_sender sender =
     (if ByteStream_get_error (tx_stream sender) then TX_ERROR
      else if tx_next_seqno sender = 0 then TX_CLOSED
      else if tx_next_seqno sender = TCPSender_bytes_in_flight sender then TX_SYN_SENT
      else if \<not> ByteStream_eof (tx_stream sender) then TX_SYN_ACKED
      else if tx_next_seqno sender < ByteStream_bytes_written (tx_stream sender) + 2 then TX_SYN_ACKED
      else if TCPSender_bytes_in_flight sender \<noteq> 0 then TX_FIN_SENT
      else TX_FIN_ACKED)"

definition TCPState_of :: "TCPSender \<Rightarrow> TCPReceiver \<Rightarrow> bool \<Rightarrow> bool \<Rightarrow> TCPState" where
  "TCPState_of sender receiver active linger =
     \<lparr>st_sender = state_summary_sender sender, st_receiver = state_summary_receiver receiver,
      st_active = active, st_linger_after_streams_finish = (if active then linger else False)\<rparr>"

section \<open>Properties\<close>

lemma TCPState_eq_iff [simp]: "TCPState_eq a b \<longleftrightarrow> a = b"
  by (cases a; cases b) (auto simp: TCPState_eq_def)

text \<open>
  The summaries tell the official TCP states apart: the comparison that the state tests rely on
  is equality of the four members, and no two of the twelve official states have equal summaries.
\<close>

theorem official_states_distinguished:
  "TCPState_eq (TCPState_of_State a) (TCPState_of_State b) \<longleftrightarrow> a = b"
  by (cases a; cases b) (simp_all add: TCPState_of_State_def state_summaries)

end
