(* ===== verification/TCP_Connection.thy ===== *)
theory TCP_Connection
  imports TCP_State
begin

text \<open>
  \<^verbatim>\<open>libsponge/tcp_connection.{hh,cc}\<close>: the endpoint that couples one sender and one receiver. Each
  method returns the connection it leaves behind; \<^verbatim>\<open>segment_received\<close> and \<^verbatim>\<open>tick\<close> can fail where
  the receiver's and the sender's do. The random initial sequence number is an argument of the
  constructor.
\<close>

section \<open>The model\<close>

record TCPConnection =
  cn_cfg :: TCPConfig
  cn_receiver :: TCPReceiver
  cn_sender :: TCPSender
  cn_segments_out :: "TCPSegment list"
  cn_linger_after_streams_finish :: bool
  cn_error :: bool
  cn_fin :: bool
  cn_time_since_last_segment_received :: u64

definition TCPConnection_new :: "TCPConfig \<Rightarrow> u32 \<Rightarrow> TCPConnection" where
  "TCPConnection_new cfg random =
     \<lparr>cn_cfg = cfg, cn_receiver = TCPReceiver_new (cfg_recv_capacity cfg),
      cn_sender = TCPSender_new (cfg_send_capacity cfg) (cfg_rt_timeout cfg) (cfg_fixed_isn cfg) random,
      cn_segments_out = [], cn_linger_after_streams_finish = True, cn_error = False, cn_fin = False,
      cn_time_since_last_segment_received = 0\<rparr>"

definition TCPConnection_inbound_stream :: "TCPConnection \<Rightarrow> ByteStream" where
  "TCPConnection_inbound_stream c = TCPReceiver_stream_out (cn_receiver c)"

definition TCPConnection_check_prereqs :: "TCPConnection \<Rightarrow> bool" where
  "TCPConnection_check_prereqs c =
     (if \<not> (cn_fin c \<and> ByteStream_eof (tx_stream (cn_sender c))) \<or> TCPSender_bytes_in_flight (cn_sender c) \<noteq> 0
      then False
      else if \<not> ByteStream_eof (TCPReceiver_stream_out (cn_receiver c)) then False
      else True)"

definition TCPConnection_active :: "TCPConnection \<Rightarrow> bool" where
  "TCPConnection_active c =
     (if cn_error c then False
      else if \<not> TCPConnection_check_prereqs c \<or> cn_linger_after_streams_finish c then True
      else False)"

definition TCPConnection_remaining_outbound_capacity :: "TCPConnection \<Rightarrow> u64" where
  "TCPConnection_remaining_outbound_capacity c =
     (if TCPConnection_active c then ByteStream_remaining_capacity (tx_stream (cn_sender c)) else 0)"

definition TCPConnection_bytes_in_flight :: "TCPConnection \<Rightarrow> u64" where
  "TCPConnection_bytes_in_flight c =
     (if TCPConnection_active c then TCPSender_bytes_in_flight (cn_sender c) else 0)"

definition TCPConnection_unassembled_bytes :: "TCPConnection \<Rightarrow> u64" where
  "TCPConnection_unassembled_bytes c =
     (if TCPConnection_active c then TCPReceiver_unassembled_bytes (cn_receiver c) else 0)"

definition TCPConnection_time_since_last_segment_received :: "TCPConnection \<Rightarrow> u64" where
  "TCPConnection_time_since_last_segment_received c =
     (if TCPConnection_active c then cn_time_since_last_segment_received c else 0)"

definition TCPConnection_state :: "TCPConnection \<Rightarrow> TCPState" where
  "TCPConnection_state c =
     TCPState_of (cn_sender c) (cn_receiver c) (TCPConnection_active c) (cn_linger_after_streams_finish c)"

definition TCPConnection_report :: "TCPConnection \<Rightarrow> TCPConnection" where
  "TCPConnection_report c =
     c\<lparr>cn_error := True, cn_sender := TCPSender_set_error (cn_sender c),
       cn_receiver := TCPReceiver_set_error (cn_receiver c)\<rparr>"

text \<open>The loop body of \<^verbatim>\<open>_send\<close>: what is written into the header of an outgoing segment.\<close>

definition stamp_segment :: "TCPReceiver \<Rightarrow> bool \<Rightarrow> TCPSegment \<Rightarrow> TCPSegment" where
  "stamp_segment receiver error segment =
     (let header = seg_header segment;
          header = (case TCPReceiver_ackno receiver of
                      Some ackno \<Rightarrow> header\<lparr>tcp_ack := True, tcp_ackno := ackno\<rparr> | None \<Rightarrow> header)
      in segment\<lparr>seg_header := header\<lparr>tcp_win := ucast (min (TCPReceiver_window_size receiver) 0xFFFF),
                                      tcp_rst := error\<rparr>\<rparr>)"

primrec send_loop :: "TCPSegment list \<Rightarrow> TCPConnection \<Rightarrow> TCPConnection" where
  "send_loop [] c = c\<lparr>cn_sender := (cn_sender c)\<lparr>tx_segments_out := []\<rparr>\<rparr>"
| "send_loop (segment # waiting_queue) c =
     send_loop waiting_queue
       (c\<lparr>cn_fin := (if tcp_fin (seg_header segment) then True else cn_fin c),
          cn_segments_out := cn_segments_out c @ [stamp_segment (cn_receiver c) (cn_error c) segment]\<rparr>)"

definition TCPConnection_send :: "TCPConnection \<Rightarrow> TCPConnection" where
  "TCPConnection_send c = send_loop (tx_segments_out (cn_sender c)) c"

definition TCPConnection_segment_received :: "TCPSegment \<Rightarrow> TCPConnection \<Rightarrow> TCPConnection result" where
  "TCPConnection_segment_received seg c =
     (let c = c\<lparr>cn_time_since_last_segment_received := 0\<rparr>;
          header = seg_header seg;
          c = (if tcp_rst header then TCPConnection_report c else c)
      in if \<not> TCPConnection_active c then Inr c
         else let ackno = TCPReceiver_ackno (cn_receiver c)
              in if TCPSegment_length_in_sequence_space seg = 0
                    \<and> (case ackno of None \<Rightarrow> False
                       | Some a \<Rightarrow> WrappingInt32_eq (tcp_seqno header) (WrappingInt32_minus a 1))
                 then Inr (TCPConnection_send (c\<lparr>cn_sender := TCPSender_send_empty_segment (cn_sender c)\<rparr>))
                 else bind_result (TCPReceiver_segment_received seg (cn_receiver c)) (\<lambda>receiver.
                   let sender = (if tcp_ack header
                                 then TCPSender_ack_received (tcp_ackno header) (tcp_win header) (cn_sender c)
                                 else TCPSender_fill_window (cn_sender c));
                       sender = (if TCPSegment_length_in_sequence_space seg \<noteq> 0 \<and> tx_segments_out sender = []
                                 then TCPSender_send_empty_segment sender else sender);
                       c = c\<lparr>cn_receiver := receiver, cn_sender := sender\<rparr>;
                       c = (if ByteStream_eof (TCPReceiver_stream_out receiver)
                               \<and> \<not> (ByteStream_eof (tx_stream sender) \<and> cn_fin c)
                            then c\<lparr>cn_linger_after_streams_finish := False\<rparr> else c)
                   in Inr (TCPConnection_send c)))"

definition TCPConnection_write :: "bytes \<Rightarrow> TCPConnection \<Rightarrow> u64 \<times> TCPConnection" where
  "TCPConnection_write data c =
     (if \<not> TCPConnection_active c then (0, c)
      else let (sz, sender) = TCPSender_write data (cn_sender c)
           in (sz, TCPConnection_send (c\<lparr>cn_sender := TCPSender_fill_window sender\<rparr>)))"

definition TCPConnection_tick :: "u64 \<Rightarrow> TCPConnection \<Rightarrow> TCPConnection result" where
  "TCPConnection_tick ms_since_last_tick c =
     (if \<not> TCPConnection_active c then Inr c
      else let c = c\<lparr>cn_time_since_last_segment_received :=
                       cn_time_since_last_segment_received c + ms_since_last_tick\<rparr>
           in bind_result (TCPSender_tick ms_since_last_tick (cn_sender c)) (\<lambda>sender.
             let c = c\<lparr>cn_sender := sender\<rparr>;
                 c = (if TCPSender_consecutive_retransmissions (cn_sender c) > MAX_RETX_ATTEMPTS
                      then TCPConnection_report c else c);
                 c = (if TCPConnection_check_prereqs c
                         \<and> cn_time_since_last_segment_received c \<ge> 10 * ucast (cfg_rt_timeout (cn_cfg c))
                      then c\<lparr>cn_linger_after_streams_finish := False\<rparr> else c)
             in Inr (TCPConnection_send c)))"

definition TCPConnection_end_input_stream :: "TCPConnection \<Rightarrow> TCPConnection" where
  "TCPConnection_end_input_stream c =
     (if \<not> TCPConnection_active c then c
      else TCPConnection_send (c\<lparr>cn_sender := TCPSender_fill_window (TCPSender_end_input (cn_sender c))\<rparr>))"

definition TCPConnection_connect :: "TCPConnection \<Rightarrow> TCPConnection" where
  "TCPConnection_connect c = TCPConnection_send (c\<lparr>cn_sender := TCPSender_fill_window (cn_sender c)\<rparr>)"

text \<open>The destructor; the connection it leaves behind is what its owner can still drain.\<close>

definition TCPConnection_destroy :: "TCPConnection \<Rightarrow> TCPConnection" where
  "TCPConnection_destroy c =
     (if TCPConnection_active c
      then let c = TCPConnection_report c
           in TCPConnection_send (c\<lparr>cn_sender := TCPSender_send_empty_segment (cn_sender c)\<rparr>)
      else c)"

text \<open>The reader's side, through \<^verbatim>\<open>inbound_stream()\<close>.\<close>

definition TCPConnection_read :: "u64 \<Rightarrow> TCPConnection \<Rightarrow> bytes \<times> TCPConnection" where
  "TCPConnection_read n c = (let (d, r) = TCPReceiver_read n (cn_receiver c) in (d, c\<lparr>cn_receiver := r\<rparr>))"

section \<open>Sending\<close>

lemma send_loop_eq:
  "send_loop segs c = c\<lparr>cn_fin := (cn_fin c \<or> (\<exists>seg \<in> set segs. tcp_fin (seg_header seg))),
     cn_segments_out := cn_segments_out c @ map (stamp_segment (cn_receiver c) (cn_error c)) segs,
     cn_sender := (cn_sender c)\<lparr>tx_segments_out := []\<rparr>\<rparr>"
  by (induction segs arbitrary: c) auto

lemma send_eq:
  "TCPConnection_send c = c\<lparr>cn_fin := (cn_fin c \<or> (\<exists>seg \<in> set (tx_segments_out (cn_sender c)). tcp_fin (seg_header seg))),
     cn_segments_out := cn_segments_out c
       @ map (stamp_segment (cn_receiver c) (cn_error c)) (tx_segments_out (cn_sender c)),
     cn_sender := (cn_sender c)\<lparr>tx_segments_out := []\<rparr>\<rparr>"
  by (simp add: TCPConnection_send_def send_loop_eq)

lemma send_frame [simp]:
  "cn_cfg (TCPConnection_send c) = cn_cfg c" "cn_receiver (TCPConnection_send c) = cn_receiver c"
  "cn_error (TCPConnection_send c) = cn_error c"
  "cn_linger_after_streams_finish (TCPConnection_send c) = cn_linger_after_streams_finish c"
  "cn_time_since_last_segment_received (TCPConnection_send c) = cn_time_since_last_segment_received c"
  "cn_sender (TCPConnection_send c) = (cn_sender c)\<lparr>tx_segments_out := []\<rparr>"
  by (simp_all add: send_eq)

lemma stamp_fields [simp]:
  "seg_payload (stamp_segment r e seg) = seg_payload seg"
  "tcp_seqno (seg_header (stamp_segment r e seg)) = tcp_seqno (seg_header seg)"
  "tcp_syn (seg_header (stamp_segment r e seg)) = tcp_syn (seg_header seg)"
  "tcp_fin (seg_header (stamp_segment r e seg)) = tcp_fin (seg_header seg)"
  "tcp_rst (seg_header (stamp_segment r e seg)) = e"
  by (simp_all add: stamp_segment_def Let_def split: option.splits)

lemma stamp_stream: "stream_segment W isn i (stamp_segment r e seg) = stream_segment W isn i seg"
  by (rule stream_segment_cong) simp_all

section \<open>No operation fails\<close>

text \<open>The timer discipline of the sender needs no assumption on what the owner or the peer does.\<close>

definition tx_timed :: "TCPSender \<Rightarrow> bool" where
  "tx_timed s \<longleftrightarrow> (tx_is_timer_on s \<longleftrightarrow> tx_outstanding_segments s \<noteq> [])"

text \<open>Only \<^verbatim>\<open>tick\<close> counts a retransmission.\<close>

lemma fill_loop_retx: "tx_consecutive_retransmissions (fill_loop n index num p hs rf s) \<le> tx_consecutive_retransmissions s"
proof (induction n arbitrary: index s)
  case (Suc n)
  have "tx_consecutive_retransmissions (fill_step a b m s) \<le> tx_consecutive_retransmissions s" for a b m
    by (simp add: fill_step_def split_beta Let_def)
  then show ?case unfolding fill_loop.simps Let_def by (rule order_trans[OF Suc.IH])
qed simp

lemma fill_window_retx: "tx_consecutive_retransmissions (TCPSender_fill_window s) \<le> tx_consecutive_retransmissions s"
  unfolding TCPSender_fill_window_def Let_def by (rule fill_loop_retx)

lemma ack_loop_retx: "tx_consecutive_retransmissions (ack_loop segs s) \<le> tx_consecutive_retransmissions s"
proof (induction segs arbitrary: s)
  case (Cons seg segs)
  then show ?case using order_trans[OF Cons.IH] by simp
qed simp

lemma ack_received_retx:
  "tx_consecutive_retransmissions (TCPSender_ack_received ackno w s) \<le> tx_consecutive_retransmissions s"
  using fill_window_retx ack_loop_retx[of _ "ack_update a w s" for a]
  by (auto simp: TCPSender_ack_received_def Let_def ack_update_def intro: order_trans)

lemma tick_retx:
  assumes "TCPSender_tick ms s = Inr s'" and "tx_consecutive_retransmissions s \<le> 8"
  shows "tx_consecutive_retransmissions s' \<le> 8 \<or> TCPSender_consecutive_retransmissions s' > MAX_RETX_ATTEMPTS"
proof -
  have "tx_consecutive_retransmissions s' = tx_consecutive_retransmissions s
      \<or> tx_consecutive_retransmissions s' = tx_consecutive_retransmissions s + 1"
    using assms(1) by (auto simp: TCPSender_tick_def Let_def split: if_splits list.splits)
  moreover have "tx_consecutive_retransmissions s + 1 \<le> 8 \<or> tx_consecutive_retransmissions s = 8"
    using assms(2) unat_add_lt[of "tx_consecutive_retransmissions s" 1] by (auto simp: word_le_nat_alt word_unat_eq_iff)
  ultimately show ?thesis using assms(2)
    by (auto simp: TCPSender_consecutive_retransmissions_def MAX_RETX_ATTEMPTS_def)
qed

lemma retx_frame [simp]:
  "tx_consecutive_retransmissions (TCPSender_send_empty_segment s) = tx_consecutive_retransmissions s"
  "tx_consecutive_retransmissions (TCPSender_set_error s) = tx_consecutive_retransmissions s"
  "tx_consecutive_retransmissions (TCPSender_end_input s) = tx_consecutive_retransmissions s"
  "tx_consecutive_retransmissions (snd (TCPSender_write d s)) = tx_consecutive_retransmissions s"
  by (simp_all add: TCPSender_send_empty_segment_def TCPSender_end_input_def TCPSender_write_def
      TCPSender_set_error_def split_beta)

lemma fill_step_timed: "tx_is_timer_on (fill_step syn fin sz s) \<and> tx_outstanding_segments (fill_step syn fin sz s) \<noteq> []"
  by (simp add: fill_step_def split_beta Let_def)

lemma fill_loop_timed:
  "tx_timed s \<Longrightarrow> tx_timed (fill_loop n index num p hs rf s)"
  "tx_is_timer_on s \<Longrightarrow> tx_is_timer_on (fill_loop n index num p hs rf s)"
proof (induction n arbitrary: index s)
  case (Suc n)
  { case 1 show ?case unfolding fill_loop.simps Let_def
      by (rule Suc.IH) (simp add: tx_timed_def fill_step_timed)
  next
    case 2 show ?case unfolding fill_loop.simps Let_def
      by (rule Suc.IH) (simp add: fill_step_timed) }
qed simp_all

lemma fill_window_timed: "tx_timed s \<Longrightarrow> tx_timed (TCPSender_fill_window s)"
  and fill_window_timer_on: "tx_is_timer_on s \<Longrightarrow> tx_is_timer_on (TCPSender_fill_window s)"
  unfolding TCPSender_fill_window_def Let_def by (rule fill_loop_timed, assumption)+

lemma ack_received_timed: "tx_timed s \<Longrightarrow> tx_timed (TCPSender_ack_received ackno w s)"
  using fill_window_timer_on[of "ack_loop (tx_outstanding_segments s)
      (ack_update (unwrap ackno (tx_isn s) (tx_next_seqno s)) w s)" for ackno w]
  by (auto simp: TCPSender_ack_received_def Let_def tx_timed_def)

lemma tick_timed: "tx_timed s \<Longrightarrow> \<exists>s'. TCPSender_tick ms s = Inr s' \<and> tx_timed s'"
  by (auto simp: TCPSender_tick_def Let_def tx_timed_def split: list.splits)

lemma timed_frame [simp]:
  "tx_timed (TCPSender_send_empty_segment s) = tx_timed s" "tx_timed (s\<lparr>tx_segments_out := q\<rparr>) = tx_timed s"
  "tx_timed (TCPSender_set_error s) = tx_timed s" "tx_timed (TCPSender_end_input s) = tx_timed s"
  "tx_timed (snd (TCPSender_write d s)) = tx_timed s"
  by (simp_all add: tx_timed_def TCPSender_send_empty_segment_def TCPSender_end_input_def TCPSender_write_def
      TCPSender_set_error_def split_beta)

definition cn_safe :: "TCPConnection \<Rightarrow> bool" where
  "cn_safe c \<longleftrightarrow> tx_timed (cn_sender c) \<and> TCPReceiver_inv (cn_receiver c) \<and> tx_segments_out (cn_sender c) = []
     \<and> (cn_error c \<or> tx_consecutive_retransmissions (cn_sender c) \<le> 8)"

lemma report_safe:
  "TCPReceiver_inv (cn_receiver c) \<Longrightarrow> TCPReceiver_inv (cn_receiver (TCPConnection_report c))"
  "tx_timed (cn_sender (TCPConnection_report c)) = tx_timed (cn_sender c)"
  "tx_segments_out (cn_sender (TCPConnection_report c)) = tx_segments_out (cn_sender c)"
  "cn_error (TCPConnection_report c)"
  "tx_consecutive_retransmissions (cn_sender (TCPConnection_report c)) = tx_consecutive_retransmissions (cn_sender c)"
  by (simp_all add: TCPConnection_report_def rx_error_inv) (simp add: TCPSender_set_error_def)

lemma send_safe:
  "tx_timed (cn_sender c) \<Longrightarrow> TCPReceiver_inv (cn_receiver c)
    \<Longrightarrow> cn_error c \<or> tx_consecutive_retransmissions (cn_sender c) \<le> 8 \<Longrightarrow> cn_safe (TCPConnection_send c)"
  by (simp add: cn_safe_def)

lemma inactive_iff: "\<not> TCPConnection_active c \<longleftrightarrow>
  cn_error c \<or> (TCPConnection_check_prereqs c \<and> \<not> cn_linger_after_streams_finish c)"
  by (simp add: TCPConnection_active_def)

lemma prereqs_iff: "TCPConnection_check_prereqs c \<longleftrightarrow> cn_fin c \<and> ByteStream_eof (tx_stream (cn_sender c))
  \<and> TCPSender_bytes_in_flight (cn_sender c) = 0 \<and> ByteStream_eof (TCPReceiver_stream_out (cn_receiver c))"
  by (auto simp: TCPConnection_check_prereqs_def)

text \<open>
  What the owner, the application and the network can do to a connection. \<open>Cn_Drain\<close> empties
  \<^verbatim>\<open>segments_out()\<close>.
\<close>

datatype cn_op = Cn_Segment TCPSegment | Cn_Write bytes | Cn_Tick u64 | Cn_End | Cn_Connect | Cn_Read u64
  | Cn_Drain | Cn_Destroy

fun cn_step :: "TCPConnection \<Rightarrow> cn_op \<Rightarrow> TCPConnection result" where
  "cn_step c (Cn_Segment seg) = TCPConnection_segment_received seg c"
| "cn_step c (Cn_Write d) = Inr (snd (TCPConnection_write d c))"
| "cn_step c (Cn_Tick ms) = TCPConnection_tick ms c"
| "cn_step c Cn_End = Inr (TCPConnection_end_input_stream c)"
| "cn_step c Cn_Connect = Inr (TCPConnection_connect c)"
| "cn_step c (Cn_Read n) = Inr (snd (TCPConnection_read n c))"
| "cn_step c Cn_Drain = Inr (c\<lparr>cn_segments_out := []\<rparr>)"
| "cn_step c Cn_Destroy = Inr (TCPConnection_destroy c)"

lemma segment_received_safe_cn:
  assumes "cn_safe c"
  shows "\<exists>c'. TCPConnection_segment_received seg c = Inr c' \<and> cn_safe c'"
proof -
  define c0 where "c0 = (if tcp_rst (seg_header seg)
    then TCPConnection_report (c\<lparr>cn_time_since_last_segment_received := 0\<rparr>)
    else c\<lparr>cn_time_since_last_segment_received := 0\<rparr>)"
  have c0: "tx_timed (cn_sender c0)" "TCPReceiver_inv (cn_receiver c0)" "tx_segments_out (cn_sender c0) = []"
    "cn_error c0 \<or> tx_consecutive_retransmissions (cn_sender c0) \<le> 8"
    using assms by (auto simp: c0_def cn_safe_def report_safe)
  obtain r where r: "TCPReceiver_segment_received seg (cn_receiver c0) = Inr r" "TCPReceiver_inv r"
    using segment_received_safe[OF c0(2)] by blast
  show ?thesis unfolding TCPConnection_segment_received_def Let_def c0_def[symmetric] r(1)
    using c0 r(2) by (auto simp: cn_safe_def ack_received_timed fill_window_timed
        intro: order_trans[OF ack_received_retx] order_trans[OF fill_window_retx])
qed

lemma tick_safe_cn:
  assumes "cn_safe c"
  shows "\<exists>c'. TCPConnection_tick ms c = Inr c' \<and> cn_safe c'"
proof -
  obtain s where "TCPSender_tick ms (cn_sender c) = Inr s" "tx_timed s"
    using tick_timed[of "cn_sender c" ms] assms by (auto simp: cn_safe_def)
  then show ?thesis using assms tick_retx[of ms "cn_sender c" s]
    by (auto simp: TCPConnection_tick_def Let_def cn_safe_def report_safe inactive_iff)
qed

lemma owner_safe_cn:
  assumes "cn_safe c"
  shows "cn_safe (snd (TCPConnection_write d c))" "cn_safe (TCPConnection_end_input_stream c)"
    "cn_safe (TCPConnection_connect c)" "cn_safe (TCPConnection_destroy c)" "cn_safe (snd (TCPConnection_read n c))"
    "cn_safe (c\<lparr>cn_segments_out := []\<rparr>)"
  using assms timed_frame(5)[of d "cn_sender c"] rx_read_inv[of "cn_receiver c" n]
    order_trans[OF fill_window_retx, of _ 8]
  by (auto simp: cn_safe_def TCPConnection_write_def TCPConnection_end_input_stream_def TCPConnection_connect_def
      TCPConnection_destroy_def TCPConnection_read_def Let_def split_beta fill_window_timed report_safe)

interpretation cn: safe_machine cn_step cn_safe "\<lambda>_. True"
proof
  fix c e assume "cn_safe c"
  then show "\<exists>t. cn_step c e = Inr t \<and> cn_safe t"
    by (cases e) (simp_all add: segment_received_safe_cn tick_safe_cn owner_safe_cn)
qed

lemma new_cn_safe: "cfg_recv_capacity cfg \<noteq> 0 \<Longrightarrow> cn_safe (TCPConnection_new cfg random)"
  by (simp add: cn_safe_def TCPConnection_new_def rx_new_inv tx_timed_def TCPSender_new_def)

section \<open>The end of a connection\<close>

lemma report_inactive: "\<not> TCPConnection_active (TCPConnection_report c)"
  by (simp add: inactive_iff report_safe)

lemma eof_read: "ByteStream_eof (TCPReceiver_stream_out r)
  \<Longrightarrow> ByteStream_eof (TCPReceiver_stream_out (snd (TCPReceiver_read n r)))"
  by (simp add: TCPReceiver_read_def TCPReceiver_stream_out_def split_beta ByteStream_read_def
      ByteStream_pop_output_def ByteStream_pop_def ByteStream_peek_output_def ByteStream_accessors Let_def substr_def)

lemma inactive_step:
  assumes "\<not> TCPConnection_active c" and "e \<noteq> Cn_Connect"
  shows "\<exists>c'. cn_step c e = Inr c' \<and> \<not> TCPConnection_active c'
    \<and> (cn_segments_out c' = [] \<or> cn_segments_out c' = cn_segments_out c)"
proof (cases e)
  case (Cn_Segment seg)
  have "\<not> TCPConnection_active (c\<lparr>cn_time_since_last_segment_received := 0\<rparr>)"
    using assms(1) by (simp add: inactive_iff prereqs_iff)
  moreover have "cn_segments_out (TCPConnection_report c) = cn_segments_out c" for c
    by (simp add: TCPConnection_report_def)
  ultimately show ?thesis using report_inactive Cn_Segment by (simp add: TCPConnection_segment_received_def Let_def)
next
  case (Cn_Read n)
  then show ?thesis using assms(1) eof_read[of "cn_receiver c" n]
    by (auto simp: inactive_iff prereqs_iff TCPConnection_read_def split_beta split: if_splits)
next
  case Cn_Drain
  then show ?thesis using assms(1) by (simp add: inactive_iff prereqs_iff)
qed (use assms in \<open>simp_all add: TCPConnection_write_def TCPConnection_tick_def TCPConnection_end_input_stream_def
  TCPConnection_destroy_def\<close>)

end
