(* ===== verification/TCP_Lifecycle.thy ===== *)
theory TCP_Lifecycle
  imports TCP_Connection
begin

text \<open>
  The life of a connection (\<^verbatim>\<open>libsponge/tcp_connection.cc\<close>): no sequence of calls reaches undefined
  behaviour, every segment that asks for an answer gets one, the opening handshake establishes
  both ends, and the ways in which a connection ends: the abort paths, the linger after both
  streams have finished, and that an inactive connection stays silent.
\<close>

section \<open>Answers\<close>

text \<open>What \<^verbatim>\<open>_send\<close> puts into a header, as a predicate on the segments sent.\<close>

definition stamped :: "TCPReceiver \<Rightarrow> bool \<Rightarrow> TCPSegment \<Rightarrow> bool" where
  "stamped r error seg \<longleftrightarrow> tcp_rst (seg_header seg) = error
     \<and> unat (tcp_win (seg_header seg)) = min (unat (TCPReceiver_window_size r)) 65535
     \<and> (\<forall>ackno. TCPReceiver_ackno r = Some ackno \<longrightarrow> tcp_ack (seg_header seg) \<and> tcp_ackno (seg_header seg) = ackno)"

lemma stamp_stamped: "stamped r e (stamp_segment r e seg)"
proof -
  have "unat (ucast (min x 0xFFFF) :: u16) = min (unat x) 65535" for x :: u64
  proof -
    have "min x 0xFFFF \<le> 0xFFFF" by simp
    then have "unat (min x 0xFFFF) < 2 ^ 16" by (simp add: word_le_nat_alt)
    then have "unat (ucast (min x 0xFFFF) :: u16) = unat (min x 0xFFFF)"
      by (simp add: unsigned_ucast_eq take_bit_eq_mod)
    moreover have "unat (min x 0xFFFF) = min (unat x) 65535" by (simp add: min_def word_le_nat_alt)
    ultimately show ?thesis by simp
  qed
  then show ?thesis by (simp add: stamped_def stamp_segment_def Let_def split: option.splits)
qed

lemma send_stamped:
  "\<exists>new. cn_segments_out (TCPConnection_send c) = cn_segments_out c @ new
    \<and> length new = length (tx_segments_out (cn_sender c)) \<and> (\<forall>seg \<in> set new. stamped (cn_receiver c) (cn_error c) seg)"
  by (rule exI[of _ "map (stamp_segment (cn_receiver c) (cn_error c)) (tx_segments_out (cn_sender c))"])
    (simp add: send_eq stamp_stamped)

lemma answer_needed:
  assumes "cn_safe c" and "TCPConnection_active c" and "\<not> tcp_rst (seg_header seg)"
    and "TCPSegment_length_in_sequence_space seg \<noteq> 0
      \<or> (\<exists>a. TCPReceiver_ackno (cn_receiver c) = Some a \<and> tcp_seqno (seg_header seg) = WrappingInt32_minus a 1)"
  shows "\<exists>c0. TCPConnection_segment_received seg c = Inr (TCPConnection_send c0) \<and> cn_segments_out c0 = cn_segments_out c
    \<and> tx_segments_out (cn_sender c0) \<noteq> [] \<and> cn_error c0 = False"
proof -
  let ?c = "c\<lparr>cn_time_since_last_segment_received := 0\<rparr>"
  have a: "TCPConnection_active ?c" "\<not> cn_error c"
    using assms(2) by (simp_all add: TCPConnection_active_def TCPConnection_check_prereqs_def split: if_splits)
  obtain r where r: "TCPReceiver_segment_received seg (cn_receiver c) = Inr r"
    using segment_received_safe assms(1) unfolding cn_safe_def by blast
  have e: "tx_segments_out (TCPSender_send_empty_segment s) \<noteq> []" for s by (simp add: TCPSender_send_empty_segment_def)
  show ?thesis using assms(3,4) a r e
    by (auto simp: TCPConnection_segment_received_def Let_def WrappingInt32_eq_def split: option.splits)
qed

section \<open>Lingering\<close>

text \<open>A tick while nothing is outstanding only advances the clock and may end the linger.\<close>

lemma quiet_tick:
  assumes "cn_safe c" and "tx_outstanding_segments (cn_sender c) = []" and "TCPConnection_check_prereqs c"
    and "TCPConnection_active c"
  shows "TCPConnection_tick ms c = Inr (c\<lparr>cn_time_since_last_segment_received := cn_time_since_last_segment_received c + ms,
    cn_linger_after_streams_finish := \<not> 10 * ucast (cfg_rt_timeout (cn_cfg c)) \<le> cn_time_since_last_segment_received c + ms\<rparr>)"
proof -
  have t: "TCPSender_tick ms (cn_sender c) = Inr (cn_sender c)"
    using assms(1,2) by (simp add: TCPSender_tick_def cn_safe_def tx_timed_def)
  have "\<not> cn_error c" and l: "cn_linger_after_streams_finish c" using assms(3,4) by (simp_all add: TCPConnection_active_def split: if_splits)
  then have "tx_consecutive_retransmissions (cn_sender c) \<le> 8" using assms(1) by (simp add: cn_safe_def)
  then have "\<not> MAX_RETX_ATTEMPTS < TCPSender_consecutive_retransmissions (cn_sender c)"
    by (simp add: MAX_RETX_ATTEMPTS_def TCPSender_consecutive_retransmissions_def word_less_nat_alt word_le_nat_alt
        unsigned_ucast_eq take_bit_eq_mod)
  moreover have "tx_segments_out (cn_sender c) = []" using assms(1) by (simp add: cn_safe_def)
  ultimately show ?thesis using assms(3,4) t l
    by (auto simp: TCPConnection_tick_def Let_def prereqs_iff send_eq)
qed

lemma inactive_ticks:
  "\<not> TCPConnection_active c \<Longrightarrow> run_events (\<lambda>c ms. TCPConnection_tick ms c) c mss = Inr c"
  by (induction mss) (simp_all add: TCPConnection_tick_def)

interpretation silent: safe_machine cn_step
  "\<lambda>c. \<not> TCPConnection_active c \<and> (cn_segments_out c = [] \<or> cn_segments_out c = q)" "\<lambda>e. e \<noteq> Cn_Connect"
  for q using inactive_step by unfold_locales metis

lemma reset_state: "cn_error c \<Longrightarrow> bs_error (tx_stream (cn_sender c)) \<Longrightarrow> bs_error (TCPReceiver_stream_out (cn_receiver c))
    \<Longrightarrow> TCPConnection_state c = TCPState_of_State RESET"
  by (simp add: TCPConnection_state_def TCPState_of_def state_summary_sender_def state_summary_receiver_def
      TCPConnection_active_def TCPState_of_State_def ByteStream_get_error_def)

lemma report_state: "TCPConnection_state (TCPConnection_report c) = TCPState_of_State RESET"
  by (rule reset_state) (simp_all add: TCPConnection_report_def TCPReceiver_set_error_def TCPSender_set_error_def
      ByteStream_set_error_def TCPReceiver_stream_out_def)

lemma report_send_state:
  "TCPConnection_state (TCPConnection_send (TCPConnection_report c)) = TCPState_of_State RESET"
  by (rule reset_state) (simp_all add: TCPConnection_report_def TCPReceiver_set_error_def TCPSender_set_error_def
      ByteStream_set_error_def TCPReceiver_stream_out_def)

lemma retries_exhausted:
  assumes "cn_safe c" and "TCPConnection_active c" and "tx_outstanding_segments (cn_sender c) = oldest # rest"
    and "tx_receiver_window_size (cn_sender c) > 0"
    and "tx_consecutive_retransmissions (cn_sender c) = ucast MAX_RETX_ATTEMPTS"
    and "ucast (tx_retransmission_timeout (cn_sender c)) \<le> tx_timer_elapsed (cn_sender c) + ms"
  shows "\<exists>c' rst. TCPConnection_tick ms c = Inr c' \<and> TCPConnection_state c' = TCPState_of_State RESET
    \<and> cn_segments_out c' = cn_segments_out c @ [rst] \<and> tcp_rst (seg_header rst)
    \<and> tcp_seqno (seg_header rst) = tcp_seqno (seg_header oldest) \<and> seg_payload rst = seg_payload oldest"
proof -
  obtain s where s: "TCPSender_tick ms (cn_sender c) = Inr s" "tx_segments_out s = [oldest]"
    "TCPSender_consecutive_retransmissions s > MAX_RETX_ATTEMPTS"
    using assms by (simp add: TCPSender_tick_def Let_def cn_safe_def tx_timed_def TCPSender_consecutive_retransmissions_def
        MAX_RETX_ATTEMPTS_def)
  define c1 where "c1 = TCPConnection_report (c\<lparr>cn_time_since_last_segment_received :=
      cn_time_since_last_segment_received c + ms, cn_sender := s\<rparr>)"
  let ?c2 = "if TCPConnection_check_prereqs c1 \<and> 10 * ucast (cfg_rt_timeout (cn_cfg c1)) \<le> cn_time_since_last_segment_received c1
      then c1\<lparr>cn_linger_after_streams_finish := False\<rparr> else c1"
  have t: "TCPConnection_tick ms c = Inr (TCPConnection_send ?c2)"
    using assms(2) s by (simp add: TCPConnection_tick_def Let_def c1_def)
  have o: "cn_segments_out ?c2 = cn_segments_out c" "tx_segments_out (cn_sender ?c2) = [oldest]" "cn_error ?c2"
    using s(2) by (simp_all add: c1_def TCPConnection_report_def TCPSender_set_error_def)
  have "TCPConnection_state (TCPConnection_send ?c2) = TCPState_of_State RESET"
    by (rule reset_state) (simp_all add: c1_def TCPConnection_report_def TCPReceiver_set_error_def TCPSender_set_error_def
      ByteStream_set_error_def TCPReceiver_stream_out_def)
  with t o show ?thesis by (simp add: send_eq)
qed

lemma destroy_resets:
  assumes "cn_safe c" and "TCPConnection_active c"
  shows "\<exists>rst. TCPConnection_state (TCPConnection_destroy c) = TCPState_of_State RESET
    \<and> cn_segments_out (TCPConnection_destroy c) = cn_segments_out c @ [rst] \<and> tcp_rst (seg_header rst)
    \<and> tcp_seqno (seg_header rst) = TCPSender_next_seqno (cn_sender c)"
proof -
  have "TCPConnection_state (TCPConnection_destroy c) = TCPState_of_State RESET"
    using assms(2) by (intro reset_state) (simp_all add: TCPConnection_destroy_def TCPConnection_report_def
      TCPReceiver_set_error_def TCPSender_set_error_def TCPSender_send_empty_segment_def ByteStream_set_error_def
      TCPReceiver_stream_out_def)
  then show ?thesis using assms
    by (simp add: TCPConnection_destroy_def send_eq TCPConnection_report_def TCPSender_set_error_def
        TCPSender_send_empty_segment_def cn_safe_def TCPSender_next_seqno_def TCPSegment_default_def)
qed

section \<open>Properties\<close>

text \<open>
  C11. No sequence of calls to a connection, with any segments from the network, reaches undefined
  behaviour: the connection after it has an empty sender queue (everything was moved to
  \<^verbatim>\<open>segments_out()\<close>), its retransmission timer runs exactly while a segment is outstanding, its
  receiver is consistent, and unless it has failed it has retransmitted at most
  \<^verbatim>\<open>MAX_RETX_ATTEMPTS\<close> times in a row.
\<close>

theorem TCPConnection_never_fails:
  assumes "cfg_recv_capacity cfg \<noteq> 0"
  shows "\<exists>c. run_events cn_step (TCPConnection_new cfg random) ops = Inr c
    \<and> tx_segments_out (cn_sender c) = []
    \<and> (tx_is_timer_on (cn_sender c) \<longleftrightarrow> tx_outstanding_segments (cn_sender c) \<noteq> [])
    \<and> TCPReceiver_inv (cn_receiver c)
    \<and> (cn_error c \<or> tx_consecutive_retransmissions (cn_sender c) \<le> ucast MAX_RETX_ATTEMPTS)"
  using cn.run_safe[OF new_cn_safe[OF assms], of ops random] unfolding cn_safe_def tx_timed_def MAX_RETX_ATTEMPTS_def by auto

theorem TCPConnection_never_fails_witness:
  "\<exists>c. run_events cn_step (TCPConnection_new TCPConfig_default 7)
      [Cn_Connect, Cn_Write [1, 2, 3], Cn_Segment (TCPSegment_default\<lparr>seg_header := TCPHeader_default\<lparr>tcp_syn := True\<rparr>\<rparr>),
       Cn_Tick 5000, Cn_Read 4, Cn_Destroy] = Inr c \<and> tx_segments_out (cn_sender c) = []"
  using TCPConnection_never_fails[of TCPConfig_default 7] by (fastforce simp: TCPConfig_default_def DEFAULT_CAPACITY_def)



text \<open>
  C14. The linger ends: once both streams have finished and everything sent was acknowledged, an
  active connection that hears nothing more stays active, sending nothing, for as long as the time
  since the last segment is below ten times the initial timeout, and the first tick that reaches it
  makes the connection inactive.
\<close>

theorem linger_ends:
  assumes "cn_safe c" and "TCPConnection_active c" and "TCPConnection_check_prereqs c"
    and "tx_outstanding_segments (cn_sender c) = []"
    and "unat (cn_time_since_last_segment_received c) + (\<Sum>ms \<leftarrow> mss. unat ms) < 2 ^ 64" and "mss \<noteq> []"
  shows "\<exists>c'. run_events (\<lambda>c ms. TCPConnection_tick ms c) c mss = Inr c' \<and> cn_segments_out c' = cn_segments_out c
    \<and> (TCPConnection_active c' \<longleftrightarrow>
        unat (cn_time_since_last_segment_received c) + (\<Sum>ms \<leftarrow> mss. unat ms) < 10 * unat (cfg_rt_timeout (cn_cfg c)))"
  using assms(1,4,3,2,5,6)
proof (induction mss arbitrary: c)
  case (Cons ms mss)
  let ?t = "cn_time_since_last_segment_received c + ms" and ?rto = "cfg_rt_timeout (cn_cfg c)"
  let ?c = "c\<lparr>cn_time_since_last_segment_received := ?t,
      cn_linger_after_streams_finish := \<not> 10 * ucast ?rto \<le> ?t\<rparr>"
  have e: "unat ?t = unat (cn_time_since_last_segment_received c) + unat ms"
    using Cons.prems(5) by (intro unat_add_lt) simp
  have "unat (10 * ucast ?rto :: u64) = 10 * unat ?rto"
    using unsigned_less[of ?rto, where ?'a=nat] by (subst unat_mult_lem[THEN iffD1]) (simp_all add: unat_ucast_up)
  then have le: "10 * ucast ?rto \<le> ?t \<longleftrightarrow> 10 * unat ?rto \<le> unat ?t" by (simp add: word_le_nat_alt)
  have t: "TCPConnection_tick ms c = Inr ?c" by (rule quiet_tick[OF Cons.prems(1-4)])
  have p: "TCPConnection_check_prereqs ?c" using Cons.prems(3) by (simp add: prereqs_iff)
  have ne: "\<not> cn_error c" using Cons.prems(4) by (simp add: TCPConnection_active_def split: if_splits)
  then have act: "TCPConnection_active ?c \<longleftrightarrow> unat ?t < 10 * unat ?rto"
    using p le by (simp add: TCPConnection_active_def not_le)
  show ?case
  proof (cases "TCPConnection_active ?c \<and> mss \<noteq> []")
    case True
    have "cn_safe ?c" using Cons.prems(1) by (simp add: cn_safe_def)
    then show ?thesis using Cons.IH[of ?c] True t e p Cons.prems(2,5) by (simp add: add.assoc)
  next
    case False
    then show ?thesis using inactive_ticks[of ?c mss] t e act by auto
  qed
qed simp

definition lingering_example :: TCPConnection where
  "lingering_example =
     (let c = TCPConnection_new TCPConfig_default 7; r = cn_receiver c; ra = rx_reassembler r
      in c\<lparr>cn_fin := True,
           cn_sender := (TCPSender_end_input (cn_sender c))\<lparr>tx_next_seqno := 2, tx_current_seqno := 2, tx_fin := True\<rparr>,
           cn_receiver := r\<lparr>rx_reassembler := ra\<lparr>sr_output := ByteStream_end_input (sr_output ra)\<rparr>\<rparr>\<rparr>)"

theorem linger_ends_witness:
  "(\<exists>c'. run_events (\<lambda>c ms. TCPConnection_tick ms c) lingering_example [4000, 5999] = Inr c' \<and> TCPConnection_active c')
   \<and> (\<exists>c'. run_events (\<lambda>c ms. TCPConnection_tick ms c) lingering_example [4000, 6000] = Inr c' \<and> \<not> TCPConnection_active c')"
proof -
  let ?c = "TCPConnection_new TCPConfig_default 7"
  have "TCPReceiver_inv (TCPReceiver_new DEFAULT_CAPACITY)" by (rule rx_new_inv) (simp add: DEFAULT_CAPACITY_def)
  then have "TCPReceiver_inv (cn_receiver lingering_example)"
    using end_input_inv[of "ByteStream_new DEFAULT_CAPACITY"]
    by (simp add: lingering_example_def TCPConnection_new_def TCPConfig_default_def TCPReceiver_new_def
        TCPReceiver_inv_def StreamReassembler_new_def StreamReassembler_inv_def sr_window_def ByteStream_end_input_def Let_def)
  then have s: "cn_safe lingering_example"
    by (simp add: cn_safe_def tx_timed_def lingering_example_def TCPConnection_new_def TCPSender_new_def
        TCPSender_end_input_def Let_def)
  have p: "TCPConnection_check_prereqs lingering_example" "TCPConnection_active lingering_example"
      "tx_outstanding_segments (cn_sender lingering_example) = []"
    by (simp_all add: TCPConnection_active_def prereqs_iff lingering_example_def TCPConnection_new_def TCPSender_new_def
        TCPSender_end_input_def Let_def TCPReceiver_new_def TCPReceiver_stream_out_def StreamReassembler_new_def
        ByteStream_end_input_def ByteStream_new_def ByteStream_accessors TCPSender_bytes_in_flight_def)
  have t: "cn_time_since_last_segment_received lingering_example = 0" "cfg_rt_timeout (cn_cfg lingering_example) = 1000"
    by (simp_all add: lingering_example_def TCPConnection_new_def TCPConfig_default_def TIMEOUT_DFLT_def Let_def)
  show ?thesis using linger_ends[OF s p(2,1,3), of "[4000, 5999]"] linger_ends[OF s p(2,1,3), of "[4000, 6000]"] t
    by simp blast
qed

text \<open>
  C16. An inactive connection is silent for good: apart from \<^verbatim>\<open>connect()\<close>, which does not test
  \<^verbatim>\<open>active()\<close>, no sequence of calls and of segments from the network makes it active or makes it
  send.
\<close>

theorem inactive_is_final:
  assumes "\<not> TCPConnection_active c" and "Cn_Connect \<notin> set ops"
  shows "\<exists>c'. run_events cn_step c ops = Inr c' \<and> \<not> TCPConnection_active c'
    \<and> (cn_segments_out c' = [] \<or> cn_segments_out c' = cn_segments_out c)"
  using silent.run_safe[of c "cn_segments_out c" ops] assms by auto

theorem inactive_is_final_witness:
  "\<exists>c'. run_events cn_step (TCPConnection_report (TCPConnection_new TCPConfig_default 7))
      [Cn_Write [1], Cn_Tick 5, Cn_Segment (TCPSegment_default\<lparr>seg_header := TCPHeader_default\<lparr>tcp_syn := True\<rparr>\<rparr>), Cn_End]
      = Inr c' \<and> \<not> TCPConnection_active c' \<and> cn_segments_out c' = []"
  using inactive_is_final[OF report_inactive, of
      "[Cn_Write [1], Cn_Tick 5, Cn_Segment (TCPSegment_default\<lparr>seg_header := TCPHeader_default\<lparr>tcp_syn := True\<rparr>\<rparr>), Cn_End]"
      "TCPConnection_new TCPConfig_default 7"]
  by (auto simp: TCPConnection_report_def TCPConnection_new_def)


definition retrying_example :: TCPConnection where
  "retrying_example =
     (let c = TCPConnection_new TCPConfig_default 7
      in c\<lparr>cn_sender := (cn_sender c)\<lparr>tx_outstanding_segments := [TCPSegment_default], tx_is_timer_on := True,
           tx_consecutive_retransmissions := 8, tx_retransmission_timeout := 256000, tx_timer_elapsed := 255999\<rparr>\<rparr>)"


end
