(* ===== verification/TCP_Handshake.thy ===== *)
theory TCP_Handshake
  imports TCP_Lifecycle
begin

text \<open>
  Opening a connection: two fresh connections, any configurations and initial sequence numbers,
  one of which calls \<^verbatim>\<open>connect()\<close> (\<^verbatim>\<open>libsponge/tcp_connection.cc\<close>), exchange three segments.
\<close>

section \<open>Segments without payload\<close>

lemma push_nothing:
  assumes "StreamReassembler_inv r" and "\<not> sr_eof r"
  shows "StreamReassembler_push_substring [] index False r = Inr r"
proof -
  have st: "sr_state r \<noteq> []" "\<not> hd (sr_state r)"
    using assms(1) by (auto simp: StreamReassembler_inv_def hd_conv_nth unat_eq_0)
  have "snd (ByteStream_write [] (sr_output r)) = sr_output r"
    by (simp add: ByteStream_write_def substr_def size_of_def Let_def)
  then show ?thesis using st assms(2)
    by (simp add: StreamReassembler_push_substring_def Let_def retrieve_loop.simps size_of_def)
qed

lemma rx_pure_segment:
  assumes "TCPReceiver_inv r" and "\<not> sr_eof (rx_reassembler r)" and "Buffer_str (seg_payload seg) = []"
    and "\<not> tcp_fin (seg_header seg)"
  shows "TCPReceiver_segment_received seg r =
    Inr (if \<not> rx_is_syn r \<and> tcp_syn (seg_header seg)
         then r\<lparr>rx_is_syn := True, rx_isn := tcp_seqno (seg_header seg)\<rparr> else r)"
  using assms push_nothing[of "rx_reassembler r"]
  by (simp add: TCPReceiver_segment_received_def Let_def Buffer_copy_def TCPReceiver_inv_def)

section \<open>The sender before and after its SYN is acknowledged\<close>

lemma word_div_small: "(a :: u64) < b \<Longrightarrow> a div b = 0"
  by (simp add: word_less_nat_alt word_unat_eq_iff unat_div)

lemma fill_nothing:
  assumes "tx_next_seqno s \<noteq> 0" and "bs_buffer (tx_stream s) = []" and "\<not> bs_input_ended (tx_stream s)"
  shows "TCPSender_fill_window s = s"
  using assms by (simp add: TCPSender_fill_window_def Let_def ByteStream_accessors size_of_def word_div_small
      MAX_PAYLOAD_SIZE_def)

definition syn_of :: "WrappingInt32 \<Rightarrow> TCPSegment" where
  "syn_of isn = \<lparr>seg_header = TCPHeader_default\<lparr>tcp_syn := True, tcp_seqno := isn\<rparr>, seg_payload = Buffer_of_string []\<rparr>"

lemma syn_of_fields [simp]:
  "TCPSegment_length_in_sequence_space (syn_of isn) = 1" "tcp_seqno (seg_header (syn_of isn)) = isn"
  "tcp_syn (seg_header (syn_of isn))" "\<not> tcp_fin (seg_header (syn_of isn))" "\<not> tcp_ack (seg_header (syn_of isn))"
  "Buffer_str (seg_payload (syn_of isn)) = []"
  by (simp_all add: syn_of_def TCPSegment_length_in_sequence_space_def Buffer_str_def Buffer_of_string_def size_of_def
      TCPHeader_default_def)

text \<open>A sender that has sent its SYN and nothing else, and one whose SYN was acknowledged.\<close>

definition syn_sent :: "TCPSender \<Rightarrow> bool" where
  "syn_sent s \<longleftrightarrow> tx_next_seqno s = 1 \<and> tx_current_seqno s = 0 \<and> tx_is_timer_on s
     \<and> tx_outstanding_segments s = [syn_of (tx_isn s)] \<and> bs_buffer (tx_stream s) = []
     \<and> \<not> bs_input_ended (tx_stream s) \<and> \<not> bs_error (tx_stream s)"

definition syn_acked :: "TCPSender \<Rightarrow> bool" where
  "syn_acked s \<longleftrightarrow> tx_next_seqno s = 1 \<and> tx_current_seqno s = 1 \<and> \<not> tx_is_timer_on s
     \<and> tx_outstanding_segments s = [] \<and> bs_buffer (tx_stream s) = []
     \<and> \<not> bs_input_ended (tx_stream s) \<and> \<not> bs_error (tx_stream s)"

lemma fill_fresh:
  fixes cap :: u64 and rto :: u16 and fixed_isn :: "WrappingInt32 option" and random :: u32
  defines "s0 \<equiv> TCPSender_new cap rto fixed_isn random"
  shows "syn_sent (TCPSender_fill_window s0) \<and> tx_segments_out (TCPSender_fill_window s0) = [syn_of (tx_isn s0)]
    \<and> tx_isn (TCPSender_fill_window s0) = tx_isn s0"
proof -
  have "TCPSender_fill_window s0 = fill_step True False 0 s0"
    by (simp add: TCPSender_fill_window_def Let_def s0_def TCPSender_new_def ByteStream_new_def ByteStream_accessors
        size_of_def MAX_PAYLOAD_SIZE_def word_div_small)
  moreover have "fill_segment True False [] s0 = syn_of (tx_isn s0)"
    by (simp add: fill_segment_def syn_of_def s0_def TCPSender_new_def TCPHeader_default_def)
  moreover have "fst (ByteStream_read 0 (ByteStream_new cap)) = []"
    "bs_buffer (snd (ByteStream_read 0 (ByteStream_new cap))) = []"
    "\<not> bs_input_ended (snd (ByteStream_read 0 (ByteStream_new cap)))"
    "\<not> bs_error (snd (ByteStream_read 0 (ByteStream_new cap)))"
    by (simp_all add: ByteStream_read_def ByteStream_new_def ByteStream_peek_def ByteStream_pop_def substr_def Let_def)
  ultimately show ?thesis
    by (simp add: syn_sent_def fill_step_def split_beta Let_def) (simp add: s0_def TCPSender_new_def)
qed

lemma ack_of_syn:
  assumes "syn_sent s" and "tx_segments_out s = []"
  shows "syn_acked (TCPSender_ack_received (wrap 1 (tx_isn s)) w s)
    \<and> tx_segments_out (TCPSender_ack_received (wrap 1 (tx_isn s)) w s) = []"
proof -
  have u: "unwrap (wrap 1 (tx_isn s)) (tx_isn s) 1 = 1" "unwrap (tx_isn s) (tx_isn s) 1 = 0"
    using unwrap_wrap_near[of 1 1 "tx_isn s"] unwrap_wrap_near[of 1 0 "tx_isn s"] by simp_all
  have n: "tx_next_seqno s = 1" "tx_is_timer_on (ack_update 1 w s)"
    using assms(1) by (simp_all add: syn_sent_def ack_update_def Let_def)
  define s1 where "s1 = ack_loop (tx_outstanding_segments (ack_update 1 w s)) (ack_update 1 w s)"
  have s1: "tx_next_seqno s1 = 1" "tx_current_seqno s1 = 1" "tx_outstanding_segments s1 = []"
    "tx_stream s1 = tx_stream s" "tx_segments_out s1 = []" "tx_isn s1 = tx_isn s"
    using assms u by (simp_all add: s1_def syn_sent_def ack_update_def Let_def)
  then have "TCPSender_fill_window s1 = s1" using assms(1) by (intro fill_nothing) (simp_all add: syn_sent_def)
  then have "TCPSender_ack_received (wrap 1 (tx_isn s)) w s = s1\<lparr>tx_is_timer_on := False\<rparr>"
    using s1(3) n unfolding TCPSender_ack_received_def Let_def n(1) u(1) s1_def[symmetric] by simp
  then show ?thesis using s1 assms(1) by (simp add: syn_acked_def syn_sent_def)
qed

lemma tx_summary:
  "syn_sent s \<Longrightarrow> state_summary_sender s = TX_SYN_SENT" "syn_acked s \<Longrightarrow> state_summary_sender s = TX_SYN_ACKED"
  by (simp_all add: syn_sent_def syn_acked_def state_summary_sender_def ByteStream_accessors TCPSender_bytes_in_flight_def)

lemma syn_sent_drain: "syn_sent (s\<lparr>tx_segments_out := []\<rparr>) = syn_sent s" "syn_acked (s\<lparr>tx_segments_out := q\<rparr>) = syn_acked s"
  by (simp_all add: syn_sent_def syn_acked_def)

section \<open>The three segments\<close>

definition opened :: "u64 \<Rightarrow> WrappingInt32 \<Rightarrow> TCPReceiver" where
  "opened capacity isn = (TCPReceiver_new capacity)\<lparr>rx_is_syn := True, rx_isn := isn\<rparr>"

lemma rx_fresh [simp]:
  "TCPReceiver_ackno (TCPReceiver_new capacity) = None" "TCPReceiver_ackno (opened capacity isn) = Some (wrap 1 isn)"
  "state_summary_receiver (TCPReceiver_new capacity) = RX_LISTEN"
  "state_summary_receiver (opened capacity isn) = RX_SYN_RECV"
  "\<not> ByteStream_eof (TCPReceiver_stream_out (TCPReceiver_new capacity))"
  "\<not> ByteStream_eof (TCPReceiver_stream_out (opened capacity isn))"
  by (simp_all add: opened_def TCPReceiver_ackno_def TCPReceiver_new_def StreamReassembler_new_def ByteStream_new_def
      state_summary_receiver_def TCPReceiver_stream_out_def ByteStream_accessors TCPReceiver_first_unassembled_def)

lemma rx_pure_fresh:
  assumes "capacity \<noteq> 0" and "Buffer_str (seg_payload seg) = []" and "\<not> tcp_fin (seg_header seg)"
  shows "tcp_syn (seg_header seg) \<Longrightarrow>
      TCPReceiver_segment_received seg (TCPReceiver_new capacity) = Inr (opened capacity (tcp_seqno (seg_header seg)))"
    and "TCPReceiver_segment_received seg (opened capacity isn) = Inr (opened capacity isn)"
proof -
  have e: "\<not> sr_eof (rx_reassembler (TCPReceiver_new capacity))"
    by (simp add: TCPReceiver_new_def StreamReassembler_new_def)
  have i: "TCPReceiver_inv (TCPReceiver_new capacity)" using assms(1) by (rule rx_new_inv)
  then have i': "TCPReceiver_inv (opened capacity isn)" by (simp add: opened_def TCPReceiver_inv_def)
  show "tcp_syn (seg_header seg) \<Longrightarrow>
      TCPReceiver_segment_received seg (TCPReceiver_new capacity) = Inr (opened capacity (tcp_seqno (seg_header seg)))"
    using rx_pure_segment[OF i e assms(2,3)] by (simp add: opened_def) (simp add: TCPReceiver_new_def)
  show "TCPReceiver_segment_received seg (opened capacity isn) = Inr (opened capacity isn)"
    using rx_pure_segment[OF i' _ assms(2,3)] e by (simp add: opened_def)
qed

text \<open>A connection that is neither finished nor failed and has nothing to send.\<close>

definition cn_open :: "TCPConnection \<Rightarrow> bool" where
  "cn_open c \<longleftrightarrow> \<not> cn_error c \<and> \<not> cn_fin c \<and> cn_linger_after_streams_finish c \<and> tx_segments_out (cn_sender c) = []"

lemma cn_open_active: "cn_open c \<Longrightarrow> TCPConnection_active c"
  by (simp add: cn_open_def TCPConnection_active_def)

lemma cn_open_drain [simp]: "cn_open (c\<lparr>cn_segments_out := q\<rparr>) = cn_open c"
  by (simp add: cn_open_def)

lemma new_open: "cn_open (TCPConnection_new cfg random)"
  by (simp add: cn_open_def TCPConnection_new_def TCPSender_new_def)

lemma open_state:
  assumes "cn_open c"
  shows "TCPConnection_state c = \<lparr>st_sender = state_summary_sender (cn_sender c),
    st_receiver = state_summary_receiver (cn_receiver c), st_active = True, st_linger_after_streams_finish = True\<rparr>"
  using cn_open_active[OF assms] assms by (simp add: TCPConnection_state_def TCPState_of_def cn_open_def)

text \<open>What \<^verbatim>\<open>connect()\<close> does to a fresh connection.\<close>

lemma connect_fresh:
  fixes cfg :: TCPConfig and random :: u32
  defines "a1 \<equiv> TCPConnection_connect (TCPConnection_new cfg random)"
    and "isn \<equiv> tx_isn (cn_sender (TCPConnection_new cfg random))"
  shows "cn_open a1 \<and> syn_sent (cn_sender a1) \<and> tx_isn (cn_sender a1) = isn
    \<and> cn_receiver a1 = TCPReceiver_new (cfg_recv_capacity cfg)
    \<and> cn_segments_out a1 = [stamp_segment (TCPReceiver_new (cfg_recv_capacity cfg)) False (syn_of isn)]"
  using fill_fresh[of "cfg_send_capacity cfg" "cfg_rt_timeout cfg" "cfg_fixed_isn cfg" random]
  by (simp add: a1_def isn_def TCPConnection_connect_def TCPConnection_new_def send_eq cn_open_def syn_sent_drain)

lemma open_segment:
  assumes "cn_open c" and "\<not> tcp_rst (seg_header seg)"
    and "TCPSegment_length_in_sequence_space seg \<noteq> 0 \<or> (\<forall>a. TCPReceiver_ackno (cn_receiver c) = Some a \<longrightarrow>
      tcp_seqno (seg_header seg) \<noteq> WrappingInt32_minus a 1)"
    and "TCPReceiver_segment_received seg (cn_receiver c) = Inr r" and "\<not> ByteStream_eof (TCPReceiver_stream_out r)"
    and "sender = (if tcp_ack (seg_header seg)
      then TCPSender_ack_received (tcp_ackno (seg_header seg)) (tcp_win (seg_header seg)) (cn_sender c)
      else TCPSender_fill_window (cn_sender c))"
  shows "TCPConnection_segment_received seg c = Inr (TCPConnection_send
    (c\<lparr>cn_time_since_last_segment_received := 0, cn_receiver := r,
       cn_sender := (if TCPSegment_length_in_sequence_space seg \<noteq> 0 \<and> tx_segments_out sender = []
                     then TCPSender_send_empty_segment sender else sender)\<rparr>))"
proof -
  have "TCPConnection_active (c\<lparr>cn_time_since_last_segment_received := 0\<rparr>)"
    using assms(1) by (intro cn_open_active) (simp add: cn_open_def)
  then show ?thesis using assms(2-6)
    by (cases "TCPReceiver_ackno (cn_receiver c)")
      (auto simp: TCPConnection_segment_received_def Let_def WrappingInt32_eq_def)
qed

lemma passive_open:
  fixes cfg :: TCPConfig and random :: u32
  defines "isn \<equiv> tx_isn (cn_sender (TCPConnection_new cfg random))" and "capacity \<equiv> cfg_recv_capacity cfg"
  assumes "capacity \<noteq> 0" and "syn = stamp_segment (TCPReceiver_new n) False (syn_of peer)"
  shows "\<exists>b1. TCPConnection_segment_received syn (TCPConnection_new cfg random) = Inr b1 \<and> cn_open b1
    \<and> syn_sent (cn_sender b1) \<and> tx_isn (cn_sender b1) = isn \<and> cn_receiver b1 = opened capacity peer
    \<and> cn_segments_out b1 = [stamp_segment (opened capacity peer) False (syn_of isn)]"
proof -
  let ?c = "TCPConnection_new cfg random"
  have h: "\<not> tcp_rst (seg_header syn)" "TCPSegment_length_in_sequence_space syn \<noteq> 0" "\<not> tcp_ack (seg_header syn)"
    "Buffer_str (seg_payload syn) = []" "\<not> tcp_fin (seg_header syn)" "tcp_syn (seg_header syn)"
    "tcp_seqno (seg_header syn) = peer"
    using assms(4) by (simp_all add: TCPSegment_length_in_sequence_space_def size_of_def) (simp add: stamp_segment_def)
  have r: "TCPReceiver_segment_received syn (cn_receiver ?c) = Inr (opened capacity peer)"
    using rx_pure_fresh(1)[OF assms(3) h(4-6)] h(7) by (simp add: TCPConnection_new_def capacity_def)
  have "cn_open ?c" by (rule new_open)
  from open_segment[OF this h(1) _ r _ refl] show ?thesis
    using h(2,3) fill_fresh[of "cfg_send_capacity cfg" "cfg_rt_timeout cfg" "cfg_fixed_isn cfg" random]
    by (simp add: send_eq cn_open_def syn_sent_drain isn_def) (simp add: TCPConnection_new_def)
qed

lemma syn_answered:
  assumes "cn_open a" and "syn_sent (cn_sender a)" and "cn_receiver a = TCPReceiver_new capacity" and "capacity \<noteq> 0"
    and "cn_segments_out a = []"
    and "synack = stamp_segment (opened n (tx_isn (cn_sender a))) False (syn_of peer)"
  shows "\<exists>a2 ack. TCPConnection_segment_received synack a = Inr a2 \<and> cn_open a2 \<and> syn_acked (cn_sender a2)
    \<and> cn_receiver a2 = opened capacity peer \<and> cn_segments_out a2 = [ack]
    \<and> Buffer_str (seg_payload ack) = [] \<and> \<not> tcp_syn (seg_header ack) \<and> \<not> tcp_fin (seg_header ack) \<and> \<not> tcp_rst (seg_header ack) \<and> tcp_ack (seg_header ack)
    \<and> tcp_ackno (seg_header ack) = wrap 1 peer \<and> tcp_seqno (seg_header ack) = wrap 1 (tx_isn (cn_sender a))"
proof -
  have h: "\<not> tcp_rst (seg_header synack)" "TCPSegment_length_in_sequence_space synack \<noteq> 0" "tcp_ack (seg_header synack)"
    "Buffer_str (seg_payload synack) = []" "\<not> tcp_fin (seg_header synack)" "tcp_syn (seg_header synack)"
    "tcp_seqno (seg_header synack) = peer" "tcp_ackno (seg_header synack) = wrap 1 (tx_isn (cn_sender a))"
    using assms(6) by (simp_all add: TCPSegment_length_in_sequence_space_def size_of_def) (simp_all add: stamp_segment_def)
  have r: "TCPReceiver_segment_received synack (cn_receiver a) = Inr (opened capacity peer)"
    using rx_pure_fresh(1)[OF assms(4) h(4-6)] h(7) assms(3) by simp
  define s where "s = TCPSender_ack_received (wrap 1 (tx_isn (cn_sender a))) (tcp_win (seg_header synack)) (cn_sender a)"
  have s: "syn_acked s" "tx_segments_out s = []" "tx_isn s = tx_isn (cn_sender a)"
    using ack_of_syn[OF assms(2)] assms(1) by (simp_all add: s_def cn_open_def)
  let ?e = "TCPSender_send_empty_segment s"
  have e: "syn_acked ?e" "tx_segments_out ?e = [TCPSegment_default\<lparr>seg_header := TCPHeader_default\<lparr>tcp_seqno := wrap 1 (tx_isn s)\<rparr>\<rparr>]"
    using s by (simp_all add: TCPSender_send_empty_segment_def syn_acked_def)
  have "TCPConnection_segment_received synack a = Inr (TCPConnection_send
      (a\<lparr>cn_time_since_last_segment_received := 0, cn_receiver := opened capacity peer, cn_sender := ?e\<rparr>))"
    using open_segment[OF assms(1) h(1) _ r _ refl] h(2,3,8) s(2) by (simp add: s_def)
  then show ?thesis using e s(3) assms(1,5)
    by (simp add: send_eq cn_open_def syn_sent_drain TCPSegment_default_def)
      (simp add: stamp_segment_def TCPSegment_length_in_sequence_space_def size_of_def Buffer_default_def Buffer_str_def
        TCPHeader_default_def)
qed

lemma ack_completes:
  assumes "cn_open b" and "syn_sent (cn_sender b)" and "cn_receiver b = opened capacity peer" and "capacity \<noteq> 0"
    and "Buffer_str (seg_payload ack) = []" and "\<not> tcp_syn (seg_header ack)" and "\<not> tcp_fin (seg_header ack)"
    and "\<not> tcp_rst (seg_header ack)" and "tcp_ack (seg_header ack)"
    and "tcp_ackno (seg_header ack) = wrap 1 (tx_isn (cn_sender b))" and "tcp_seqno (seg_header ack) = wrap 1 peer"
  shows "\<exists>b2. TCPConnection_segment_received ack b = Inr b2 \<and> cn_open b2 \<and> syn_acked (cn_sender b2)
    \<and> cn_receiver b2 = opened capacity peer \<and> cn_segments_out b2 = cn_segments_out b"
proof -
  have r: "TCPReceiver_segment_received ack (cn_receiver b) = Inr (opened capacity peer)"
    using rx_pure_fresh(2)[OF assms(4,5,7)] assms(3) by simp
  have l: "TCPSegment_length_in_sequence_space ack = 0"
    using assms(5-7) by (simp add: TCPSegment_length_in_sequence_space_def size_of_def)
  have "wrap 1 peer \<noteq> WrappingInt32_minus (wrap 1 peer) 1"
    by (cases peer) (simp add: wrap_def WrappingInt32_minus_def WrappingInt32_plus_def)
  then have k: "\<forall>a. TCPReceiver_ackno (cn_receiver b) = Some a \<longrightarrow> tcp_seqno (seg_header ack) \<noteq> WrappingInt32_minus a 1"
    using assms(3,11) by simp
  have s: "syn_acked (TCPSender_ack_received (wrap 1 (tx_isn (cn_sender b))) w (cn_sender b))
    \<and> tx_segments_out (TCPSender_ack_received (wrap 1 (tx_isn (cn_sender b))) w (cn_sender b)) = []" for w
    using ack_of_syn[OF assms(2)] assms(1) by (simp add: cn_open_def)
  show ?thesis using open_segment[OF assms(1,8) _ r _ refl] k l s assms(1,9,10)
    by (simp add: send_eq cn_open_def syn_sent_drain)
qed

section \<open>Properties\<close>

text \<open>
  C12. The three-way handshake: for any two configurations with room to receive and any initial
  sequence numbers, a fresh connection is in the official state \<^verbatim>\<open>LISTEN\<close>; \<^verbatim>\<open>connect()\<close> sends one
  segment and enters \<^verbatim>\<open>SYN_SENT\<close>; the peer answers it with one segment and enters \<^verbatim>\<open>SYN_RCVD\<close>; the
  first end answers that with one segment and is \<^verbatim>\<open>ESTABLISHED\<close>, and so is the peer on receiving
  it, without a further answer.
\<close>

theorem three_way_handshake:
  assumes "cfg_recv_capacity cfg_a \<noteq> 0" and "cfg_recv_capacity cfg_b \<noteq> 0"
  shows "TCPConnection_state (TCPConnection_new cfg_b rand_b) = TCPState_of_State LISTEN
    \<and> (\<exists>a1 syn b1 synack a2 ack b2.
         TCPConnection_connect (TCPConnection_new cfg_a rand_a) = a1 \<and> cn_segments_out a1 = [syn]
       \<and> TCPConnection_state a1 = TCPState_of_State SYN_SENT
       \<and> TCPConnection_segment_received syn (TCPConnection_new cfg_b rand_b) = Inr b1 \<and> cn_segments_out b1 = [synack]
       \<and> TCPConnection_state b1 = TCPState_of_State SYN_RCVD
       \<and> TCPConnection_segment_received synack (a1\<lparr>cn_segments_out := []\<rparr>) = Inr a2 \<and> cn_segments_out a2 = [ack]
       \<and> TCPConnection_state a2 = TCPState_of_State ESTABLISHED
       \<and> TCPConnection_segment_received ack (b1\<lparr>cn_segments_out := []\<rparr>) = Inr b2 \<and> cn_segments_out b2 = []
       \<and> TCPConnection_state b2 = TCPState_of_State ESTABLISHED)"
proof -
  let ?a0 = "TCPConnection_new cfg_a rand_a" and ?b0 = "TCPConnection_new cfg_b rand_b"
  let ?isn_a = "tx_isn (cn_sender ?a0)" and ?isn_b = "tx_isn (cn_sender ?b0)"
  define a1 where "a1 = TCPConnection_connect ?a0"
  let ?syn = "stamp_segment (TCPReceiver_new (cfg_recv_capacity cfg_a)) False (syn_of ?isn_a)"
  have a1: "cn_open a1" "syn_sent (cn_sender a1)" "tx_isn (cn_sender a1) = ?isn_a"
    "cn_receiver a1 = TCPReceiver_new (cfg_recv_capacity cfg_a)" "cn_segments_out a1 = [?syn]"
    using connect_fresh[of cfg_a rand_a] by (simp_all add: a1_def)
  obtain b1 where b1: "TCPConnection_segment_received ?syn ?b0 = Inr b1" "cn_open b1" "syn_sent (cn_sender b1)"
    "tx_isn (cn_sender b1) = ?isn_b" "cn_receiver b1 = opened (cfg_recv_capacity cfg_b) ?isn_a"
    "cn_segments_out b1 = [stamp_segment (opened (cfg_recv_capacity cfg_b) ?isn_a) False (syn_of ?isn_b)]"
    using passive_open[OF assms(2) refl] by blast
  let ?synack = "stamp_segment (opened (cfg_recv_capacity cfg_b) ?isn_a) False (syn_of ?isn_b)"
  have "cn_open (a1\<lparr>cn_segments_out := []\<rparr>)" using a1(1) by simp
  then obtain a2 ack where a2: "TCPConnection_segment_received ?synack (a1\<lparr>cn_segments_out := []\<rparr>) = Inr a2" "cn_open a2"
    "syn_acked (cn_sender a2)" "cn_receiver a2 = opened (cfg_recv_capacity cfg_a) ?isn_b" "cn_segments_out a2 = [ack]"
    and ack: "Buffer_str (seg_payload ack) = []" "\<not> tcp_syn (seg_header ack)" "\<not> tcp_fin (seg_header ack)"
      "\<not> tcp_rst (seg_header ack)" "tcp_ack (seg_header ack)" "tcp_ackno (seg_header ack) = wrap 1 ?isn_b"
      "tcp_seqno (seg_header ack) = wrap 1 ?isn_a"
    using syn_answered[of "a1\<lparr>cn_segments_out := []\<rparr>" "cfg_recv_capacity cfg_a" ?synack "cfg_recv_capacity cfg_b" ?isn_b] a1(2-4) assms(1) by auto
  have "cn_open (b1\<lparr>cn_segments_out := []\<rparr>)" using b1(2) by simp
  from ack_completes[OF this _ _ assms(2) ack(1-5)] obtain b2 where
    b2: "TCPConnection_segment_received ack (b1\<lparr>cn_segments_out := []\<rparr>) = Inr b2" "cn_open b2" "syn_acked (cn_sender b2)"
    "cn_receiver b2 = opened (cfg_recv_capacity cfg_b) ?isn_a" "cn_segments_out b2 = []"
    using b1(3-5) ack(6,7) by auto
  have l: "state_summary_sender (cn_sender ?b0) = TX_CLOSED" "cn_receiver ?b0 = TCPReceiver_new (cfg_recv_capacity cfg_b)"
    by (simp_all add: TCPConnection_new_def TCPSender_new_def state_summary_sender_def ByteStream_new_def ByteStream_accessors)
  show ?thesis using a1 b1 a2 b2 l open_state tx_summary new_open[of cfg_b rand_b]
    by (simp add: a1_def[symmetric] TCPState_of_State_def)
qed

theorem three_way_handshake_witness:
  "TCPConnection_state (TCPConnection_new TCPConfig_default 9) = TCPState_of_State LISTEN
   \<and> (\<exists>syn. cn_segments_out (TCPConnection_connect (TCPConnection_new TCPConfig_default 7)) = [syn])"
  using three_way_handshake[of TCPConfig_default TCPConfig_default 9 7]
  by (auto simp: TCPConfig_default_def DEFAULT_CAPACITY_def)

end
