(* ===== verification/TCP_Network.thy ===== *)
theory TCP_Network
  imports TCP_Connection "HOL-Library.Sublist"
begin

text \<open>
  Two connections (\<^verbatim>\<open>libsponge/tcp_connection.cc\<close>) joined by a network that may lose, repeat, delay
  and reorder segments: everything one end has handed over can be delivered to the other end any
  number of times, at any later moment, or never.
\<close>

section \<open>One end\<close>

text \<open>A connection with what its application wrote and read and what was taken from \<^verbatim>\<open>segments_out()\<close>.\<close>

record endpoint =
  ep_conn :: TCPConnection
  ep_written :: bytes
  ep_read :: bytes
  ep_sent :: "TCPSegment list"

definition endpoint_new :: "TCPConfig \<Rightarrow> u32 \<Rightarrow> endpoint" where
  "endpoint_new cfg random = \<lparr>ep_conn = TCPConnection_new cfg random, ep_written = [], ep_read = [], ep_sent = []\<rparr>"

text \<open>
  What an owner does to its end. Nothing is written after the end of input, and less than a
  gigabyte in all, so that 32-bit sequence numbers do not repeat.
\<close>

inductive endpoint_step :: "endpoint \<Rightarrow> endpoint \<Rightarrow> bool" where
  es_write: "endpoint_step e (e\<lparr>ep_conn := snd (TCPConnection_write d (ep_conn e)),
      ep_written := ep_written e @ take (unat (fst (TCPConnection_write d (ep_conn e)))) d\<rparr>)"
    if "\<not> ByteStream_input_ended (tx_stream (cn_sender (ep_conn e)))" and "length (ep_written e) + length d < 10 ^ 9"
| es_end: "endpoint_step e (e\<lparr>ep_conn := TCPConnection_end_input_stream (ep_conn e)\<rparr>)"
| es_connect: "endpoint_step e (e\<lparr>ep_conn := TCPConnection_connect (ep_conn e)\<rparr>)"
| es_tick: "endpoint_step e (e\<lparr>ep_conn := c\<rparr>)" if "TCPConnection_tick ms (ep_conn e) = Inr c"
| es_read: "endpoint_step e (e\<lparr>ep_conn := snd (TCPConnection_read n (ep_conn e)),
      ep_read := ep_read e @ fst (TCPConnection_read n (ep_conn e))\<rparr>)"
| es_drain: "endpoint_step e (e\<lparr>ep_conn := (ep_conn e)\<lparr>cn_segments_out := []\<rparr>,
      ep_sent := ep_sent e @ cn_segments_out (ep_conn e)\<rparr>)"
| es_destroy: "endpoint_step e (e\<lparr>ep_conn := TCPConnection_destroy (ep_conn e)\<rparr>)"

definition ep_isn :: "endpoint \<Rightarrow> WrappingInt32" where
  "ep_isn e = tx_isn (cn_sender (ep_conn e))"

text \<open>
  The invariant of one end, whose peer sends the stream \<open>S\<close> numbered from \<open>isn\<close>: its sender is
  consistent, all it sent belongs to the stream written, numbered from \<open>me\<close>, and its receiver is in a session of \<open>S\<close>.
\<close>

definition cn_good :: "bytes \<Rightarrow> WrappingInt32 \<Rightarrow> u64 \<Rightarrow> WrappingInt32 \<Rightarrow> bytes \<Rightarrow> bytes
    \<Rightarrow> TCPSegment list \<Rightarrow> TCPConnection \<Rightarrow> bool" where
  "cn_good S isn cap me W D E c \<longleftrightarrow> TCPSender_inv W (cn_sender c) \<and> length W < 10 ^ 9 \<and> tx_isn (cn_sender c) = me
     \<and> (\<forall>seg \<in> set E \<union> set (cn_segments_out c). \<exists>i. stream_segment W me i seg)
     \<and> rx_session S isn cap (cn_receiver c) D"

lemma good_frame [simp]:
  "cn_good S isn cap me W D E (c\<lparr>cn_time_since_last_segment_received := t\<rparr>) = cn_good S isn cap me W D E c"
  "cn_good S isn cap me W D E (c\<lparr>cn_linger_after_streams_finish := l\<rparr>) = cn_good S isn cap me W D E c"
  by (simp_all add: cn_good_def)

lemma good_sender:
  assumes "cn_good S isn cap me W D E c" and "TCPSender_inv W s" and "tx_isn s = tx_isn (cn_sender c)"
  shows "cn_good S isn cap me W D E (c\<lparr>cn_sender := s\<rparr>)"
  using assms by (simp add: cn_good_def)

lemma good_receiver:
  "cn_good S isn cap me W D E c \<Longrightarrow> rx_session S isn cap r D' \<Longrightarrow> cn_good S isn cap me W D' E (c\<lparr>cn_receiver := r\<rparr>)"
  by (simp add: cn_good_def)

lemma good_send:
  assumes "cn_good S isn cap me W D E c"
  shows "cn_good S isn cap me W D E (TCPConnection_send c)"
  using assms drain_inv[of W "cn_sender c"] TCPSender_inv_segments[of W "cn_sender c"]
  unfolding cn_good_def by (auto simp: send_eq stamp_stream)

lemma good_report:
  assumes "cn_good S isn cap me W D E c"
  shows "cn_good S isn cap me W D E (TCPConnection_report c)"
  using assms error_tx_inv[of W "cn_sender c"] session_error[of S isn cap "cn_receiver c" D]
  unfolding cn_good_def by (simp add: TCPConnection_report_def)

lemma good_inv: "cn_good S isn cap me W D E c \<Longrightarrow> TCPSender_inv W (cn_sender c)"
  by (simp add: cn_good_def)

lemma good_flight:
  assumes "cn_good S isn cap me W D E c"
  shows "unat (TCPSender_bytes_in_flight (cn_sender c)) < 2 ^ 30"
proof -
  let ?s = "cn_sender c"
  have inv: "TCPSender_inv W ?s" and w: "length W < 10 ^ 9" using assms by (simp_all add: cn_good_def)
  have "unat (tx_next_seqno ?s) \<le> length W + 2"
    using inv by (auto simp: TCPSender_inv_def tx_core_def tx_numbered_def tx_stream_ok_def split: if_splits)
  then show ?thesis using flight_iff[OF inv] w by simp
qed

lemma good_ack: "cn_good S isn cap me W D E c \<Longrightarrow>
  cn_good S isn cap me W D E (c\<lparr>cn_sender := TCPSender_ack_received a w (cn_sender c)\<rparr>)"
  using ack_received_inv[OF good_inv good_flight] by (intro good_sender) simp_all

lemma good_fill: "cn_good S isn cap me W D E c \<Longrightarrow> cn_good S isn cap me W D E (c\<lparr>cn_sender := TCPSender_fill_window (cn_sender c)\<rparr>)"
  by (rule good_sender) (simp_all add: fill_window_inv good_inv)

lemma good_empty: "cn_good S isn cap me W D E c \<Longrightarrow> cn_good S isn cap me W D E (c\<lparr>cn_sender := TCPSender_send_empty_segment (cn_sender c)\<rparr>)"
  by (rule good_sender) (simp_all add: send_empty_inv good_inv)

lemma good_end: "cn_good S isn cap me W D E c \<Longrightarrow> cn_good S isn cap me W D E (c\<lparr>cn_sender := TCPSender_end_input (cn_sender c)\<rparr>)"
  by (rule good_sender) (simp_all add: end_input_tx_inv good_inv)

lemmas good_steps = good_send good_report good_ack good_fill good_empty good_end

section \<open>The operations preserve the invariant\<close>

lemma session_append:
  assumes "rx_session S isn cap r D"
  shows "rx_session (S @ T) isn cap r D"
  using assms
proof (induction rule: rx_session.induct)
  case (session_segment r D i seg r')
  then show ?case using rx_session.session_segment[OF _ stream_segment_append] by blast
qed (auto intro: rx_session.intros)

lemma good_append: "cn_good S isn cap me W D E c \<Longrightarrow> cn_good (S @ T) isn cap me W D E c"
  by (auto simp: cn_good_def session_append)

lemma near_nat: "a \<le> n \<Longrightarrow> b \<le> n \<Longrightarrow> n < 10 ^ 9 \<Longrightarrow> \<bar>int a + 1 - int b\<bar> < 2 ^ 31" for a b n :: nat
  by simp

text \<open>A segment of a short stream is near every receiver of that stream.\<close>

lemma stream_segment_near:
  assumes "stream_segment S isn i seg" and "length S < 10 ^ 9" and "rx_session S isn cap r D" and "cap \<noteq> 0" and "unat cap < 2 ^ 62"
  obtains j where "stream_segment S isn j seg" and "Buffer_str (seg_payload seg) \<noteq> [] \<longrightarrow>
    \<bar>int j + 1 - int (unat (TCPReceiver_first_unassembled r))\<bar> < 2 ^ 31"
proof -
  let ?j = "unat (of_nat i :: u64)"
  have "length S + unat cap < 2 ^ 63" using assms(2,5) by simp
  then have "delivering S D (rx_reassembler r)" using session_delivering[OF assms(3,4)] by simp
  then have w: "unat (TCPReceiver_first_unassembled r) \<le> length S"
    by (simp add: delivering_def sr_written_def TCPReceiver_first_unassembled_def TCPReceiver_stream_out_def ByteStream_accessors)
  have "(of_nat (?j + 1) :: u64) = of_nat (i + 1)" by simp
  then have "stream_segment S isn ?j seg"
    using assms(1) unfolding stream_segment_def Let_def by auto
  moreover have "Buffer_str (seg_payload seg) \<noteq> [] \<longrightarrow> ?j \<le> length S"
    using assms(1) by (auto simp: stream_segment_def excerpt_def Let_def)
  then have "Buffer_str (seg_payload seg) \<noteq> [] \<longrightarrow> \<bar>int ?j + 1 - int (unat (TCPReceiver_first_unassembled r))\<bar> < 2 ^ 31"
    using near_nat[OF _ w assms(2)] by blast
  ultimately show ?thesis by (rule that)
qed

lemma good_segment:
  assumes good: "cn_good S isn cap me W D E c" and seg: "stream_segment S isn i seg" and len: "length S < 10 ^ 9"
    and cap: "cap \<noteq> 0" "unat cap < 2 ^ 62" and c': "TCPConnection_segment_received seg c = Inr c'"
  shows "cn_good S isn cap me W D E c'"
proof -
  define c0 where "c0 = (if tcp_rst (seg_header seg)
    then TCPConnection_report (c\<lparr>cn_time_since_last_segment_received := 0\<rparr>)
    else c\<lparr>cn_time_since_last_segment_received := 0\<rparr>)"
  have c0: "cn_good S isn cap me W D E c0" using good by (simp add: c0_def good_report)
  have rx: "rx_session S isn cap r D" if "TCPReceiver_segment_received seg (cn_receiver c0) = Inr r" for r
  proof -
    have "rx_session S isn cap (cn_receiver c0) D" using c0 by (simp add: cn_good_def)
    from stream_segment_near[OF seg len this cap] session_segment[OF this] that show ?thesis by blast
  qed
  have *: "cn_good S isn cap me W D E (c0\<lparr>cn_receiver := r, cn_sender := s\<rparr>)"
    if "cn_good S isn cap me W D E (c0\<lparr>cn_sender := s\<rparr>)" "rx_session S isn cap r D" for r s
    using that by (simp add: cn_good_def)
  note a = good_ack[OF c0] and f = good_fill[OF c0]
  show ?thesis using c' c0
    unfolding TCPConnection_segment_received_def Let_def c0_def[symmetric]
    by (auto split: if_splits simp: bind_result_Inr_iff
        intro!: good_send * rx a f good_empty[OF a, simplified] good_empty[OF f, simplified] good_empty)
qed

lemma good_write:
  assumes good: "cn_good S isn cap me W D E c" and w: "\<not> ByteStream_input_ended (tx_stream (cn_sender c))"
    and len: "length W + length d < 10 ^ 9"
  shows "cn_good S isn cap me (W @ take (unat (fst (TCPConnection_write d c))) d) D E (snd (TCPConnection_write d c))"
proof (cases "TCPConnection_active c")
  case True
  let ?s = "snd (TCPSender_write d (cn_sender c))" and ?T = "take (unat (fst (TCPSender_write d (cn_sender c)))) d"
  have "TCPSender_inv (W @ ?T) ?s"
    using write_tx_inv[OF good_inv[OF good], of d] w len by (simp add: ByteStream_input_ended_def)
  moreover have "\<forall>seg \<in> set E \<union> set (cn_segments_out c). \<exists>i. stream_segment (W @ ?T) me i seg"
    using good stream_segment_append unfolding cn_good_def by blast
  moreover have "length (W @ ?T) < 10 ^ 9" using len by simp
  ultimately have "cn_good S isn cap me (W @ ?T) D E (c\<lparr>cn_sender := ?s\<rparr>)"
    using good unfolding cn_good_def by simp
  from good_send[OF good_fill[OF this]] True show ?thesis by (simp add: TCPConnection_write_def split_beta)
next
  case False
  then show ?thesis using good by (simp add: TCPConnection_write_def)
qed

lemma good_tick:
  assumes good: "cn_good S isn cap me W D E c" and t: "TCPConnection_tick ms c = Inr c'"
  shows "cn_good S isn cap me W D E c'"
proof (cases "TCPConnection_active c")
  case True
  then obtain s where s: "TCPSender_tick ms (cn_sender c) = Inr s"
    using t by (auto simp: TCPConnection_tick_def Let_def bind_result_Inr_iff)
  have "cn_good S isn cap me W D E (c\<lparr>cn_time_since_last_segment_received := x, cn_sender := s\<rparr>)" for x
    using tick_inv[OF good_inv[OF good], of ms] tick_isn[OF s] s good by (simp add: cn_good_def)
  then show ?thesis using t True s by (auto simp: TCPConnection_tick_def Let_def intro!: good_send good_report split: if_splits)
next
  case False
  then show ?thesis using good t by (simp add: TCPConnection_tick_def)
qed

lemma good_read:
  "cn_good S isn cap me W D E c \<Longrightarrow> cn_good S isn cap me W (D @ fst (TCPConnection_read n c)) E (snd (TCPConnection_read n c))"
  using session_read[of S isn cap "cn_receiver c" D n] by (simp add: cn_good_def TCPConnection_read_def split_beta)

lemma good_owner:
  assumes "cn_good S isn cap me W D E c"
  shows "cn_good S isn cap me W D E (TCPConnection_end_input_stream c)" "cn_good S isn cap me W D E (TCPConnection_connect c)"
    "cn_good S isn cap me W D E (TCPConnection_destroy c)"
    "cn_good S isn cap me W D (E @ cn_segments_out c) (c\<lparr>cn_segments_out := []\<rparr>)"
  using assms good_fill[OF good_end[OF assms]] good_fill[OF assms] good_empty[OF good_report[OF assms]]
  by (simp_all add: TCPConnection_end_input_stream_def TCPConnection_connect_def TCPConnection_destroy_def good_send Let_def)
    (auto simp: cn_good_def)

definition ep_good :: "bytes \<Rightarrow> WrappingInt32 \<Rightarrow> u64 \<Rightarrow> WrappingInt32 \<Rightarrow> endpoint \<Rightarrow> bool" where
  "ep_good S isn cap me e \<longleftrightarrow> cn_good S isn cap me (ep_written e) (ep_read e) (ep_sent e) (ep_conn e)"

lemma ep_good_step:
  assumes "endpoint_step e e'" and "ep_good S isn cap me e"
  shows "ep_good S isn cap me e' \<and> (\<exists>T. ep_written e' = ep_written e @ T)"
  using assms by (induction rule: endpoint_step.induct) (auto simp: ep_good_def good_write good_read good_owner good_tick)

section \<open>The network\<close>

inductive network :: "endpoint \<Rightarrow> endpoint \<Rightarrow> bool" where
  net_start: "network (endpoint_new cfg_x rand_x) (endpoint_new cfg_y rand_y)"
    if "cfg_recv_capacity cfg_x \<noteq> 0" and "unat (cfg_recv_capacity cfg_x) < 2 ^ 62"
      and "cfg_recv_capacity cfg_y \<noteq> 0" and "unat (cfg_recv_capacity cfg_y) < 2 ^ 62"
| net_local: "network x' y" if "network x y" and "endpoint_step x x'"
| net_deliver: "network (x\<lparr>ep_conn := c\<rparr>) y"
    if "network x y" and "seg \<in> set (ep_sent y)" and "TCPConnection_segment_received seg (ep_conn x) = Inr c"
| net_swap: "network y x" if "network x y"

definition net_good :: "endpoint \<Rightarrow> endpoint \<Rightarrow> bool" where
  "net_good x y \<longleftrightarrow> (\<exists>isn_x isn_y cap_x cap_y.
     cap_x \<noteq> 0 \<and> unat cap_x < 2 ^ 62 \<and> cap_y \<noteq> 0 \<and> unat cap_y < 2 ^ 62
     \<and> ep_good (ep_written y) isn_y cap_x isn_x x \<and> ep_good (ep_written x) isn_x cap_y isn_y y)"

lemma new_good: "ep_good [] isn (cfg_recv_capacity cfg) (tx_isn (cn_sender (TCPConnection_new cfg random))) (endpoint_new cfg random)"
  by (simp add: ep_good_def cn_good_def endpoint_new_def TCPConnection_new_def new_tx_inv session_start)

lemma network_good: "network x y \<Longrightarrow> net_good x y"
proof (induction rule: network.induct)
  case (net_start cfg_x cfg_y rand_x rand_y)
  then show ?case unfolding net_good_def using new_good by (fastforce simp: endpoint_new_def)
next
  case (net_local x y x')
  from net_local(3) obtain isn_x isn_y cap_x cap_y where g: "cap_x \<noteq> 0" "unat cap_x < 2 ^ 62" "cap_y \<noteq> 0" "unat cap_y < 2 ^ 62"
    "ep_good (ep_written y) isn_y cap_x isn_x x" "ep_good (ep_written x) isn_x cap_y isn_y y"
    unfolding net_good_def by blast
  from ep_good_step[OF net_local(2) g(5)] obtain T where
    "ep_good (ep_written y) isn_y cap_x isn_x x'" and T: "ep_written x' = ep_written x @ T" by blast
  moreover have "ep_good (ep_written x') isn_x cap_y isn_y y"
    using g(6) good_append unfolding ep_good_def T by blast
  ultimately show ?case unfolding net_good_def using g(1-4) by blast
next
  case (net_deliver x y seg c)
  from net_deliver(4) obtain isn_x isn_y cap_x cap_y where g: "cap_x \<noteq> 0" "unat cap_x < 2 ^ 62" "cap_y \<noteq> 0" "unat cap_y < 2 ^ 62"
    "ep_good (ep_written y) isn_y cap_x isn_x x" "ep_good (ep_written x) isn_x cap_y isn_y y"
    unfolding net_good_def by blast
  obtain i where "stream_segment (ep_written y) isn_y i seg" "length (ep_written y) < 10 ^ 9"
    using g(6) net_deliver(2) unfolding ep_good_def cn_good_def by blast
  then have "ep_good (ep_written y) isn_y cap_x isn_x (x\<lparr>ep_conn := c\<rparr>)"
    using good_segment[OF _ _ _ g(1,2) net_deliver(3)] g(5) by (simp add: ep_good_def)
  then show ?case using g unfolding net_good_def by (intro exI conjI) (assumption | simp)+
next
  case (net_swap x y)
  then show ?case unfolding net_good_def by blast
qed

section \<open>Properties\<close>

text \<open>
  C1. Reliable in-order delivery, end to end: whatever two connections do, and whatever the network
  between them loses, repeats, delays and reorders, what one application has read followed by what
  waits for it in \<^verbatim>\<open>inbound_stream()\<close> is a prefix of what the other application wrote.
\<close>

theorem reliable_delivery:
  assumes "network x y"
  shows "prefix (ep_read x @ bs_buffer (TCPConnection_inbound_stream (ep_conn x))) (ep_written y)"
proof -
  obtain isn_x isn_y cap_x where g: "cap_x \<noteq> 0" "unat cap_x < 2 ^ 62" "ep_good (ep_written y) isn_y cap_x isn_x x"
    "length (ep_written y) < 10 ^ 9"
    using network_good[OF assms] unfolding net_good_def ep_good_def cn_good_def by blast
  have "length (ep_written y) + unat cap_x < 2 ^ 63" using g(2,4) by simp
  with g have "delivering (ep_written y) (ep_read x) (rx_reassembler (cn_receiver (ep_conn x)))"
    using session_delivering unfolding ep_good_def cn_good_def by blast
  then show ?thesis
    by (simp add: delivering_def TCPConnection_inbound_stream_def TCPReceiver_stream_out_def take_is_prefix)
qed

definition connecting_example :: endpoint where
  "connecting_example =
     (let e = endpoint_new TCPConfig_default 7;
          e = e\<lparr>ep_conn := TCPConnection_connect (ep_conn e)\<rparr>;
          e = e\<lparr>ep_conn := snd (TCPConnection_write [1, 2] (ep_conn e)),
                ep_written := ep_written e @ take (unat (fst (TCPConnection_write [1, 2] (ep_conn e)))) [1, 2]\<rparr>
      in e\<lparr>ep_conn := (ep_conn e)\<lparr>cn_segments_out := []\<rparr>, ep_sent := ep_sent e @ cn_segments_out (ep_conn e)\<rparr>)"

theorem reliable_delivery_witness:
  "\<exists>c. TCPConnection_segment_received (hd (ep_sent connecting_example)) (TCPConnection_new TCPConfig_default 9) = Inr c
     \<and> ep_sent connecting_example \<noteq> []
     \<and> prefix (bs_buffer (TCPConnection_inbound_stream c)) (ep_written connecting_example)"
proof -
  let ?x = "endpoint_new TCPConfig_default 9" and ?y = "endpoint_new TCPConfig_default 7"
  let ?y1 = "?y\<lparr>ep_conn := TCPConnection_connect (ep_conn ?y)\<rparr>"
  let ?y2 = "?y1\<lparr>ep_conn := snd (TCPConnection_write [1, 2] (ep_conn ?y1)),
      ep_written := ep_written ?y1 @ take (unat (fst (TCPConnection_write [1, 2] (ep_conn ?y1)))) [1, 2]\<rparr>"
  have cap: "cfg_recv_capacity TCPConfig_default \<noteq> 0" "unat (cfg_recv_capacity TCPConfig_default) < 2 ^ 62"
    by (simp_all add: TCPConfig_default_def DEFAULT_CAPACITY_def)
  have fill: "TCPSender_inv [] (cn_sender (ep_conn ?y))" by (simp add: endpoint_new_def TCPConnection_new_def new_tx_inv)
  note eff = fill_window_effect[of "[]" "cn_sender (ep_conn ?y)"]
  have s0: "tx_next_seqno (cn_sender (ep_conn ?y)) = 0" "cn_segments_out (ep_conn ?y) = []"
    "tx_segments_out (cn_sender (ep_conn ?y)) = []" "\<not> bs_input_ended (tx_stream (cn_sender (ep_conn ?y)))"
    by (simp_all add: endpoint_new_def TCPConnection_new_def TCPSender_new_def ByteStream_new_def)
  have "cn_segments_out (ep_conn ?y1) \<noteq> []"
    using eff fill s0(1-3) by (auto simp: TCPConnection_connect_def send_eq TCPSender_inv_def fill_effect_def fill_queued_def)
  moreover have "cn_segments_out c \<noteq> [] \<Longrightarrow> cn_segments_out (snd (TCPConnection_write d c)) \<noteq> []" for d c
    by (auto simp: TCPConnection_write_def send_eq split_beta)
  ultimately have ne: "ep_sent connecting_example \<noteq> []"
    unfolding connecting_example_def Let_def by simp
  have "\<not> ByteStream_input_ended (tx_stream (cn_sender (ep_conn ?y1)))"
    using eff fill s0 by (simp add: TCPConnection_connect_def TCPSender_inv_def fill_effect_def ByteStream_input_ended_def)
  then have w: "endpoint_step ?y1 ?y2" by (rule es_write) (simp add: endpoint_new_def)
  have "network ?y2 ?x" by (rule net_local[OF net_local[OF net_start[OF cap cap] es_connect] w])
  then have n: "network ?x connecting_example"
    using net_swap[OF net_local[OF _ es_drain]] unfolding connecting_example_def Let_def by blast
  obtain c where c: "TCPConnection_segment_received (hd (ep_sent connecting_example)) (TCPConnection_new TCPConfig_default 9) = Inr c"
    using segment_received_safe_cn[OF new_cn_safe[OF cap(1)]] by blast
  have "network (?x\<lparr>ep_conn := c\<rparr>) connecting_example"
    using n hd_in_set[OF ne] c by (intro net_deliver) (simp_all add: endpoint_new_def)
  from reliable_delivery[OF this] c ne show ?thesis by (simp add: endpoint_new_def)
qed

end
