(* ===== verification/IPv4.thy ===== *)
theory IPv4
  imports TCP_Header
begin

text \<open>
  \<^verbatim>\<open>libsponge/tcp_helpers/ipv4_header.{hh,cc}\<close> and \<^verbatim>\<open>ipv4_datagram.{hh,cc}\<close>: the IPv4 header and
  datagram, their parsers and serializers. A parser takes the value the object had before, since
  an early return leaves fields unassigned.
\<close>

section \<open>Headers\<close>

record IPv4Header =
  ip_ver :: u8
  ip_hlen :: u8
  ip_tos :: u8
  ip_len :: u16
  ip_id :: u16
  ip_df :: bool
  ip_mf :: bool
  ip_offset :: u16
  ip_ttl :: u8
  ip_proto :: u8
  ip_cksum :: u16
  ip_src :: u32
  ip_dst :: u32

definition IPv4Header_LENGTH :: u64 where "IPv4Header_LENGTH = 20"
definition DEFAULT_TTL :: u8 where "DEFAULT_TTL = 128"
definition PROTO_TCP :: u8 where "PROTO_TCP = 6"

definition IPv4Header_default :: IPv4Header where
  "IPv4Header_default =
     \<lparr>ip_ver = 4, ip_hlen = 5, ip_tos = 0, ip_len = 0, ip_id = 0, ip_df = True, ip_mf = False, ip_offset = 0,
      ip_ttl = DEFAULT_TTL, ip_proto = PROTO_TCP, ip_cksum = 0, ip_src = 0, ip_dst = 0\<rparr>"

definition IPv4Header_parse :: "NetParser \<Rightarrow> IPv4Header \<Rightarrow> ParseResult \<times> IPv4Header \<times> NetParser" where
  "IPv4Header_parse p h =
     (let original_serialized_version = np_buffer p; data_size = Buffer_size (np_buffer p)
      in if data_size < IPv4Header_LENGTH then (PacketTooShort, h, p)
         else let (first_byte, p) = NetParser_u8 p;
                  (tos, p) = NetParser_u8 p;
                  (len, p) = NetParser_u16 p;
                  (id, p) = NetParser_u16 p;
                  (fo_val, p) = NetParser_u16 p;
                  (ttl, p) = NetParser_u8 p;
                  (proto, p) = NetParser_u8 p;
                  (cksum, p) = NetParser_u16 p;
                  (src, p) = NetParser_u32 p;
                  (dst, p) = NetParser_u32 p;
                  h = \<lparr>ip_ver = drop_bit 4 first_byte, ip_hlen = and first_byte 0x0f, ip_tos = tos, ip_len = len,
                       ip_id = id, ip_df = (and fo_val 0x4000 \<noteq> 0), ip_mf = (and fo_val 0x2000 \<noteq> 0),
                       ip_offset = and fo_val 0x1fff, ip_ttl = ttl, ip_proto = proto, ip_cksum = cksum,
                       ip_src = src, ip_dst = dst\<rparr>
              in if data_size < 4 * ucast (ip_hlen h) then (PacketTooShort, h, p)
                 else if ip_ver h \<noteq> 4 then (WrongIPVersion, h, p)
                 else if ip_hlen h < 5 then (HeaderTooShort, h, p)
                 else if data_size \<noteq> ucast (ip_len h) then (TruncatedPacket, h, p)
                 else let p = NetParser_remove_prefix (ucast (ip_hlen h) * 4 - IPv4Header_LENGTH) p
                      in if NetParser_error p then (np_error p, h, p)
                         else let check = InternetChecksum_add
                                    (take (4 * unat (ip_hlen h)) (Buffer_str original_serialized_version))
                                    (InternetChecksum_new 0)
                              in if InternetChecksum_value check \<noteq> 0 then (BadChecksum, h, p) else (NoError, h, p))"

definition IPv4Header_fo_val :: "IPv4Header \<Rightarrow> u16" where
  "IPv4Header_fo_val h =
     or (if ip_df h then 0x4000 else 0) (or (if ip_mf h then 0x2000 else 0) (and (ip_offset h) 0x1fff))"

definition IPv4Header_serialize :: "IPv4Header \<Rightarrow> bytes result" where
  "IPv4Header_serialize h =
     (if ip_ver h \<noteq> 4 then Inl (Runtime_Error ''wrong IP version'')
      else if 4 * ucast (ip_hlen h) < IPv4Header_LENGTH then Inl (Runtime_Error ''IP header too short'')
      else let ret = NetUnparser_u8 [] (or (push_bit 4 (ip_ver h)) (and (ip_hlen h) 0xf));
               ret = NetUnparser_u8 ret (ip_tos h);
               ret = NetUnparser_u16 ret (ip_len h);
               ret = NetUnparser_u16 ret (ip_id h);
               ret = NetUnparser_u16 ret (IPv4Header_fo_val h);
               ret = NetUnparser_u8 ret (ip_ttl h);
               ret = NetUnparser_u8 ret (ip_proto h);
               ret = NetUnparser_u16 ret (ip_cksum h);
               ret = NetUnparser_u32 ret (ip_src h);
               ret = NetUnparser_u32 ret (ip_dst h)
           in Inr (string_resize (4 * unat (ip_hlen h)) ret))"

definition IPv4Header_payload_length :: "IPv4Header \<Rightarrow> u16" where
  "IPv4Header_payload_length h = ip_len h - 4 * ucast (ip_hlen h)"

definition IPv4Header_pseudo_cksum :: "IPv4Header \<Rightarrow> u32" where
  "IPv4Header_pseudo_cksum h =
     (let pcksum = drop_bit 16 (ip_src h) + and (ip_src h) 0xffff;
          pcksum = pcksum + (drop_bit 16 (ip_dst h) + and (ip_dst h) 0xffff);
          pcksum = pcksum + ucast (ip_proto h)
      in pcksum + ucast (IPv4Header_payload_length h))"

section \<open>Datagrams\<close>

record IPv4Datagram =
  dg_header :: IPv4Header
  dg_payload :: BufferList

type_synonym InternetDatagram = IPv4Datagram

definition IPv4Datagram_default :: IPv4Datagram where
  "IPv4Datagram_default = \<lparr>dg_header = IPv4Header_default, dg_payload = []\<rparr>"

definition IPv4Datagram_parse :: "Buffer \<Rightarrow> IPv4Datagram \<Rightarrow> ParseResult \<times> IPv4Datagram" where
  "IPv4Datagram_parse buffer d =
     (let (_, header, p) = IPv4Header_parse (NetParser_new buffer) (dg_header d);
          d = \<lparr>dg_header = header, dg_payload = BufferList_of_Buffer (np_buffer p)\<rparr>
      in if BufferList_size (dg_payload d) \<noteq> ucast (IPv4Header_payload_length (dg_header d)) then (PacketTooShort, d)
         else (np_error p, d))"

definition IPv4Datagram_serialize :: "IPv4Datagram \<Rightarrow> BufferList result" where
  "IPv4Datagram_serialize d =
     (if BufferList_size (dg_payload d) \<noteq> ucast (IPv4Header_payload_length (dg_header d))
      then Inl (Runtime_Error ''IPv4Datagram::serialize: payload is wrong size'')
      else let header_out = (dg_header d)\<lparr>ip_cksum := 0\<rparr>
           in bind_result (IPv4Header_serialize header_out) (\<lambda>header_zero_checksum.
              let check = InternetChecksum_add header_zero_checksum (InternetChecksum_new 0);
                  header_out = header_out\<lparr>ip_cksum := InternetChecksum_value check\<rparr>
              in map_result (\<lambda>s. BufferList_append (BufferList_append [] (BufferList_of_string s)) (dg_payload d))
                   (IPv4Header_serialize header_out)))"

section \<open>Parsing what was serialized\<close>

definition ip_before_cksum :: "IPv4Header \<Rightarrow> bytes" where
  "ip_before_cksum h =
     [or (push_bit 4 (ip_ver h)) (and (ip_hlen h) 0xf), ip_tos h] @ NetUnparser_u16 [] (ip_len h)
     @ NetUnparser_u16 [] (ip_id h) @ NetUnparser_u16 [] (IPv4Header_fo_val h) @ [ip_ttl h, ip_proto h]"

definition ip_after_cksum :: "IPv4Header \<Rightarrow> bytes" where
  "ip_after_cksum h = NetUnparser_u32 [] (ip_src h) @ NetUnparser_u32 [] (ip_dst h)
     @ replicate (4 * unat (ip_hlen h) - 20) 0"

definition ip_bytes :: "IPv4Header \<Rightarrow> bytes" where
  "ip_bytes h = ip_before_cksum h @ NetUnparser_u16 [] (ip_cksum h) @ ip_after_cksum h"

text \<open>The headers that have a faithful encoding.\<close>

definition ip_encodable :: "IPv4Header \<Rightarrow> bool" where
  "ip_encodable h \<longleftrightarrow> ip_ver h = 4 \<and> 5 \<le> ip_hlen h \<and> ip_hlen h < 16 \<and> ip_offset h < 0x2000"

lemma length_ip_before [simp]: "length (ip_before_cksum h) = 10"
  by (simp add: ip_before_cksum_def wire_put_eq)

lemma hlen_nat: "ip_encodable h \<Longrightarrow> 5 \<le> unat (ip_hlen h) \<and> unat (ip_hlen h) < 16"
  by (simp add: ip_encodable_def word_le_nat_alt word_less_nat_alt)

lemma length_ip_bytes: "ip_encodable h \<Longrightarrow> length (ip_bytes h) = 4 * unat (ip_hlen h)"
  using hlen_nat[of h] by (auto simp: ip_bytes_def ip_after_cksum_def wire_put_eq)

lemma unat_hlen4: "ip_hlen h < 16 \<Longrightarrow> unat (4 * ucast (ip_hlen h) :: u64) = 4 * unat (ip_hlen h)"
  by (simp add: word_less_nat_alt unat_word_ariths unat_ucast_up)

lemma string_resize_pad: "length s \<le> n \<Longrightarrow> string_resize n s = s @ replicate (n - length s) 0"
  by (simp add: string_resize_def)

lemma IPv4Header_serialize_eq:
  assumes "ip_encodable h"
  shows "IPv4Header_serialize h = Inr (ip_bytes h)"
proof -
  let ?s = "ip_before_cksum h @ NetUnparser_u16 [] (ip_cksum h) @ NetUnparser_u32 [] (ip_src h) @ NetUnparser_u32 [] (ip_dst h)"
  have "length ?s = 20" by (simp add: wire_put_eq)
  then have r: "string_resize (4 * unat (ip_hlen h)) ?s = ip_bytes h"
    using hlen_nat[OF assms] string_resize_pad[of ?s "4 * unat (ip_hlen h)"] unfolding ip_bytes_def ip_after_cksum_def
    by simp
  have "\<not> 4 * ucast (ip_hlen h) < (20 :: u64)" using hlen_nat[OF assms] assms
    by (simp add: word_less_nat_alt unat_hlen4 ip_encodable_def)
  then have "IPv4Header_serialize h = Inr (string_resize (4 * unat (ip_hlen h)) ?s)"
    using assms unfolding IPv4Header_serialize_def ip_before_cksum_def wire_put_eq Let_def IPv4Header_LENGTH_def ip_encodable_def
    by simp
  then show ?thesis using r by simp
qed

lemma take_bit_small: "unat (w :: 'a::len word) < 2 ^ n \<Longrightarrow> take_bit n w = w"
  by (simp add: word_unat_eq_iff unsigned_take_bit_eq) (simp add: take_bit_eq_mod)

lemma first_byte:
  assumes "v < 16" and "n < 16"
  shows "drop_bit 4 (or (push_bit 4 v) (and n 0xf)) = (v :: u8)" "and (or (push_bit 4 v) (and n 0xf)) 0x0f = n"
proof -
  have m: "(0xf :: u8) = mask 4" by (simp add: mask_eq_exp_minus_1)
  have n: "and n 0xf = n" using take_bit_small[of n 4] assms(2) by (simp add: m word_less_nat_alt flip: take_bit_eq_mask)
  have "drop_bit 4 n = 0" using assms(2) by (simp add: word_less_nat_alt drop_bit_eq_div word_unat_eq_iff unat_div)
  then show "drop_bit 4 (or (push_bit 4 v) (and n 0xf)) = v"
    using nibble_roundtrip[OF assms(1)] by (simp add: n drop_bit_or)
  show "and (or (push_bit 4 v) (and n 0xf)) 0x0f = n"
    unfolding n using n by (simp add: m bit.conj_disj_distrib2 take_bit_push_bit flip: take_bit_eq_mask)
qed

lemma fo_val_fields:
  assumes "ip_offset h < 0x2000"
  shows "and (IPv4Header_fo_val h) 0x4000 \<noteq> 0 \<longleftrightarrow> ip_df h" "and (IPv4Header_fo_val h) 0x2000 \<noteq> 0 \<longleftrightarrow> ip_mf h"
    "and (IPv4Header_fo_val h) 0x1fff = ip_offset h"
proof -
  have m: "(0x1fff :: u16) = mask 13" by (simp add: mask_eq_exp_minus_1)
  have o: "take_bit 13 (ip_offset h) = ip_offset h" using take_bit_small[of "ip_offset h" 13] assms by (simp add: word_less_nat_alt)
  have b: "and x 0x4000 \<noteq> 0 \<longleftrightarrow> bit (x :: u16) 14" "and x 0x2000 \<noteq> 0 \<longleftrightarrow> bit x 13" for x
    using and_exp_eq_0_iff_not_bit[of x 14] and_exp_eq_0_iff_not_bit[of x 13] by simp_all
  show "and (IPv4Header_fo_val h) 0x4000 \<noteq> 0 \<longleftrightarrow> ip_df h" "and (IPv4Header_fo_val h) 0x2000 \<noteq> 0 \<longleftrightarrow> ip_mf h"
    unfolding b IPv4Header_fo_val_def m by (simp_all add: bit_or_iff bit_and_iff bit_mask_iff)
  show "and (IPv4Header_fo_val h) 0x1fff = ip_offset h"
    unfolding IPv4Header_fo_val_def m by (simp add: o flip: take_bit_eq_mask)
qed

text \<open>Reading the fixed twenty bytes, whatever the version and the header length are.\<close>

definition ip_fixed_part :: "IPv4Header \<Rightarrow> bytes" where
  "ip_fixed_part h = ip_before_cksum h @ NetUnparser_u16 [] (ip_cksum h) @ NetUnparser_u32 [] (ip_src h) @ NetUnparser_u32 [] (ip_dst h)"

lemma length_ip_fixed_part [simp]: "length (ip_fixed_part h) = 20"
  by (simp add: ip_fixed_part_def wire_put_eq)

lemma IPv4Header_parse_read:
  assumes at: "np_at p (ip_fixed_part h @ rest)"
    and h: "ip_ver h < 16" "ip_hlen h < 16" "ip_offset h < 0x2000"
  shows "\<exists>q. np_at q rest \<and> IPv4Header_parse p h0 =
    (if 20 + length rest < 4 * unat (ip_hlen h) then (PacketTooShort, h, q)
     else if ip_ver h \<noteq> 4 then (WrongIPVersion, h, q)
     else if ip_hlen h < 5 then (HeaderTooShort, h, q)
     else if 20 + length rest \<noteq> unat (ip_len h) then (TruncatedPacket, h, q)
     else let q = NetParser_remove_prefix (ucast (ip_hlen h) * 4 - IPv4Header_LENGTH) q
          in if NetParser_error q then (np_error q, h, q)
             else if InternetChecksum_value (InternetChecksum_add
                    (take (4 * unat (ip_hlen h)) (ip_fixed_part h @ rest)) (InternetChecksum_new 0)) \<noteq> 0
                  then (BadChecksum, h, q) else (NoError, h, q))"
proof -
  have sz: "unat (Buffer_size (np_buffer p)) = 20 + length rest"
    using at unat_Buffer_size[of "np_buffer p"] by (simp add: np_at_def np_ok_def np_view_def)
  have c: "\<not> Buffer_size (np_buffer p) < 20"
    "Buffer_size (np_buffer p) < 4 * ucast (ip_hlen h) \<longleftrightarrow> 20 + length rest < 4 * unat (ip_hlen h)"
    "Buffer_size (np_buffer p) \<noteq> ucast (ip_len h) \<longleftrightarrow> 20 + length rest \<noteq> unat (ip_len h)"
    using sz unat_hlen4[OF h(2)] by (simp_all add: word_less_nat_alt word_unat_eq_iff unat_ucast_up)
  have "np_at p (NetUnparser_u8 [] (or (push_bit 4 (ip_ver h)) (and (ip_hlen h) 0xf)) @ NetUnparser_u8 [] (ip_tos h)
     @ NetUnparser_u16 [] (ip_len h) @ NetUnparser_u16 [] (ip_id h) @ NetUnparser_u16 [] (IPv4Header_fo_val h)
     @ NetUnparser_u8 [] (ip_ttl h) @ NetUnparser_u8 [] (ip_proto h) @ NetUnparser_u16 [] (ip_cksum h)
     @ NetUnparser_u32 [] (ip_src h) @ NetUnparser_u32 [] (ip_dst h) @ rest)"
    using at by (simp add: ip_fixed_part_def ip_before_cksum_def wire_put_eq)
  note a1 = wire8.get_snd[OF this] and v1 = wire8.get_fst[OF this]
  note a2 = wire8.get_snd[OF a1] and v2 = wire8.get_fst[OF a1]
  note a3 = wire16.get_snd[OF a2] and v3 = wire16.get_fst[OF a2]
  note a4 = wire16.get_snd[OF a3] and v4 = wire16.get_fst[OF a3]
  note a5 = wire16.get_snd[OF a4] and v5 = wire16.get_fst[OF a4]
  note a6 = wire8.get_snd[OF a5] and v6 = wire8.get_fst[OF a5]
  note a7 = wire8.get_snd[OF a6] and v7 = wire8.get_fst[OF a6]
  note a8 = wire16.get_snd[OF a7] and v8 = wire16.get_fst[OF a7]
  note a9 = wire32.get_snd[OF a8] and v9 = wire32.get_fst[OF a8]
  note a10 = wire32.get_snd[OF a9] and v10 = wire32.get_fst[OF a9]
  note v = v1 v2 v3 v4 v5 v6 v7 v8 v9 v10
  define q where "q = snd (NetParser_u32 (snd (NetParser_u32 (snd (NetParser_u16 (snd (NetParser_u8 (snd (NetParser_u8
    (snd (NetParser_u16 (snd (NetParser_u16 (snd (NetParser_u16 (snd (NetParser_u8 (snd (NetParser_u8 p)))))))))))))))))))"
  have q: "np_at q rest" unfolding q_def by (rule a10)
  have o: "Buffer_str (np_buffer p) = ip_fixed_part h @ rest" using at by (simp add: np_at_def np_view_def)
  show ?thesis using q c o
    unfolding IPv4Header_parse_def Let_def split_beta v q_def[symmetric] first_byte[OF h(1,2)] fo_val_fields[OF h(3)]
      IPv4Header_LENGTH_def
    by (intro exI[of _ q]) simp
qed

lemma IPv4Header_parse_fixed:
  assumes at: "np_at p (ip_bytes h @ payload)" and e: "ip_encodable h"
    and len: "4 * unat (ip_hlen h) + length payload = unat (ip_len h)"
  shows "\<exists>q. np_at q payload \<and> IPv4Header_parse p h0 =
    (if InternetChecksum_value (InternetChecksum_add (ip_bytes h) (InternetChecksum_new 0)) \<noteq> 0
     then (BadChecksum, h, q) else (NoError, h, q))"
proof -
  let ?rest = "replicate (4 * unat (ip_hlen h) - 20) (0 :: u8) @ payload"
  have b: "ip_bytes h @ payload = ip_fixed_part h @ ?rest" by (simp add: ip_bytes_def ip_fixed_part_def ip_after_cksum_def)
  have n: "5 \<le> unat (ip_hlen h)" using hlen_nat[OF e] by simp
  have h: "ip_ver h < 16" "ip_hlen h < 16" "ip_offset h < 0x2000" "ip_ver h = 4" "\<not> ip_hlen h < 5"
    using e by (simp_all add: ip_encodable_def not_less)
  have l: "length (ip_bytes h) = 4 * unat (ip_hlen h)" "20 + length ?rest = unat (ip_len h)"
    using length_ip_bytes[OF e] len n by simp_all
  obtain q where q: "np_at q ?rest" "IPv4Header_parse p h0 =
      (let q = NetParser_remove_prefix (ucast (ip_hlen h) * 4 - IPv4Header_LENGTH) q
       in if NetParser_error q then (np_error q, h, q)
          else if InternetChecksum_value (InternetChecksum_add
                 (take (4 * unat (ip_hlen h)) (ip_fixed_part h @ ?rest)) (InternetChecksum_new 0)) \<noteq> 0
               then (BadChecksum, h, q) else (NoError, h, q))"
    using IPv4Header_parse_read[OF at[unfolded b] h(1-3)] h(4,5) l(2) len by auto
  let ?q = "NetParser_remove_prefix (ucast (ip_hlen h) * 4 - 20) q"
  have q': "np_at ?q payload"
    using np_at_remove_prefix[OF q(1), of "ucast (ip_hlen h) * 4 - 20"] doff_skip[of "ip_hlen h"] e by (simp add: ip_encodable_def)
  have t: "take (4 * unat (ip_hlen h)) (ip_fixed_part h @ ?rest) = ip_bytes h" unfolding b[symmetric] using l(1) by simp
  have "\<not> NetParser_error ?q" using q' by (simp add: np_at_def NetParser_error_def)
  then show ?thesis using q' q(2) unfolding t IPv4Header_LENGTH_def Let_def by (intro exI[of _ ?q]) simp
qed

text \<open>A datagram whose header has a faithful encoding and states its length.\<close>

definition dg_encodable :: "IPv4Datagram \<Rightarrow> bool" where
  "dg_encodable d \<longleftrightarrow> ip_encodable (dg_header d)
     \<and> 4 * unat (ip_hlen (dg_header d)) + length (BufferList_concatenate (dg_payload d)) = unat (ip_len (dg_header d))"

lemma payload_length_eq:
  assumes "4 * unat (ip_hlen h) + n = unat (ip_len h)"
  shows "unat (IPv4Header_payload_length h) = n"
proof -
  have "4 * unat (ip_hlen h) < 65536" using assms unat16_bound[of "ip_len h"] by simp
  then have m: "unat (4 * ucast (ip_hlen h) :: u16) = 4 * unat (ip_hlen h)"
    by (simp add: unat_word_ariths unat_ucast_up)
  then have "4 * ucast (ip_hlen h) \<le> ip_len h" using assms by (simp add: word_le_nat_alt)
  then show ?thesis using m assms by (simp add: IPv4Header_payload_length_def unat_sub_le)
qed

lemma payload_size_ok:
  "4 * unat (ip_hlen h) + length pl = unat (ip_len h) \<Longrightarrow> size_of pl = ucast (IPv4Header_payload_length h)"
  using payload_length_eq[of h "length pl", symmetric] unfolding size_of_def by (simp only: of_nat_unat)

text \<open>What \<^verbatim>\<open>IPv4Datagram::parse\<close> makes of an encoded datagram with any checksum field.\<close>

lemma IPv4Datagram_parse_encoded:
  assumes "ip_encodable h" and "4 * unat (ip_hlen h) + length pl = unat (ip_len h)"
  shows "\<exists>q. IPv4Header_parse (NetParser_new (Buffer_of_string (ip_bytes h @ pl))) (dg_header d0) =
      (if InternetChecksum_value (InternetChecksum_add (ip_bytes h) (InternetChecksum_new 0)) \<noteq> 0
       then BadChecksum else NoError, h, q)
    \<and> IPv4Datagram_parse (Buffer_of_string (ip_bytes h @ pl)) d0 = (NoError, \<lparr>dg_header = h, dg_payload = [np_buffer q]\<rparr>)
    \<and> Buffer_str (np_buffer q) = pl \<and> Buffer_inv (np_buffer q)"
proof -
  have "fits (ip_bytes h @ pl)"
    using length_ip_bytes[OF assms(1)] assms(2) unat16_bound[of "ip_len h"] by (simp add: fits_def)
  then have "np_at (NetParser_new (Buffer_of_string (ip_bytes h @ pl))) (ip_bytes h @ pl)" by simp
  from IPv4Header_parse_fixed[OF this assms] obtain q where q: "np_at q pl"
    and p: "IPv4Header_parse (NetParser_new (Buffer_of_string (ip_bytes h @ pl))) (dg_header d0) =
      (if InternetChecksum_value (InternetChecksum_add (ip_bytes h) (InternetChecksum_new 0)) \<noteq> 0
       then (BadChecksum, h, q) else (NoError, h, q))" by blast
  have b: "Buffer_str (np_buffer q) = pl" "np_error q = NoError" "Buffer_inv (np_buffer q)"
    using q by (simp_all add: np_at_def np_view_def np_ok_def)
  then show ?thesis using p payload_size_ok[OF assms(2)]
    by (intro exI[of _ q]) (simp add: IPv4Datagram_parse_def BufferList_of_Buffer_def BufferList_size_eq split_beta)
qed

lemma IPv4Datagram_parse_wrong_version:
  assumes "ip_ver h \<noteq> 4" "ip_ver h < 16" "ip_hlen h = 5" "ip_offset h < 0x2000" "20 + length pl = unat (ip_len h)"
    and "Buffer_inv b" "Buffer_str b = ip_fixed_part h @ pl"
  shows "\<exists>b'. IPv4Datagram_parse b d0 = (NoError, \<lparr>dg_header = h, dg_payload = [b']\<rparr>)"
proof -
  have "np_at (NetParser_new b) (ip_fixed_part h @ pl)" using assms(6,7) by simp
  from IPv4Header_parse_read[OF this assms(2) _ assms(4)] obtain q where
    q: "np_at q pl" "IPv4Header_parse (NetParser_new b) (dg_header d0) = (WrongIPVersion, h, q)"
    using assms(1,3) by auto
  have "4 * unat (ip_hlen h) + length pl = unat (ip_len h)" using assms(3,5) by simp
  from payload_size_ok[OF this] q show ?thesis
    by (auto simp: IPv4Datagram_parse_def BufferList_of_Buffer_def BufferList_size_eq np_at_def np_view_def)
qed

lemma IPv4Datagram_serialize_eq:
  assumes "dg_encodable d"
    and "k = InternetChecksum_value (InternetChecksum_add (ip_bytes ((dg_header d)\<lparr>ip_cksum := 0\<rparr>)) (InternetChecksum_new 0))"
  shows "IPv4Datagram_serialize d = Inr (Buffer_of_string (ip_bytes ((dg_header d)\<lparr>ip_cksum := k\<rparr>)) # dg_payload d)"
proof -
  have "ip_encodable ((dg_header d)\<lparr>ip_cksum := x\<rparr>)" for x using assms(1) by (simp add: dg_encodable_def ip_encodable_def)
  then show ?thesis using payload_size_ok[of "dg_header d" "BufferList_concatenate (dg_payload d)"] assms
    by (simp add: IPv4Datagram_serialize_def BufferList_size_eq IPv4Header_serialize_eq dg_encodable_def
        BufferList_append_def BufferList_of_string_def BufferList_of_Buffer_def)
qed

lemma ip_checksum_zero:
  assumes "ip_encodable h"
    and "k = InternetChecksum_value (InternetChecksum_add (ip_bytes (h\<lparr>ip_cksum := 0\<rparr>)) (InternetChecksum_new 0))"
  shows "InternetChecksum_value (InternetChecksum_add (ip_bytes (h\<lparr>ip_cksum := k\<rparr>)) (InternetChecksum_new 0)) = 0"
proof -
  have split: "ip_bytes (h\<lparr>ip_cksum := c\<rparr>) = NetUnparser_u16 (ip_before_cksum h) c @ ip_after_cksum h" for c
    by (simp add: ip_bytes_def ip_before_cksum_def ip_after_cksum_def IPv4Header_fo_val_def wire_put_eq)
  have z: "NetUnparser_u16 (ip_before_cksum h) 0 @ ip_after_cksum h = ip_before_cksum h @ [0, 0] @ ip_after_cksum h"
    by (simp add: wire_put_eq)
  have "ip_encodable (h\<lparr>ip_cksum := 0\<rparr>)" using assms(1) by (simp add: ip_encodable_def)
  then have "length (ip_before_cksum h @ [0, 0] @ ip_after_cksum h) < 64"
    using length_ip_bytes[of "h\<lparr>ip_cksum := 0\<rparr>"] hlen_nat[OF assms(1)] unfolding split z by simp
  then have "ones_sum False (ip_before_cksum h @ [0, 0] @ ip_after_cksum h) \<le> 65280 * 64"
    using ones_sum_le[of False "ip_before_cksum h @ [0, 0] @ ip_after_cksum h"] by linarith
  then have "unat (0 :: u32) + ones_sum False (ip_before_cksum h @ [0, 0] @ ip_after_cksum h) + 65535 < 2 ^ 32" by simp
  then show ?thesis using checksum_insert[of "ip_before_cksum h" 0 "ip_after_cksum h" k] assms(2) split z by simp
qed

section \<open>Properties\<close>

text \<open>
  C32. The IPv4 round trip: a datagram with a well-formed header whose length field is the length of
  header and payload serializes, and the result parses back without error, also by the header
  parser, which verifies the checksum, to the same header up to the checksum field that
  \<^verbatim>\<open>serialize\<close> fills in, and the same payload.
\<close>

theorem IPv4Datagram_roundtrip:
  assumes "dg_encodable d"
  shows "\<exists>bl d' k q. IPv4Datagram_serialize d = Inr bl
    \<and> length (BufferList_concatenate bl) = unat (ip_len (dg_header d))
    \<and> IPv4Header_parse (NetParser_new (Buffer_of_string (BufferList_concatenate bl))) h0
        = (NoError, (dg_header d)\<lparr>ip_cksum := k\<rparr>, q)
    \<and> IPv4Datagram_parse (Buffer_of_string (BufferList_concatenate bl)) d0 = (NoError, d')
    \<and> dg_header d' = (dg_header d)\<lparr>ip_cksum := k\<rparr>
    \<and> BufferList_concatenate (dg_payload d') = BufferList_concatenate (dg_payload d)"
proof -
  let ?h = "dg_header d" and ?pl = "BufferList_concatenate (dg_payload d)"
  define k where "k = InternetChecksum_value (InternetChecksum_add (ip_bytes (?h\<lparr>ip_cksum := 0\<rparr>)) (InternetChecksum_new 0))"
  have e: "ip_encodable (?h\<lparr>ip_cksum := k\<rparr>)" "ip_encodable ?h"
    and l: "4 * unat (ip_hlen (?h\<lparr>ip_cksum := k\<rparr>)) + length ?pl = unat (ip_len (?h\<lparr>ip_cksum := k\<rparr>))"
    using assms by (simp_all add: dg_encodable_def ip_encodable_def)
  show ?thesis
    using IPv4Datagram_serialize_eq[OF assms k_def] ip_checksum_zero[OF e(2) k_def] length_ip_bytes[OF e(1)] l
      IPv4Datagram_parse_encoded[OF e(1) l, of "\<lparr>dg_header = h0, dg_payload = []\<rparr>"]
      IPv4Datagram_parse_encoded[OF e(1) l, of d0]
    by (fastforce simp: BufferList_concatenate_def)
qed

theorem IPv4Datagram_roundtrip_witness:
  "\<exists>bl d'. IPv4Datagram_serialize \<lparr>dg_header = IPv4Header_default\<lparr>ip_len := 23, ip_src := 16909060\<rparr>,
       dg_payload = [Buffer_of_string [1], Buffer_of_string [2, 3]]\<rparr> = Inr bl
    \<and> IPv4Datagram_parse (Buffer_of_string (BufferList_concatenate bl)) IPv4Datagram_default = (NoError, d')
    \<and> BufferList_concatenate (dg_payload d') = [1, 2, 3]"
  using IPv4Datagram_roundtrip[of "\<lparr>dg_header = IPv4Header_default\<lparr>ip_len := 23, ip_src := 16909060\<rparr>,
      dg_payload = [Buffer_of_string [1], Buffer_of_string [2, 3]]\<rparr>" IPv4Header_default IPv4Datagram_default]
  by (auto simp: dg_encodable_def ip_encodable_def IPv4Header_default_def)

text \<open>
  \<^verbatim>\<open>IPv4Datagram::parse\<close> does not verify the checksum: it ignores what the header parser returns,
  so bytes whose header checksum is wrong, for which \<^verbatim>\<open>IPv4Header::parse\<close> returns \<^verbatim>\<open>BadChecksum\<close>, are
  accepted with \<^verbatim>\<open>NoError\<close>, like every other encoded datagram.
\<close>

theorem IPv4Datagram_accepts_bad_checksum:
  assumes "ip_encodable h" and "4 * unat (ip_hlen h) + length pl = unat (ip_len h)"
    and "InternetChecksum_value (InternetChecksum_add (ip_bytes h) (InternetChecksum_new 0)) \<noteq> 0"
  shows "IPv4Header_serialize h = Inr (ip_bytes h)
    \<and> fst (IPv4Header_parse (NetParser_new (Buffer_of_string (ip_bytes h @ pl))) (dg_header d0)) = BadChecksum
    \<and> fst (IPv4Datagram_parse (Buffer_of_string (ip_bytes h @ pl)) d0) = NoError
    \<and> dg_header (snd (IPv4Datagram_parse (Buffer_of_string (ip_bytes h @ pl)) d0)) = h"
  using IPv4Datagram_parse_encoded[OF assms(1,2), of d0] IPv4Header_serialize_eq[OF assms(1)] assms(3) by auto

theorem IPv4Datagram_accepts_bad_checksum_witness:
  "fst (IPv4Datagram_parse (Buffer_of_string (ip_bytes (IPv4Header_default\<lparr>ip_len := 20, ip_cksum := 7\<rparr>) @ []))
    IPv4Datagram_default) = NoError"
proof -
  let ?h = "IPv4Header_default\<lparr>ip_len := 20, ip_cksum := 7\<rparr>"
  have "ip_bytes ?h = [69, 0, 0, 20, 0, 0, 64, 0, 128, 6, 0, 7, 0, 0, 0, 0, 0, 0, 0, 0]"
    by (simp add: ip_bytes_def ip_before_cksum_def ip_after_cksum_def IPv4Header_default_def wire_put_eq
        IPv4Header_fo_val_def DEFAULT_TTL_def PROTO_TCP_def)
  then have "InternetChecksum_value (InternetChecksum_add (ip_bytes ?h) (InternetChecksum_new 0)) \<noteq> 0"
    by (simp add: checksum_zero_iff InternetChecksum_new_def Let_def)
  then show ?thesis using IPv4Datagram_accepts_bad_checksum[of ?h "[]" IPv4Datagram_default]
    by (simp add: ip_encodable_def IPv4Header_default_def)
qed

end
