(* ===== verification/Ethernet.thy ===== *)
theory Ethernet
  imports IPv4
begin

text \<open>
  The link layer: \<^verbatim>\<open>libsponge/tcp_helpers/ethernet_header.{hh,cc}\<close>, \<^verbatim>\<open>ethernet_frame.{hh,cc}\<close> and
  \<^verbatim>\<open>arp_message.{hh,cc}\<close>. An Ethernet address is the list of its six bytes. A parser takes the value
  the object had before, since an early return leaves fields unassigned.
\<close>

section \<open>Ethernet headers and frames\<close>

type_synonym EthernetAddress = "u8 list"

definition ETHERNET_BROADCAST :: EthernetAddress where
  "ETHERNET_BROADCAST = [0xff, 0xff, 0xff, 0xff, 0xff, 0xff]"

definition EthernetAddress_zero :: EthernetAddress where
  "EthernetAddress_zero = [0, 0, 0, 0, 0, 0]"

definition EthernetHeader_LENGTH :: u64 where "EthernetHeader_LENGTH = 14"
definition TYPE_IPv4 :: u16 where "TYPE_IPv4 = 0x800"
definition TYPE_ARP :: u16 where "TYPE_ARP = 0x806"

record EthernetHeader =
  eth_dst :: EthernetAddress
  eth_src :: EthernetAddress
  eth_type :: u16

definition EthernetHeader_zero :: EthernetHeader where
  "EthernetHeader_zero = \<lparr>eth_dst = EthernetAddress_zero, eth_src = EthernetAddress_zero, eth_type = 0\<rparr>"

definition EthernetHeader_parse :: "NetParser \<Rightarrow> EthernetHeader \<Rightarrow> ParseResult \<times> EthernetHeader \<times> NetParser" where
  "EthernetHeader_parse p h =
     (if Buffer_size (np_buffer p) < EthernetHeader_LENGTH then (PacketTooShort, h, p)
      else let (dst, p) = parse_array NetParser_u8 6 p;
               (src, p) = parse_array NetParser_u8 6 p;
               (type, p) = NetParser_u16 p
           in (np_error p, \<lparr>eth_dst = dst, eth_src = src, eth_type = type\<rparr>, p))"

definition EthernetHeader_serialize :: "EthernetHeader \<Rightarrow> bytes" where
  "EthernetHeader_serialize h =
     (let ret = foldl NetUnparser_u8 [] (eth_dst h);
          ret = foldl NetUnparser_u8 ret (eth_src h)
      in NetUnparser_u16 ret (eth_type h))"

record EthernetFrame =
  fr_header :: EthernetHeader
  fr_payload :: BufferList

text \<open>The members are value-initialized (\<^verbatim>\<open>EthernetHeader _header{}\<close>), so that the header is all zeros.\<close>

definition EthernetFrame_default :: EthernetFrame where
  "EthernetFrame_default = \<lparr>fr_header = EthernetHeader_zero, fr_payload = []\<rparr>"

definition EthernetFrame_parse :: "Buffer \<Rightarrow> EthernetFrame \<Rightarrow> ParseResult \<times> EthernetFrame" where
  "EthernetFrame_parse buffer f =
     (let (_, header, p) = EthernetHeader_parse (NetParser_new buffer) (fr_header f)
      in (np_error p, \<lparr>fr_header = header, fr_payload = BufferList_of_Buffer (np_buffer p)\<rparr>))"

definition EthernetFrame_serialize :: "EthernetFrame \<Rightarrow> BufferList" where
  "EthernetFrame_serialize f =
     BufferList_append (BufferList_append [] (BufferList_of_string (EthernetHeader_serialize (fr_header f)))) (fr_payload f)"

section \<open>ARP messages\<close>

definition ARPMessage_LENGTH :: u64 where "ARPMessage_LENGTH = 28"
definition TYPE_ETHERNET :: u16 where "TYPE_ETHERNET = 1"
definition OPCODE_REQUEST :: u16 where "OPCODE_REQUEST = 1"
definition OPCODE_REPLY :: u16 where "OPCODE_REPLY = 2"

record ARPMessage =
  arp_hardware_type :: u16
  arp_protocol_type :: u16
  arp_hardware_address_size :: u8
  arp_protocol_address_size :: u8
  arp_opcode :: u16
  arp_sender_ethernet_address :: EthernetAddress
  arp_sender_ip_address :: u32
  arp_target_ethernet_address :: EthernetAddress
  arp_target_ip_address :: u32

definition ARPMessage_default :: ARPMessage where
  "ARPMessage_default =
     \<lparr>arp_hardware_type = TYPE_ETHERNET, arp_protocol_type = TYPE_IPv4, arp_hardware_address_size = 6,
      arp_protocol_address_size = 4, arp_opcode = 0, arp_sender_ethernet_address = EthernetAddress_zero,
      arp_sender_ip_address = 0, arp_target_ethernet_address = EthernetAddress_zero, arp_target_ip_address = 0\<rparr>"

definition ARPMessage_supported :: "ARPMessage \<Rightarrow> bool" where
  "ARPMessage_supported m \<longleftrightarrow> arp_hardware_type m = TYPE_ETHERNET \<and> arp_protocol_type m = TYPE_IPv4
     \<and> arp_hardware_address_size m = 6 \<and> arp_protocol_address_size m = 4
     \<and> (arp_opcode m = OPCODE_REQUEST \<or> arp_opcode m = OPCODE_REPLY)"

definition ARPMessage_parse :: "Buffer \<Rightarrow> ARPMessage \<Rightarrow> ParseResult \<times> ARPMessage" where
  "ARPMessage_parse buffer m =
     (let p = NetParser_new buffer
      in if Buffer_size (np_buffer p) < ARPMessage_LENGTH then (PacketTooShort, m)
         else let (hardware_type, p) = NetParser_u16 p;
                  (protocol_type, p) = NetParser_u16 p;
                  (hardware_address_size, p) = NetParser_u8 p;
                  (protocol_address_size, p) = NetParser_u8 p;
                  (opcode, p) = NetParser_u16 p;
                  m = m\<lparr>arp_hardware_type := hardware_type, arp_protocol_type := protocol_type,
                        arp_hardware_address_size := hardware_address_size,
                        arp_protocol_address_size := protocol_address_size, arp_opcode := opcode\<rparr>
              in if \<not> ARPMessage_supported m then (Unsupported, m)
                 else let (sender_ethernet_address, p) = parse_array NetParser_u8 6 p;
                          (sender_ip_address, p) = NetParser_u32 p;
                          (target_ethernet_address, p) = parse_array NetParser_u8 6 p;
                          (target_ip_address, p) = NetParser_u32 p
                      in (np_error p, m\<lparr>arp_sender_ethernet_address := sender_ethernet_address,
                                        arp_sender_ip_address := sender_ip_address,
                                        arp_target_ethernet_address := target_ethernet_address,
                                        arp_target_ip_address := target_ip_address\<rparr>))"

definition ARPMessage_serialize :: "ARPMessage \<Rightarrow> bytes result" where
  "ARPMessage_serialize m =
     (if \<not> ARPMessage_supported m
      then Inl (Runtime_Error ''ARPMessage::serialize(): unsupported field combination (must be Ethernet/IP, and request or reply)'')
      else let ret = NetUnparser_u16 [] (arp_hardware_type m);
               ret = NetUnparser_u16 ret (arp_protocol_type m);
               ret = NetUnparser_u8 ret (arp_hardware_address_size m);
               ret = NetUnparser_u8 ret (arp_protocol_address_size m);
               ret = NetUnparser_u16 ret (arp_opcode m);
               ret = foldl NetUnparser_u8 ret (arp_sender_ethernet_address m);
               ret = NetUnparser_u32 ret (arp_sender_ip_address m);
               ret = foldl NetUnparser_u8 ret (arp_target_ethernet_address m)
           in Inr (NetUnparser_u32 ret (arp_target_ip_address m)))"

section \<open>Parsing what was serialized\<close>

text \<open>An array of six bytes.\<close>

definition eth_address :: "EthernetAddress \<Rightarrow> bool" where
  "eth_address a \<longleftrightarrow> length a = 6"

lemma put_bytes [simp]: "concat (map (NetUnparser_u8 []) bs) = bs"
  by (induction bs) (simp_all add: wire_put_eq)

lemma get_address:
  assumes "np_at p (a @ rest)" and "eth_address a"
  shows "fst (parse_array NetParser_u8 6 p) = a" "np_at (snd (parse_array NetParser_u8 6 p)) rest"
  using wire8.array_put[of p a rest] assms by (auto simp: eth_address_def)

definition eth_bytes :: "EthernetHeader \<Rightarrow> bytes" where
  "eth_bytes h = eth_dst h @ eth_src h @ NetUnparser_u16 [] (eth_type h)"

lemma EthernetHeader_serialize_eq: "EthernetHeader_serialize h = eth_bytes h"
  by (simp add: EthernetHeader_serialize_def eth_bytes_def wire8.put_fold wire16.put_append[of "_ @ _"])

lemma EthernetHeader_parse_bytes:
  assumes at: "np_at p (eth_bytes h @ payload)" and a: "eth_address (eth_dst h)" "eth_address (eth_src h)"
  shows "\<exists>q. EthernetHeader_parse p h0 = (NoError, h, q) \<and> np_at q payload"
proof -
  have "unat (Buffer_size (np_buffer p)) = length (eth_bytes h @ payload)"
    using at unat_Buffer_size[of "np_buffer p"] by (simp add: np_at_def np_ok_def np_view_def)
  then have s: "\<not> Buffer_size (np_buffer p) < EthernetHeader_LENGTH"
    using a by (simp add: EthernetHeader_LENGTH_def word_less_nat_alt eth_bytes_def eth_address_def wire_put_eq)
  have "np_at p (eth_dst h @ eth_src h @ NetUnparser_u16 [] (eth_type h) @ payload)"
    using at by (simp add: eth_bytes_def)
  note v1 = get_address(1)[OF this a(1)] and a1 = get_address(2)[OF this a(1)]
  note v2 = get_address(1)[OF a1 a(2)] and a2 = get_address(2)[OF a1 a(2)]
  note v3 = wire16.get_fst[OF a2] and a3 = wire16.get_snd[OF a2]
  show ?thesis using s a3 v1 v2 v3 by (simp add: EthernetHeader_parse_def split_beta np_at_def)
qed

lemma EthernetFrame_parse_bytes:
  assumes "eth_address (eth_dst h)" and "eth_address (eth_src h)" and "length payload < 2 ^ 63"
  shows "\<exists>b. EthernetFrame_parse (Buffer_of_string (eth_bytes h @ payload)) f0
    = (NoError, \<lparr>fr_header = h, fr_payload = [b]\<rparr>) \<and> Buffer_str b = payload \<and> Buffer_inv b"
proof -
  have "fits (eth_bytes h @ payload)" using assms by (simp add: fits_def eth_bytes_def eth_address_def wire_put_eq)
  then have "np_at (NetParser_new (Buffer_of_string (eth_bytes h @ payload))) (eth_bytes h @ payload)" by simp
  from EthernetHeader_parse_bytes[OF this assms(1,2)] obtain q where
    "EthernetHeader_parse (NetParser_new (Buffer_of_string (eth_bytes h @ payload))) (fr_header f0) = (NoError, h, q)"
    "np_at q payload" by blast
  then show ?thesis by (simp add: EthernetFrame_parse_def BufferList_of_Buffer_def np_at_def np_view_def np_ok_def)
qed

definition arp_bytes :: "ARPMessage \<Rightarrow> bytes" where
  "arp_bytes m = NetUnparser_u16 [] (arp_hardware_type m) @ NetUnparser_u16 [] (arp_protocol_type m)
     @ NetUnparser_u8 [] (arp_hardware_address_size m) @ NetUnparser_u8 [] (arp_protocol_address_size m)
     @ NetUnparser_u16 [] (arp_opcode m) @ arp_sender_ethernet_address m @ NetUnparser_u32 [] (arp_sender_ip_address m)
     @ arp_target_ethernet_address m @ NetUnparser_u32 [] (arp_target_ip_address m)"

lemma ARPMessage_serialize_eq: "ARPMessage_supported m \<Longrightarrow> ARPMessage_serialize m = Inr (arp_bytes m)"
  by (simp add: ARPMessage_serialize_def arp_bytes_def wire8.put_fold Let_def wire_put_eq)

definition arp_wf :: "ARPMessage \<Rightarrow> bool" where
  "arp_wf m \<longleftrightarrow> ARPMessage_supported m \<and> eth_address (arp_sender_ethernet_address m) \<and> eth_address (arp_target_ethernet_address m)"

lemma length_arp_bytes: "arp_wf m \<Longrightarrow> length (arp_bytes m) = 28"
  by (simp add: arp_bytes_def wire_put_eq arp_wf_def eth_address_def)

lemma ARPMessage_parse_bytes:
  assumes wf: "arp_wf m" and len: "length padding < 2 ^ 63" and b: "Buffer_inv b" "Buffer_str b = arp_bytes m @ padding"
  shows "ARPMessage_parse b m0 = (NoError, m)"
proof -
  have "unat (Buffer_size b) = 28 + length padding" using unat_Buffer_size[OF b(1)] b(2) length_arp_bytes[OF wf] by simp
  then have s: "\<not> Buffer_size b < ARPMessage_LENGTH" by (simp add: ARPMessage_LENGTH_def word_less_nat_alt)
  have wfs: "ARPMessage_supported m" "eth_address (arp_sender_ethernet_address m)" "eth_address (arp_target_ethernet_address m)"
    using wf by (simp_all add: arp_wf_def)
  have "np_at (NetParser_new b) (NetUnparser_u16 [] (arp_hardware_type m) @ NetUnparser_u16 [] (arp_protocol_type m)
     @ NetUnparser_u8 [] (arp_hardware_address_size m) @ NetUnparser_u8 [] (arp_protocol_address_size m)
     @ NetUnparser_u16 [] (arp_opcode m) @ arp_sender_ethernet_address m @ NetUnparser_u32 [] (arp_sender_ip_address m)
     @ arp_target_ethernet_address m @ NetUnparser_u32 [] (arp_target_ip_address m) @ padding)"
    using b by (simp add: arp_bytes_def)
  note a1 = wire16.get_snd[OF this] and v1 = wire16.get_fst[OF this]
  note a2 = wire16.get_snd[OF a1] and v2 = wire16.get_fst[OF a1]
  note a3 = wire8.get_snd[OF a2] and v3 = wire8.get_fst[OF a2]
  note a4 = wire8.get_snd[OF a3] and v4 = wire8.get_fst[OF a3]
  note a5 = wire16.get_snd[OF a4] and v5 = wire16.get_fst[OF a4]
  note a6 = get_address(2)[OF a5 wfs(2)] and v6 = get_address(1)[OF a5 wfs(2)]
  note a7 = wire32.get_snd[OF a6] and v7 = wire32.get_fst[OF a6]
  note a8 = get_address(2)[OF a7 wfs(3)] and v8 = get_address(1)[OF a7 wfs(3)]
  note a9 = wire32.get_snd[OF a8] and v9 = wire32.get_fst[OF a8]
  have "ARPMessage_supported (m0\<lparr>arp_hardware_type := arp_hardware_type m, arp_protocol_type := arp_protocol_type m,
      arp_hardware_address_size := arp_hardware_address_size m, arp_protocol_address_size := arp_protocol_address_size m,
      arp_opcode := arp_opcode m\<rparr>)"
    using wfs(1) by (simp add: ARPMessage_supported_def)
  then show ?thesis using s a9 unfolding ARPMessage_parse_def Let_def split_beta v1 v2 v3 v4 v5 v6 v7 v8 v9
    by (simp add: np_at_def)
qed

section \<open>Properties\<close>

text \<open>
  C33. Link-layer round trips: a frame serializes to fourteen header bytes followed by its payload and
  parses back to the same header and payload; a supported ARP message serializes to 28 bytes that
  parse back to it, also when the frame is padded, and an unsupported one is refused by
  \<^verbatim>\<open>serialize\<close>.
\<close>

theorem link_layer_roundtrip:
  assumes "eth_address (eth_dst (fr_header f))" and "eth_address (eth_src (fr_header f))"
    and "length (BufferList_concatenate (fr_payload f)) < 2 ^ 63" and "arp_wf m" and "\<not> ARPMessage_supported bad"
    and "length padding < 2 ^ 63"
  shows "(\<exists>b. EthernetFrame_parse (Buffer_of_string (BufferList_concatenate (EthernetFrame_serialize f))) f0
        = (NoError, \<lparr>fr_header = fr_header f, fr_payload = [b]\<rparr>)
      \<and> Buffer_str b = BufferList_concatenate (fr_payload f)
      \<and> length (BufferList_concatenate (EthernetFrame_serialize f)) = 14 + length (Buffer_str b))
    \<and> (\<exists>s. ARPMessage_serialize m = Inr s \<and> length s = 28
      \<and> ARPMessage_parse (Buffer_of_string (s @ padding)) m0 = (NoError, m))
    \<and> (\<exists>e. ARPMessage_serialize bad = Inl (Runtime_Error e))"
proof -
  have f: "BufferList_concatenate (EthernetFrame_serialize f) = eth_bytes (fr_header f) @ BufferList_concatenate (fr_payload f)"
    by (simp add: EthernetFrame_serialize_def EthernetHeader_serialize_eq BufferList_append_def BufferList_of_string_def
        BufferList_of_Buffer_def)
  have l: "length (eth_bytes (fr_header f)) = 14" using assms(1,2) by (simp add: eth_bytes_def eth_address_def wire_put_eq)
  have fit: "fits (arp_bytes m @ padding)" using length_arp_bytes[OF assms(4)] assms(6) by (simp add: fits_def)
  then have "ARPMessage_parse (Buffer_of_string (arp_bytes m @ padding)) m0 = (NoError, m)"
    by (intro ARPMessage_parse_bytes[OF assms(4,6)]) simp_all
  then show ?thesis
    using EthernetFrame_parse_bytes[OF assms(1-3), of f0] ARPMessage_serialize_eq[of m] assms(4,5) length_arp_bytes[OF assms(4)]
    unfolding f using l by (auto simp: arp_wf_def ARPMessage_serialize_def)
qed

theorem link_layer_roundtrip_witness:
  "(\<exists>b. EthernetFrame_parse (Buffer_of_string (BufferList_concatenate (EthernetFrame_serialize
        \<lparr>fr_header = \<lparr>eth_dst = ETHERNET_BROADCAST, eth_src = [2, 0, 0, 0, 0, 1], eth_type = TYPE_ARP\<rparr>,
         fr_payload = [Buffer_of_string [7], Buffer_of_string [8, 9]]\<rparr>))) EthernetFrame_default
      = (NoError, \<lparr>fr_header = \<lparr>eth_dst = ETHERNET_BROADCAST, eth_src = [2, 0, 0, 0, 0, 1], eth_type = TYPE_ARP\<rparr>,
         fr_payload = [b]\<rparr>) \<and> Buffer_str b = [7, 8, 9])
   \<and> (\<exists>s. ARPMessage_serialize (ARPMessage_default\<lparr>arp_opcode := OPCODE_REQUEST\<rparr>) = Inr s
      \<and> ARPMessage_parse (Buffer_of_string (s @ [0, 0])) ARPMessage_default
          = (NoError, ARPMessage_default\<lparr>arp_opcode := OPCODE_REQUEST\<rparr>))"
  using link_layer_roundtrip[of "\<lparr>fr_header = \<lparr>eth_dst = ETHERNET_BROADCAST, eth_src = [2, 0, 0, 0, 0, 1], eth_type = TYPE_ARP\<rparr>,
         fr_payload = [Buffer_of_string [7], Buffer_of_string [8, 9]]\<rparr>" "ARPMessage_default\<lparr>arp_opcode := OPCODE_REQUEST\<rparr>"
      ARPMessage_default "[0, 0]" EthernetFrame_default ARPMessage_default]
  by (auto simp: eth_address_def ETHERNET_BROADCAST_def arp_wf_def ARPMessage_supported_def ARPMessage_default_def
      EthernetAddress_zero_def OPCODE_REQUEST_def OPCODE_REPLY_def)

text \<open>
  \<^verbatim>\<open>EthernetFrame::parse\<close> accepts frames that are too short for a header: it ignores that the
  header parser refused them with \<^verbatim>\<open>PacketTooShort\<close>, returns \<^verbatim>\<open>NoError\<close>, leaves the header as it was
  and takes all the bytes as payload.
\<close>

theorem EthernetFrame_accepts_short:
  assumes "Buffer_inv b" and "length (Buffer_str b) < 14"
  shows "fst (EthernetHeader_parse (NetParser_new b) (fr_header f)) = PacketTooShort
    \<and> EthernetFrame_parse b f = (NoError, \<lparr>fr_header = fr_header f, fr_payload = [b]\<rparr>)"
proof -
  have "Buffer_size b < EthernetHeader_LENGTH"
    using assms unat_Buffer_size[OF assms(1)] by (simp add: EthernetHeader_LENGTH_def word_less_nat_alt)
  then show ?thesis
    by (simp add: EthernetFrame_parse_def EthernetHeader_parse_def BufferList_of_Buffer_def NetParser_new_def)
qed

theorem EthernetFrame_accepts_short_witness:
  "EthernetFrame_parse (Buffer_of_string [1, 2, 3]) EthernetFrame_default
    = (NoError, \<lparr>fr_header = EthernetHeader_zero, fr_payload = [Buffer_of_string [1, 2, 3]]\<rparr>)"
  using EthernetFrame_accepts_short[of "Buffer_of_string [1, 2, 3]" EthernetFrame_default]
  by (simp add: fits_def EthernetFrame_default_def)

end
