(* ===== verification/Address.thy ===== *)
theory Address
  imports Net_Parser
begin

text \<open>
  \<^verbatim>\<open>libsponge/util/address.{hh,cc}\<close>: socket addresses as the bytes of a \<^verbatim>\<open>sockaddr_storage\<close> (128 bytes)
  and the number of them in use. \<^verbatim>\<open>getaddrinfo\<close> and \<^verbatim>\<open>getnameinfo\<close> are not code of the program: they
  are arguments of the definitions that call them. The family field of a \<^verbatim>\<open>sockaddr_in\<close> is in host
  byte order, here little-endian; port and address are in network byte order.
\<close>

section \<open>Numbers in decimal\<close>

definition isdigit :: "char \<Rightarrow> bool" where
  "isdigit c \<longleftrightarrow> 48 \<le> (of_char c :: nat) \<and> (of_char c :: nat) \<le> 57"

definition isspace :: "char \<Rightarrow> bool" where
  "isspace c \<longleftrightarrow> (of_char c :: nat) = 32 \<or> 9 \<le> (of_char c :: nat) \<and> (of_char c :: nat) \<le> 13"

definition digits_value :: "string \<Rightarrow> nat" where
  "digits_value s = foldl (\<lambda>n c. 10 * n + (of_char c - 48)) 0 s"

text \<open>\<^verbatim>\<open>std::stoi\<close>: leading white space, an optional sign, and the longest sequence of digits.\<close>

definition stoi :: "string \<Rightarrow> int result" where
  "stoi s =
     (let s = dropWhile isspace s;
          neg = (s \<noteq> [] \<and> hd s = CHR ''-'');
          s = (if s \<noteq> [] \<and> (hd s = CHR ''-'' \<or> hd s = CHR ''+'') then tl s else s);
          ds = takeWhile isdigit s;
          v = (if neg then - int (digits_value ds) else int (digits_value ds))
      in if ds = [] then Inl (Runtime_Error ''stoi: invalid argument'')
         else if v < - (2 ^ 31) \<or> 2 ^ 31 \<le> v then Inl (Out_Of_Range ''stoi'')
         else Inr v)"

lemma of_digit_char: "d < 10 \<Longrightarrow> (of_char (digit_char d) :: nat) = 48 + d"
  by (simp add: digit_char_def of_char_of)

lemma isdigit_decimal: "list_all isdigit (decimal n)"
proof (induction n rule: decimal.induct)
  case (1 n)
  have "isdigit (digit_char d)" if "d < 10" for d using that by (simp add: isdigit_def of_digit_char)
  then show ?case using 1 by (subst decimal.simps) simp
qed

lemma digits_value_decimal [simp]: "digits_value (decimal n) = n"
proof (induction n rule: decimal.induct)
  case (1 n)
  show ?case
  proof (cases "n < 10")
    case True
    then show ?thesis by (subst decimal.simps) (simp add: digits_value_def of_digit_char)
  next
    case False
    then have "foldl (\<lambda>n c. 10 * n + (of_char c - 48)) 0 (decimal (n div 10)) = n div 10" using 1 by (simp add: digits_value_def)
    then show ?thesis using False by (subst decimal.simps) (simp add: digits_value_def of_digit_char)
  qed
qed

lemma decimal_ne: "decimal n \<noteq> []"
  by (subst decimal.simps) simp

lemma stoi_decimal:
  assumes "n < 2 ^ 31"
  shows "stoi (decimal n) = Inr (int n)"
proof -
  let ?s = "decimal n"
  have all: "\<forall>c \<in> set ?s. isdigit c" using isdigit_decimal[of n] by (simp add: list_all_iff)
  then have h: "isdigit (hd ?s)" using decimal_ne by simp
  then have sp: "\<not> isspace (hd ?s)" "hd ?s \<noteq> CHR ''-''" "hd ?s \<noteq> CHR ''+''" by (auto simp: isdigit_def isspace_def)
  have d: "dropWhile isspace ?s = ?s" using sp(1) decimal_ne[of n] by (cases ?s) auto
  have t: "takeWhile isdigit ?s = ?s" using all by (simp add: takeWhile_eq_all_conv)
  show ?thesis using assms sp decimal_ne by (simp add: stoi_def Let_def d t)
qed

section \<open>The model\<close>

definition AF_INET :: u16 where "AF_INET = 2"

record Address =
  ad_size :: u64
  ad_storage :: bytes

text \<open>The sixteen bytes of a \<^verbatim>\<open>sockaddr_in\<close>.\<close>

definition sockaddr_in :: "u16 \<Rightarrow> u32 \<Rightarrow> bytes" where
  "sockaddr_in port ip = [ucast AF_INET, ucast (drop_bit 8 AF_INET)] @ NetUnparser_u16 [] port @ NetUnparser_u32 [] ip
     @ replicate 8 0"

definition Address_of_sockaddr :: "bytes \<Rightarrow> Address result" where
  "Address_of_sockaddr addr =
     (if size_of addr > 128 then Inl (Runtime_Error ''invalid sockaddr size'')
      else Inr \<lparr>ad_size = size_of addr, ad_storage = addr @ replicate (128 - length addr) 0\<rparr>)"

text \<open>
  \<^verbatim>\<open>getaddrinfo\<close> gives an error code, or the address of the first entry of its answer if it has one;
  \<^verbatim>\<open>getnameinfo\<close> an error code, or the host and service strings.
\<close>

type_synonym addrinfo_hints = "int \<times> u16"
type_synonym getaddrinfo = "string \<Rightarrow> string \<Rightarrow> addrinfo_hints \<Rightarrow> int + bytes option"
type_synonym getnameinfo = "bytes \<Rightarrow> int + string \<times> string"

definition Address_resolve :: "getaddrinfo \<Rightarrow> string \<Rightarrow> string \<Rightarrow> addrinfo_hints \<Rightarrow> Address result" where
  "Address_resolve getaddrinfo node service hints =
     (case getaddrinfo node service hints of
        Inl gai_ret \<Rightarrow> Inl (Runtime_Error (''getaddrinfo('' @ node @ '', '' @ service @ '')''))
      | Inr None \<Rightarrow> Inl (Runtime_Error ''getaddrinfo returned successfully but with no results'')
      | Inr (Some addr) \<Rightarrow> Address_of_sockaddr addr)"

definition make_hints :: "int \<Rightarrow> u16 \<Rightarrow> addrinfo_hints" where
  "make_hints ai_flags ai_family = (ai_flags, ai_family)"

definition AI_ALL :: int where "AI_ALL = 0x10"
definition AI_NUMERICHOST :: int where "AI_NUMERICHOST = 4"
definition AI_NUMERICSERV :: int where "AI_NUMERICSERV = 0x400"

definition Address_of_host :: "getaddrinfo \<Rightarrow> string \<Rightarrow> string \<Rightarrow> Address result" where
  "Address_of_host getaddrinfo hostname service = Address_resolve getaddrinfo hostname service (make_hints AI_ALL AF_INET)"

definition Address_of_ip :: "getaddrinfo \<Rightarrow> string \<Rightarrow> u16 \<Rightarrow> Address result" where
  "Address_of_ip getaddrinfo ip port =
     Address_resolve getaddrinfo ip (decimal (unat port)) (make_hints (or AI_NUMERICHOST AI_NUMERICSERV) AF_INET)"

definition Address_ip_port :: "getnameinfo \<Rightarrow> Address \<Rightarrow> (string \<times> u16) result" where
  "Address_ip_port getnameinfo a =
     (case getnameinfo (take (unat (ad_size a)) (ad_storage a)) of
        Inl gni_ret \<Rightarrow> Inl (Runtime_Error ''getnameinfo'')
      | Inr (ip, port) \<Rightarrow> map_result (\<lambda>p. (ip, word_of_int p)) (stoi port))"

definition Address_ip :: "getnameinfo \<Rightarrow> Address \<Rightarrow> string result" where
  "Address_ip getnameinfo a = map_result fst (Address_ip_port getnameinfo a)"

definition Address_port :: "getnameinfo \<Rightarrow> Address \<Rightarrow> u16 result" where
  "Address_port getnameinfo a = map_result snd (Address_ip_port getnameinfo a)"

definition Address_to_string :: "getnameinfo \<Rightarrow> Address \<Rightarrow> string result" where
  "Address_to_string getnameinfo a =
     map_result (\<lambda>(ip, port). ip @ '':'' @ decimal (unat port)) (Address_ip_port getnameinfo a)"

definition Address_ipv4_numeric :: "Address \<Rightarrow> u32 result" where
  "Address_ipv4_numeric a =
     (if take 2 (ad_storage a) \<noteq> [ucast AF_INET, ucast (drop_bit 8 AF_INET)] \<or> ad_size a \<noteq> 16
      then Inl (Runtime_Error ''ipv4_numeric called on non-IPV4 address'')
      else Inr (int_of_bytes (take 4 (drop 4 (ad_storage a)))))"

definition Address_from_ipv4_numeric :: "u32 \<Rightarrow> Address result" where
  "Address_from_ipv4_numeric ip_address = Address_of_sockaddr (sockaddr_in 0 ip_address)"

definition Address_eq :: "Address \<Rightarrow> Address \<Rightarrow> bool" where
  "Address_eq a other \<longleftrightarrow> ad_size a = ad_size other
     \<and> take (unat (ad_size a)) (ad_storage a) = take (unat (ad_size a)) (ad_storage other)"

lemma Address_sound [no_ub]:
  "sound (\<lambda>_. True) (Address_of_sockaddr addr)" "sound (\<lambda>_. True) (Address_of_host gai node service)"
  "sound (\<lambda>_. True) (Address_of_ip gai ip port)" "sound (\<lambda>_. True) (Address_to_string gni a)"
  "sound (\<lambda>_. True) (Address_ip gni a)" "sound (\<lambda>_. True) (Address_port gni a)" "sound (\<lambda>_. True) (Address_ipv4_numeric a)"
  by (auto simp: Address_of_sockaddr_def Address_of_host_def Address_of_ip_def Address_resolve_def Address_to_string_def
      Address_ip_def Address_port_def Address_ip_port_def Address_ipv4_numeric_def stoi_def Let_def intro!: no_ub split: sum.splits option.splits)

text \<open>\<^verbatim>\<open>inet_ntoa\<close>: the dotted quad of an address.\<close>

definition inet_ntoa :: "u32 \<Rightarrow> string" where
  "inet_ntoa ip = decimal (unat (drop_bit 24 ip)) @ ''.'' @ decimal (unat (and (drop_bit 16 ip) 0xff)) @ ''.''
     @ decimal (unat (and (drop_bit 8 ip) 0xff)) @ ''.'' @ decimal (unat (and ip 0xff))"

section \<open>IPv4 addresses\<close>

definition ipv4_address :: "u16 \<Rightarrow> u32 \<Rightarrow> Address" where
  "ipv4_address port ip = \<lparr>ad_size = 16, ad_storage = sockaddr_in port ip @ replicate 112 0\<rparr>"

lemma length_sockaddr_in [simp]: "length (sockaddr_in port ip) = 16"
  by (simp add: sockaddr_in_def wire_put_eq)

lemma of_sockaddr_in: "Address_of_sockaddr (sockaddr_in port ip) = Inr (ipv4_address port ip)"
  by (simp add: Address_of_sockaddr_def ipv4_address_def size_of_def)

lemma from_ipv4_numeric_eq [simp]: "Address_from_ipv4_numeric ip = Inr (ipv4_address 0 ip)"
  by (simp add: Address_from_ipv4_numeric_def of_sockaddr_in)

lemma ipv4_numeric_address [simp]: "Address_ipv4_numeric (ipv4_address port ip) = Inr ip"
  by (simp add: Address_ipv4_numeric_def ipv4_address_def sockaddr_in_def wire_put_eq)

lemma ipv4_address_eq: "Address_eq (ipv4_address p a) (ipv4_address q b) \<longleftrightarrow> p = q \<and> a = b"
proof
  assume "Address_eq (ipv4_address p a) (ipv4_address q b)"
  then have "NetUnparser_u16 [] p = NetUnparser_u16 [] q" "NetUnparser_u32 [] a = NetUnparser_u32 [] b"
    by (simp_all add: Address_eq_def ipv4_address_def sockaddr_in_def wire_put_eq)
  then show "p = q \<and> a = b"
    by (metis int_of_bytes_16 int_of_bytes_32 wire_put_eq(2,3) append_Nil)
qed (simp add: Address_eq_def)

text \<open>
  What the numeric conversions of the C library do with an IPv4 address, as \<^verbatim>\<open>getnameinfo(3)\<close>
  documents them for \<^verbatim>\<open>NI_NUMERICHOST | NI_NUMERICSERV\<close>.
\<close>

definition numeric_name :: "getnameinfo \<Rightarrow> u16 \<Rightarrow> u32 \<Rightarrow> bool" where
  "numeric_name getnameinfo port ip \<longleftrightarrow> getnameinfo (sockaddr_in port ip) = Inr (inet_ntoa ip, decimal (unat port))"

lemma numeric_ip_port:
  assumes "numeric_name gni port ip"
  shows "Address_ip_port gni (ipv4_address port ip) = Inr (inet_ntoa ip, port)"
proof -
  have "stoi (decimal (unat port)) = Inr (int (unat port))" using unat16_bound[of port] by (intro stoi_decimal) simp
  then show ?thesis using assms by (simp add: Address_ip_port_def ipv4_address_def numeric_name_def)
qed

lemma numeric_port: "numeric_name gni port ip \<Longrightarrow> Address_port gni (ipv4_address port ip) = Inr port"
  by (simp add: Address_port_def numeric_ip_port)

lemma numeric_to_string: "numeric_name gni port ip \<Longrightarrow>
    Address_to_string gni (ipv4_address port ip) = Inr (inet_ntoa ip @ '':'' @ decimal (unat port))"
  by (simp add: Address_to_string_def numeric_ip_port)

end
