(* ===== verification/Network_Interface.thy ===== *)
theory Network_Interface
  imports Ethernet Address
begin

text \<open>
  \<^verbatim>\<open>libsponge/network_interface.{hh,cc}\<close>: sending datagrams in Ethernet frames, resolving the next hop
  with ARP. The map \<^verbatim>\<open>_ARP_table\<close> is a finite map; the two \<^verbatim>\<open>std::list\<close>s are lists. An operation is an
  error where serialization, the conversion of a payload to one \<^verbatim>\<open>Buffer\<close>, or \<^verbatim>\<open>ipv4_numeric\<close> throws.
\<close>

section \<open>The model\<close>

definition DEFAULT_ARP_TTL :: u64 where "DEFAULT_ARP_TTL = 30000"
definition DEFAULT_ARP_TIMEOUT :: u64 where "DEFAULT_ARP_TIMEOUT = 5000"

record NetworkInterface =
  ni_ethernet_address :: EthernetAddress
  ni_ip_address :: Address
  ni_frames_out :: "EthernetFrame list"
  ni_ARP_table :: "u32 \<rightharpoonup> EthernetAddress \<times> u64"
  ni_ARP_pending_ip_addresses :: "(u32 \<times> u64) list"
  ni_ARP_pending_datagrams :: "(u32 \<times> InternetDatagram) list"

text \<open>The members after initialization.\<close>

definition NetworkInterface_init :: "EthernetAddress \<Rightarrow> Address \<Rightarrow> NetworkInterface" where
  "NetworkInterface_init ethernet_address ip_address =
     \<lparr>ni_ethernet_address = ethernet_address, ni_ip_address = ip_address, ni_frames_out = [],
      ni_ARP_table = Map.empty, ni_ARP_pending_ip_addresses = [], ni_ARP_pending_datagrams = []\<rparr>"

text \<open>The body of the constructor prints the IP address, which calls \<^verbatim>\<open>getnameinfo\<close> and throws if that fails.\<close>

definition NetworkInterface_new :: "getnameinfo \<Rightarrow> EthernetAddress \<Rightarrow> Address \<Rightarrow> NetworkInterface result" where
  "NetworkInterface_new getnameinfo ethernet_address ip_address =
     map_result (\<lambda>_. NetworkInterface_init ethernet_address ip_address) (Address_ip getnameinfo ip_address)"

definition NetworkInterface_is_ip_known :: "NetworkInterface \<Rightarrow> u32 \<Rightarrow> bool" where
  "NetworkInterface_is_ip_known ni ip \<longleftrightarrow> ni_ARP_table ni ip \<noteq> None"

definition NetworkInterface_generate_ARPMessage :: "NetworkInterface \<Rightarrow> u32 \<Rightarrow> u16 \<Rightarrow> ARPMessage result" where
  "NetworkInterface_generate_ARPMessage ni target_ip_address opcode =
     map_result (\<lambda>sender_ip. ARPMessage_default\<lparr>
         arp_sender_ethernet_address := ni_ethernet_address ni,
         arp_sender_ip_address := sender_ip,
         arp_target_ethernet_address := (case ni_ARP_table ni target_ip_address of
            Some (mac, _) \<Rightarrow> mac | None \<Rightarrow> EthernetAddress_zero),
         arp_target_ip_address := target_ip_address,
         arp_opcode := opcode\<rparr>)
       (Address_ipv4_numeric (ni_ip_address ni))"

definition NetworkInterface_build_frame_header :: "NetworkInterface \<Rightarrow> u32 \<Rightarrow> u16 \<Rightarrow> EthernetHeader" where
  "NetworkInterface_build_frame_header ni dst_ip_address type =
     \<lparr>eth_dst = (case ni_ARP_table ni dst_ip_address of Some (mac, _) \<Rightarrow> mac | None \<Rightarrow> ETHERNET_BROADCAST),
      eth_src = ni_ethernet_address ni, eth_type = type\<rparr>"

definition NetworkInterface_generate_datagram_frame :: "NetworkInterface \<Rightarrow> u32 \<Rightarrow> InternetDatagram \<Rightarrow> EthernetFrame result" where
  "NetworkInterface_generate_datagram_frame ni dst_ip_address datagram =
     map_result (\<lambda>payload. \<lparr>fr_header = NetworkInterface_build_frame_header ni dst_ip_address TYPE_IPv4, fr_payload = payload\<rparr>)
       (IPv4Datagram_serialize datagram)"

definition NetworkInterface_generate_ARP_frame :: "NetworkInterface \<Rightarrow> u32 \<Rightarrow> ARPMessage \<Rightarrow> EthernetFrame result" where
  "NetworkInterface_generate_ARP_frame ni dst_ip_address message =
     map_result (\<lambda>s. \<lparr>fr_header = NetworkInterface_build_frame_header ni dst_ip_address TYPE_ARP,
                     fr_payload = BufferList_of_string s\<rparr>)
       (ARPMessage_serialize message)"

text \<open>\<^verbatim>\<open>_frames_out.push(_generate_frame(ip, _generate_ARPMessage(ip, opcode)))\<close>, and the same for a datagram.\<close>

definition push_ARP_frame :: "u32 \<Rightarrow> u16 \<Rightarrow> NetworkInterface \<Rightarrow> NetworkInterface result" where
  "push_ARP_frame ip opcode ni =
     bind_result (NetworkInterface_generate_ARPMessage ni ip opcode) (\<lambda>message.
     map_result (\<lambda>frame. ni\<lparr>ni_frames_out := ni_frames_out ni @ [frame]\<rparr>)
       (NetworkInterface_generate_ARP_frame ni ip message))"

definition push_datagram_frame :: "u32 \<Rightarrow> InternetDatagram \<Rightarrow> NetworkInterface \<Rightarrow> NetworkInterface result" where
  "push_datagram_frame ip dgram ni =
     map_result (\<lambda>frame. ni\<lparr>ni_frames_out := ni_frames_out ni @ [frame]\<rparr>)
       (NetworkInterface_generate_datagram_frame ni ip dgram)"

definition NetworkInterface_send_datagram :: "InternetDatagram \<Rightarrow> Address \<Rightarrow> NetworkInterface \<Rightarrow> NetworkInterface result" where
  "NetworkInterface_send_datagram dgram next_hop ni =
     bind_result (Address_ipv4_numeric next_hop) (\<lambda>next_hop_ip.
       if NetworkInterface_is_ip_known ni next_hop_ip then push_datagram_frame next_hop_ip dgram ni
       else let ni = ni\<lparr>ni_ARP_pending_datagrams := ni_ARP_pending_datagrams ni @ [(next_hop_ip, dgram)]\<rparr>;
                flag = list_ex (\<lambda>e. fst e = next_hop_ip) (ni_ARP_pending_ip_addresses ni)
            in if \<not> flag
               then push_ARP_frame next_hop_ip OPCODE_REQUEST
                      (ni\<lparr>ni_ARP_pending_ip_addresses := ni_ARP_pending_ip_addresses ni @ [(next_hop_ip, DEFAULT_ARP_TIMEOUT)]\<rparr>)
               else Inr ni)"

text \<open>The loop of \<^verbatim>\<open>recv_frame\<close> that sends the datagrams waiting for \<open>ip\<close> and keeps the others.\<close>

primrec flush_pending :: "u32 \<Rightarrow> (u32 \<times> InternetDatagram) list \<Rightarrow> NetworkInterface \<Rightarrow> NetworkInterface result" where
  "flush_pending ip [] ni = Inr (ni\<lparr>ni_ARP_pending_datagrams := []\<rparr>)"
| "flush_pending ip (it # rest) ni =
     (if fst it = ip
      then bind_result (push_datagram_frame (fst it) (snd it) ni) (flush_pending ip rest)
      else map_result (\<lambda>ni. ni\<lparr>ni_ARP_pending_datagrams := it # ni_ARP_pending_datagrams ni\<rparr>) (flush_pending ip rest ni))"

definition NetworkInterface_recv_ARP :: "ARPMessage \<Rightarrow> NetworkInterface \<Rightarrow> NetworkInterface result" where
  "NetworkInterface_recv_ARP message ni =
     (let mac = arp_sender_ethernet_address message; ip = arp_sender_ip_address message;
          ni = ni\<lparr>ni_ARP_table := (ni_ARP_table ni)(ip \<mapsto> (mac, DEFAULT_ARP_TTL))\<rparr>
      in bind_result (if arp_opcode message = OPCODE_REQUEST then push_ARP_frame ip OPCODE_REPLY ni else Inr ni) (\<lambda>ni.
           let ni = ni\<lparr>ni_ARP_pending_ip_addresses := filter (\<lambda>e. fst e \<noteq> ip) (ni_ARP_pending_ip_addresses ni)\<rparr>
           in flush_pending ip (ni_ARP_pending_datagrams ni) ni))"

definition NetworkInterface_recv_frame ::
  "EthernetFrame \<Rightarrow> NetworkInterface \<Rightarrow> (InternetDatagram option \<times> NetworkInterface) result" where
  "NetworkInterface_recv_frame frame ni =
     (let header = fr_header frame
      in if eth_dst header \<noteq> ni_ethernet_address ni \<and> eth_dst header \<noteq> ETHERNET_BROADCAST then Inr (None, ni)
         else bind_result (BufferList_to_Buffer (fr_payload frame)) (\<lambda>payload.
           if eth_type header = TYPE_IPv4
           then let (result, datagram) = IPv4Datagram_parse payload IPv4Datagram_default
                in if result \<noteq> NoError then Inr (None, ni) else Inr (Some datagram, ni)
           else let (result, message) = ARPMessage_parse payload ARPMessage_default
                in if result \<noteq> NoError then Inr (None, ni)
                   else bind_result (Address_ipv4_numeric (ni_ip_address ni)) (\<lambda>my_ip.
                     if arp_target_ip_address message \<noteq> my_ip then Inr (None, ni)
                     else map_result (\<lambda>ni. (None, ni)) (NetworkInterface_recv_ARP message ni))))"

text \<open>The two loops of \<^verbatim>\<open>tick\<close>.\<close>

primrec tick_pending :: "u64 \<Rightarrow> (u32 \<times> u64) list \<Rightarrow> NetworkInterface \<Rightarrow> ((u32 \<times> u64) list \<times> NetworkInterface) result" where
  "tick_pending ms [] ni = Inr ([], ni)"
| "tick_pending ms (e # es) ni =
     (if snd e \<le> ms
      then bind_result (push_ARP_frame (fst e) OPCODE_REQUEST ni) (\<lambda>ni.
           map_result (\<lambda>(es', ni). ((fst e, DEFAULT_ARP_TIMEOUT) # es', ni)) (tick_pending ms es ni))
      else map_result (\<lambda>(es', ni). ((fst e, snd e - ms) # es', ni)) (tick_pending ms es ni))"

definition tick_table :: "u64 \<Rightarrow> (u32 \<rightharpoonup> EthernetAddress \<times> u64) \<Rightarrow> (u32 \<rightharpoonup> EthernetAddress \<times> u64)" where
  "tick_table ms table = (\<lambda>ip. case table ip of None \<Rightarrow> None
     | Some (mac, ttl) \<Rightarrow> if ttl \<le> ms then None else Some (mac, ttl - ms))"

definition NetworkInterface_tick :: "u64 \<Rightarrow> NetworkInterface \<Rightarrow> NetworkInterface result" where
  "NetworkInterface_tick ms_since_last_tick ni =
     map_result (\<lambda>(pending, ni). ni\<lparr>ni_ARP_pending_ip_addresses := pending,
                                    ni_ARP_table := tick_table ms_since_last_tick (ni_ARP_table ni)\<rparr>)
       (tick_pending ms_since_last_tick (ni_ARP_pending_ip_addresses ni) ni)"

section \<open>Frames\<close>

text \<open>An interface whose own addresses are usable, and the ARP frames it makes.\<close>

definition ni_addressed :: "NetworkInterface \<Rightarrow> bool" where
  "ni_addressed ni \<longleftrightarrow> eth_address (ni_ethernet_address ni) \<and> (\<exists>ip. Address_ipv4_numeric (ni_ip_address ni) = Inr ip)"

definition ni_ip :: "NetworkInterface \<Rightarrow> u32" where
  "ni_ip ni = (case Address_ipv4_numeric (ni_ip_address ni) of Inr ip \<Rightarrow> ip | Inl _ \<Rightarrow> 0)"

definition ni_mac :: "NetworkInterface \<Rightarrow> u32 \<Rightarrow> EthernetAddress option" where
  "ni_mac ni ip = map_option fst (ni_ARP_table ni ip)"

definition arp_message :: "NetworkInterface \<Rightarrow> u32 \<Rightarrow> u16 \<Rightarrow> ARPMessage" where
  "arp_message ni ip opcode = ARPMessage_default\<lparr>
     arp_sender_ethernet_address := ni_ethernet_address ni, arp_sender_ip_address := ni_ip ni,
     arp_target_ethernet_address := (case ni_mac ni ip of Some mac \<Rightarrow> mac | None \<Rightarrow> EthernetAddress_zero),
     arp_target_ip_address := ip, arp_opcode := opcode\<rparr>"

definition arp_frame :: "NetworkInterface \<Rightarrow> u32 \<Rightarrow> u16 \<Rightarrow> EthernetFrame" where
  "arp_frame ni ip opcode =
     \<lparr>fr_header = \<lparr>eth_dst = (case ni_mac ni ip of Some mac \<Rightarrow> mac | None \<Rightarrow> ETHERNET_BROADCAST),
                   eth_src = ni_ethernet_address ni, eth_type = TYPE_ARP\<rparr>,
      fr_payload = BufferList_of_string (arp_bytes (arp_message ni ip opcode))\<rparr>"

lemma push_ARP_frame_eq:
  assumes "ni_addressed ni" and "opcode = OPCODE_REQUEST \<or> opcode = OPCODE_REPLY"
  shows "push_ARP_frame ip opcode ni = Inr (ni\<lparr>ni_frames_out := ni_frames_out ni @ [arp_frame ni ip opcode]\<rparr>)"
proof -
  obtain my where my: "Address_ipv4_numeric (ni_ip_address ni) = Inr my" using assms(1) by (auto simp: ni_addressed_def)
  then have "NetworkInterface_generate_ARPMessage ni ip opcode = Inr (arp_message ni ip opcode)"
    by (simp add: NetworkInterface_generate_ARPMessage_def arp_message_def ni_ip_def ni_mac_def split: option.splits)
  moreover have "ARPMessage_supported (arp_message ni ip opcode)"
    using assms(2) by (simp add: ARPMessage_supported_def arp_message_def ARPMessage_default_def)
  ultimately show ?thesis
    by (simp add: push_ARP_frame_def NetworkInterface_generate_ARP_frame_def ARPMessage_serialize_eq arp_frame_def
        NetworkInterface_build_frame_header_def ni_mac_def split: option.splits)
qed

text \<open>The datagrams that \<^verbatim>\<open>serialize\<close> accepts.\<close>

definition serializable :: "IPv4Datagram \<Rightarrow> bool" where
  "serializable d \<longleftrightarrow> (\<exists>bl. IPv4Datagram_serialize d = Inr bl)"

definition dg_frame :: "NetworkInterface \<Rightarrow> EthernetAddress \<Rightarrow> InternetDatagram \<Rightarrow> EthernetFrame" where
  "dg_frame ni mac d =
     \<lparr>fr_header = \<lparr>eth_dst = mac, eth_src = ni_ethernet_address ni, eth_type = TYPE_IPv4\<rparr>,
      fr_payload = (case IPv4Datagram_serialize d of Inr bl \<Rightarrow> bl | Inl _ \<Rightarrow> [])\<rparr>"

lemma push_datagram_frame_eq:
  assumes "serializable d" and "ni_mac ni ip = Some mac"
  shows "push_datagram_frame ip d ni = Inr (ni\<lparr>ni_frames_out := ni_frames_out ni @ [dg_frame ni mac d]\<rparr>)"
  using assms by (auto simp: push_datagram_frame_def NetworkInterface_generate_datagram_frame_def serializable_def
      NetworkInterface_build_frame_header_def ni_mac_def dg_frame_def)

lemma flush_pending_eq:
  assumes "\<forall>(i, d) \<in> set waiting. i = ip \<longrightarrow> serializable d" and "ni_mac ni ip = Some mac"
  shows "flush_pending ip waiting ni = Inr (ni\<lparr>
    ni_frames_out := ni_frames_out ni @ map (dg_frame ni mac) (map snd (filter (\<lambda>(i, d). i = ip) waiting)),
    ni_ARP_pending_datagrams := filter (\<lambda>(i, d). i \<noteq> ip) waiting\<rparr>)"
  using assms
proof (induction waiting arbitrary: ni)
  case (Cons it waiting)
  have f: "dg_frame (ni\<lparr>ni_frames_out := x\<rparr>) mac = dg_frame ni mac" for x by (simp add: dg_frame_def fun_eq_iff)
  show ?case
  proof (cases "fst it = ip")
    case True
    then have "push_datagram_frame (fst it) (snd it) ni = Inr (ni\<lparr>ni_frames_out := ni_frames_out ni @ [dg_frame ni mac (snd it)]\<rparr>)"
      using Cons.prems by (intro push_datagram_frame_eq) auto
    then show ?thesis using True Cons.IH[of "ni\<lparr>ni_frames_out := ni_frames_out ni @ [dg_frame ni mac (snd it)]\<rparr>"] Cons.prems
      by (simp add: f split_beta ni_mac_def)
  next
    case False
    then show ?thesis using Cons.IH[of ni] Cons.prems by (auto simp: split_beta)
  qed
qed simp

section \<open>The invariant\<close>

text \<open>
  Every address in the table is an Ethernet address with time to live left; no address is both
  known and being resolved, or being resolved twice; every waiting datagram can be serialized and
  its next hop is being resolved.
\<close>

definition NetworkInterface_inv :: "NetworkInterface \<Rightarrow> bool" where
  "NetworkInterface_inv ni \<longleftrightarrow> ni_addressed ni
     \<and> (\<forall>ip mac ttl. ni_ARP_table ni ip = Some (mac, ttl) \<longrightarrow> eth_address mac \<and> 0 < ttl \<and> ttl \<le> DEFAULT_ARP_TTL)
     \<and> distinct (map fst (ni_ARP_pending_ip_addresses ni))
     \<and> (\<forall>(ip, ttl) \<in> set (ni_ARP_pending_ip_addresses ni).
          ni_ARP_table ni ip = None \<and> 0 < ttl \<and> ttl \<le> DEFAULT_ARP_TIMEOUT)
     \<and> (\<forall>(ip, d) \<in> set (ni_ARP_pending_datagrams ni).
          serializable d \<and> ip \<in> fst ` set (ni_ARP_pending_ip_addresses ni))"

lemma new_ni_inv:
  "eth_address mac \<Longrightarrow> Address_ipv4_numeric a = Inr ip \<Longrightarrow> NetworkInterface_inv (NetworkInterface_init mac a)"
  by (simp add: NetworkInterface_inv_def NetworkInterface_init_def ni_addressed_def)

lemma ni_inv_frames: "NetworkInterface_inv (ni\<lparr>ni_frames_out := q\<rparr>) = NetworkInterface_inv ni"
  by (simp add: NetworkInterface_inv_def ni_addressed_def)

lemma send_known:
  assumes "Address_ipv4_numeric a = Inr ip" and "ni_mac ni ip = Some mac" and "serializable d"
  shows "NetworkInterface_send_datagram d a ni = Inr (ni\<lparr>ni_frames_out := ni_frames_out ni @ [dg_frame ni mac d]\<rparr>)"
  using assms push_datagram_frame_eq[OF assms(3,2)]
  by (auto simp: NetworkInterface_send_datagram_def NetworkInterface_is_ip_known_def ni_mac_def)

lemma send_unknown:
  assumes "Address_ipv4_numeric a = Inr ip" and "ni_mac ni ip = None" and "ni_addressed ni"
  shows "NetworkInterface_send_datagram d a ni =
    Inr (let ni = ni\<lparr>ni_ARP_pending_datagrams := ni_ARP_pending_datagrams ni @ [(ip, d)]\<rparr>
         in if ip \<in> fst ` set (ni_ARP_pending_ip_addresses ni) then ni
            else ni\<lparr>ni_ARP_pending_ip_addresses := ni_ARP_pending_ip_addresses ni @ [(ip, DEFAULT_ARP_TIMEOUT)],
                    ni_frames_out := ni_frames_out ni @ [arp_frame ni ip OPCODE_REQUEST]\<rparr>)"
proof -
  have f: "list_ex (\<lambda>e. fst e = ip) xs \<longleftrightarrow> ip \<in> fst ` set xs" for xs :: "(u32 \<times> u64) list"
    by (auto simp: list_ex_iff)
  have fr: "arp_frame (ni\<lparr>ni_ARP_pending_datagrams := x, ni_ARP_pending_ip_addresses := y\<rparr>) = arp_frame ni"
    "arp_frame (ni\<lparr>ni_ARP_pending_datagrams := x\<rparr>) = arp_frame ni" for x y
    by (simp_all add: arp_frame_def arp_message_def ni_mac_def ni_ip_def fun_eq_iff)
  have "ni_addressed (ni\<lparr>ni_ARP_pending_datagrams := x, ni_ARP_pending_ip_addresses := y\<rparr>)" for x y
    using assms(3) by (simp add: ni_addressed_def)
  from push_ARP_frame_eq[OF this, of OPCODE_REQUEST] show ?thesis using assms(1,2)
    by (simp add: NetworkInterface_send_datagram_def NetworkInterface_is_ip_known_def ni_mac_def f fr Let_def)
qed

lemma send_datagram_inv:
  assumes inv: "NetworkInterface_inv ni" and "serializable d" and "Address_ipv4_numeric a = Inr ip"
  shows "\<exists>ni'. NetworkInterface_send_datagram d a ni = Inr ni' \<and> NetworkInterface_inv ni'"
proof (cases "ni_mac ni ip")
  case None
  then have n: "ni_ARP_table ni ip = None" by (simp add: ni_mac_def)
  have "ni_addressed ni" using inv by (simp add: NetworkInterface_inv_def)
  from send_unknown[OF assms(3) None this] show ?thesis using inv n assms(2)
    by (auto simp: NetworkInterface_inv_def ni_addressed_def DEFAULT_ARP_TIMEOUT_def Let_def)
next
  case (Some mac)
  then show ?thesis using send_known[OF assms(3) Some assms(2)] inv by (simp add: ni_inv_frames)
qed

text \<open>What the interface does with an ARP message for it.\<close>

lemma recv_ARP_eq:
  assumes inv: "NetworkInterface_inv ni" and mac: "mac = arp_sender_ethernet_address m" and ip: "ip = arp_sender_ip_address m"
    and ni1: "ni1 = ni\<lparr>ni_ARP_table := (ni_ARP_table ni)(ip \<mapsto> (mac, DEFAULT_ARP_TTL))\<rparr>"
  shows "NetworkInterface_recv_ARP m ni = Inr (ni1\<lparr>
    ni_ARP_pending_ip_addresses := filter (\<lambda>e. fst e \<noteq> ip) (ni_ARP_pending_ip_addresses ni),
    ni_ARP_pending_datagrams := filter (\<lambda>(i, d). i \<noteq> ip) (ni_ARP_pending_datagrams ni),
    ni_frames_out := ni_frames_out ni
      @ (if arp_opcode m = OPCODE_REQUEST then [arp_frame ni1 ip OPCODE_REPLY] else [])
      @ map (dg_frame ni mac) (map snd (filter (\<lambda>(i, d). i = ip) (ni_ARP_pending_datagrams ni)))\<rparr>)"
proof -
  have ad: "ni_addressed ni1" using inv by (simp add: ni1 NetworkInterface_inv_def ni_addressed_def)
  define ni2 where "ni2 = (if arp_opcode m = OPCODE_REQUEST
    then ni1\<lparr>ni_frames_out := ni_frames_out ni @ [arp_frame ni1 ip OPCODE_REPLY]\<rparr> else ni1)"
  have r: "(if arp_opcode m = OPCODE_REQUEST then push_ARP_frame ip OPCODE_REPLY ni1 else Inr ni1) = Inr ni2"
    using push_ARP_frame_eq[OF ad, of OPCODE_REPLY ip] by (simp add: ni2_def ni1)
  let ?ni3 = "ni2\<lparr>ni_ARP_pending_ip_addresses := filter (\<lambda>e. fst e \<noteq> ip) (ni_ARP_pending_ip_addresses ni2)\<rparr>"
  have k: "ni_mac ?ni3 ip = Some mac" "dg_frame ?ni3 mac = dg_frame ni mac"
    by (simp_all add: ni2_def ni1 ni_mac_def dg_frame_def fun_eq_iff)
  have "\<forall>(i, d) \<in> set (ni_ARP_pending_datagrams ni). i = ip \<longrightarrow> serializable d"
    using inv by (auto simp: NetworkInterface_inv_def)
  note fl = flush_pending_eq[OF this k(1)]
  have "NetworkInterface_recv_ARP m ni = flush_pending ip (ni_ARP_pending_datagrams ?ni3) ?ni3"
    unfolding NetworkInterface_recv_ARP_def Let_def ip[symmetric] mac[symmetric] ni1[symmetric] r by simp
  also have "ni_ARP_pending_datagrams ?ni3 = ni_ARP_pending_datagrams ni" by (simp add: ni2_def ni1)
  finally show ?thesis unfolding fl k(2) by (simp add: ni2_def ni1)
qed

lemma recv_ARP_inv:
  assumes inv: "NetworkInterface_inv ni" and a: "eth_address (arp_sender_ethernet_address m)"
  shows "\<exists>ni'. NetworkInterface_recv_ARP m ni = Inr ni' \<and> NetworkInterface_inv ni'"
proof -
  have "distinct (map fst xs) \<Longrightarrow> distinct (map fst (filter P xs))" for xs :: "(u32 \<times> u64) list" and P
    by (simp add: distinct_map inj_on_def)
  then show ?thesis using recv_ARP_eq[OF inv refl refl refl] inv a
    by (auto simp: NetworkInterface_inv_def ni_addressed_def DEFAULT_ARP_TTL_def split: if_splits)
qed

lemma length_parse_array [simp]: "length (fst (parse_array get n p)) = n"
  by (induction n arbitrary: p) (simp_all add: split_beta)

lemma ARPMessage_parse_address:
  "fst (ARPMessage_parse b m0) = NoError \<Longrightarrow> eth_address (arp_sender_ethernet_address (snd (ARPMessage_parse b m0)))"
  by (simp add: ARPMessage_parse_def split_beta Let_def eth_address_def split: if_splits)

lemma recv_frame_inv:
  assumes inv: "NetworkInterface_inv ni" and "length (fr_payload frame) \<le> 1"
  shows "\<exists>r ni'. NetworkInterface_recv_frame frame ni = Inr (r, ni') \<and> NetworkInterface_inv ni'"
proof -
  obtain b where b: "BufferList_to_Buffer (fr_payload frame) = Inr b"
    using assms(2) by (cases "fr_payload frame" rule: BufferList_to_Buffer.cases) auto
  obtain my where "Address_ipv4_numeric (ni_ip_address ni) = Inr my"
    using inv by (auto simp: NetworkInterface_inv_def ni_addressed_def)
  then show ?thesis using b inv recv_ARP_inv[OF inv ARPMessage_parse_address, of b ARPMessage_default]
    by (auto simp: NetworkInterface_recv_frame_def split_beta Let_def)
qed

lemma tick_pending_eq:
  assumes "ni_addressed ni"
  shows "tick_pending ms es ni = Inr (map (\<lambda>(ip, t). (ip, if t \<le> ms then DEFAULT_ARP_TIMEOUT else t - ms)) es,
    ni\<lparr>ni_frames_out := ni_frames_out ni @ map (\<lambda>(ip, t). arp_frame ni ip OPCODE_REQUEST) (filter (\<lambda>(ip, t). t \<le> ms) es)\<rparr>)"
  using assms
proof (induction es arbitrary: ni)
  case (Cons e es)
  have "arp_frame (ni\<lparr>ni_frames_out := x\<rparr>) = arp_frame ni" "ni_addressed (ni\<lparr>ni_frames_out := x\<rparr>)" for x
    using Cons.prems by (simp_all add: arp_frame_def arp_message_def ni_mac_def ni_ip_def ni_addressed_def fun_eq_iff)
  then show ?case using push_ARP_frame_eq[OF Cons.prems, of OPCODE_REQUEST] Cons.IH Cons.prems
    by (simp add: split_beta)
qed simp

lemma tick_ni_eq:
  assumes "ni_addressed ni"
  shows "NetworkInterface_tick ms ni = Inr (ni\<lparr>
    ni_frames_out := ni_frames_out ni @ map (\<lambda>(ip, t). arp_frame ni ip OPCODE_REQUEST)
      (filter (\<lambda>(ip, t). t \<le> ms) (ni_ARP_pending_ip_addresses ni)),
    ni_ARP_pending_ip_addresses := map (\<lambda>(ip, t). (ip, if t \<le> ms then DEFAULT_ARP_TIMEOUT else t - ms)) (ni_ARP_pending_ip_addresses ni),
    ni_ARP_table := tick_table ms (ni_ARP_table ni)\<rparr>)"
  using tick_pending_eq[OF assms] by (simp add: NetworkInterface_tick_def)

lemma ttl_left: "\<not> t \<le> ms \<Longrightarrow> t \<le> b \<Longrightarrow> 0 < t - ms \<and> t - ms \<le> (b :: u64)"
  using unat_sub_le[of ms t] by (auto simp: word_less_nat_alt word_le_nat_alt)

lemma tick_ni_inv:
  assumes inv: "NetworkInterface_inv ni"
  shows "\<exists>ni'. NetworkInterface_tick ms ni = Inr ni' \<and> NetworkInterface_inv ni'"
proof -
  have ad: "ni_addressed ni" using inv by (simp add: NetworkInterface_inv_def)
  define p where "p = map (\<lambda>(ip, t). (ip, if t \<le> ms then DEFAULT_ARP_TIMEOUT else t - ms)) (ni_ARP_pending_ip_addresses ni)"
  have m: "map fst p = map fst (ni_ARP_pending_ip_addresses ni)" "fst ` set p = fst ` set (ni_ARP_pending_ip_addresses ni)"
    by (force simp: p_def split_beta)+
  have t: "eth_address mac \<and> 0 < ttl \<and> ttl \<le> DEFAULT_ARP_TTL"
    if tick: "tick_table ms (ni_ARP_table ni) ip = Some (mac, ttl)" for ip mac ttl
  proof -
    obtain t0 where t0: "ni_ARP_table ni ip = Some (mac, t0)" "\<not> t0 \<le> ms" "ttl = t0 - ms"
      using tick by (auto simp: tick_table_def split: option.splits if_splits)
    then have "eth_address mac" "t0 \<le> DEFAULT_ARP_TTL" using inv by (auto simp: NetworkInterface_inv_def)
    with ttl_left[OF t0(2)] t0(3) show ?thesis by blast
  qed
  have n: "tick_table ms (ni_ARP_table ni) ip = None \<and> 0 < ttl \<and> ttl \<le> DEFAULT_ARP_TIMEOUT"
    if pin: "(ip, ttl) \<in> set p" for ip ttl
  proof -
    obtain t0 where t0: "(ip, t0) \<in> set (ni_ARP_pending_ip_addresses ni)" "ttl = (if t0 \<le> ms then DEFAULT_ARP_TIMEOUT else t0 - ms)"
      using pin by (auto simp: p_def)
    then have "ni_ARP_table ni ip = None" "t0 \<le> DEFAULT_ARP_TIMEOUT" using inv by (auto simp: NetworkInterface_inv_def)
    with ttl_left[of t0 ms] t0(2) show ?thesis by (auto simp: tick_table_def DEFAULT_ARP_TIMEOUT_def)
  qed
  have n': "\<forall>(ip, ttl) \<in> set p. tick_table ms (ni_ARP_table ni) ip = None \<and> 0 < ttl \<and> ttl \<le> DEFAULT_ARP_TIMEOUT"
    using n by blast
  have "NetworkInterface_inv (ni\<lparr>ni_frames_out := f, ni_ARP_pending_ip_addresses := p, ni_ARP_table := tick_table ms (ni_ARP_table ni)\<rparr>)" for f
    using inv t n' ad unfolding NetworkInterface_inv_def by (intro conjI) (simp_all add: ni_addressed_def m)
  then show ?thesis unfolding tick_ni_eq[OF ad] p_def[symmetric] by blast
qed

section \<open>Any sequence of operations\<close>

datatype ni_op = Ni_Send InternetDatagram Address | Ni_Recv EthernetFrame | Ni_Tick u64 | Ni_Drain

fun ni_step :: "NetworkInterface \<Rightarrow> ni_op \<Rightarrow> NetworkInterface result" where
  "ni_step ni (Ni_Send d a) = NetworkInterface_send_datagram d a ni"
| "ni_step ni (Ni_Recv frame) = map_result snd (NetworkInterface_recv_frame frame ni)"
| "ni_step ni (Ni_Tick ms) = NetworkInterface_tick ms ni"
| "ni_step ni Ni_Drain = Inr (ni\<lparr>ni_frames_out := []\<rparr>)"

text \<open>A frame that was parsed from bytes has its payload in one buffer.\<close>

fun ni_allowed :: "ni_op \<Rightarrow> bool" where
  "ni_allowed (Ni_Send d a) = (serializable d \<and> (case Address_ipv4_numeric a of Inr _ \<Rightarrow> True | Inl _ \<Rightarrow> False))"
| "ni_allowed (Ni_Recv frame) = (length (fr_payload frame) \<le> 1)"
| "ni_allowed (Ni_Tick ms) = True"
| "ni_allowed Ni_Drain = True"

interpretation ni: safe_machine ni_step NetworkInterface_inv ni_allowed
proof
  fix i e assume *: "NetworkInterface_inv i" "ni_allowed e"
  show "\<exists>t. ni_step i e = Inr t \<and> NetworkInterface_inv t"
  proof (cases e)
    case (Ni_Send d a)
    then obtain ip where "serializable d" "Address_ipv4_numeric a = Inr ip" using *(2) by (auto split: sum.splits)
    then show ?thesis using send_datagram_inv[OF *(1)] Ni_Send by simp
  next
    case (Ni_Recv frame)
    then show ?thesis using recv_frame_inv[OF *(1), of frame] *(2) by auto
  next
    case (Ni_Tick ms)
    then show ?thesis using tick_ni_inv[OF *(1)] by simp
  next
    case Ni_Drain
    then show ?thesis using *(1) by (simp add: ni_inv_frames)
  qed
qed

section \<open>Lifetimes\<close>

section \<open>Properties\<close>

text \<open>
  C27. No sequence of datagrams to send, frames received and ticks makes an interface that was constructed throw, as long
  as the datagrams can be serialized: in every state reached the addresses known and the addresses
  being resolved are disjoint, each is resolved once, and every datagram that waits is waiting for
  an address being resolved.
\<close>

theorem NetworkInterface_never_fails:
  assumes "eth_address mac" and "Address_ipv4_numeric a = Inr ip" and "NetworkInterface_new gni mac a = Inr ni0"
    and "\<forall>op \<in> set ops. ni_allowed op"
  shows "\<exists>ni. run_events ni_step ni0 ops = Inr ni
    \<and> dom (ni_ARP_table ni) \<inter> fst ` set (ni_ARP_pending_ip_addresses ni) = {}
    \<and> distinct (map fst (ni_ARP_pending_ip_addresses ni))
    \<and> fst ` set (ni_ARP_pending_datagrams ni) \<subseteq> fst ` set (ni_ARP_pending_ip_addresses ni)"
proof -
  have "ni0 = NetworkInterface_init mac a" using assms(3) by (auto simp: NetworkInterface_new_def map_result_Inr_iff)
  then obtain ni where r: "run_events ni_step ni0 ops = Inr ni" and i: "NetworkInterface_inv ni"
    using ni.run_safe[OF new_ni_inv[OF assms(1,2)] assms(4)] by blast
  have "ni_ARP_table ni x = None" if "x \<in> fst ` set (ni_ARP_pending_ip_addresses ni)" for x
    using i that by (auto simp: NetworkInterface_inv_def)
  then have "dom (ni_ARP_table ni) \<inter> fst ` set (ni_ARP_pending_ip_addresses ni) = {}" by fastforce
  moreover have "fst ` set (ni_ARP_pending_datagrams ni) \<subseteq> fst ` set (ni_ARP_pending_ip_addresses ni)"
    "distinct (map fst (ni_ARP_pending_ip_addresses ni))"
    using i by (auto simp: NetworkInterface_inv_def)
  ultimately show ?thesis using r by blast
qed

definition example_resolver :: getnameinfo where
  "example_resolver addr = Inr (inet_ntoa 16909060, decimal 0)"

lemma example_new: "NetworkInterface_new example_resolver mac (ipv4_address 0 16909060) = Inr (NetworkInterface_init mac (ipv4_address 0 16909060))"
proof -
  have "numeric_name example_resolver 0 16909060" by (simp add: numeric_name_def example_resolver_def)
  then show ?thesis using numeric_ip_port[of example_resolver 0 16909060] by (simp add: NetworkInterface_new_def Address_ip_def)
qed

theorem NetworkInterface_never_fails_witness:
  "\<exists>ni0 ni. NetworkInterface_new example_resolver [2, 0, 0, 0, 0, 1] (ipv4_address 0 16909060) = Inr ni0 \<and> run_events ni_step ni0
      [Ni_Send \<lparr>dg_header = IPv4Header_default\<lparr>ip_len := 20\<rparr>, dg_payload = []\<rparr> (ipv4_address 0 7), Ni_Tick 9000,
       Ni_Recv EthernetFrame_default, Ni_Drain] = Inr ni"
proof -
  let ?d = "\<lparr>dg_header = IPv4Header_default\<lparr>ip_len := 20\<rparr>, dg_payload = []\<rparr>"
  have "dg_encodable ?d" by (simp add: dg_encodable_def ip_encodable_def IPv4Header_default_def)
  from IPv4Datagram_serialize_eq[OF this refl] have "serializable ?d" by (simp add: serializable_def)
  then have "\<forall>op \<in> set [Ni_Send ?d (ipv4_address 0 7), Ni_Tick 9000, Ni_Recv EthernetFrame_default, Ni_Drain]. ni_allowed op"
    by (auto simp: eth_address_def EthernetFrame_default_def)
  from NetworkInterface_never_fails[OF _ ipv4_numeric_address example_new[of "[2, 0, 0, 0, 0, 1]"] this] show ?thesis
    using example_new[of "[2, 0, 0, 0, 0, 1]"] by (auto simp: eth_address_def simp del: run_events.simps)
qed

text \<open>
  C7. Address resolution: a datagram whose next hop is known leaves at once in a frame for that
  address; otherwise it waits, and a broadcast ARP request goes out unless one is pending. When the
  interface then receives an ARP message for it from that address, in a frame addressed or
  broadcast to it, it learns the sender's Ethernet address for 30 seconds, answers a request, and
  sends every datagram that waited, in the order of arrival, and no other, to that address.
\<close>

theorem address_resolution:
  assumes inv: "NetworkInterface_inv ni" and d: "serializable d" and a: "Address_ipv4_numeric a = Inr ip"
    and m: "arp_wf m" "arp_target_ip_address m = ni_ip ni" "arp_sender_ip_address m = ip"
      "mac = arp_sender_ethernet_address m"
    and f: "fr_payload frame = [b]" "Buffer_inv b" "Buffer_str b = arp_bytes m @ padding" "length padding < 2 ^ 63"
      "eth_dst (fr_header frame) = ni_ethernet_address ni \<or> eth_dst (fr_header frame) = ETHERNET_BROADCAST"
      "eth_type (fr_header frame) = TYPE_ARP"
  shows "(\<forall>known. ni_mac ni ip = Some known \<longrightarrow>
      NetworkInterface_send_datagram d a ni = Inr (ni\<lparr>ni_frames_out := ni_frames_out ni @ [dg_frame ni known d]\<rparr>))
    \<and> (ni_mac ni ip = None \<longrightarrow> (\<exists>ni1. NetworkInterface_send_datagram d a ni = Inr ni1
        \<and> ni_ARP_pending_datagrams ni1 = ni_ARP_pending_datagrams ni @ [(ip, d)]
        \<and> ni_frames_out ni1 = ni_frames_out ni
            @ (if ip \<in> fst ` set (ni_ARP_pending_ip_addresses ni) then [] else [arp_frame ni ip OPCODE_REQUEST])
        \<and> eth_dst (fr_header (arp_frame ni ip OPCODE_REQUEST)) = ETHERNET_BROADCAST))
    \<and> (\<exists>ni2. NetworkInterface_recv_frame frame ni = Inr (None, ni2)
        \<and> ni_ARP_table ni2 = (ni_ARP_table ni)(ip \<mapsto> (mac, DEFAULT_ARP_TTL))
        \<and> ni_frames_out ni2 = ni_frames_out ni
            @ (if arp_opcode m = OPCODE_REQUEST then [arp_frame ni2 ip OPCODE_REPLY] else [])
            @ map (dg_frame ni mac) (map snd (filter (\<lambda>(i, d). i = ip) (ni_ARP_pending_datagrams ni)))
        \<and> ni_ARP_pending_datagrams ni2 = filter (\<lambda>(i, d). i \<noteq> ip) (ni_ARP_pending_datagrams ni))"
proof (intro conjI allI impI)
  have ad: "ni_addressed ni" using inv by (simp add: NetworkInterface_inv_def)
  fix known assume "ni_mac ni ip = Some known"
  then show "NetworkInterface_send_datagram d a ni = Inr (ni\<lparr>ni_frames_out := ni_frames_out ni @ [dg_frame ni known d]\<rparr>)"
    by (rule send_known[OF a _ d])
next
  assume n: "ni_mac ni ip = None"
  have ad: "ni_addressed ni" using inv by (simp add: NetworkInterface_inv_def)
  have "arp_frame (ni\<lparr>ni_ARP_pending_datagrams := x\<rparr>) = arp_frame ni" for x
    by (simp add: arp_frame_def arp_message_def ni_mac_def ni_ip_def fun_eq_iff)
  with send_unknown[OF a n ad] n show "\<exists>ni1. NetworkInterface_send_datagram d a ni = Inr ni1
        \<and> ni_ARP_pending_datagrams ni1 = ni_ARP_pending_datagrams ni @ [(ip, d)]
        \<and> ni_frames_out ni1 = ni_frames_out ni
            @ (if ip \<in> fst ` set (ni_ARP_pending_ip_addresses ni) then [] else [arp_frame ni ip OPCODE_REQUEST])
        \<and> eth_dst (fr_header (arp_frame ni ip OPCODE_REQUEST)) = ETHERNET_BROADCAST"
    by (simp add: Let_def arp_frame_def)
next
  obtain my where my: "Address_ipv4_numeric (ni_ip_address ni) = Inr my"
    using inv by (auto simp: NetworkInterface_inv_def ni_addressed_def)
  have p: "ARPMessage_parse b ARPMessage_default = (NoError, m)" by (rule ARPMessage_parse_bytes[OF m(1) f(4,2,3)])
  let ?ni1 = "ni\<lparr>ni_ARP_table := (ni_ARP_table ni)(ip \<mapsto> (mac, DEFAULT_ARP_TTL))\<rparr>"
  have fr: "arp_frame (?ni1\<lparr>ni_ARP_pending_ip_addresses := x, ni_ARP_pending_datagrams := y, ni_frames_out := z\<rparr>) = arp_frame ?ni1" for x y z
    by (simp add: arp_frame_def arp_message_def ni_mac_def ni_ip_def fun_eq_iff)
  have "NetworkInterface_recv_frame frame ni = map_result (\<lambda>ni. (None, ni)) (NetworkInterface_recv_ARP m ni)"
    using f(1,5,6) p my m(2) by (auto simp: NetworkInterface_recv_frame_def Let_def TYPE_ARP_def TYPE_IPv4_def ni_ip_def)
  then show "\<exists>ni2. NetworkInterface_recv_frame frame ni = Inr (None, ni2)
        \<and> ni_ARP_table ni2 = (ni_ARP_table ni)(ip \<mapsto> (mac, DEFAULT_ARP_TTL))
        \<and> ni_frames_out ni2 = ni_frames_out ni
            @ (if arp_opcode m = OPCODE_REQUEST then [arp_frame ni2 ip OPCODE_REPLY] else [])
            @ map (dg_frame ni mac) (map snd (filter (\<lambda>(i, d). i = ip) (ni_ARP_pending_datagrams ni)))
        \<and> ni_ARP_pending_datagrams ni2 = filter (\<lambda>(i, d). i \<noteq> ip) (ni_ARP_pending_datagrams ni)"
    unfolding recv_ARP_eq[OF inv m(4) m(3)[symmetric] refl] by (simp add: fr)
qed

definition waiting_example :: NetworkInterface where
  "waiting_example = (NetworkInterface_init [2, 0, 0, 0, 0, 1] (ipv4_address 0 9))\<lparr>
     ni_ARP_pending_ip_addresses := [(7, 400)],
     ni_ARP_pending_datagrams := [(7, \<lparr>dg_header = IPv4Header_default\<lparr>ip_len := 20\<rparr>, dg_payload = []\<rparr>)]\<rparr>"

definition reply_example :: ARPMessage where
  "reply_example = ARPMessage_default\<lparr>arp_opcode := OPCODE_REPLY, arp_sender_ethernet_address := [2, 0, 0, 0, 0, 5],
     arp_sender_ip_address := 7, arp_target_ip_address := 9, arp_target_ethernet_address := [2, 0, 0, 0, 0, 1]\<rparr>"

theorem address_resolution_witness:
  "\<exists>ni2. NetworkInterface_recv_frame
      \<lparr>fr_header = \<lparr>eth_dst = [2, 0, 0, 0, 0, 1], eth_src = [2, 0, 0, 0, 0, 5], eth_type = TYPE_ARP\<rparr>,
       fr_payload = [Buffer_of_string (arp_bytes reply_example @ [0])]\<rparr> waiting_example = Inr (None, ni2)
    \<and> length (ni_frames_out ni2) = 1 \<and> ni_ARP_pending_datagrams ni2 = []
    \<and> ni_ARP_table ni2 7 = Some ([2, 0, 0, 0, 0, 5], DEFAULT_ARP_TTL)"
proof -
  let ?d = "\<lparr>dg_header = IPv4Header_default\<lparr>ip_len := 20\<rparr>, dg_payload = []\<rparr>"
  let ?frame = "\<lparr>fr_header = \<lparr>eth_dst = [2, 0, 0, 0, 0, 1], eth_src = [2, 0, 0, 0, 0, 5], eth_type = TYPE_ARP\<rparr>,
       fr_payload = [Buffer_of_string (arp_bytes reply_example @ [0])]\<rparr>"
  have "dg_encodable ?d" by (simp add: dg_encodable_def ip_encodable_def IPv4Header_default_def)
  from IPv4Datagram_serialize_eq[OF this refl] have d: "serializable ?d" by (simp add: serializable_def)
  then have inv: "NetworkInterface_inv waiting_example"
    by (simp add: NetworkInterface_inv_def waiting_example_def NetworkInterface_init_def ni_addressed_def eth_address_def
        DEFAULT_ARP_TIMEOUT_def)
  have wf: "arp_wf reply_example" by (simp add: arp_wf_def reply_example_def ARPMessage_supported_def ARPMessage_default_def
        eth_address_def)
  have fit: "Buffer_inv (Buffer_of_string (arp_bytes reply_example @ [0]))"
    using length_arp_bytes[OF wf] by (simp add: fits_def)
  have m: "arp_target_ip_address reply_example = ni_ip waiting_example" "arp_sender_ip_address reply_example = 7"
    "[2, 0, 0, 0, 0, 5] = arp_sender_ethernet_address reply_example" "arp_opcode reply_example \<noteq> OPCODE_REQUEST"
    by (simp_all add: reply_example_def waiting_example_def NetworkInterface_init_def ni_ip_def OPCODE_REPLY_def OPCODE_REQUEST_def)
  have w: "ni_ARP_pending_datagrams waiting_example = [(7, ?d)]" "ni_frames_out waiting_example = []"
    "ni_ethernet_address waiting_example = [2, 0, 0, 0, 0, 1]" "ni_ARP_table waiting_example = Map.empty"
    by (simp_all add: waiting_example_def NetworkInterface_init_def)
  show ?thesis
    using address_resolution[OF inv d ipv4_numeric_address wf m(1-3) _ fit, of ?frame "[0]" 0] m(4) w by auto
qed

text \<open>
  C29. A learned address lives exactly as long as its time to live: under any sequence of ticks, and
  as long as no ARP message renews it, the entry is there, with what is left of its time, while
  the ticks sum to less than the time to live, and it is gone from the tick that reaches it.
\<close>

theorem ARP_entry_lifetime:
  assumes "ni_addressed ni" and "ni_ARP_table ni ip = Some (mac, ttl)" and "0 < ttl"
  shows "\<exists>ni'. run_events (\<lambda>ni ms. NetworkInterface_tick ms ni) ni mss = Inr ni'
    \<and> ni_ARP_table ni' ip = (if (\<Sum>ms \<leftarrow> mss. unat ms) < unat ttl
        then Some (mac, ttl - (\<Sum>ms \<leftarrow> mss. ms)) else None)"
proof -
  have gone: "\<exists>ni'. run_events (\<lambda>ni ms. NetworkInterface_tick ms ni) ni mss = Inr ni' \<and> ni_ARP_table ni' ip = None"
    if "ni_addressed ni" "ni_ARP_table ni ip = None" for ni and mss
    using that by (induction mss arbitrary: ni) (simp_all add: tick_ni_eq tick_table_def ni_addressed_def)
  show ?thesis using assms
  proof (induction mss arbitrary: ni ttl)
    case Nil
    then show ?case by (simp add: word_less_nat_alt)
  next
    case (Cons ms mss)
    obtain ni1 where ni1: "NetworkInterface_tick ms ni = Inr ni1" "ni_addressed ni1"
      "ni_ARP_table ni1 ip = (if ttl \<le> ms then None else Some (mac, ttl - ms))"
      using Cons.prems(1,2) by (simp add: tick_ni_eq tick_table_def ni_addressed_def)
    show ?case
    proof (cases "ttl \<le> ms")
      case True
      then show ?thesis using gone[of ni1 mss] ni1 by (simp add: word_le_nat_alt)
    next
      case False
      then have u: "unat (ttl - ms) = unat ttl - unat ms" "0 < ttl - ms" "unat ms < unat ttl"
        using unat_sub_le[of ms ttl] by (auto simp: word_less_nat_alt word_le_nat_alt)
      from Cons.IH[OF ni1(2) _ u(2)] ni1 False show ?thesis
        using u by (auto simp: algebra_simps)
    qed
  qed
qed

theorem ARP_entry_lifetime_witness:
  "(\<exists>ni'. run_events (\<lambda>ni ms. NetworkInterface_tick ms ni)
      ((NetworkInterface_init [2, 0, 0, 0, 0, 1] (ipv4_address 0 9))\<lparr>ni_ARP_table := [7 \<mapsto> ([2, 0, 0, 0, 0, 5], 30000)]\<rparr>)
      [10000, 19999] = Inr ni' \<and> ni_ARP_table ni' 7 = Some ([2, 0, 0, 0, 0, 5], 1))
   \<and> (\<exists>ni'. run_events (\<lambda>ni ms. NetworkInterface_tick ms ni)
      ((NetworkInterface_init [2, 0, 0, 0, 0, 1] (ipv4_address 0 9))\<lparr>ni_ARP_table := [7 \<mapsto> ([2, 0, 0, 0, 0, 5], 30000)]\<rparr>)
      [10000, 20000] = Inr ni' \<and> ni_ARP_table ni' 7 = None)"
proof -
  let ?ni = "(NetworkInterface_init [2, 0, 0, 0, 0, 1] (ipv4_address 0 9))\<lparr>ni_ARP_table := [7 \<mapsto> ([2, 0, 0, 0, 0, 5], 30000)]\<rparr>"
  have "ni_addressed ?ni" by (simp add: ni_addressed_def NetworkInterface_init_def eth_address_def)
  then show ?thesis using ARP_entry_lifetime[of ?ni 7 "[2, 0, 0, 0, 0, 5]" 30000 "[10000, 19999]"]
      ARP_entry_lifetime[of ?ni 7 "[2, 0, 0, 0, 0, 5]" 30000 "[10000, 20000]"] by simp
qed

end
