(* ===== verification/Router.thy ===== *)
theory Router
  imports Network_Interface
begin

text \<open>
  \<^verbatim>\<open>libsponge/router.{hh,cc}\<close>: longest-prefix-match routing between network interfaces that queue the
  datagrams they receive. Indexing a vector out of range with \<^verbatim>\<open>operator[]\<close> and shifting by a negative
  amount are undefined behaviour; the debugging output is not modelled.
\<close>

section \<open>The model\<close>

record AsyncNetworkInterface =
  ai_interface :: NetworkInterface
  ai_datagrams_out :: "InternetDatagram list"

definition AsyncNetworkInterface_of :: "NetworkInterface \<Rightarrow> AsyncNetworkInterface" where
  "AsyncNetworkInterface_of interface = \<lparr>ai_interface = interface, ai_datagrams_out = []\<rparr>"

definition AsyncNetworkInterface_recv_frame :: "EthernetFrame \<Rightarrow> AsyncNetworkInterface \<Rightarrow> AsyncNetworkInterface result" where
  "AsyncNetworkInterface_recv_frame frame ai =
     map_result (\<lambda>(optional_dgram, ni).
         let ai = ai\<lparr>ai_interface := ni\<rparr>
         in case optional_dgram of Some dgram \<Rightarrow> ai\<lparr>ai_datagrams_out := ai_datagrams_out ai @ [dgram]\<rparr> | None \<Rightarrow> ai)
       (NetworkInterface_recv_frame frame (ai_interface ai))"

record RoutingTableEntry =
  rt_route_prefix :: u32
  rt_prefix_length :: u8
  rt_prefix_mask :: u32
  rt_next_hop :: "Address option"
  rt_interface_num :: u64

record Router =
  ro_interfaces :: "AsyncNetworkInterface list"
  ro_routingTable :: "RoutingTableEntry list"

definition Router_new :: Router where
  "Router_new = \<lparr>ro_interfaces = [], ro_routingTable = []\<rparr>"

definition Router_add_interface :: "AsyncNetworkInterface \<Rightarrow> Router \<Rightarrow> u64 \<times> Router" where
  "Router_add_interface interface r =
     (let r = r\<lparr>ro_interfaces := ro_interfaces r @ [interface]\<rparr> in (size_of (ro_interfaces r) - 1, r))"

definition Router_interface :: "u64 \<Rightarrow> Router \<Rightarrow> AsyncNetworkInterface result" where
  "Router_interface N r =
     (if unat N < length (ro_interfaces r) then Inr (ro_interfaces r ! unat N) else Inl (Out_Of_Range ''vector::at''))"

definition prefix_mask :: "u8 \<Rightarrow> u32 result" where
  "prefix_mask prefix_length =
     (if prefix_length = 0 then Inr 0
      else if prefix_length > 32 then Inl (Undefined_Behaviour ''negative shift'')
      else Inr (push_bit (32 - unat prefix_length) (not 0)))"

text \<open>\<^verbatim>\<open>add_route\<close> prints the prefix and the next hop first, which calls \<^verbatim>\<open>getnameinfo\<close> for each and throws if it fails.\<close>

definition Router_add_route :: "getnameinfo \<Rightarrow> u32 \<Rightarrow> u8 \<Rightarrow> Address option \<Rightarrow> u64 \<Rightarrow> Router \<Rightarrow> Router result" where
  "Router_add_route getnameinfo route_prefix prefix_length next_hop interface_num r =
     bind_result (Address_from_ipv4_numeric route_prefix) (\<lambda>prefix_address.
     bind_result (Address_ip getnameinfo prefix_address) (\<lambda>_.
     bind_result (case next_hop of Some a \<Rightarrow> Address_ip getnameinfo a | None \<Rightarrow> Inr ''(direct)'') (\<lambda>_.
     map_result (\<lambda>prefix_mask. r\<lparr>ro_routingTable := ro_routingTable r @
         [\<lparr>rt_route_prefix = route_prefix, rt_prefix_length = prefix_length, rt_prefix_mask = prefix_mask,
           rt_next_hop = next_hop, rt_interface_num = interface_num\<rparr>]\<rparr>)
       (prefix_mask prefix_length))))"

text \<open>
  The search loop. The iterators are indices into the table, the one past the end standing for
  \<^verbatim>\<open>end()\<close>; it is not dereferenced, since it is greater than every \<^verbatim>\<open>it\<close> of the loop.
\<close>

definition rt_matches :: "u32 \<Rightarrow> RoutingTableEntry \<Rightarrow> bool" where
  "rt_matches dst e \<longleftrightarrow> and dst (rt_prefix_mask e) = rt_route_prefix e"

definition match_step :: "u32 \<Rightarrow> RoutingTableEntry list \<Rightarrow> nat \<Rightarrow> nat \<Rightarrow> nat" where
  "match_step dst table target it =
     (if rt_matches dst (table ! it)
         \<and> (target > it \<or> rt_prefix_length (table ! target) < rt_prefix_length (table ! it))
      then it else target)"

definition Router_match :: "u32 \<Rightarrow> RoutingTableEntry list \<Rightarrow> nat" where
  "Router_match dst table = foldl (match_step dst table) (length table) [0..<length table]"

definition update_interface :: "nat \<Rightarrow> (NetworkInterface \<Rightarrow> NetworkInterface result) \<Rightarrow> Router \<Rightarrow> Router result" where
  "update_interface n f r =
     (if n < length (ro_interfaces r)
      then let ai = ro_interfaces r ! n
           in map_result (\<lambda>ni. r\<lparr>ro_interfaces := (ro_interfaces r)[n := ai\<lparr>ai_interface := ni\<rparr>]\<rparr>) (f (ai_interface ai))
      else Inl (Undefined_Behaviour ''vector::operator[]''))"

definition Router_route_one_datagram :: "InternetDatagram \<Rightarrow> Router \<Rightarrow> Router result" where
  "Router_route_one_datagram dgram r =
     (let header = dg_header dgram
      in if ip_ttl header \<le> 1 then Inr r
         else let dst = ip_dst header; target = Router_match dst (ro_routingTable r)
              in if target = length (ro_routingTable r) then Inr r
                 else let dgram = dgram\<lparr>dg_header := header\<lparr>ip_ttl := ip_ttl header - 1\<rparr>\<rparr>;
                          entry = ro_routingTable r ! target
                      in bind_result (case rt_next_hop entry of Some a \<Rightarrow> Inr a | None \<Rightarrow> Address_from_ipv4_numeric dst)
                           (\<lambda>next_hop. update_interface (unat (rt_interface_num entry))
                                         (NetworkInterface_send_datagram dgram next_hop) r))"

text \<open>The two loops of \<^verbatim>\<open>route\<close>; sending never adds to a queue of received datagrams.\<close>

primrec route_queue :: "nat \<Rightarrow> InternetDatagram list \<Rightarrow> Router \<Rightarrow> Router result" where
  "route_queue i [] r = Inr r"
| "route_queue i (dgram # queue) r =
     bind_result (Router_route_one_datagram dgram r) (\<lambda>r.
       route_queue i queue (r\<lparr>ro_interfaces := (ro_interfaces r)[i := (ro_interfaces r ! i)\<lparr>ai_datagrams_out := queue\<rparr>]\<rparr>))"

primrec route_interfaces :: "nat list \<Rightarrow> Router \<Rightarrow> Router result" where
  "route_interfaces [] r = Inr r"
| "route_interfaces (i # is) r =
     bind_result (route_queue i (ai_datagrams_out (ro_interfaces r ! i)) r) (route_interfaces is)"

definition Router_route :: "Router \<Rightarrow> Router result" where
  "Router_route r = route_interfaces [0..<length (ro_interfaces r)] r"

section \<open>Longest prefix match\<close>

lemma match_loop:
  fixes dst :: u32
  assumes "n \<le> length table"
  defines "t \<equiv> foldl (match_step dst table) (length table) [0..<n]"
  shows "(t = length table \<and> (\<forall>j < n. \<not> rt_matches dst (table ! j)))
    \<or> (t < n \<and> rt_matches dst (table ! t)
       \<and> (\<forall>j < n. rt_matches dst (table ! j) \<longrightarrow> rt_prefix_length (table ! j) < rt_prefix_length (table ! t)
            \<or> rt_prefix_length (table ! j) = rt_prefix_length (table ! t) \<and> t \<le> j))"
  using assms(1) unfolding t_def
proof (induction n)
  case (Suc n)
  define u where "u = foldl (match_step dst table) (length table) [0..<n]"
  have step: "foldl (match_step dst table) (length table) [0..<Suc n] = match_step dst table u n" by (simp add: u_def)
  from Suc have IH: "(u = length table \<and> (\<forall>j < n. \<not> rt_matches dst (table ! j)))
    \<or> (u < n \<and> rt_matches dst (table ! u)
       \<and> (\<forall>j < n. rt_matches dst (table ! j) \<longrightarrow> rt_prefix_length (table ! j) < rt_prefix_length (table ! u)
            \<or> rt_prefix_length (table ! j) = rt_prefix_length (table ! u) \<and> u \<le> j))" by (simp add: u_def)
  show ?case unfolding step
    using IH Suc.prems by (auto simp: match_step_def less_Suc_eq not_less)
qed simp

lemma Router_match_spec:
  "(Router_match dst table = length table \<and> (\<forall>j < length table. \<not> rt_matches dst (table ! j)))
   \<or> (Router_match dst table < length table \<and> rt_matches dst (table ! Router_match dst table)
      \<and> (\<forall>j < length table. rt_matches dst (table ! j) \<longrightarrow>
           rt_prefix_length (table ! j) < rt_prefix_length (table ! Router_match dst table)
           \<or> rt_prefix_length (table ! j) = rt_prefix_length (table ! Router_match dst table) \<and> Router_match dst table \<le> j))"
  unfolding Router_match_def by (rule match_loop) simp

text \<open>What a mask selects: the \<open>n\<close> most significant bits.\<close>

lemma and_prefix_mask:
  assumes "n \<le> 32"
  shows "and x (push_bit (32 - n) (not 0)) = push_bit (32 - n) (drop_bit (32 - n) (x :: u32))"
  by (rule bit_eqI) (auto simp: bit_and_iff bit_push_bit_iff bit_drop_bit_eq bit_not_iff bit_mask_iff)

lemma prefix_match_iff:
  assumes "prefix_mask n = Inr m"
  shows "and dst m = p \<longleftrightarrow> drop_bit (32 - unat n) dst = drop_bit (32 - unat n) p \<and> take_bit (32 - unat n) p = 0"
proof -
  have n: "unat n \<le> 32" using assms by (auto simp: prefix_mask_def word_le_nat_alt not_less split: if_splits)
  have "and dst m = push_bit (32 - unat n) (drop_bit (32 - unat n) dst)"
  proof (cases "n = 0")
    case True
    have "drop_bit 32 dst = 0" by (rule bit_eqI) (auto simp: bit_drop_bit_eq dest: bit_imp_le_length)
    then show ?thesis using True assms by (simp add: prefix_mask_def)
  next
    case False
    then show ?thesis using assms and_prefix_mask[OF n] by (auto simp: prefix_mask_def split: if_splits)
  qed
  moreover have "drop_bit k (push_bit k (drop_bit k x)) = drop_bit k (x :: u32)" for k x
    by (rule bit_eqI) (auto simp: bit_drop_bit_eq bit_push_bit_iff dest: bit_imp_le_length)
  then have "push_bit (32 - unat n) (drop_bit (32 - unat n) dst) = p
      \<longleftrightarrow> drop_bit (32 - unat n) dst = drop_bit (32 - unat n) p \<and> take_bit (32 - unat n) p = 0"
    using bits_ident[of "32 - unat n" p]
    by (auto simp: take_bit_push_bit)
  ultimately show ?thesis by simp
qed

section \<open>Routing\<close>

text \<open>The specification of a match: the route's bits below its prefix are zero and those above agree.\<close>

definition rt_covers :: "u32 \<Rightarrow> RoutingTableEntry \<Rightarrow> bool" where
  "rt_covers dst e \<longleftrightarrow> (let k = 32 - unat (rt_prefix_length e)
     in drop_bit k dst = drop_bit k (rt_route_prefix e) \<and> take_bit k (rt_route_prefix e) = 0)"

definition rt_ok :: "nat \<Rightarrow> RoutingTableEntry \<Rightarrow> bool" where
  "rt_ok n e \<longleftrightarrow> prefix_mask (rt_prefix_length e) = Inr (rt_prefix_mask e) \<and> unat (rt_interface_num e) < n
     \<and> (\<forall>a. rt_next_hop e = Some a \<longrightarrow> (\<exists>ip. Address_ipv4_numeric a = Inr ip))"

definition Router_inv :: "Router \<Rightarrow> bool" where
  "Router_inv r \<longleftrightarrow> (\<forall>ai \<in> set (ro_interfaces r). NetworkInterface_inv (ai_interface ai))
     \<and> (\<forall>e \<in> set (ro_routingTable r). rt_ok (length (ro_interfaces r)) e)"

lemma rt_matches_covers: "rt_ok n e \<Longrightarrow> rt_matches dst e = rt_covers dst e"
  by (simp add: rt_ok_def rt_matches_def rt_covers_def Let_def prefix_match_iff)

lemma serializable_iff:
  "serializable d \<longleftrightarrow> BufferList_size (dg_payload d) = ucast (IPv4Header_payload_length (dg_header d))
    \<and> ip_ver (dg_header d) = 4 \<and> \<not> 4 * ucast (ip_hlen (dg_header d)) < IPv4Header_LENGTH"
  by (auto simp: serializable_def IPv4Datagram_serialize_def IPv4Header_serialize_def Let_def IPv4Header_payload_length_def)

lemma serializable_ttl: "serializable (d\<lparr>dg_header := (dg_header d)\<lparr>ip_ttl := t\<rparr>\<rparr>) = serializable d"
  by (simp add: serializable_iff IPv4Header_payload_length_def)

text \<open>Where a route sends a datagram.\<close>

definition rt_hop :: "u32 \<Rightarrow> RoutingTableEntry \<Rightarrow> Address" where
  "rt_hop dst e = (case rt_next_hop e of Some a \<Rightarrow> a | None \<Rightarrow> ipv4_address 0 dst)"

lemma route_one_eq:
  assumes "Router_inv r" and "serializable d" and "1 < ip_ttl (dg_header d)"
    and "Router_match (ip_dst (dg_header d)) (ro_routingTable r) = t" and "t < length (ro_routingTable r)"
    and "e = ro_routingTable r ! t" and "i = unat (rt_interface_num e)"
  shows "\<exists>ni'. NetworkInterface_send_datagram (d\<lparr>dg_header := (dg_header d)\<lparr>ip_ttl := ip_ttl (dg_header d) - 1\<rparr>\<rparr>)
        (rt_hop (ip_dst (dg_header d)) e) (ai_interface (ro_interfaces r ! i)) = Inr ni'
    \<and> NetworkInterface_inv ni' \<and> i < length (ro_interfaces r)
    \<and> Router_route_one_datagram d r =
        Inr (r\<lparr>ro_interfaces := (ro_interfaces r)[i := (ro_interfaces r ! i)\<lparr>ai_interface := ni'\<rparr>]\<rparr>)"
proof -
  have ok: "rt_ok (length (ro_interfaces r)) e" using assms(1,5,6) by (auto simp: Router_inv_def)
  then have i: "i < length (ro_interfaces r)" using assms(7) by (simp add: rt_ok_def)
  have inv: "NetworkInterface_inv (ai_interface (ro_interfaces r ! i))" using assms(1) i by (simp add: Router_inv_def)
  obtain ip where ip: "Address_ipv4_numeric (rt_hop (ip_dst (dg_header d)) e) = Inr ip"
    using ok by (cases "rt_next_hop e") (auto simp: rt_hop_def rt_ok_def)
  have hop: "(case rt_next_hop e of Some a \<Rightarrow> Inr a | None \<Rightarrow> Address_from_ipv4_numeric (ip_dst (dg_header d)))
      = Inr (rt_hop (ip_dst (dg_header d)) e)" by (simp add: rt_hop_def split: option.splits)
  obtain ni' where ni': "NetworkInterface_send_datagram (d\<lparr>dg_header := (dg_header d)\<lparr>ip_ttl := ip_ttl (dg_header d) - 1\<rparr>\<rparr>)
        (rt_hop (ip_dst (dg_header d)) e) (ai_interface (ro_interfaces r ! i)) = Inr ni'" "NetworkInterface_inv ni'"
    using send_datagram_inv[OF inv _ ip] assms(2) serializable_ttl by blast
  have "\<not> ip_ttl (dg_header d) \<le> 1" using assms(3) by simp
  then have "Router_route_one_datagram d r =
      Inr (r\<lparr>ro_interfaces := (ro_interfaces r)[i := (ro_interfaces r ! i)\<lparr>ai_interface := ni'\<rparr>]\<rparr>)"
    using assms(4-7) hop ni'(1) i by (simp add: Router_route_one_datagram_def Let_def update_interface_def)
  then show ?thesis using ni' i by blast
qed

lemma route_one_drop:
  assumes "ip_ttl (dg_header d) \<le> 1 \<or> Router_match (ip_dst (dg_header d)) (ro_routingTable r) = length (ro_routingTable r)"
  shows "Router_route_one_datagram d r = Inr r"
  using assms by (auto simp: Router_route_one_datagram_def Let_def)

lemma Router_inv_update:
  assumes "Router_inv r" and "NetworkInterface_inv (ai_interface ai)"
  shows "Router_inv (r\<lparr>ro_interfaces := (ro_interfaces r)[i := ai]\<rparr>)"
  using assms set_update_subset_insert[of "ro_interfaces r" i ai] by (auto simp: Router_inv_def)

definition ro_queues :: "Router \<Rightarrow> InternetDatagram list list" where
  "ro_queues r = map ai_datagrams_out (ro_interfaces r)"

lemma queues_update:
  "i < length xs \<Longrightarrow> map ai_datagrams_out (xs[i := (xs ! i)\<lparr>ai_interface := n\<rparr>]) = map ai_datagrams_out xs"
  by (rule nth_equalityI) (auto simp: nth_list_update)

lemma route_one_inv:
  assumes "Router_inv r" and "serializable d"
  shows "\<exists>r'. Router_route_one_datagram d r = Inr r' \<and> Router_inv r' \<and> ro_queues r' = ro_queues r"
proof -
  let ?t = "Router_match (ip_dst (dg_header d)) (ro_routingTable r)"
  show ?thesis
  proof (cases "1 < ip_ttl (dg_header d) \<and> ?t < length (ro_routingTable r)")
    case True
    let ?i = "unat (rt_interface_num (ro_routingTable r ! ?t))"
    obtain ni' where "NetworkInterface_inv ni'" "?i < length (ro_interfaces r)" "Router_route_one_datagram d r =
        Inr (r\<lparr>ro_interfaces := (ro_interfaces r)[?i := (ro_interfaces r ! ?i)\<lparr>ai_interface := ni'\<rparr>]\<rparr>)"
      using route_one_eq[OF assms _ refl _ refl refl] True by blast
    then show ?thesis using Router_inv_update[OF assms(1)]
      by (simp add: ro_queues_def queues_update)
  next
    case False
    then have "Router_route_one_datagram d r = Inr r"
      using Router_match_spec[of "ip_dst (dg_header d)" "ro_routingTable r"] by (intro route_one_drop) auto
    then show ?thesis using assms(1) by simp
  qed
qed

lemma route_queue_inv:
  assumes "Router_inv r" and "\<forall>d \<in> set queue. serializable d" and "i < length (ro_interfaces r)"
    and "ro_queues r ! i = queue"
  shows "\<exists>r'. route_queue i queue r = Inr r' \<and> Router_inv r' \<and> ro_queues r' = (ro_queues r)[i := []]"
  using assms
proof (induction queue arbitrary: r)
  case Nil
  then show ?case using list_update_id[of "ro_queues r" i] by simp
next
  case (Cons d queue)
  obtain r1 where r1: "Router_route_one_datagram d r = Inr r1" "Router_inv r1" "ro_queues r1 = ro_queues r"
    using route_one_inv[OF Cons.prems(1), of d] Cons.prems(2) by auto
  let ?r2 = "r1\<lparr>ro_interfaces := (ro_interfaces r1)[i := (ro_interfaces r1 ! i)\<lparr>ai_datagrams_out := queue\<rparr>]\<rparr>"
  have l: "i < length (ro_interfaces r1)" using Cons.prems(3) arg_cong[OF r1(3), of length] by (simp add: ro_queues_def)
  have "Router_inv ?r2" using r1(2) l by (intro Router_inv_update) (simp_all add: Router_inv_def)
  moreover have "ro_queues ?r2 = (ro_queues r)[i := queue]" using r1(3) by (simp add: ro_queues_def map_update)
  ultimately show ?case using Cons.IH[of ?r2] r1(1) l Cons.prems(2) Cons.prems(3)
    by (simp add: ro_queues_def)
qed

lemma route_interfaces_inv:
  assumes "Router_inv r" and "\<forall>q \<in> set (ro_queues r). \<forall>d \<in> set q. serializable d"
    and "\<forall>i \<in> set is. i < length (ro_interfaces r)"
  shows "\<exists>r'. route_interfaces is r = Inr r' \<and> Router_inv r' \<and> length (ro_queues r') = length (ro_queues r)
    \<and> (\<forall>i < length (ro_queues r). ro_queues r' ! i = (if i \<in> set is then [] else ro_queues r ! i))"
  using assms
proof (induction "is" arbitrary: r)
  case (Cons i "is")
  have l: "i < length (ro_interfaces r)" "ro_queues r ! i = ai_datagrams_out (ro_interfaces r ! i)"
    "length (ro_queues r) = length (ro_interfaces r)" using Cons.prems(3) by (simp_all add: ro_queues_def)
  then have "\<forall>d \<in> set (ai_datagrams_out (ro_interfaces r ! i)). serializable d"
    using Cons.prems(2) nth_mem[of i "ro_queues r"] by auto
  from route_queue_inv[OF Cons.prems(1) this l(1,2)] obtain r1 where
    r1: "route_queue i (ai_datagrams_out (ro_interfaces r ! i)) r = Inr r1" "Router_inv r1" "ro_queues r1 = (ro_queues r)[i := []]"
    by blast
  have l1: "length (ro_interfaces r1) = length (ro_interfaces r)" using arg_cong[OF r1(3), of length] by (simp add: ro_queues_def)
  have "\<forall>q \<in> set (ro_queues r1). \<forall>d \<in> set q. serializable d"
    using Cons.prems(2) set_update_subset_insert[of "ro_queues r" i "[]"] by (auto simp: r1(3))
  then obtain r2 where r2: "route_interfaces is r1 = Inr r2" "Router_inv r2" "length (ro_queues r2) = length (ro_queues r1)"
    "\<forall>j < length (ro_queues r1). ro_queues r2 ! j = (if j \<in> set is then [] else ro_queues r1 ! j)"
    using Cons.IH[OF r1(2)] Cons.prems(3) l1 by auto
  then show ?case using r1 l by (auto simp: nth_list_update)
qed simp

section \<open>Properties\<close>

text \<open>
  C6. Longest-prefix match: a datagram with time to live above one goes, with its time to live
  decremented, to the next hop of the covering route with the longest prefix, the first of them
  added, on that route's interface (or directly to its destination if the route has no next hop);
  a datagram that no route covers, or whose time to live would reach zero, is dropped.
\<close>

theorem longest_prefix_match:
  assumes "Router_inv r" and "serializable d"
  defines "dst \<equiv> ip_dst (dg_header d)" and "table \<equiv> ro_routingTable r"
  shows "(ip_ttl (dg_header d) \<le> 1 \<or> (\<forall>e \<in> set table. \<not> rt_covers dst e) \<longrightarrow> Router_route_one_datagram d r = Inr r)
    \<and> (1 < ip_ttl (dg_header d) \<and> (\<exists>e \<in> set table. rt_covers dst e) \<longrightarrow>
        (\<exists>t ni'. t < length table \<and> rt_covers dst (table ! t)
          \<and> (\<forall>j < length table. rt_covers dst (table ! j) \<longrightarrow> rt_prefix_length (table ! j) < rt_prefix_length (table ! t)
               \<or> rt_prefix_length (table ! j) = rt_prefix_length (table ! t) \<and> t \<le> j)
          \<and> (let i = unat (rt_interface_num (table ! t)); ai = ro_interfaces r ! i
             in NetworkInterface_send_datagram (d\<lparr>dg_header := (dg_header d)\<lparr>ip_ttl := ip_ttl (dg_header d) - 1\<rparr>\<rparr>)
                  (rt_hop dst (table ! t)) (ai_interface ai) = Inr ni'
              \<and> Router_route_one_datagram d r =
                  Inr (r\<lparr>ro_interfaces := (ro_interfaces r)[i := ai\<lparr>ai_interface := ni'\<rparr>]\<rparr>))))"
proof -
  let ?t = "Router_match dst table"
  have m: "rt_matches dst (table ! j) = rt_covers dst (table ! j)" if "j < length table" for j
    using assms(1) that by (intro rt_matches_covers[of "length (ro_interfaces r)"]) (auto simp: Router_inv_def table_def)
  have drop: "Router_route_one_datagram d r = Inr r" if "ip_ttl (dg_header d) \<le> 1 \<or> (\<forall>e \<in> set table. \<not> rt_covers dst e)"
    using that m Router_match_spec[of dst table] by (intro route_one_drop) (auto simp: dst_def[symmetric] table_def[symmetric])
  have fwd: "?t < length table \<and> rt_covers dst (table ! ?t) \<and> (\<forall>j < length table. rt_covers dst (table ! j) \<longrightarrow>
        rt_prefix_length (table ! j) < rt_prefix_length (table ! ?t)
        \<or> rt_prefix_length (table ! j) = rt_prefix_length (table ! ?t) \<and> ?t \<le> j)"
    if "\<exists>e \<in> set table. rt_covers dst e"
    using that Router_match_spec[of dst table] m by (auto simp: in_set_conv_nth)
  show ?thesis using drop fwd route_one_eq[OF assms(1,2) _ refl _ refl refl] unfolding Let_def dst_def table_def by blast
qed

definition route_example :: Router where
  "route_example = \<lparr>ro_interfaces = [AsyncNetworkInterface_of (NetworkInterface_init [2, 0, 0, 0, 0, 1] (ipv4_address 0 9))],
     ro_routingTable = [\<lparr>rt_route_prefix = 0, rt_prefix_length = 0, rt_prefix_mask = 0, rt_next_hop = None,
       rt_interface_num = 0\<rparr>]\<rparr>"

lemma route_example_inv: "Router_inv route_example"
  by (simp add: Router_inv_def route_example_def AsyncNetworkInterface_of_def new_ni_inv eth_address_def rt_ok_def prefix_mask_def)

theorem longest_prefix_match_witness:
  "(\<exists>ni'. Router_route_one_datagram \<lparr>dg_header = IPv4Header_default\<lparr>ip_len := 20\<rparr>, dg_payload = []\<rparr> route_example
      = Inr (route_example\<lparr>ro_interfaces := [(ro_interfaces route_example ! 0)\<lparr>ai_interface := ni'\<rparr>]\<rparr>))
   \<and> Router_route_one_datagram \<lparr>dg_header = IPv4Header_default\<lparr>ip_len := 20, ip_ttl := 1\<rparr>, dg_payload = []\<rparr> route_example
      = Inr route_example"
proof -
  have s: "serializable \<lparr>dg_header = IPv4Header_default\<lparr>ip_len := 20\<rparr>, dg_payload = []\<rparr>"
    "serializable \<lparr>dg_header = IPv4Header_default\<lparr>ip_len := 20, ip_ttl := 1\<rparr>, dg_payload = []\<rparr>"
    by (simp_all add: serializable_iff IPv4Header_default_def IPv4Header_payload_length_def IPv4Header_LENGTH_def)
  have c: "rt_covers 0 (ro_routingTable route_example ! 0)" by (simp add: rt_covers_def route_example_def)
  show ?thesis using longest_prefix_match[OF route_example_inv s(1)] longest_prefix_match[OF route_example_inv s(2)] c
    by (auto simp: route_example_def IPv4Header_default_def DEFAULT_TTL_def Let_def)
qed

text \<open>
  C28. \<^verbatim>\<open>route()\<close> empties every queue: with valid routes and interfaces and datagrams that can be
  serialized it reaches no undefined behaviour, throws nothing, and leaves no received datagram
  unprocessed.
\<close>

theorem route_empties_queues:
  assumes "Router_inv r" and "\<forall>ai \<in> set (ro_interfaces r). \<forall>d \<in> set (ai_datagrams_out ai). serializable d"
  shows "\<exists>r'. Router_route r = Inr r' \<and> Router_inv r' \<and> length (ro_interfaces r') = length (ro_interfaces r)
    \<and> (\<forall>ai \<in> set (ro_interfaces r'). ai_datagrams_out ai = [])"
proof -
  have "\<forall>q \<in> set (ro_queues r). \<forall>d \<in> set q. serializable d" using assms(2) by (auto simp: ro_queues_def)
  from route_interfaces_inv[OF assms(1) this, of "[0..<length (ro_interfaces r)]"] obtain r' where
    r': "Router_route r = Inr r'" "Router_inv r'" "length (ro_queues r') = length (ro_queues r)"
      "\<forall>i < length (ro_queues r). ro_queues r' ! i = []"
    by (auto simp: Router_route_def ro_queues_def)
  then show ?thesis by (auto simp: ro_queues_def in_set_conv_nth)
qed

theorem route_empties_queues_witness:
  "\<exists>r'. Router_route (route_example\<lparr>ro_interfaces := map (\<lambda>ai. ai\<lparr>ai_datagrams_out :=
      [\<lparr>dg_header = IPv4Header_default\<lparr>ip_len := 20\<rparr>, dg_payload = []\<rparr>]\<rparr>) (ro_interfaces route_example)\<rparr>) = Inr r'
    \<and> length (ro_interfaces r') = 1"
proof -
  let ?r = "route_example\<lparr>ro_interfaces := map (\<lambda>ai. ai\<lparr>ai_datagrams_out :=
      [\<lparr>dg_header = IPv4Header_default\<lparr>ip_len := 20\<rparr>, dg_payload = []\<rparr>]\<rparr>) (ro_interfaces route_example)\<rparr>"
  have "Router_inv ?r" using route_example_inv by (auto simp: Router_inv_def)
  moreover have "serializable \<lparr>dg_header = IPv4Header_default\<lparr>ip_len := 20\<rparr>, dg_payload = []\<rparr>"
    by (simp add: serializable_iff IPv4Header_default_def IPv4Header_payload_length_def IPv4Header_LENGTH_def)
  ultimately show ?thesis using route_empties_queues[of ?r] by (auto simp: route_example_def)
qed

text \<open>
  C38. A malformed datagram stops the router: the bytes of a datagram whose version is not 4, which
  \<^verbatim>\<open>IPv4Header::parse\<close> refuses with \<^verbatim>\<open>WrongIPVersion\<close>, are queued by the interface that receives them,
  because \<^verbatim>\<open>IPv4Datagram::parse\<close> returns \<^verbatim>\<open>NoError\<close>; routing the datagram to a known next hop then
  throws out of \<^verbatim>\<open>route_one_datagram\<close> when the datagram is serialized.
\<close>

theorem malformed_datagram_stops_router:
  assumes h: "ip_ver h \<noteq> 4" "ip_ver h < 16" "ip_hlen h = 5" "ip_offset h < 0x2000" "20 + length pl = unat (ip_len h)"
      "1 < ip_ttl h"
    and f: "fr_payload frame = [b]" "Buffer_inv b" "Buffer_str b = ip_fixed_part h @ pl"
      "eth_dst (fr_header frame) = ni_ethernet_address (ai_interface ai)" "eth_type (fr_header frame) = TYPE_IPv4"
    and r: "Router_match (ip_dst h) (ro_routingTable r) = t" "t < length (ro_routingTable r)" "e = ro_routingTable r ! t"
      "i = unat (rt_interface_num e)" "i < length (ro_interfaces r)"
      "Address_ipv4_numeric (rt_hop (ip_dst h) e) = Inr ip" "ni_ARP_table (ai_interface (ro_interfaces r ! i)) ip \<noteq> None"
  shows "\<exists>d. AsyncNetworkInterface_recv_frame frame ai = Inr (ai\<lparr>ai_datagrams_out := ai_datagrams_out ai @ [d]\<rparr>)
    \<and> dg_header d = h \<and> Router_route_one_datagram d r = Inl (Runtime_Error ''wrong IP version'')"
proof -
  obtain b' where b': "IPv4Datagram_parse b IPv4Datagram_default = (NoError, \<lparr>dg_header = h, dg_payload = [b']\<rparr>)"
    using IPv4Datagram_parse_wrong_version[OF h(1-5) f(2,3)] by blast
  let ?d = "\<lparr>dg_header = h, dg_payload = [b']\<rparr>" and ?d' = "\<lparr>dg_header = h\<lparr>ip_ttl := ip_ttl h - 1\<rparr>, dg_payload = [b']\<rparr>"
  have recv: "AsyncNetworkInterface_recv_frame frame ai = Inr (ai\<lparr>ai_datagrams_out := ai_datagrams_out ai @ [?d]\<rparr>)"
    using f(1,4,5) b' by (simp add: AsyncNetworkInterface_recv_frame_def NetworkInterface_recv_frame_def Let_def)
  have "BufferList_size [b'] = ucast (IPv4Header_payload_length h)"
    using b' by (auto simp: IPv4Datagram_parse_def split_beta Let_def split: if_splits)
  then have s: "IPv4Datagram_serialize ?d' = Inl (Runtime_Error ''wrong IP version'')"
    using h(1) by (simp add: IPv4Datagram_serialize_def IPv4Header_payload_length_def IPv4Header_serialize_def Let_def)
  have hop: "(case rt_next_hop e of Some a \<Rightarrow> Inr a | None \<Rightarrow> Address_from_ipv4_numeric (ip_dst h)) = Inr (rt_hop (ip_dst h) e)"
    by (simp add: rt_hop_def split: option.splits)
  have "NetworkInterface_send_datagram ?d' (rt_hop (ip_dst h) e) (ai_interface (ro_interfaces r ! i))
      = Inl (Runtime_Error ''wrong IP version'')"
    using r(6,7) s by (simp add: NetworkInterface_send_datagram_def NetworkInterface_is_ip_known_def push_datagram_frame_def
        NetworkInterface_generate_datagram_frame_def)
  then have "Router_route_one_datagram ?d r = Inl (Runtime_Error ''wrong IP version'')"
    using h(6) r(1-5) hop by (simp add: Router_route_one_datagram_def Let_def update_interface_def not_le)
  with recv show ?thesis by (intro exI[of _ ?d]) simp
qed

definition version5_header :: IPv4Header where
  "version5_header = IPv4Header_default\<lparr>ip_ver := 5, ip_len := 20, ip_dst := 7\<rparr>"

definition learned_router :: Router where
  "learned_router = route_example\<lparr>ro_interfaces := [AsyncNetworkInterface_of
     ((NetworkInterface_init [2, 0, 0, 0, 0, 1] (ipv4_address 0 9))\<lparr>ni_ARP_table := [7 \<mapsto> ([2, 0, 0, 0, 0, 5], 30000)]\<rparr>)]\<rparr>"

theorem malformed_datagram_stops_router_witness:
  "\<exists>d. AsyncNetworkInterface_recv_frame
      \<lparr>fr_header = \<lparr>eth_dst = [2, 0, 0, 0, 0, 1], eth_src = [2, 0, 0, 0, 0, 5], eth_type = TYPE_IPv4\<rparr>,
       fr_payload = [Buffer_of_string (ip_fixed_part version5_header)]\<rparr> (ro_interfaces learned_router ! 0)
      = Inr ((ro_interfaces learned_router ! 0)\<lparr>ai_datagrams_out := [d]\<rparr>)
    \<and> Router_route_one_datagram d learned_router = Inl (Runtime_Error ''wrong IP version'')"
proof -
  let ?frame = "\<lparr>fr_header = \<lparr>eth_dst = [2, 0, 0, 0, 0, 1], eth_src = [2, 0, 0, 0, 0, 5], eth_type = TYPE_IPv4\<rparr>,
       fr_payload = [Buffer_of_string (ip_fixed_part version5_header)]\<rparr>"
  have h: "ip_ver version5_header \<noteq> 4" "ip_ver version5_header < 16" "ip_hlen version5_header = 5"
      "ip_offset version5_header < 0x2000" "20 + length [] = unat (ip_len version5_header)" "1 < ip_ttl version5_header"
    by (simp_all add: version5_header_def IPv4Header_default_def DEFAULT_TTL_def)
  have f: "fr_payload ?frame = [Buffer_of_string (ip_fixed_part version5_header)]"
      "Buffer_inv (Buffer_of_string (ip_fixed_part version5_header))"
      "Buffer_str (Buffer_of_string (ip_fixed_part version5_header)) = ip_fixed_part version5_header @ []"
      "eth_dst (fr_header ?frame) = ni_ethernet_address (ai_interface (ro_interfaces learned_router ! 0))"
      "eth_type (fr_header ?frame) = TYPE_IPv4"
    by (simp_all add: fits_def learned_router_def AsyncNetworkInterface_of_def NetworkInterface_init_def)
  let ?e = "ro_routingTable learned_router ! 0"
  have r: "Router_match (ip_dst version5_header) (ro_routingTable learned_router) = 0"
      "0 < length (ro_routingTable learned_router)" "unat (rt_interface_num ?e) < length (ro_interfaces learned_router)"
      "Address_ipv4_numeric (rt_hop (ip_dst version5_header) ?e) = Inr 7"
      "ni_ARP_table (ai_interface (ro_interfaces learned_router ! unat (rt_interface_num ?e))) 7 \<noteq> None"
      "ai_datagrams_out (ro_interfaces learned_router ! 0) = []"
    by (simp_all add: Router_match_def learned_router_def route_example_def match_step_def rt_matches_def
        AsyncNetworkInterface_of_def NetworkInterface_init_def rt_hop_def version5_header_def)
  from malformed_datagram_stops_router[OF h f r(1,2) refl refl r(3-5)] r(6) show ?thesis by auto
qed

end
