(* ===== verification/File_Descriptor.thy ===== *)
theory File_Descriptor
  imports Net_Buffer
begin

text \<open>
  \<^verbatim>\<open>libsponge/util/file_descriptor.{hh,cc}\<close> and \<^verbatim>\<open>SystemCall\<close> of \<^verbatim>\<open>util/util.cc\<close>. A
  \<^verbatim>\<open>FileDescriptor\<close> is a handle on a shared \<^verbatim>\<open>FDWrapper\<close>: here a number, which \<open>os_fds\<close> maps to the
  wrapper, so that \<^verbatim>\<open>duplicate()\<close>, which copies the handle, shares the counters and flags. The kernel
  is not part of the program: its state has an arbitrary type \<open>'k\<close> and its calls are the fields of a
  record \<open>syscalls\<close>, an argument of every operation that makes one. A call returns its value and
  \<^verbatim>\<open>errno\<close>. The closing of a descriptor with its last handle is not modelled.
\<close>

section \<open>System calls\<close>

type_synonym sysret = "int \<times> int"

text \<open>
  \<^verbatim>\<open>read\<close> also gives the contents of the buffer it was passed; \<^verbatim>\<open>fcntl\<close> is split into reading and
  setting the flags.
\<close>

record 'k syscalls =
  sys_read :: "int \<Rightarrow> u64 \<Rightarrow> 'k \<Rightarrow> (sysret \<times> bytes) \<times> 'k"
  sys_writev :: "int \<Rightarrow> (bytes \<times> u64) list \<Rightarrow> 'k \<Rightarrow> sysret \<times> 'k"
  sys_close :: "int \<Rightarrow> 'k \<Rightarrow> sysret \<times> 'k"
  sys_getfl :: "int \<Rightarrow> 'k \<Rightarrow> sysret \<times> 'k"
  sys_setfl :: "int \<Rightarrow> int \<Rightarrow> 'k \<Rightarrow> sysret \<times> 'k"

text \<open>The return value is passed as an \<^verbatim>\<open>int\<close>, so an \<^verbatim>\<open>ssize_t\<close> is cut to 32 bits first.\<close>

definition int_of_ssize :: "sysret \<Rightarrow> sysret" where
  "int_of_ssize ret = (signed_take_bit 31 (fst ret), snd ret)"

definition SystemCall :: "string \<Rightarrow> sysret \<Rightarrow> int \<Rightarrow> int result" where
  "SystemCall attempt ret errno_mask =
     (if fst ret \<ge> 0 \<or> snd ret = errno_mask then Inr (fst ret) else Inl (Unix_Error attempt (snd ret)))"

section \<open>Descriptors\<close>

record FDWrapper =
  fw_fd :: int
  fw_eof :: bool
  fw_closed :: bool
  fw_read_count :: u32
  fw_write_count :: u32

type_synonym FileDescriptor = nat

record 'k os =
  os_fds :: "FileDescriptor \<Rightarrow> FDWrapper"
  os_kernel :: 'k

definition update_fd :: "FileDescriptor \<Rightarrow> (FDWrapper \<Rightarrow> FDWrapper) \<Rightarrow> 'k os \<Rightarrow> 'k os" where
  "update_fd h f s = s\<lparr>os_fds := (os_fds s)(h := f (os_fds s h))\<rparr>"

definition FDWrapper_new :: "int \<Rightarrow> FDWrapper result" where
  "FDWrapper_new fd =
     (if fd < 0 then Inl (Runtime_Error (''invalid fd number:'' @ decimal_int fd))
      else Inr \<lparr>fw_fd = fd, fw_eof = False, fw_closed = False, fw_read_count = 0, fw_write_count = 0\<rparr>)"

text \<open>The constructor; \<open>h\<close> is the handle given to the new descriptor.\<close>

definition FileDescriptor_new :: "FileDescriptor \<Rightarrow> int \<Rightarrow> 'k os \<Rightarrow> 'k os result" where
  "FileDescriptor_new h fd s = map_result (\<lambda>w. s\<lparr>os_fds := (os_fds s)(h := w)\<rparr>) (FDWrapper_new fd)"

definition FileDescriptor_duplicate :: "FileDescriptor \<Rightarrow> FileDescriptor" where
  "FileDescriptor_duplicate h = h"

definition register_read :: "FileDescriptor \<Rightarrow> 'k os \<Rightarrow> 'k os" where
  "register_read h = update_fd h (\<lambda>w. w\<lparr>fw_read_count := fw_read_count w + 1\<rparr>)"

definition register_write :: "FileDescriptor \<Rightarrow> 'k os \<Rightarrow> 'k os" where
  "register_write h = update_fd h (\<lambda>w. w\<lparr>fw_write_count := fw_write_count w + 1\<rparr>)"

definition FDWrapper_close :: "('k, 'x) syscalls_scheme \<Rightarrow> FileDescriptor \<Rightarrow> 'k os \<Rightarrow> 'k os result" where
  "FDWrapper_close sys h s =
     (let (ret, k) = sys_close sys (fw_fd (os_fds s h)) (os_kernel s)
      in map_result (\<lambda>_. update_fd h (\<lambda>w. w\<lparr>fw_eof := True, fw_closed := True\<rparr>) (s\<lparr>os_kernel := k\<rparr>))
           (SystemCall ''close'' ret 0))"

definition FDWrapper_destroy :: "('k, 'x) syscalls_scheme \<Rightarrow> FileDescriptor \<Rightarrow> 'k os \<Rightarrow> 'k os" where
  "FDWrapper_destroy sys h s =
     (if fw_closed (os_fds s h) then s
      else case FDWrapper_close sys h s of
             Inr s' \<Rightarrow> s'
           | Inl e \<Rightarrow> s\<lparr>os_kernel := snd (sys_close sys (fw_fd (os_fds s h)) (os_kernel s))\<rparr>)"

definition BUFFER_SIZE :: u64 where "BUFFER_SIZE = 1024 * 1024"

definition FileDescriptor_read :: "('k, 'x) syscalls_scheme \<Rightarrow> FileDescriptor \<Rightarrow> u64 \<Rightarrow> 'k os \<Rightarrow> (bytes \<times> 'k os) result" where
  "FileDescriptor_read sys h limit s =
     (let size_to_read = min BUFFER_SIZE limit;
          ((ret, str), k) = sys_read sys (fw_fd (os_fds s h)) size_to_read (os_kernel s);
          s = s\<lparr>os_kernel := k\<rparr>
      in bind_result (SystemCall ''read'' (int_of_ssize ret) 0) (\<lambda>bytes_read.
           let s = (if limit > 0 \<and> bytes_read = 0 then update_fd h (\<lambda>w. w\<lparr>fw_eof := True\<rparr>) s else s)
           in if bytes_read > int (unat size_to_read) then Inl (Runtime_Error ''read() read more than requested'')
              else if bytes_read < 0 then Inl (Length_Error ''basic_string::resize'')
              else Inr (take (nat bytes_read) str, register_read h s)))"

lemma remove_prefix_shrinks:
  "BufferViewList_remove_prefix n vs = Inr vs' \<Longrightarrow> (if n = 0 then vs' = vs else length (concat vs') < length (concat vs))"
proof (induction n vs rule: BufferViewList_remove_prefix.induct)
  case (2 n v vs)
  show ?case
  proof (cases "0 < n \<and> \<not> n < size_of v")
    case True
    then have "if n - size_of v = 0 then vs' = vs else length (concat vs') < length (concat vs)" using 2 by simp
    then show ?thesis using True by (cases "n = size_of v") (auto simp: size_of_def word_neq_0_conv)
  next
    case False
    then show ?thesis using 2(2) unat_of_nat_le[where ?'a=64, of "length v"]
      by (auto simp: word_neq_0_conv word_less_nat_alt size_of_def split: if_splits)
  qed
qed (auto simp: word_neq_0_conv split: if_splits)

lemma word_of_int_ssize: "word_of_int (fst (int_of_ssize ret)) = (0 :: u64) \<longleftrightarrow> fst (int_of_ssize ret) = 0"
proof -
  let ?n = "fst (int_of_ssize ret)"
  have "- (2 ^ 31) \<le> ?n" "?n < 2 ^ 31"
    using signed_take_bit_int_greater_eq_minus_exp[of 31 "fst ret"] signed_take_bit_int_less_exp[of 31 "fst ret"]
    by (simp_all add: int_of_ssize_def)
  then have "?n = 0" if "(2 ^ 64 :: int) dvd ?n"
    using that zdvd_imp_le[of "2 ^ 64" ?n] zdvd_imp_le[of "2 ^ 64" "- ?n"] by fastforce
  then show ?thesis by (auto simp: word_of_int_eq_0_iff)
qed

text \<open>
  The loop of \<^verbatim>\<open>write\<close>. The number of bytes that \<^verbatim>\<open>writev\<close> returned is passed on as a \<^verbatim>\<open>size_t\<close>; the
  comparison with the size of the buffer is one of \<^verbatim>\<open>ssize_t\<close>.
\<close>

function write_loop :: "('k, 'x) syscalls_scheme \<Rightarrow> FileDescriptor \<Rightarrow> bool \<Rightarrow> BufferViewList \<Rightarrow> u64 \<Rightarrow> 'k os \<Rightarrow> (u64 \<times> 'k os) result" where
  "write_loop sys h write_all buffer total_bytes_written s =
     (let iovecs = BufferViewList_as_iovecs buffer;
          (ret, k) = sys_writev sys (fw_fd (os_fds s h)) iovecs (os_kernel s);
          s = s\<lparr>os_kernel := k\<rparr>
      in bind_result (SystemCall ''writev'' (int_of_ssize ret) 0) (\<lambda>bytes_written.
           if bytes_written = 0 \<and> BufferViewList_size buffer \<noteq> 0
           then Inl (Runtime_Error ''write returned 0 given non-empty input buffer'')
           else if bytes_written > sint (BufferViewList_size buffer)
           then Inl (Runtime_Error ''write wrote more than length of input buffer'')
           else let s = register_write h s
                in bind_result (BufferViewList_remove_prefix (word_of_int bytes_written) buffer) (\<lambda>buffer'.
                     let total_bytes_written = total_bytes_written + word_of_int bytes_written
                     in if write_all \<and> BufferViewList_size buffer' \<noteq> 0
                        then write_loop sys h write_all buffer' total_bytes_written s
                        else Inr (total_bytes_written, s))))"
  by pat_completeness auto

termination
proof (relation "measure (\<lambda>(sys, h, write_all, buffer, total, s). length (concat buffer))", goal_cases)
  case 1
  then show ?case by simp
next
  case (2 sys h write_all buffer total s x xa xb y xc xd xe xf xg)
  then show ?case
    using remove_prefix_shrinks[of "word_of_int xd" buffer xf] word_of_int_ssize[of xb]
    by (auto simp: SystemCall_def split: if_splits)
qed

declare write_loop.simps [simp del]

definition FileDescriptor_write ::
  "('k, 'x) syscalls_scheme \<Rightarrow> FileDescriptor \<Rightarrow> BufferViewList \<Rightarrow> bool \<Rightarrow> 'k os \<Rightarrow> (u64 \<times> 'k os) result" where
  "FileDescriptor_write sys h buffer write_all s = write_loop sys h write_all buffer 0 s"

definition O_NONBLOCK :: int where "O_NONBLOCK = 0x800"

definition FileDescriptor_set_blocking :: "('k, 'x) syscalls_scheme \<Rightarrow> FileDescriptor \<Rightarrow> bool \<Rightarrow> 'k os \<Rightarrow> 'k os result" where
  "FileDescriptor_set_blocking sys h blocking_state s =
     (let (ret, k) = sys_getfl sys (fw_fd (os_fds s h)) (os_kernel s)
      in bind_result (SystemCall ''fcntl'' ret 0) (\<lambda>flags.
           let flags = (if blocking_state then xor flags (and flags O_NONBLOCK) else or flags O_NONBLOCK);
               (ret, k) = sys_setfl sys (fw_fd (os_fds s h)) flags k
           in map_result (\<lambda>_. s\<lparr>os_kernel := k\<rparr>) (SystemCall ''fcntl'' ret 0)))"

section \<open>What the operations do\<close>

lemma update_fd_simps [simp]:
  "os_kernel (update_fd h f s) = os_kernel s"
  "os_fds (update_fd h f s) = (os_fds s)(h := f (os_fds s h))"
  by (simp_all add: update_fd_def)

lemma SystemCall_sound [no_ub]: "sound (\<lambda>_. True) (SystemCall attempt ret m)"
  by (simp add: SystemCall_def)

lemma FileDescriptor_read_sound:
  "sound (\<lambda>(d, s'). length d \<le> unat limit \<and> fw_read_count (os_fds s' h) = fw_read_count (os_fds s h) + 1)
    (FileDescriptor_read sys h limit s)"
proof -
  obtain ret str k where r: "sys_read sys (fw_fd (os_fds s h)) (min BUFFER_SIZE limit) (os_kernel s) = ((ret, str), k)"
    by (metis surj_pair)
  have "unat (min BUFFER_SIZE limit) \<le> unat limit" by (simp add: word_le_nat_alt[symmetric])
  then show ?thesis
    by (auto simp: FileDescriptor_read_def r Let_def nat_le_iff uint_nat min_le_iff_disj register_read_def update_fd_def
        simp del: of_nat_unat intro!: sound_bind[OF SystemCall_sound])
qed

lemma FileDescriptor_read_no_ub [no_ub]: "sound (\<lambda>_. True) (FileDescriptor_read sys h limit s)"
  using FileDescriptor_read_sound by (rule sound_weaken) simp

lemma remove_prefix_sound [no_ub]: "sound (\<lambda>_. True) (BufferViewList_remove_prefix n vs)"
  by (induction n vs rule: BufferViewList_remove_prefix.induct) auto

lemma write_loop_sound [no_ub]: "sound (\<lambda>_. True) (write_loop sys h write_all buffer t s)"
proof (induction sys h write_all buffer t s rule: write_loop.induct)
  case (1 sys h write_all buffer t s)
  obtain ret k where w: "sys_writev sys (fw_fd (os_fds s h)) (BufferViewList_as_iovecs buffer) (os_kernel s) = (ret, k)"
    by fastforce
  note IH = 1[OF refl refl w[symmetric] refl]
  then show ?case
    unfolding write_loop.simps[of sys h write_all buffer t s] Let_def w split_conv
    by (intro sound_bind_eq[OF SystemCall_sound]) (simp, intro impI sound_bind_eq, simp add: remove_prefix_sound, simp add: IH)
qed

lemma write_once_counts:
  "sound (\<lambda>(n, s'). fw_write_count (os_fds s' h) = fw_write_count (os_fds s h) + 1) (FileDescriptor_write sys h buffer False s)"
  unfolding FileDescriptor_write_def
  by (subst write_loop.simps)
    (auto simp: Let_def split_beta register_write_def update_fd_def intro!: sound_bind[OF SystemCall_sound] sound_bind[OF remove_prefix_sound])

lemma FileDescriptor_sound [no_ub]:
  "sound (\<lambda>_. True) (FileDescriptor_write sys h buffer write_all s)" "sound (\<lambda>_. True) (FileDescriptor_new h fd s)"
  "sound (\<lambda>_. True) (FileDescriptor_set_blocking sys h b s)"
  by (auto simp: FileDescriptor_write_def FileDescriptor_new_def FDWrapper_new_def FileDescriptor_set_blocking_def Let_def split_beta
      intro!: no_ub)

text \<open>
  What \<^verbatim>\<open>writev(2)\<close> documents for a blocking descriptor: it takes a number of bytes from the front, at
  least one if there is one and at most \<^verbatim>\<open>0x7ffff000\<close>. \<open>out\<close> is what was taken so far.
\<close>

definition writev_takes :: "('k, 'x) syscalls_scheme \<Rightarrow> int \<Rightarrow> ('k \<Rightarrow> bytes) \<Rightarrow> bool" where
  "writev_takes sys fd out \<longleftrightarrow> (\<forall>vs k. \<exists>n e k'. sys_writev sys fd (BufferViewList_as_iovecs vs) k = ((int n, e), k')
     \<and> n \<le> length (concat vs) \<and> n \<le> 0x7ffff000 \<and> (concat vs \<noteq> [] \<longrightarrow> 0 < n) \<and> out k' = out k @ take n (concat vs))"

lemma view_list_size: "BufferViewList_size vs = of_nat (length (concat vs))"
  by (induction vs) (simp_all add: size_of_def)

lemma view_list_empty:
  assumes "length (concat vs) < 2 ^ 63"
  shows "BufferViewList_size vs = 0 \<longleftrightarrow> concat vs = []"
proof -
  have "unat (of_nat (length (concat vs)) :: u64) = length (concat vs)" using assms by (intro unat_of_nat_lt) simp
  then show ?thesis unfolding view_list_size using unat_eq_0[of "of_nat (length (concat vs)) :: u64"] by (metis length_0_conv)
qed

text \<open>One round of the loop.\<close>

lemma write_loop_takes:
  assumes "writev_takes sys (fw_fd (os_fds s h)) out" and "length (concat buffer) < 2 ^ 63"
  shows "\<exists>n k' buffer'. n \<le> length (concat buffer) \<and> (concat buffer \<noteq> [] \<longrightarrow> 0 < n)
    \<and> concat buffer' = drop n (concat buffer) \<and> out k' = out (os_kernel s) @ take n (concat buffer)
    \<and> write_loop sys h write_all buffer t s =
        (let s' = register_write h (s\<lparr>os_kernel := k'\<rparr>)
         in if write_all \<and> n < length (concat buffer) then write_loop sys h write_all buffer' (t + of_nat n) s'
            else Inr (t + of_nat n, s'))"
proof -
  obtain n e k' where w: "sys_writev sys (fw_fd (os_fds s h)) (BufferViewList_as_iovecs buffer) (os_kernel s) = ((int n, e), k')"
    "n \<le> length (concat buffer)" "n \<le> 0x7ffff000" "concat buffer \<noteq> [] \<longrightarrow> 0 < n"
    "out k' = out (os_kernel s) @ take n (concat buffer)"
    using assms(1) unfolding writev_takes_def by blast
  have n: "signed_take_bit 31 (int n) = int n" using w(3) by (intro signed_take_bit_int_eq_self) simp_all
  have sz: "sint (BufferViewList_size buffer) = int (length (concat buffer))"
    using assms(2) by (simp add: view_list_size signed_of_nat signed_take_bit_int_eq_self)
  have u: "unat (of_nat n :: u64) = n" using w(3) by (simp add: unat_of_nat_lt)
  have f: "fits (concat buffer)" using assms(2) by (simp add: fits_def)
  from views.discard_ok[OF f, of "of_nat n"] obtain buffer' where b: "BufferViewList_remove_prefix (of_nat n) buffer = Inr buffer'"
    "concat buffer' = drop n (concat buffer)" using w(2) u by auto
  have z: "BufferViewList_size buffer = 0 \<longleftrightarrow> concat buffer = []" "BufferViewList_size buffer' = 0 \<longleftrightarrow> length (concat buffer) \<le> n"
    using view_list_empty[OF assms(2)] view_list_empty[of buffer'] assms(2) b(2) by auto
  have g: "\<not> (int n = 0 \<and> BufferViewList_size buffer \<noteq> 0)" "\<not> int n > sint (BufferViewList_size buffer)"
    using w(2,4) z(1) sz by auto
  have "write_loop sys h write_all buffer t s =
      (if write_all \<and> BufferViewList_size buffer' \<noteq> 0
       then write_loop sys h write_all buffer' (t + of_nat n) (register_write h (s\<lparr>os_kernel := k'\<rparr>))
       else Inr (t + of_nat n, register_write h (s\<lparr>os_kernel := k'\<rparr>)))"
    by (subst write_loop.simps, unfold Let_def w(1) split_conv) (use g b(1) in \<open>auto simp: SystemCall_def int_of_ssize_def n\<close>)
  then show ?thesis unfolding Let_def z(2) not_le using w b(2) by blast
qed

lemma write_loop_complete:
  assumes "writev_takes sys (fw_fd (os_fds s h)) out" and "length (concat buffer) < 2 ^ 63"
  shows "\<exists>n s'. write_loop sys h write_all buffer t s = Inr (t + of_nat n, s')
    \<and> out (os_kernel s') = out (os_kernel s) @ take n (concat buffer)
    \<and> (if write_all then n = length (concat buffer) else n \<le> length (concat buffer) \<and> (concat buffer \<noteq> [] \<longrightarrow> 0 < n))
    \<and> (\<exists>c. os_fds s' = (os_fds s)(h := (os_fds s h)\<lparr>fw_write_count := c\<rparr>))"
  using assms
proof (induction "length (concat buffer)" arbitrary: buffer t s rule: less_induct)
  case less
  obtain n k' buffer' where w: "n \<le> length (concat buffer)" "concat buffer \<noteq> [] \<longrightarrow> 0 < n"
    "concat buffer' = drop n (concat buffer)" "out k' = out (os_kernel s) @ take n (concat buffer)"
    "write_loop sys h write_all buffer t s =
      (let s' = register_write h (s\<lparr>os_kernel := k'\<rparr>)
       in if write_all \<and> n < length (concat buffer) then write_loop sys h write_all buffer' (t + of_nat n) s'
          else Inr (t + of_nat n, s'))"
    using write_loop_takes[OF less.prems] by blast
  let ?s = "register_write h (s\<lparr>os_kernel := k'\<rparr>)"
  have s: "os_kernel ?s = k'"
    "os_fds ?s = (os_fds s)(h := (os_fds s h)\<lparr>fw_write_count := fw_write_count (os_fds s h) + 1\<rparr>)"
    by (simp_all add: register_write_def)
  show ?case
  proof (cases "write_all \<and> n < length (concat buffer)")
    case True
    have "0 < n" using True w(2) by (metis length_0_conv not_less_zero)
    then have "length (concat buffer') < length (concat buffer)" "length (concat buffer') < 2 ^ 63"
      using True w(3) less.prems(2) by auto
    from less.hyps[OF this(1) _ this(2), of ?s "t + of_nat n"] obtain s' c where
      "write_loop sys h write_all buffer' (t + of_nat n) ?s = Inr (t + of_nat n + of_nat (length (concat buffer')), s')"
      "out (os_kernel s') = out k' @ concat buffer'"
      "os_fds s' = (os_fds s)(h := (os_fds s h)\<lparr>fw_write_count := c\<rparr>)"
      using less.prems(1) s True by auto
    then show ?thesis using True w
      by (intro exI[of _ "length (concat buffer)"] exI[of _ s']) (auto simp: Let_def of_nat_diff)
  next
    case False
    then show ?thesis using w s by (intro exI[of _ n] exI[of _ ?s]) (auto simp: Let_def)
  qed
qed

text \<open>
  What holds of \<^verbatim>\<open>read(2)\<close> and \<^verbatim>\<open>writev(2)\<close> on every descriptor, blocking or not: a negative result is a
  failure that sets \<^verbatim>\<open>errno\<close> and moves nothing, any other is the number of bytes moved. \<open>inp\<close> is what waits to be read.
\<close>

definition writev_honest :: "('k, 'x) syscalls_scheme \<Rightarrow> int \<Rightarrow> ('k \<Rightarrow> bytes) \<Rightarrow> bool" where
  "writev_honest sys fd out \<longleftrightarrow> (\<forall>vs k n e k'. sys_writev sys fd (BufferViewList_as_iovecs vs) k = ((n, e), k')
     \<longrightarrow> - 1 \<le> n \<and> n \<le> 0x7ffff000 \<and> (n < 0 \<longrightarrow> e \<noteq> 0) \<and> out k' = out k @ take (nat n) (concat vs))"

definition read_honest :: "('k, 'x) syscalls_scheme \<Rightarrow> int \<Rightarrow> ('k \<Rightarrow> bytes) \<Rightarrow> bool" where
  "read_honest sys fd inp \<longleftrightarrow> (\<forall>count k n e str k'. sys_read sys fd count k = (((n, e), str), k')
     \<longrightarrow> - 1 \<le> n \<and> n \<le> 0x7ffff000 \<and> inp k = take (nat n) str @ inp k')"

lemma ssize_small: "- 1 \<le> n \<Longrightarrow> n \<le> 0x7ffff000 \<Longrightarrow> int_of_ssize (n, e) = (n, e)"
  by (simp add: int_of_ssize_def signed_take_bit_int_eq_self)

lemma read_moves:
  assumes "read_honest sys (fw_fd (os_fds s h)) inp" and "FileDescriptor_read sys h limit s = Inr (d, s')"
  shows "inp (os_kernel s) = d @ inp (os_kernel s')"
proof -
  obtain n e str k where r: "sys_read sys (fw_fd (os_fds s h)) (min BUFFER_SIZE limit) (os_kernel s) = (((n, e), str), k)"
    by (metis surj_pair)
  then have "- 1 \<le> n" "n \<le> 0x7ffff000" "inp (os_kernel s) = take (nat n) str @ inp k"
    using assms(1) unfolding read_honest_def by blast+
  then show ?thesis using assms(2)
    by (auto simp: FileDescriptor_read_def r Let_def ssize_small SystemCall_def register_read_def update_fd_def split: if_splits)
qed

lemma write_once_moves:
  assumes "writev_honest sys (fw_fd (os_fds s h)) out" and "length (concat buffer) < 2 ^ 63"
    and "FileDescriptor_write sys h buffer False s = Inr (m, s')"
  shows "\<exists>n. m = of_nat n \<and> n \<le> length (concat buffer) \<and> (concat buffer \<noteq> [] \<longrightarrow> 0 < n)
    \<and> out (os_kernel s') = out (os_kernel s) @ take n (concat buffer)"
proof -
  obtain n e k where w: "sys_writev sys (fw_fd (os_fds s h)) (BufferViewList_as_iovecs buffer) (os_kernel s) = ((n, e), k)"
    by (metis surj_pair)
  then have n: "- 1 \<le> n" "n \<le> 0x7ffff000" "out k = out (os_kernel s) @ take (nat n) (concat buffer)" "n < 0 \<longrightarrow> e \<noteq> 0"
    using assms(1) unfolding writev_honest_def by blast+
  have sz: "sint (BufferViewList_size buffer) = int (length (concat buffer))"
    using assms(2) by (simp add: view_list_size signed_of_nat signed_take_bit_int_eq_self)
  have eq: "FileDescriptor_write sys h buffer False s = bind_result (SystemCall ''writev'' (n, e) 0) (\<lambda>b.
      if b = 0 \<and> BufferViewList_size buffer \<noteq> 0 then Inl (Runtime_Error ''write returned 0 given non-empty input buffer'')
      else if b > sint (BufferViewList_size buffer) then Inl (Runtime_Error ''write wrote more than length of input buffer'')
      else map_result (\<lambda>_. (word_of_int b, register_write h (s\<lparr>os_kernel := k\<rparr>))) (BufferViewList_remove_prefix (word_of_int b) buffer))"
    unfolding FileDescriptor_write_def map_result_as_bind
    by (subst write_loop.simps, unfold w Let_def split_conv ssize_small[OF n(1,2)]) (simp only: simp_thms if_False add_0_left)
  have k: "os_kernel (register_write h (s\<lparr>os_kernel := k\<rparr>)) = k" by (simp add: register_write_def update_fd_def)
  have "0 \<le> n"
    using assms(3) n(4) unfolding eq by (auto simp: SystemCall_def split: if_splits)
  moreover from this have "m = word_of_int n" "os_kernel s' = k" "n \<le> int (length (concat buffer))"
    "\<not> (n = 0 \<and> BufferViewList_size buffer \<noteq> 0)"
    using assms(3) k unfolding eq sz by (auto simp: SystemCall_def map_result_Inr_iff split: if_splits)
  moreover note view_list_empty[OF assms(2)]
  ultimately have "0 \<le> n" "n \<le> int (length (concat buffer))" "n = 0 \<longrightarrow> concat buffer = []" "m = word_of_int n" "os_kernel s' = k"
    by blast+
  then show ?thesis using n(3) by (intro exI[of _ "nat n"]) auto
qed

section \<open>Properties\<close>

text \<open>
  C23. \<^verbatim>\<open>write\<close> with \<^verbatim>\<open>write_all\<close> terminates and writes everything: as long as \<^verbatim>\<open>writev\<close> takes at least one
  byte of a non-empty buffer, all the bytes are written, in order, the result is their number, and
  of the descriptors only the counter of writes of this one changes. Without \<^verbatim>\<open>write_all\<close> it writes
  what one \<^verbatim>\<open>writev\<close> takes.
\<close>

theorem FileDescriptor_write_complete:
  assumes "writev_takes sys (fw_fd (os_fds s h)) out" and "length (concat buffer) < 2 ^ 63"
  shows "\<exists>n s'. FileDescriptor_write sys h buffer write_all s = Inr (of_nat n, s')
    \<and> out (os_kernel s') = out (os_kernel s) @ take n (concat buffer)
    \<and> (if write_all then n = length (concat buffer) else n \<le> length (concat buffer) \<and> (concat buffer \<noteq> [] \<longrightarrow> 0 < n))
    \<and> (\<exists>c. os_fds s' = (os_fds s)(h := (os_fds s h)\<lparr>fw_write_count := c\<rparr>))"
  using write_loop_complete[OF assms, where t=0] by (simp add: FileDescriptor_write_def)

text \<open>A kernel whose descriptors keep what is written to them and take two bytes at a time.\<close>

definition slow_kernel :: "bytes syscalls" where
  "slow_kernel = \<lparr>sys_read = (\<lambda>fd n k. (((0, 0), []), k)),
     sys_writev = (\<lambda>fd iov k. let d = take 2 (concat (map fst iov)) in ((int (length d), 0), k @ d)),
     sys_close = (\<lambda>fd k. ((0, 0), k)), sys_getfl = (\<lambda>fd k. ((0, 0), k)), sys_setfl = (\<lambda>fd flags k. ((0, 0), k))\<rparr>"

theorem FileDescriptor_write_complete_witness:
  "\<exists>s'. FileDescriptor_write slow_kernel 0 [[1, 2], [], [3]] True
      \<lparr>os_fds = (\<lambda>_. \<lparr>fw_fd = 4, fw_eof = False, fw_closed = False, fw_read_count = 0, fw_write_count = 0\<rparr>), os_kernel = [9]\<rparr>
    = Inr (3, s') \<and> os_kernel s' = [9, 1, 2, 3]"
proof -
  have "writev_takes slow_kernel fd (\<lambda>k. k)" for fd
    unfolding writev_takes_def
  proof (intro allI)
    fix vs :: BufferViewList and k :: bytes
    show "\<exists>n e k'. sys_writev slow_kernel fd (BufferViewList_as_iovecs vs) k = ((int n, e), k')
      \<and> n \<le> length (concat vs) \<and> n \<le> 0x7ffff000 \<and> (concat vs \<noteq> [] \<longrightarrow> 0 < n) \<and> k' = k @ take n (concat vs)"
      by (intro exI[of _ "min 2 (length (concat vs))"] exI[of _ 0] exI[of _ "k @ take 2 (concat vs)"])
        (auto simp: slow_kernel_def BufferViewList_as_iovecs_def Let_def o_def min_def)
  qed
  from FileDescriptor_write_complete[OF this, where buffer="[[1, 2], [], [3]]" and write_all=True and h=0 and s=
      "\<lparr>os_fds = (\<lambda>_. \<lparr>fw_fd = 4, fw_eof = False, fw_closed = False, fw_read_count = 0, fw_write_count = 0\<rparr>), os_kernel = [9]\<rparr>"] show ?thesis by auto
qed

end
