(* ===== verification/Event_Loop.thy ===== *)
theory Event_Loop
  imports File_Descriptor
begin

text \<open>
  \<^verbatim>\<open>libsponge/util/eventloop.{hh,cc}\<close>: rules that tie a descriptor and a direction to callbacks, and
  \<^verbatim>\<open>wait_next_event\<close>, which polls the descriptors and runs the callbacks of those that are ready. The
  callbacks are functions on the state of their owner (of an arbitrary type \<open>'c\<close>) together with the
  descriptors and the kernel; they do not add rules. \<^verbatim>\<open>poll\<close> gives \<^verbatim>\<open>revents\<close> as a function of the index.
\<close>

section \<open>Rules\<close>

datatype Direction = Direction_In | Direction_Out

definition POLLIN :: u16 where "POLLIN = 1"
definition POLLOUT :: u16 where "POLLOUT = 4"
definition POLLERR :: u16 where "POLLERR = 8"
definition POLLHUP :: u16 where "POLLHUP = 16"
definition POLLNVAL :: u16 where "POLLNVAL = 32"
definition EINTR :: int where "EINTR = 4"

definition Direction_events :: "Direction \<Rightarrow> u16" where
  "Direction_events d = (case d of Direction_In \<Rightarrow> POLLIN | Direction_Out \<Rightarrow> POLLOUT)"

type_synonym ('k, 'c) world = "'k os \<times> 'c"

record ('k, 'c) Rule =
  rl_fd :: FileDescriptor
  rl_direction :: Direction
  rl_callback :: "('k, 'c) world \<Rightarrow> ('k, 'c) world result"
  rl_interest :: "('k, 'c) world \<Rightarrow> bool"
  rl_cancel :: "('k, 'c) world \<Rightarrow> ('k, 'c) world result"

record pollfd =
  pf_fd :: int
  pf_events :: u16

record 'k loop_calls = "'k syscalls" +
  sys_poll :: "pollfd list \<Rightarrow> int \<Rightarrow> 'k \<Rightarrow> (sysret \<times> (nat \<Rightarrow> u16)) \<times> 'k"

datatype EventLoop_Result = Success | Timeout | Exit

definition Rule_fd :: "('k, 'c) Rule \<Rightarrow> ('k, 'c) world \<Rightarrow> FDWrapper" where
  "Rule_fd r w = os_fds (fst w) (rl_fd r)"

definition Rule_service_count :: "('k, 'c) Rule \<Rightarrow> ('k, 'c) world \<Rightarrow> u32" where
  "Rule_service_count r w =
     (if rl_direction r = Direction_In then fw_read_count (Rule_fd r w) else fw_write_count (Rule_fd r w))"

definition EventLoop_add_rule ::
  "FileDescriptor \<Rightarrow> Direction \<Rightarrow> (('k, 'c) world \<Rightarrow> ('k, 'c) world result) \<Rightarrow> (('k, 'c) world \<Rightarrow> bool)
     \<Rightarrow> (('k, 'c) world \<Rightarrow> ('k, 'c) world result) \<Rightarrow> ('k, 'c) Rule list \<Rightarrow> ('k, 'c) Rule list" where
  "EventLoop_add_rule fd direction callback interest cancel rules =
     rules @ [\<lparr>rl_fd = FileDescriptor_duplicate fd, rl_direction = direction, rl_callback = callback,
               rl_interest = interest, rl_cancel = cancel\<rparr>]"

section \<open>Waiting\<close>

text \<open>The loop that builds the array for \<^verbatim>\<open>poll\<close> and cancels the rules whose descriptor is exhausted or closed.\<close>

primrec setup_pollfds :: "('k, 'c) Rule list \<Rightarrow> ('k, 'c) world \<Rightarrow> (pollfd list \<times> bool \<times> ('k, 'c) Rule list \<times> ('k, 'c) world) result" where
  "setup_pollfds [] w = Inr ([], False, [], w)"
| "setup_pollfds (r # rules) w =
     (if rl_direction r = Direction_In \<and> fw_eof (Rule_fd r w) \<or> fw_closed (Rule_fd r w)
      then bind_result (rl_cancel r w) (setup_pollfds rules)
      else let interested = rl_interest r w;
               pfd = \<lparr>pf_fd = fw_fd (Rule_fd r w), pf_events = (if interested then Direction_events (rl_direction r) else 0)\<rparr>
           in map_result (\<lambda>(pollfds, something_to_poll, rules, w). (pfd # pollfds, interested \<or> something_to_poll, r # rules, w))
                (setup_pollfds rules w))"

text \<open>The loop over the results, from index \<open>idx\<close> on.\<close>

fun handle_events ::
  "(nat \<Rightarrow> u16) \<Rightarrow> nat \<Rightarrow> pollfd list \<Rightarrow> ('k, 'c) Rule list \<Rightarrow> ('k, 'c) world \<Rightarrow> (('k, 'c) Rule list \<times> ('k, 'c) world) result" where
  "handle_events revents idx pollfds [] w = Inr ([], w)"
| "handle_events revents idx [] (r # rules) w = Inl (Undefined_Behaviour ''vector::operator[]'')"
| "handle_events revents idx (p # pollfds) (r # rules) w =
     (if and (revents idx) (or POLLERR POLLNVAL) \<noteq> 0
      then Inl (Runtime_Error ''EventLoop: error on polled file descriptor'')
      else let poll_ready = (and (revents idx) (pf_events p) \<noteq> 0); poll_hup = (and (revents idx) POLLHUP \<noteq> 0)
           in if poll_hup \<and> pf_events p \<noteq> 0 \<and> \<not> poll_ready
              then bind_result (rl_cancel r w) (handle_events revents (idx + 1) pollfds rules)
              else bind_result
                (if poll_ready
                 then bind_result (rl_callback r w) (\<lambda>w'.
                   if Rule_service_count r w = Rule_service_count r w' \<and> rl_interest r w'
                   then Inl (Runtime_Error ''EventLoop: busy wait detected: callback did not read/write fd and is still interested'')
                   else Inr w')
                 else Inr w)
                (\<lambda>w. map_result (\<lambda>(rules, w). (r # rules, w)) (handle_events revents (idx + 1) pollfds rules w)))"

definition EventLoop_wait_next_event ::
  "('k, 'x) loop_calls_scheme \<Rightarrow> int \<Rightarrow> ('k, 'c) Rule list \<Rightarrow> ('k, 'c) world
     \<Rightarrow> (EventLoop_Result \<times> ('k, 'c) Rule list \<times> ('k, 'c) world) result" where
  "EventLoop_wait_next_event sys timeout_ms rules w =
     bind_result (setup_pollfds rules w) (\<lambda>(pollfds, something_to_poll, rules, w).
       if \<not> something_to_poll then Inr (Exit, rules, w)
       else let ((ret, revents), k) = sys_poll sys pollfds timeout_ms (os_kernel (fst w));
                w = ((fst w)\<lparr>os_kernel := k\<rparr>, snd w);
                results = map_result (\<lambda>(rules, w). (Success, rules, w)) (handle_events revents 0 pollfds rules w)
            in case SystemCall ''poll'' ret 0 of
                 Inr n \<Rightarrow> if n = 0 then Inr (Timeout, rules, w) else results
               | Inl (Unix_Error attempt e) \<Rightarrow> if e = EINTR then Inr (Exit, rules, w) else results
               | Inl e \<Rightarrow> Inl e)"

text \<open>Waiting again and again until there is nothing to wait for; \<open>None\<close> is a loop that does not return.\<close>

partial_function (option) run_until_exit ::
  "('k, 'x) loop_calls_scheme \<Rightarrow> int \<Rightarrow> ('k, 'c) Rule list \<Rightarrow> ('k, 'c) world \<Rightarrow> (('k, 'c) Rule list \<times> ('k, 'c) world) result option" where
  "run_until_exit sys timeout_ms rules w =
     (case EventLoop_wait_next_event sys timeout_ms rules w of
        Inl e \<Rightarrow> Some (Inl e)
      | Inr (ret, rules, w) \<Rightarrow> if ret = Exit then Some (Inr (rules, w)) else run_until_exit sys timeout_ms rules w)"

text \<open>Running the callbacks of some rules one after the other, each of which must serve its descriptor or lose interest.\<close>

definition serve :: "('k, 'c) Rule \<Rightarrow> ('k, 'c) world \<Rightarrow> ('k, 'c) world result" where
  "serve r w = bind_result (rl_callback r w) (\<lambda>w'.
     if Rule_service_count r w = Rule_service_count r w' \<and> rl_interest r w'
     then Inl (Runtime_Error ''EventLoop: busy wait detected: callback did not read/write fd and is still interested'')
     else Inr w')"

primrec serve_all :: "('k, 'c) Rule list \<Rightarrow> ('k, 'c) world \<Rightarrow> ('k, 'c) world result" where
  "serve_all [] w = Inr w"
| "serve_all (r # rules) w = bind_result (serve r w) (serve_all rules)"

primrec run_callbacks :: "('k, 'c) Rule list \<Rightarrow> ('k, 'c) world \<Rightarrow> ('k, 'c) world result" where
  "run_callbacks [] w = Inr w"
| "run_callbacks (r # rules) w = bind_result (rl_callback r w) (run_callbacks rules)"

section \<open>What a client has to ensure\<close>

text \<open>
  If every callback, of an event or of a cancellation, keeps the client's invariant and runs into no
  undefined behaviour, then so does waiting, whatever \<^verbatim>\<open>poll\<close> reports, and no rule is ever added.
\<close>

locale event_client =
  fixes invar :: "('k, 'c) world \<Rightarrow> bool" and client_rule :: "('k, 'c) Rule \<Rightarrow> bool"
  assumes callback_sound: "client_rule r \<Longrightarrow> invar w \<Longrightarrow> sound invar (rl_callback r w)"
    and cancel_sound: "client_rule r \<Longrightarrow> invar w \<Longrightarrow> sound invar (rl_cancel r w)"
    and kernel_free: "invar (s, c) \<Longrightarrow> invar (s\<lparr>os_kernel := k\<rparr>, c)"
begin

lemma setup_sound:
  "\<forall>r \<in> set rules. client_rule r \<Longrightarrow> invar w \<Longrightarrow>
    sound (\<lambda>(pollfds, something, rules', w'). length pollfds = length rules' \<and> set rules' \<subseteq> set rules \<and> invar w')
      (setup_pollfds rules w)"
proof (induction rules arbitrary: w)
  case (Cons r rules)
  let ?Q = "\<lambda>rules (pollfds, something, rules', w'). length pollfds = length rules' \<and> set rules' \<subseteq> set rules \<and> invar w'"
  have IH: "sound (?Q rules) (setup_pollfds rules w')" if "invar w'" for w' using Cons that by simp
  show ?case
  proof (cases "rl_direction r = Direction_In \<and> fw_eof (Rule_fd r w) \<or> fw_closed (Rule_fd r w)")
    case True
    have "sound (?Q (r # rules)) (bind_result (rl_cancel r w) (setup_pollfds rules))"
      using cancel_sound[of r w] Cons.prems by (intro sound_bind[of invar] sound_weaken[OF IH]) auto
    then show ?thesis using True by simp
  next
    case False
    show ?thesis
      unfolding setup_pollfds.simps Let_def if_not_P[OF False] by (rule sound_map[OF IH[OF Cons.prems(2)]]) auto
  qed
qed simp

lemma handle_sound:
  "\<forall>r \<in> set rules. client_rule r \<Longrightarrow> length pollfds = length rules \<Longrightarrow> invar w \<Longrightarrow>
    sound (\<lambda>(rules', w'). set rules' \<subseteq> set rules \<and> invar w') (handle_events revents idx pollfds rules w)"
proof (induction rules arbitrary: idx pollfds w)
  case (Cons r rules)
  let ?Q = "\<lambda>rules (rules', w'). set rules' \<subseteq> set rules \<and> invar w'"
  obtain p ps where p: "pollfds = p # ps" "length ps = length rules" using Cons.prems(2) by (cases pollfds) auto
  have IH: "sound (?Q rules) (handle_events revents (idx + 1) ps rules w')" if "invar w'" for w'
    using Cons that p by simp
  have cb: "sound invar (bind_result (rl_callback r w) (\<lambda>w'.
      if Rule_service_count r w = Rule_service_count r w' \<and> rl_interest r w' then Inl (Runtime_Error m) else Inr w'))" for m
    using callback_sound[of r w] Cons.prems by (intro sound_bind[of invar]) auto
  have go: "sound (?Q (r # rules)) (bind_result x (\<lambda>w. map_result (\<lambda>(rules, w). (r # rules, w)) (handle_events revents (idx + 1) ps rules w)))"
    if "sound invar x" for x
    using that by (intro sound_bind[of invar] sound_map[OF IH]) auto
  have cancel: "sound (?Q (r # rules)) (bind_result (rl_cancel r w) (handle_events revents (idx + 1) ps rules))"
    using cancel_sound[of r w] Cons.prems by (intro sound_bind[of invar] sound_weaken[OF IH]) auto
  show ?case
    unfolding p(1) handle_events.simps Let_def using cancel go[OF cb] go[of "Inr w"] Cons.prems(3) by simp
qed simp

lemma wait_sound:
  assumes "\<forall>r \<in> set rules. client_rule r" and "invar w"
  shows "sound (\<lambda>(result, rules', w'). set rules' \<subseteq> set rules \<and> invar w') (EventLoop_wait_next_event sys timeout_ms rules w)"
  unfolding EventLoop_wait_next_event_def
proof (rule sound_bind[OF setup_sound[OF assms]], clarify)
  fix pollfds :: "pollfd list" and something rules' s c
  assume l: "length pollfds = length rules'" and sub: "set rules' \<subseteq> set rules" and inv: "invar (s, c)"
  obtain ret revents k where pl: "sys_poll sys pollfds timeout_ms (os_kernel s) = ((ret, revents), k)" by (metis surj_pair)
  let ?w = "(s\<lparr>os_kernel := k\<rparr>, c)"
  have w: "invar ?w" using inv by (rule kernel_free)
  have "sound (\<lambda>(result, rules', w'). set rules' \<subseteq> set rules \<and> invar w')
      (map_result (\<lambda>(rules, w). (Success, rules, w)) (handle_events revents 0 pollfds rules' ?w))"
    using assms(1) sub by (intro sound_map[OF handle_sound[OF _ l w]]) auto
  then show "sound (\<lambda>(result, rules', w'). set rules' \<subseteq> set rules \<and> invar w')
     (if \<not> something then Inr (Exit, rules', s, c)
      else let ((ret, revents), k) = sys_poll sys pollfds timeout_ms (os_kernel (fst (s, c)));
               w = ((fst (s, c))\<lparr>os_kernel := k\<rparr>, snd (s, c));
               results = map_result (\<lambda>(rules, w). (Success, rules, w)) (handle_events revents 0 pollfds rules' w)
           in case SystemCall ''poll'' ret 0 of
                Inr n \<Rightarrow> if n = 0 then Inr (Timeout, rules', w) else results
              | Inl (Unix_Error attempt e) \<Rightarrow> if e = EINTR then Inr (Exit, rules', w) else results
              | Inl e \<Rightarrow> Inl e)"
    using inv w sub by (auto simp: pl Let_def SystemCall_def)
qed

lemma run_sound:
  assumes "run_until_exit sys timeout_ms rules w = Some r" and "\<forall>r \<in> set rules. client_rule r" and "invar w"
  shows "sound (\<lambda>(rules', w'). invar w') r"
proof -
  let ?P = "\<lambda>rules w r. (\<forall>r \<in> set rules. client_rule r) \<and> invar w \<longrightarrow> sound (\<lambda>(rules', w'). invar w') r"
  have "?P rules w r"
  proof (rule run_until_exit.raw_induct[where P="\<lambda>s t. ?P", OF _ assms(1)], intro impI, elim conjE)
    fix f s t rules w r
    assume IH: "\<And>s t rules w r. f s t rules w = Some r \<Longrightarrow> ?P rules w r"
      and eq: "(case EventLoop_wait_next_event s t rules w of Inl e \<Rightarrow> Some (Inl e)
        | Inr (ret, rules, w) \<Rightarrow> if ret = Exit then Some (Inr (rules, w)) else f s t rules w) = Some r"
      and ok: "\<forall>r \<in> set rules. client_rule r" "invar w"
    note wait = wait_sound[OF ok, of s t]
    show "sound (\<lambda>(rules', w'). invar w') r"
    proof (cases "EventLoop_wait_next_event s t rules w")
      case (Inl e)
      then show ?thesis using eq wait by (auto dest: sound_Inl)
    next
      case (Inr x)
      then obtain ret rules' w' where x: "x = (ret, rules', w')" by (metis surj_pair)
      with Inr wait have "set rules' \<subseteq> set rules" "invar w'" by simp_all
      then show ?thesis using eq Inr x ok(1) IH[of s t rules' w' r] by (auto split: if_splits)
    qed
  qed
  then show ?thesis using assms(2,3) by blast
qed

end

text \<open>A client whose callbacks always serve their descriptor or lose interest: the check for busy waiting never throws.\<close>

locale busy_free_client = event_client +
  assumes progress: "client_rule r \<Longrightarrow> invar w \<Longrightarrow>
    sound (\<lambda>w'. Rule_service_count r w' \<noteq> Rule_service_count r w \<or> \<not> rl_interest r w') (rl_callback r w)"
begin

lemma serve_callback: "client_rule r \<Longrightarrow> invar w \<Longrightarrow> serve r w = rl_callback r w"
  using progress[of r w] by (cases "rl_callback r w") (auto simp: serve_def)

lemma serve_all_callbacks: "\<forall>r \<in> set rules. client_rule r \<Longrightarrow> invar w \<Longrightarrow> serve_all rules w = run_callbacks rules w"
proof (induction rules arbitrary: w)
  case (Cons r rules)
  then show ?case using callback_sound[of r w] serve_callback[of r w] by (cases "rl_callback r w") auto
qed simp

end

section \<open>The outcome of waiting\<close>

definition Rule_pollfd :: "('k, 'c) world \<Rightarrow> ('k, 'c) Rule \<Rightarrow> pollfd" where
  "Rule_pollfd w r = \<lparr>pf_fd = fw_fd (Rule_fd r w), pf_events = (if rl_interest r w then Direction_events (rl_direction r) else 0)\<rparr>"

definition healthy :: "('k, 'c) world \<Rightarrow> ('k, 'c) Rule \<Rightarrow> bool" where
  "healthy w r \<longleftrightarrow> \<not> (rl_direction r = Direction_In \<and> fw_eof (Rule_fd r w)) \<and> \<not> fw_closed (Rule_fd r w)"

text \<open>The rules that were interested in \<open>w\<close> and whose event \<^verbatim>\<open>poll\<close> reports.\<close>

definition ready_rules :: "(nat \<Rightarrow> u16) \<Rightarrow> nat \<Rightarrow> ('k, 'c) world \<Rightarrow> ('k, 'c) Rule list \<Rightarrow> ('k, 'c) Rule list" where
  "ready_rules revents idx w rules =
     map fst (filter (\<lambda>(r, i). and (revents i) (pf_events (Rule_pollfd w r)) \<noteq> 0) (zip rules [idx..<idx + length rules]))"

lemma ready_rules_Cons:
  "ready_rules revents idx w (r # rules) =
     (if and (revents idx) (pf_events (Rule_pollfd w r)) \<noteq> 0 then [r] else []) @ ready_rules revents (idx + 1) w rules"
  by (simp add: ready_rules_def upt_conv_Cons del: upt_Suc)

lemma setup_healthy:
  "\<forall>r \<in> set rules. healthy w r \<Longrightarrow>
    setup_pollfds rules w = Inr (map (Rule_pollfd w) rules, \<exists>r \<in> set rules. rl_interest r w, rules, w)"
  by (induction rules) (auto simp: healthy_def Rule_pollfd_def Let_def)

lemma handle_ready:
  assumes "\<forall>i < idx + length rules. and (revents i) (or POLLERR POLLNVAL) = 0 \<and> and (revents i) POLLHUP = 0"
  shows "handle_events revents idx (map (Rule_pollfd w0) rules) rules w
    = map_result (\<lambda>w. (rules, w)) (serve_all (ready_rules revents idx w0 rules) w)"
  using assms
proof (induction rules arbitrary: idx w)
  case (Cons r rules)
  have no: "and (revents idx) (or POLLERR POLLNVAL) = 0" "and (revents idx) POLLHUP = 0"
    using Cons.prems[rule_format, of idx] by simp_all
  have IH: "handle_events revents (Suc idx) (map (Rule_pollfd w0) rules) rules w
    = map_result (\<lambda>w. (rules, w)) (serve_all (ready_rules revents (Suc idx) w0 rules) w)" for w
    using Cons by simp
  show ?case
    using no by (auto simp: ready_rules_Cons IH serve_def map_result_map map_result_bind)
qed (simp add: ready_rules_def)

text \<open>When no rule is interested any more, whatever their cancellations do, waiting ends at once.\<close>

lemma setup_idle:
  assumes "\<And>r w. r \<in> set rules \<Longrightarrow> Q w \<Longrightarrow> \<not> rl_interest r w \<and> (\<exists>w'. rl_cancel r w = Inr w' \<and> Q w')" and "Q w"
  shows "\<exists>pollfds rules' w'. setup_pollfds rules w = Inr (pollfds, False, rules', w') \<and> Q w'"
  using assms
proof (induction rules arbitrary: w)
  case (Cons r rules)
  have IH: "\<exists>pollfds rules' w'. setup_pollfds rules w = Inr (pollfds, False, rules', w') \<and> Q w'" if "Q w" for w
    using Cons.IH[OF _ that] Cons.prems(1) by (meson list.set_intros(2))
  obtain w' where r: "\<not> rl_interest r w" "rl_cancel r w = Inr w'" "Q w'" using Cons.prems by (meson list.set_intros(1))
  show ?case using r IH[OF r(3)] IH[OF Cons.prems(2)] by (auto simp: Let_def)
qed simp

lemma wait_idle:
  assumes "\<And>r w. r \<in> set rules \<Longrightarrow> Q w \<Longrightarrow> \<not> rl_interest r w \<and> (\<exists>w'. rl_cancel r w = Inr w' \<and> Q w')" and "Q w"
  shows "\<exists>rules' w'. EventLoop_wait_next_event sys timeout_ms rules w = Inr (Exit, rules', w') \<and> Q w'"
  using setup_idle[of rules Q w] assms by (fastforce simp: EventLoop_wait_next_event_def)

section \<open>Clients that come to an end\<close>

definition todo :: "('k, 'c) world \<Rightarrow> ('k, 'c) Rule \<Rightarrow> bool" where
  "todo w r \<longleftrightarrow> healthy w r \<and> rl_interest r w"

definition event_ready :: "u16 \<Rightarrow> ('k, 'c) world \<Rightarrow> ('k, 'c) Rule \<Rightarrow> bool" where
  "event_ready revents w r \<longleftrightarrow> and revents (pf_events (Rule_pollfd w r)) \<noteq> 0"

definition event_over :: "u16 \<Rightarrow> ('k, 'c) world \<Rightarrow> ('k, 'c) Rule \<Rightarrow> bool" where
  "event_over revents w r \<longleftrightarrow> and revents POLLHUP \<noteq> 0 \<and> rl_interest r w \<and> \<not> event_ready revents w r"

text \<open>
  A client that ends if \<^verbatim>\<open>poll\<close> always finds something: whatever is served makes \<open>sz\<close> smaller and keeps the
  others in need of being served; a cancellation drops a rule and changes nothing for the rules before it.
  \<open>over\<close> says that the peer of a rule has hung up for good.
\<close>

locale terminating_client =
  fixes sys :: "('k, 'x) loop_calls_scheme" and timeout_ms :: int
    and invar :: "('k, 'c) Rule list \<Rightarrow> ('k, 'c) world \<Rightarrow> bool"
    and over :: "('k, 'c) world \<Rightarrow> ('k, 'c) Rule \<Rightarrow> bool" and sz :: "('k, 'c) world \<Rightarrow> nat"
  assumes served: "invar (pre @ r # post) w \<Longrightarrow> todo w r \<Longrightarrow> \<exists>w'. rl_callback r w = Inr w' \<and> invar (pre @ r # post) w' \<and> sz w' < sz w
      \<and> (Rule_service_count r w' \<noteq> Rule_service_count r w \<or> \<not> rl_interest r w')
      \<and> (\<forall>r' \<in> set post. (todo w r' \<longrightarrow> todo w' r') \<and> (over w r' \<longrightarrow> over w' r'))"
    and cancelled: "invar (pre @ r # post) w \<Longrightarrow> \<not> healthy w r \<or> over w r \<Longrightarrow> \<exists>w'. rl_cancel r w = Inr w' \<and> invar (pre @ post) w' \<and> sz w' \<le> sz w
      \<and> (\<forall>r' \<in> set pre. Rule_pollfd w' r' = Rule_pollfd w r' \<and> healthy w' r' = healthy w r')
      \<and> (\<forall>r' \<in> set post. (todo w r' \<longrightarrow> todo w' r') \<and> (over w r' \<longrightarrow> over w' r'))"
    and polled: "invar rules w \<Longrightarrow> \<forall>r \<in> set rules. healthy w r \<Longrightarrow> \<exists>r \<in> set rules. rl_interest r w \<Longrightarrow>
      \<exists>n e revents k. sys_poll sys (map (Rule_pollfd w) rules) timeout_ms (os_kernel (fst w)) = (((n, e), revents), k) \<and> 0 < n
        \<and> (let w' = ((fst w)\<lparr>os_kernel := k\<rparr>, snd w)
           in invar rules w' \<and> sz w' \<le> sz w \<and> (\<forall>r \<in> set rules. todo w r \<longrightarrow> todo w' r)
              \<and> (\<forall>i < length rules. and (revents i) (or POLLERR POLLNVAL) = 0 \<and> (event_over (revents i) w (rules ! i) \<longrightarrow> over w' (rules ! i)))
              \<and> (\<exists>i < length rules. event_ready (revents i) w (rules ! i) \<or> event_over (revents i) w (rules ! i)))"
begin

lemma setup_ends:
  "invar (pre @ post) w \<Longrightarrow> \<exists>post' w'. setup_pollfds post w = Inr (map (Rule_pollfd w') post', (\<exists>r \<in> set post'. rl_interest r w'), post', w')
    \<and> invar (pre @ post') w' \<and> sz w' + length post' \<le> sz w + length post \<and> (\<forall>r \<in> set post'. healthy w' r)
    \<and> (\<forall>r \<in> set pre. Rule_pollfd w' r = Rule_pollfd w r \<and> healthy w' r = healthy w r)"
proof (induction post arbitrary: pre w)
  case (Cons r post)
  show ?case
  proof (cases "healthy w r")
    case True
    obtain post' w' where IH: "setup_pollfds post w = Inr (map (Rule_pollfd w') post', (\<exists>r \<in> set post'. rl_interest r w'), post', w')"
      "invar ((pre @ [r]) @ post') w'" "sz w' + length post' \<le> sz w + length post" "\<forall>r \<in> set post'. healthy w' r"
      "\<forall>x \<in> set (pre @ [r]). Rule_pollfd w' x = Rule_pollfd w x \<and> healthy w' x = healthy w x"
      using Cons.IH[of "pre @ [r]" w] Cons.prems by auto
    have "rl_interest r w' \<longleftrightarrow> rl_interest r w" using IH(5)
      by (auto simp: Rule_pollfd_def Direction_events_def POLLIN_def POLLOUT_def split: if_splits Direction.splits)
    then have "setup_pollfds (r # post) w = Inr (map (Rule_pollfd w') (r # post'), (\<exists>r \<in> set (r # post'). rl_interest r w'), r # post', w')"
      using True IH(1,5) by (auto simp: healthy_def Let_def Rule_pollfd_def)
    then show ?thesis using IH True by (intro exI[of _ "r # post'"] exI[of _ w']) auto
  next
    case False
    obtain w1 where w1: "rl_cancel r w = Inr w1" "invar (pre @ post) w1" "sz w1 \<le> sz w"
      "\<forall>r' \<in> set pre. Rule_pollfd w1 r' = Rule_pollfd w r' \<and> healthy w1 r' = healthy w r'"
      using cancelled[OF Cons.prems] False by blast
    show ?thesis using Cons.IH[OF w1(2)] w1 False by (fastforce simp: healthy_def)
  qed
qed (simp del: split_paired_Ex)

lemma handle_ends:
  assumes "invar (pre @ post) w"
    and "\<forall>i < length post. and (revents (idx + i)) (or POLLERR POLLNVAL) = 0
      \<and> (event_ready (revents (idx + i)) w0 (post ! i) \<longrightarrow> todo w (post ! i)) \<and> (event_over (revents (idx + i)) w0 (post ! i) \<longrightarrow> over w (post ! i))"
  shows "\<exists>post' w'. handle_events revents idx (map (Rule_pollfd w0) post) post w = Inr (post', w') \<and> invar (pre @ post') w'
    \<and> sz w' + length post' \<le> sz w + length post
    \<and> ((\<exists>i < length post. event_ready (revents (idx + i)) w0 (post ! i) \<or> event_over (revents (idx + i)) w0 (post ! i))
        \<longrightarrow> sz w' + length post' < sz w + length post)"
  using assms
proof (induction post arbitrary: pre idx w)
  case (Cons r post)
  let ?sel = "\<lambda>idx post i. event_ready (revents (idx + i)) w0 (post ! i) \<or> event_over (revents (idx + i)) w0 (post ! i)"
  note r = Cons.prems(2)[rule_format, of 0, simplified]
  have later: "\<forall>i < length post. and (revents (Suc idx + i)) (or POLLERR POLLNVAL) = 0
      \<and> (event_ready (revents (Suc idx + i)) w0 (post ! i) \<longrightarrow> todo w (post ! i)) \<and> (event_over (revents (Suc idx + i)) w0 (post ! i) \<longrightarrow> over w (post ! i))"
    using Cons.prems(2) by (metis (no_types, lifting) Suc_less_eq add_Suc_shift length_Cons nth_Cons_Suc)
  have ex: "(\<exists>i < length (r # post). ?sel idx (r # post) i) \<longleftrightarrow> ?sel idx [r] 0 \<or> (\<exists>i < length post. ?sel (Suc idx) post i)"
    by (auto simp: less_Suc_eq_0_disj)
  have ev: "pf_events (Rule_pollfd w0 r) \<noteq> 0 \<longleftrightarrow> rl_interest r w0"
    by (auto simp: Rule_pollfd_def Direction_events_def POLLIN_def POLLOUT_def split: Direction.split)
  consider (over) "event_over (revents idx) w0 r" | (ready) "event_ready (revents idx) w0 r"
    | (idle) "\<not> event_over (revents idx) w0 r" "\<not> event_ready (revents idx) w0 r" by blast
  then show ?case
  proof cases
    case over
    obtain w1 where w1: "rl_cancel r w = Inr w1" "invar (pre @ post) w1" "sz w1 \<le> sz w"
      "\<forall>r' \<in> set post. (todo w r' \<longrightarrow> todo w1 r') \<and> (over w r' \<longrightarrow> over w1 r')"
      using cancelled[OF Cons.prems(1)] r over by blast
    have "handle_events revents idx (map (Rule_pollfd w0) (r # post)) (r # post) w
        = handle_events revents (Suc idx) (map (Rule_pollfd w0) post) post w1"
      using r over w1(1) ev by (simp add: event_over_def event_ready_def)
    then show ?thesis using Cons.IH[OF w1(2), of "Suc idx"] later w1(3,4) over by (fastforce simp: ex)
  next
    case ready
    obtain w1 where w1: "rl_callback r w = Inr w1" "invar (pre @ r # post) w1" "sz w1 < sz w"
      "Rule_service_count r w1 \<noteq> Rule_service_count r w \<or> \<not> rl_interest r w1"
      "\<forall>r' \<in> set post. (todo w r' \<longrightarrow> todo w1 r') \<and> (over w r' \<longrightarrow> over w1 r')"
      using served[OF Cons.prems(1)] r ready by blast
    have "handle_events revents idx (map (Rule_pollfd w0) (r # post)) (r # post) w
        = map_result (\<lambda>(rules, w). (r # rules, w)) (handle_events revents (Suc idx) (map (Rule_pollfd w0) post) post w1)"
      using r ready w1(1,4) by (auto simp: event_ready_def)
    moreover obtain post' w' where "handle_events revents (Suc idx) (map (Rule_pollfd w0) post) post w1 = Inr (post', w')"
      "invar ((pre @ [r]) @ post') w'" "sz w' + length post' \<le> sz w1 + length post"
      using Cons.IH[of "pre @ [r]" w1 "Suc idx"] later w1(2,5) by fastforce
    ultimately show ?thesis using w1(3) by (intro exI[of _ "r # post'"] exI[of _ w']) auto
  next
    case idle
    have "handle_events revents idx (map (Rule_pollfd w0) (r # post)) (r # post) w
        = map_result (\<lambda>(rules, w). (r # rules, w)) (handle_events revents (Suc idx) (map (Rule_pollfd w0) post) post w)"
      using r idle ev by (auto simp: event_ready_def event_over_def)
    moreover obtain post' w' where "handle_events revents (Suc idx) (map (Rule_pollfd w0) post) post w = Inr (post', w')"
      "invar ((pre @ [r]) @ post') w'" "sz w' + length post' \<le> sz w + length post"
      "(\<exists>i < length post. ?sel (Suc idx) post i) \<longrightarrow> sz w' + length post' < sz w + length post"
      using Cons.IH[of "pre @ [r]" w "Suc idx"] later Cons.prems(1) by fastforce
    ultimately show ?thesis using idle unfolding ex by (intro exI[of _ "r # post'"] exI[of _ w']) auto
  qed
qed simp

lemma wait_progress:
  assumes "invar rules w"
  shows "\<exists>ret rules' w'. EventLoop_wait_next_event sys timeout_ms rules w = Inr (ret, rules', w') \<and> invar rules' w'
    \<and> (if ret = Exit then \<forall>r \<in> set rules'. healthy w' r \<and> \<not> rl_interest r w' else sz w' + length rules' < sz w + length rules)"
proof -
  obtain rules1 w1 where s: "setup_pollfds rules w = Inr (map (Rule_pollfd w1) rules1, (\<exists>r \<in> set rules1. rl_interest r w1), rules1, w1)"
    "invar rules1 w1" "sz w1 + length rules1 \<le> sz w + length rules" "\<forall>r \<in> set rules1. healthy w1 r"
    using setup_ends[of "[]" rules w] assms by auto
  show ?thesis
  proof (cases "\<exists>r \<in> set rules1. rl_interest r w1")
    case False
    then have "EventLoop_wait_next_event sys timeout_ms rules w = Inr (Exit, rules1, w1)"
      unfolding EventLoop_wait_next_event_def s(1) by simp
    then show ?thesis using s False by auto
  next
    case True
    obtain n e revents k where p: "sys_poll sys (map (Rule_pollfd w1) rules1) timeout_ms (os_kernel (fst w1)) = (((n, e), revents), k)" "0 < n"
      and w2: "let w' = ((fst w1)\<lparr>os_kernel := k\<rparr>, snd w1)
           in invar rules1 w' \<and> sz w' \<le> sz w1 \<and> (\<forall>r \<in> set rules1. todo w1 r \<longrightarrow> todo w' r)
              \<and> (\<forall>i < length rules1. and (revents i) (or POLLERR POLLNVAL) = 0 \<and> (event_over (revents i) w1 (rules1 ! i) \<longrightarrow> over w' (rules1 ! i)))
              \<and> (\<exists>i < length rules1. event_ready (revents i) w1 (rules1 ! i) \<or> event_over (revents i) w1 (rules1 ! i))"
      using polled[OF s(2,4) True] by blast
    let ?w = "((fst w1)\<lparr>os_kernel := k\<rparr>, snd w1)"
    have rd: "event_ready (revents i) w1 (rules1 ! i) \<longrightarrow> todo ?w (rules1 ! i)" if "i < length rules1" for i
      using w2 s(4) that nth_mem[OF that] by (auto simp: Let_def todo_def event_ready_def Rule_pollfd_def split: if_splits)
    obtain rules2 w' where h: "handle_events revents 0 (map (Rule_pollfd w1) rules1) rules1 ?w = Inr (rules2, w')"
      "invar rules2 w'" "sz w' + length rules2 < sz ?w + length rules1"
      using handle_ends[of "[]" rules1 ?w revents 0 w1] w2 rd by (auto simp: Let_def)
    have "EventLoop_wait_next_event sys timeout_ms rules w = Inr (Success, rules2, w')"
      unfolding EventLoop_wait_next_event_def s(1) using True p h(1) by (simp add: SystemCall_def Let_def)
    moreover have "sz w' + length rules2 < sz w + length rules" using h(3) s(3) w2 by (auto simp: Let_def)
    ultimately show ?thesis using h(2) by auto
  qed
qed

lemma run_ends:
  "invar rules w \<Longrightarrow> \<exists>rules' w'. run_until_exit sys timeout_ms rules w = Some (Inr (rules', w')) \<and> invar rules' w'
    \<and> (\<forall>r \<in> set rules'. healthy w' r \<and> \<not> rl_interest r w')"
proof (induction "sz w + length rules" arbitrary: rules w rule: less_induct)
  case less
  obtain ret rules1 w1 where w1: "EventLoop_wait_next_event sys timeout_ms rules w = Inr (ret, rules1, w1)" "invar rules1 w1"
    "if ret = Exit then \<forall>r \<in> set rules1. healthy w1 r \<and> \<not> rl_interest r w1 else sz w1 + length rules1 < sz w + length rules"
    using wait_progress[OF less.prems] by blast
  then show ?case using less.hyps[of w1 rules1] by (cases "ret = Exit"; subst run_until_exit.simps; cases w1; auto)
qed

end

section \<open>Properties\<close>

text \<open>
  C26. What \<^verbatim>\<open>wait_next_event\<close> does, when no descriptor is at its end, closed, hung up or in error: it
  returns \<^verbatim>\<open>Exit\<close> if no rule is interested or a signal interrupted \<^verbatim>\<open>poll\<close>, \<^verbatim>\<open>Timeout\<close> if \<^verbatim>\<open>poll\<close> returned 0,
  and otherwise runs, in the order in which the rules were added, the callbacks of exactly the rules
  that were interested and are ready, throwing if one neither reads nor writes its descriptor nor
  loses interest. Any other failure of \<^verbatim>\<open>poll\<close> is treated as a success.
\<close>

theorem wait_next_event_outcome:
  assumes "\<forall>r \<in> set rules. healthy w r"
    and "sys_poll sys (map (Rule_pollfd w) rules) timeout_ms (os_kernel (fst w)) = ((ret, revents), k)"
    and "\<forall>i < length rules. and (revents i) (or POLLERR POLLNVAL) = 0 \<and> and (revents i) POLLHUP = 0"
  defines "w' \<equiv> ((fst w)\<lparr>os_kernel := k\<rparr>, snd w)"
  shows "EventLoop_wait_next_event sys timeout_ms rules w =
    (if \<forall>r \<in> set rules. \<not> rl_interest r w then Inr (Exit, rules, w)
     else if fst ret = 0 then Inr (Timeout, rules, w')
     else if fst ret < 0 \<and> snd ret = EINTR then Inr (Exit, rules, w')
     else map_result (\<lambda>w. (Success, rules, w)) (serve_all (ready_rules revents 0 w rules) w'))"
  using handle_ready[of 0 rules revents w w'] assms(3)
  by (auto simp: EventLoop_wait_next_event_def setup_healthy[OF assms(1)] assms(2) w'_def SystemCall_def EINTR_def Let_def
      map_result_map)

text \<open>\<^verbatim>\<open>poll\<close> fails with \<^verbatim>\<open>EBADF\<close>: the caller is told that all went well.\<close>

definition failing_poll :: "unit loop_calls" where
  "failing_poll = \<lparr>sys_read = (\<lambda>fd n k. (((0, 0), []), k)), sys_writev = (\<lambda>fd iov k. ((0, 0), k)),
     sys_close = (\<lambda>fd k. ((0, 0), k)), sys_getfl = (\<lambda>fd k. ((0, 0), k)), sys_setfl = (\<lambda>fd flags k. ((0, 0), k)),
     sys_poll = (\<lambda>fds timeout k. (((-1, 9), \<lambda>_. 0), k))\<rparr>"

definition eager_rule :: "(unit, nat) Rule" where
  "eager_rule = \<lparr>rl_fd = 0, rl_direction = Direction_In, rl_callback = (\<lambda>(s, n). Inr (register_read 0 s, n + 1)),
     rl_interest = (\<lambda>_. True), rl_cancel = Inr\<rparr>"

definition idle_world :: "(unit, nat) world" where
  "idle_world = (\<lparr>os_fds = (\<lambda>_. \<lparr>fw_fd = 4, fw_eof = False, fw_closed = False, fw_read_count = 0, fw_write_count = 0\<rparr>),
     os_kernel = ()\<rparr>, 0)"

theorem wait_next_event_outcome_witness:
  "EventLoop_wait_next_event failing_poll (-1) [eager_rule] idle_world = Inr (Success, [eager_rule], idle_world)"
  using wait_next_event_outcome[of "[eager_rule]" idle_world failing_poll "-1" "(-1, 9)" "\<lambda>_. 0" "()"]
  by (simp add: healthy_def Rule_fd_def failing_poll_def eager_rule_def idle_world_def ready_rules_def EINTR_def)

end
