(* ===== verification/Sockets.thy ===== *)
theory Sockets
  imports Event_Loop Address
begin

text \<open>
  \<^verbatim>\<open>libsponge/util/socket.{hh,cc}\<close> and \<^verbatim>\<open>util/tun.{hh,cc}\<close>: sockets and TUN/TAP devices as file
  descriptors. Each method is one or two system calls and the bookkeeping of reads and writes that
  the event loop relies on. A call that fills in memory (an address, a datagram, an option) gives
  the contents together with the length it reports.
\<close>

record 'k socket_calls = "'k loop_calls" +
  sys_socket :: "int \<Rightarrow> int \<Rightarrow> 'k \<Rightarrow> sysret \<times> 'k"
  sys_getsockopt :: "int \<Rightarrow> int \<Rightarrow> int \<Rightarrow> 'k \<Rightarrow> (sysret \<times> int \<times> u32) \<times> 'k"
  sys_setsockopt :: "int \<Rightarrow> int \<Rightarrow> int \<Rightarrow> int \<Rightarrow> 'k \<Rightarrow> sysret \<times> 'k"
  sys_getsockname :: "int \<Rightarrow> 'k \<Rightarrow> (sysret \<times> bytes \<times> u32) \<times> 'k"
  sys_getpeername :: "int \<Rightarrow> 'k \<Rightarrow> (sysret \<times> bytes \<times> u32) \<times> 'k"
  sys_bind :: "int \<Rightarrow> bytes \<Rightarrow> 'k \<Rightarrow> sysret \<times> 'k"
  sys_connect :: "int \<Rightarrow> bytes \<Rightarrow> 'k \<Rightarrow> sysret \<times> 'k"
  sys_shutdown :: "int \<Rightarrow> int \<Rightarrow> 'k \<Rightarrow> sysret \<times> 'k"
  sys_recvfrom :: "int \<Rightarrow> u64 \<Rightarrow> 'k \<Rightarrow> (sysret \<times> bytes \<times> bytes \<times> u32) \<times> 'k"
  sys_sendmsg :: "int \<Rightarrow> bytes \<Rightarrow> (bytes \<times> u64) list \<Rightarrow> 'k \<Rightarrow> sysret \<times> 'k"
  sys_listen :: "int \<Rightarrow> int \<Rightarrow> 'k \<Rightarrow> sysret \<times> 'k"
  sys_accept :: "int \<Rightarrow> 'k \<Rightarrow> sysret \<times> 'k"
  sys_open :: "string \<Rightarrow> int \<Rightarrow> 'k \<Rightarrow> sysret \<times> 'k"
  sys_tunsetiff :: "int \<Rightarrow> string \<Rightarrow> u16 \<Rightarrow> 'k \<Rightarrow> sysret \<times> 'k"

text \<open>A call on the kernel whose value matters only if it is negative.\<close>

definition checked :: "string \<Rightarrow> (int \<Rightarrow> 'k \<Rightarrow> sysret \<times> 'k) \<Rightarrow> FileDescriptor \<Rightarrow> 'k os \<Rightarrow> 'k os result" where
  "checked attempt call h s =
     (let (ret, k) = call (fw_fd (os_fds s h)) (os_kernel s)
      in map_result (\<lambda>_. s\<lparr>os_kernel := k\<rparr>) (SystemCall attempt ret 0))"

definition AF_UNIX :: int where "AF_UNIX = 1"
definition SOCK_STREAM :: int where "SOCK_STREAM = 1"
definition SOCK_DGRAM :: int where "SOCK_DGRAM = 2"
definition SOL_SOCKET :: int where "SOL_SOCKET = 1"
definition SO_REUSEADDR :: int where "SO_REUSEADDR = 2"
definition SO_TYPE :: int where "SO_TYPE = 3"
definition SO_DOMAIN :: int where "SO_DOMAIN = 39"
definition SHUT_RD :: int where "SHUT_RD = 0"
definition SHUT_WR :: int where "SHUT_WR = 1"
definition SHUT_RDWR :: int where "SHUT_RDWR = 2"

section \<open>Socket\<close>

text \<open>The constructors; \<open>h\<close> is the handle of the new descriptor.\<close>

definition Socket_new :: "('k, 'x) socket_calls_scheme \<Rightarrow> FileDescriptor \<Rightarrow> int \<Rightarrow> int \<Rightarrow> 'k os \<Rightarrow> 'k os result" where
  "Socket_new sys h domain type s =
     (let (ret, k) = sys_socket sys domain type (os_kernel s)
      in bind_result (SystemCall ''socket'' ret 0) (\<lambda>fd. FileDescriptor_new h fd (s\<lparr>os_kernel := k\<rparr>)))"

definition verify_option ::
  "('k, 'x) socket_calls_scheme \<Rightarrow> FileDescriptor \<Rightarrow> int \<Rightarrow> int \<Rightarrow> string \<Rightarrow> 'k os \<Rightarrow> 'k os result" where
  "verify_option sys h option expected mismatch s =
     (let ((ret, actual_value, len), k) = sys_getsockopt sys (fw_fd (os_fds s h)) SOL_SOCKET option (os_kernel s)
      in bind_result (SystemCall ''getsockopt'' ret 0) (\<lambda>_.
           if len \<noteq> 4 \<or> actual_value \<noteq> expected then Inl (Runtime_Error mismatch) else Inr (s\<lparr>os_kernel := k\<rparr>)))"

definition Socket_of_FileDescriptor ::
  "('k, 'x) socket_calls_scheme \<Rightarrow> FileDescriptor \<Rightarrow> int \<Rightarrow> int \<Rightarrow> 'k os \<Rightarrow> 'k os result" where
  "Socket_of_FileDescriptor sys h domain type s =
     bind_result (verify_option sys h SO_DOMAIN domain ''socket domain mismatch'' s)
       (verify_option sys h SO_TYPE type ''socket type mismatch'')"

definition Socket_get_address ::
  "string \<Rightarrow> (int \<Rightarrow> 'k \<Rightarrow> (sysret \<times> bytes \<times> u32) \<times> 'k) \<Rightarrow> FileDescriptor \<Rightarrow> 'k os \<Rightarrow> (Address \<times> 'k os) result" where
  "Socket_get_address name_of_function function h s =
     (let ((ret, address, sz), k) = function (fw_fd (os_fds s h)) (os_kernel s)
      in bind_result (SystemCall name_of_function ret 0) (\<lambda>_.
           if sz > 128 then Inl (Runtime_Error ''invalid sockaddr size'')
           else map_result (\<lambda>a. (a, s\<lparr>os_kernel := k\<rparr>)) (Address_of_sockaddr (take (unat sz) address))))"

definition Socket_local_address :: "('k, 'x) socket_calls_scheme \<Rightarrow> FileDescriptor \<Rightarrow> 'k os \<Rightarrow> (Address \<times> 'k os) result" where
  "Socket_local_address sys = Socket_get_address ''getsockname'' (sys_getsockname sys)"

definition Socket_peer_address :: "('k, 'x) socket_calls_scheme \<Rightarrow> FileDescriptor \<Rightarrow> 'k os \<Rightarrow> (Address \<times> 'k os) result" where
  "Socket_peer_address sys = Socket_get_address ''getpeername'' (sys_getpeername sys)"

text \<open>What is passed as \<^verbatim>\<open>(address, address.size())\<close>.\<close>

definition Address_raw :: "Address \<Rightarrow> bytes" where
  "Address_raw a = take (unat (ad_size a)) (ad_storage a)"

definition Socket_bind :: "('k, 'x) socket_calls_scheme \<Rightarrow> FileDescriptor \<Rightarrow> Address \<Rightarrow> 'k os \<Rightarrow> 'k os result" where
  "Socket_bind sys h address = checked ''bind'' (\<lambda>fd. sys_bind sys fd (Address_raw address)) h"

definition Socket_connect :: "('k, 'x) socket_calls_scheme \<Rightarrow> FileDescriptor \<Rightarrow> Address \<Rightarrow> 'k os \<Rightarrow> 'k os result" where
  "Socket_connect sys h address = checked ''connect'' (\<lambda>fd. sys_connect sys fd (Address_raw address)) h"

definition Socket_shutdown :: "('k, 'x) socket_calls_scheme \<Rightarrow> FileDescriptor \<Rightarrow> int \<Rightarrow> 'k os \<Rightarrow> 'k os result" where
  "Socket_shutdown sys h how s =
     bind_result (checked ''shutdown'' (\<lambda>fd. sys_shutdown sys fd how) h s) (\<lambda>s.
       if how = SHUT_RD then Inr (register_read h s)
       else if how = SHUT_WR then Inr (register_write h s)
       else if how = SHUT_RDWR then Inr (register_write h (register_read h s))
       else Inl (Runtime_Error ''Socket::shutdown() called with invalid `how`''))"

definition Socket_setsockopt :: "('k, 'x) socket_calls_scheme \<Rightarrow> FileDescriptor \<Rightarrow> int \<Rightarrow> int \<Rightarrow> int \<Rightarrow> 'k os \<Rightarrow> 'k os result" where
  "Socket_setsockopt sys h level option option_value =
     checked ''setsockopt'' (\<lambda>fd. sys_setsockopt sys fd level option option_value) h"

definition Socket_set_reuseaddr :: "('k, 'x) socket_calls_scheme \<Rightarrow> FileDescriptor \<Rightarrow> 'k os \<Rightarrow> 'k os result" where
  "Socket_set_reuseaddr sys h = Socket_setsockopt sys h SOL_SOCKET SO_REUSEADDR 1"

section \<open>UDP, TCP and local sockets\<close>

definition UDPSocket_new :: "('k, 'x) socket_calls_scheme \<Rightarrow> FileDescriptor \<Rightarrow> 'k os \<Rightarrow> 'k os result" where
  "UDPSocket_new sys h = Socket_new sys h (uint AF_INET) SOCK_DGRAM"

definition TCPSocket_new :: "('k, 'x) socket_calls_scheme \<Rightarrow> FileDescriptor \<Rightarrow> 'k os \<Rightarrow> 'k os result" where
  "TCPSocket_new sys h = Socket_new sys h (uint AF_INET) SOCK_STREAM"

definition LocalStreamSocket_new :: "('k, 'x) socket_calls_scheme \<Rightarrow> FileDescriptor \<Rightarrow> 'k os \<Rightarrow> 'k os result" where
  "LocalStreamSocket_new sys h = Socket_of_FileDescriptor sys h AF_UNIX SOCK_STREAM"

record received_datagram =
  rd_source_address :: Address
  rd_payload :: bytes

text \<open>\<^verbatim>\<open>recvfrom\<close> with \<^verbatim>\<open>MSG_TRUNC\<close> returns the length of the datagram even if it is longer than the buffer.\<close>

definition UDPSocket_recv :: "('k, 'x) socket_calls_scheme \<Rightarrow> FileDescriptor \<Rightarrow> u64 \<Rightarrow> 'k os \<Rightarrow> (received_datagram \<times> 'k os) result" where
  "UDPSocket_recv sys h mtu s =
     (let ((ret, payload, address, fromlen), k) = sys_recvfrom sys (fw_fd (os_fds s h)) mtu (os_kernel s)
      in bind_result (SystemCall ''recvfrom'' (int_of_ssize ret) 0) (\<lambda>recv_len.
           if recv_len > sint mtu then Inl (Runtime_Error ''recvfrom (oversized datagram)'')
           else let s = register_read h (s\<lparr>os_kernel := k\<rparr>)
                in if fromlen > 128 then Inl (Runtime_Error ''invalid sockaddr size'')
                   else bind_result (Address_of_sockaddr (take (unat fromlen) address)) (\<lambda>source_address.
                     if recv_len < 0 then Inl (Length_Error ''basic_string::resize'')
                     else Inr (\<lparr>rd_source_address = source_address, rd_payload = take (nat recv_len) payload\<rparr>, s))))"

text \<open>A missing destination is the empty string of bytes.\<close>

definition sendmsg_helper ::
  "('k, 'x) socket_calls_scheme \<Rightarrow> FileDescriptor \<Rightarrow> bytes \<Rightarrow> BufferViewList \<Rightarrow> 'k os \<Rightarrow> 'k os result" where
  "sendmsg_helper sys h destination payload s =
     (let (ret, k) = sys_sendmsg sys (fw_fd (os_fds s h)) destination (BufferViewList_as_iovecs payload) (os_kernel s)
      in bind_result (SystemCall ''sendmsg'' (int_of_ssize ret) 0) (\<lambda>bytes_sent.
           if word_of_int bytes_sent \<noteq> BufferViewList_size payload
           then Inl (Runtime_Error ''datagram payload too big for sendmsg()'')
           else Inr (s\<lparr>os_kernel := k\<rparr>)))"

definition UDPSocket_sendto ::
  "('k, 'x) socket_calls_scheme \<Rightarrow> FileDescriptor \<Rightarrow> Address \<Rightarrow> BufferViewList \<Rightarrow> 'k os \<Rightarrow> 'k os result" where
  "UDPSocket_sendto sys h destination payload s =
     map_result (register_write h) (sendmsg_helper sys h (Address_raw destination) payload s)"

definition UDPSocket_send :: "('k, 'x) socket_calls_scheme \<Rightarrow> FileDescriptor \<Rightarrow> BufferViewList \<Rightarrow> 'k os \<Rightarrow> 'k os result" where
  "UDPSocket_send sys h payload s = map_result (register_write h) (sendmsg_helper sys h [] payload s)"

definition TCPSocket_listen :: "('k, 'x) socket_calls_scheme \<Rightarrow> FileDescriptor \<Rightarrow> int \<Rightarrow> 'k os \<Rightarrow> 'k os result" where
  "TCPSocket_listen sys h backlog = checked ''listen'' (\<lambda>fd. sys_listen sys fd backlog) h"

definition TCPSocket_accept :: "('k, 'x) socket_calls_scheme \<Rightarrow> FileDescriptor \<Rightarrow> FileDescriptor \<Rightarrow> 'k os \<Rightarrow> 'k os result" where
  "TCPSocket_accept sys h accepted s =
     (let s = register_read h s;
          (ret, k) = sys_accept sys (fw_fd (os_fds s h)) (os_kernel s)
      in bind_result (SystemCall ''accept'' ret 0) (\<lambda>fd.
         bind_result (FileDescriptor_new accepted fd (s\<lparr>os_kernel := k\<rparr>))
           (Socket_of_FileDescriptor sys accepted (uint AF_INET) SOCK_STREAM)))"

section \<open>TUN and TAP devices\<close>

definition CLONEDEV :: string where "CLONEDEV = ''/dev/net/tun''"
definition O_RDWR :: int where "O_RDWR = 2"
definition IFF_TUN :: u16 where "IFF_TUN = 1"
definition IFF_TAP :: u16 where "IFF_TAP = 2"
definition IFF_NO_PI :: u16 where "IFF_NO_PI = 0x1000"
definition IFNAMSIZ :: nat where "IFNAMSIZ = 16"

text \<open>\<^verbatim>\<open>strncpy\<close> into a zeroed array: at most fifteen characters, up to the first null character.\<close>

definition TunTapFD_new :: "('k, 'x) socket_calls_scheme \<Rightarrow> FileDescriptor \<Rightarrow> string \<Rightarrow> bool \<Rightarrow> 'k os \<Rightarrow> 'k os result" where
  "TunTapFD_new sys h devname is_tun s =
     (let (ret, k) = sys_open sys CLONEDEV O_RDWR (os_kernel s)
      in bind_result (SystemCall ''open'' ret 0) (\<lambda>fd.
         bind_result (FileDescriptor_new h fd (s\<lparr>os_kernel := k\<rparr>))
           (checked ''ioctl'' (\<lambda>fd. sys_tunsetiff sys fd (takeWhile (\<lambda>c. c \<noteq> CHR 0x00) (take (IFNAMSIZ - 1) devname))
              (or (if is_tun then IFF_TUN else IFF_TAP) IFF_NO_PI)) h)))"

definition TunFD_new :: "('k, 'x) socket_calls_scheme \<Rightarrow> FileDescriptor \<Rightarrow> string \<Rightarrow> 'k os \<Rightarrow> 'k os result" where
  "TunFD_new sys h devname = TunTapFD_new sys h devname True"

definition TapFD_new :: "('k, 'x) socket_calls_scheme \<Rightarrow> FileDescriptor \<Rightarrow> string \<Rightarrow> 'k os \<Rightarrow> 'k os result" where
  "TapFD_new sys h devname = TunTapFD_new sys h devname False"

section \<open>No undefined behaviour\<close>

lemma checked_sound [no_ub]: "sound (\<lambda>_. True) (checked attempt call h s)"
  by (simp add: checked_def split_beta Let_def no_ub)

lemma Socket_sound [no_ub]:
  "sound (\<lambda>_. True) (Socket_shutdown sys h how s)" "sound (\<lambda>_. True) (Socket_new sys h domain type s)"
  "sound (\<lambda>_. True) (LocalStreamSocket_new sys h s)"
  by (auto simp: Socket_shutdown_def Socket_new_def LocalStreamSocket_new_def Socket_of_FileDescriptor_def verify_option_def
      Let_def split_beta intro!: no_ub)

lemma UDPSocket_sound [no_ub]:
  "sound (\<lambda>_. True) (UDPSocket_recv sys h mtu s)" "sound (\<lambda>_. True) (UDPSocket_sendto sys h a payload s)"
  by (auto simp: UDPSocket_recv_def UDPSocket_sendto_def sendmsg_helper_def Let_def split_beta intro!: no_ub)

lemma TunTapFD_sound [no_ub]:
  "sound (\<lambda>_. True) (TunFD_new sys h devname s)" "sound (\<lambda>_. True) (TapFD_new sys h devname s)"
  by (auto simp: TunFD_new_def TapFD_new_def TunTapFD_new_def Let_def split_beta intro!: no_ub)

text \<open>\<^verbatim>\<open>shutdown(2)\<close> does not write.\<close>

definition shutdown_silent :: "('k, 'x) socket_calls_scheme \<Rightarrow> ('k \<Rightarrow> bytes) \<Rightarrow> bool" where
  "shutdown_silent sys out \<longleftrightarrow> (\<forall>fd how k. out (snd (sys_shutdown sys fd how k)) = out k)"

lemma shutdown_out:
  assumes "shutdown_silent sys out" and "Socket_shutdown sys h how s = Inr s'"
  shows "out (os_kernel s') = out (os_kernel s)"
  using assms unfolding Socket_shutdown_def checked_def shutdown_silent_def
  by (auto simp: bind_result_Inr_iff map_result_Inr_iff split_beta Let_def register_read_def register_write_def update_fd_def split: if_splits)

end
