(* ===== verification/TCP_Over_IP.thy ===== *)
theory TCP_Over_IP
  imports Network_Interface TCP_Sender Sockets
begin

text \<open>
  The adapters between TCP segments and what carries them: \<^verbatim>\<open>libsponge/tcp_helpers/tcp_over_ip.cc\<close>,
  \<^verbatim>\<open>fd_adapter.{hh,cc}\<close> (over UDP) and \<^verbatim>\<open>tuntap_adapter.{hh,cc}\<close>. What is read from a socket or device is
  an argument, what is written to it a result; \<open>Sponge_Socket\<close> puts them on top of their descriptors.
\<close>

section \<open>The model\<close>

record FdAdapterConfig =
  fd_source :: Address
  fd_destination :: Address
  fd_loss_rate_dn :: u16
  fd_loss_rate_up :: u16

definition FdAdapterConfig_default :: "getaddrinfo \<Rightarrow> FdAdapterConfig result" where
  "FdAdapterConfig_default gai =
     bind_result (Address_of_ip gai ''0'' 0) (\<lambda>source.
     map_result (\<lambda>destination. \<lparr>fd_source = source, fd_destination = destination, fd_loss_rate_dn = 0, fd_loss_rate_up = 0\<rparr>)
       (Address_of_ip gai ''0'' 0))"

record FdAdapterBase =
  fa_cfg :: FdAdapterConfig
  fa_listen :: bool

definition FdAdapterBase_set_listening :: "bool \<Rightarrow> FdAdapterBase \<Rightarrow> FdAdapterBase" where
  "FdAdapterBase_set_listening l fa = fa\<lparr>fa_listen := l\<rparr>"

text \<open>\<^verbatim>\<open>unwrap_tcp_in_ip\<close>: \<open>gai\<close> and \<open>gni\<close> are \<^verbatim>\<open>getaddrinfo\<close> and \<^verbatim>\<open>getnameinfo\<close>.\<close>

definition unwrap_tcp_in_ip ::
  "getaddrinfo \<Rightarrow> getnameinfo \<Rightarrow> InternetDatagram \<Rightarrow> FdAdapterBase \<Rightarrow> (TCPSegment option \<times> FdAdapterBase) result" where
  "unwrap_tcp_in_ip gai gni ip_dgram fa =
     (let iph = dg_header ip_dgram
      in bind_result (if fa_listen fa then Inr True
                      else map_result (\<lambda>me. ip_dst iph = me) (Address_ipv4_numeric (fd_source (fa_cfg fa)))) (\<lambda>for_us.
         if \<not> for_us then Inr (None, fa)
         else bind_result (if fa_listen fa then Inr True
                           else map_result (\<lambda>peer. ip_src iph = peer) (Address_ipv4_numeric (fd_destination (fa_cfg fa)))) (\<lambda>from_peer.
         if \<not> from_peer then Inr (None, fa)
         else if ip_proto iph \<noteq> PROTO_TCP then Inr (None, fa)
         else bind_result (BufferList_to_Buffer (dg_payload ip_dgram)) (\<lambda>payload.
           let (result, tcp_seg) = TCPSegment_parse payload (IPv4Header_pseudo_cksum iph) TCPSegment_default; tcph = seg_header tcp_seg
           in if result \<noteq> NoError then Inr (None, fa)
              else bind_result (Address_port gni (fd_source (fa_cfg fa))) (\<lambda>my_port.
                if tcp_dport tcph \<noteq> my_port then Inr (None, fa)
                else if fa_listen fa \<and> \<not> (tcp_syn tcph \<and> \<not> tcp_rst tcph) then Inr (None, fa)
                else bind_result
                  (if fa_listen fa
                   then bind_result (Address_of_ip gai (inet_ntoa (ip_dst iph)) my_port) (\<lambda>source.
                        map_result (\<lambda>destination. fa\<lparr>fa_cfg := (fa_cfg fa)\<lparr>fd_source := source, fd_destination := destination\<rparr>,
                                                      fa_listen := False\<rparr>)
                          (Address_of_ip gai (inet_ntoa (ip_src iph)) (tcp_sport tcph)))
                   else Inr fa) (\<lambda>fa.
                map_result (\<lambda>peer_port. if tcp_sport tcph \<noteq> peer_port then (None, fa) else (Some tcp_seg, fa))
                  (Address_port gni (fd_destination (fa_cfg fa)))))))))"

definition wrap_tcp_in_ip :: "getnameinfo \<Rightarrow> FdAdapterBase \<Rightarrow> TCPSegment \<Rightarrow> (TCPSegment \<times> InternetDatagram) result" where
  "wrap_tcp_in_ip gni fa seg =
     bind_result (Address_port gni (fd_source (fa_cfg fa))) (\<lambda>sport.
     bind_result (Address_port gni (fd_destination (fa_cfg fa))) (\<lambda>dport.
     bind_result (Address_ipv4_numeric (fd_source (fa_cfg fa))) (\<lambda>src.
     bind_result (Address_ipv4_numeric (fd_destination (fa_cfg fa))) (\<lambda>dst.
       let seg = seg\<lparr>seg_header := (seg_header seg)\<lparr>tcp_sport := sport, tcp_dport := dport\<rparr>\<rparr>;
           iph = IPv4Header_default\<lparr>ip_src := src, ip_dst := dst,
             ip_len := ucast (ucast (ip_hlen IPv4Header_default) * 4 + ucast (tcp_doff (seg_header seg)) * 4
                              + Buffer_size (seg_payload seg) :: u64)\<rparr>
       in map_result (\<lambda>payload. (seg, \<lparr>dg_header = iph, dg_payload = payload\<rparr>))
            (TCPSegment_serialize (IPv4Header_pseudo_cksum iph) seg)))))"

text \<open>Over a TUN device: datagrams.\<close>

definition TCPOverIPv4OverTunFdAdapter_read ::
  "getaddrinfo \<Rightarrow> getnameinfo \<Rightarrow> bytes \<Rightarrow> FdAdapterBase \<Rightarrow> (TCPSegment option \<times> FdAdapterBase) result" where
  "TCPOverIPv4OverTunFdAdapter_read gai gni tun_read fa =
     (let (result, ip_dgram) = IPv4Datagram_parse (Buffer_of_string tun_read) IPv4Datagram_default
      in if result \<noteq> NoError then Inr (None, fa) else unwrap_tcp_in_ip gai gni ip_dgram fa)"

definition TCPOverIPv4OverTunFdAdapter_write :: "getnameinfo \<Rightarrow> FdAdapterBase \<Rightarrow> TCPSegment \<Rightarrow> BufferList result" where
  "TCPOverIPv4OverTunFdAdapter_write gni fa seg =
     bind_result (wrap_tcp_in_ip gni fa seg) (\<lambda>(_, ip_dgram). IPv4Datagram_serialize ip_dgram)"

text \<open>Over a TAP device: frames. \<open>ea_tap\<close> is what was written to the device.\<close>

record EthernetAdapter =
  ea_base :: FdAdapterBase
  ea_interface :: NetworkInterface
  ea_next_hop :: Address
  ea_tap :: "BufferList list"

definition EthernetAdapter_new :: "getnameinfo \<Rightarrow> FdAdapterBase \<Rightarrow> EthernetAddress \<Rightarrow> Address \<Rightarrow> Address \<Rightarrow> EthernetAdapter result" where
  "EthernetAdapter_new gni base ethernet_address ip_address next_hop =
     map_result (\<lambda>ni. \<lparr>ea_base = base, ea_interface = ni, ea_next_hop = next_hop, ea_tap = [EthernetFrame_serialize EthernetFrame_default]\<rparr>)
       (NetworkInterface_new gni ethernet_address ip_address)"

definition EthernetAdapter_send_pending :: "EthernetAdapter \<Rightarrow> EthernetAdapter" where
  "EthernetAdapter_send_pending ea =
     ea\<lparr>ea_tap := ea_tap ea @ map EthernetFrame_serialize (ni_frames_out (ea_interface ea)),
        ea_interface := (ea_interface ea)\<lparr>ni_frames_out := []\<rparr>\<rparr>"

text \<open>\<^verbatim>\<open>read\<close> in two parts, since the frames that are pending are written to the device between them.\<close>

definition EthernetAdapter_receive :: "bytes \<Rightarrow> EthernetAdapter \<Rightarrow> (InternetDatagram option \<times> EthernetAdapter) result" where
  "EthernetAdapter_receive tap_read ea =
     (let (result, frame) = EthernetFrame_parse (Buffer_of_string tap_read) EthernetFrame_default
      in if result \<noteq> NoError then Inr (None, ea)
         else map_result (\<lambda>(ip_dgram, ni). (ip_dgram, EthernetAdapter_send_pending (ea\<lparr>ea_interface := ni\<rparr>)))
                (NetworkInterface_recv_frame frame (ea_interface ea)))"

definition EthernetAdapter_unwrap ::
  "getaddrinfo \<Rightarrow> getnameinfo \<Rightarrow> InternetDatagram option \<Rightarrow> EthernetAdapter \<Rightarrow> (TCPSegment option \<times> EthernetAdapter) result" where
  "EthernetAdapter_unwrap gai gni ip_dgram ea =
     (case ip_dgram of None \<Rightarrow> Inr (None, ea)
      | Some d \<Rightarrow> map_result (\<lambda>(seg, fa). (seg, ea\<lparr>ea_base := fa\<rparr>)) (unwrap_tcp_in_ip gai gni d (ea_base ea)))"

definition EthernetAdapter_tick :: "u64 \<Rightarrow> EthernetAdapter \<Rightarrow> EthernetAdapter result" where
  "EthernetAdapter_tick ms ea =
     map_result (\<lambda>ni. EthernetAdapter_send_pending (ea\<lparr>ea_interface := ni\<rparr>)) (NetworkInterface_tick ms (ea_interface ea))"

definition EthernetAdapter_write :: "getnameinfo \<Rightarrow> TCPSegment \<Rightarrow> EthernetAdapter \<Rightarrow> EthernetAdapter result" where
  "EthernetAdapter_write gni seg ea =
     bind_result (wrap_tcp_in_ip gni (ea_base ea) seg) (\<lambda>(_, ip_dgram).
     map_result (\<lambda>ni. EthernetAdapter_send_pending (ea\<lparr>ea_interface := ni\<rparr>))
       (NetworkInterface_send_datagram ip_dgram (ea_next_hop ea) (ea_interface ea)))"

text \<open>Over UDP.\<close>

definition TCPOverUDPSocketAdapter_read :: "received_datagram \<Rightarrow> FdAdapterBase \<Rightarrow> TCPSegment option \<times> FdAdapterBase" where
  "TCPOverUDPSocketAdapter_read datagram fa =
     (if \<not> fa_listen fa \<and> \<not> Address_eq (rd_source_address datagram) (fd_destination (fa_cfg fa)) then (None, fa)
      else let (result, seg) = TCPSegment_parse (Buffer_of_string (rd_payload datagram)) 0 TCPSegment_default
           in if result \<noteq> NoError then (None, fa)
              else if fa_listen fa
              then if tcp_syn (seg_header seg) \<and> \<not> tcp_rst (seg_header seg)
                   then (Some seg, fa\<lparr>fa_cfg := (fa_cfg fa)\<lparr>fd_destination := rd_source_address datagram\<rparr>, fa_listen := False\<rparr>)
                   else (None, fa)
              else (Some seg, fa))"

definition TCPOverUDPSocketAdapter_write :: "getnameinfo \<Rightarrow> FdAdapterBase \<Rightarrow> TCPSegment \<Rightarrow> (Address \<times> BufferList) result" where
  "TCPOverUDPSocketAdapter_write gni fa seg =
     bind_result (Address_port gni (fd_source (fa_cfg fa))) (\<lambda>sport.
     bind_result (Address_port gni (fd_destination (fa_cfg fa))) (\<lambda>dport.
     map_result (\<lambda>payload. (fd_destination (fa_cfg fa), payload))
       (TCPSegment_serialize 0 (seg\<lparr>seg_header := (seg_header seg)\<lparr>tcp_sport := sport, tcp_dport := dport\<rparr>\<rparr>))))"

section \<open>Segments through a datagram\<close>

lemma TCPSegment_parse_serialized:
  assumes "5 \<le> tcp_doff (seg_header seg)" and "tcp_doff (seg_header seg) < 16"
    and "length (Buffer_str (seg_payload seg)) \<le> 65475" and "unat ck < 2 ^ 23"
    and k: "k = InternetChecksum_value (InternetChecksum_add
      (tcp_bytes ((seg_header seg)\<lparr>tcp_cksum := 0\<rparr>) @ Buffer_str (seg_payload seg)) (InternetChecksum_new ck))"
    and b: "Buffer_inv b" "Buffer_str b = tcp_bytes ((seg_header seg)\<lparr>tcp_cksum := k\<rparr>) @ Buffer_str (seg_payload seg)"
  shows "\<exists>seg'. TCPSegment_parse b ck seg0 = (NoError, seg') \<and> seg_header seg' = (seg_header seg)\<lparr>tcp_cksum := k\<rparr>
    \<and> Buffer_str (seg_payload seg') = Buffer_str (seg_payload seg)"
proof -
  have "np_at (NetParser_new b) (tcp_bytes ((seg_header seg)\<lparr>tcp_cksum := k\<rparr>) @ Buffer_str (seg_payload seg))" using b by simp
  from TCPHeader_parse_serialized[OF _ _ this] assms(1,2) obtain q where
    "TCPHeader_parse (NetParser_new b) = (NoError, (seg_header seg)\<lparr>tcp_cksum := k\<rparr>, q)" "np_at q (Buffer_str (seg_payload seg))"
    by auto
  then show ?thesis using TCPSegment_checksum_zero[OF assms(1-4) k] b(2)
    by (simp add: TCPSegment_parse_def np_at_def np_view_def)
qed

lemma pseudo_cksum_small: "unat (IPv4Header_pseudo_cksum h) < 2 ^ 23"
proof -
  have h: "unat (drop_bit 16 (x :: u32)) < 65536" "unat (and x 0xffff) < 65536" for x
    using unat32_bound[of x] by (simp_all add: unat_drop16 unat_take16)
  have s: "unat (a + b) \<le> unat a + unat b" for a b :: u32 by (simp add: unat_word_ariths)
  have "unat (IPv4Header_pseudo_cksum h) \<le> unat (drop_bit 16 (ip_src h)) + unat (and (ip_src h) 0xffff)
      + (unat (drop_bit 16 (ip_dst h)) + unat (and (ip_dst h) 0xffff)) + unat (ucast (ip_proto h) :: u32)
      + unat (ucast (IPv4Header_payload_length h) :: u32)"
    unfolding IPv4Header_pseudo_cksum_def Let_def by (meson s order_trans add_mono order_refl)
  moreover have "unat (ucast (ip_proto h) :: u32) < 256" "unat (ucast (IPv4Header_payload_length h) :: u32) < 65536"
    using unat8_bound unat16_bound by (simp_all add: unat_ucast_up)
  ultimately have "unat (IPv4Header_pseudo_cksum h) < 8388608" using h[of "ip_src h"] h[of "ip_dst h"] by linarith
  then show ?thesis by simp
qed

text \<open>Two adapters configured for each other.\<close>

definition fa_pair :: "u16 \<Rightarrow> u32 \<Rightarrow> u16 \<Rightarrow> u32 \<Rightarrow> FdAdapterBase \<Rightarrow> bool" where
  "fa_pair my_port my_ip peer_port peer_ip fa \<longleftrightarrow> \<not> fa_listen fa
     \<and> fd_source (fa_cfg fa) = ipv4_address my_port my_ip \<and> fd_destination (fa_cfg fa) = ipv4_address peer_port peer_ip"

definition with_ports :: "u16 \<Rightarrow> u16 \<Rightarrow> TCPSegment \<Rightarrow> TCPSegment" where
  "with_ports sport dport seg = seg\<lparr>seg_header := (seg_header seg)\<lparr>tcp_sport := sport, tcp_dport := dport\<rparr>\<rparr>"

lemma unat_ucast16_of_nat: "n < 65536 \<Longrightarrow> unat (ucast (of_nat n :: u64) :: u16) = n"
  by (simp add: unsigned_ucast_eq take_bit_eq_mod unat_of_nat64)

lemma wrap_tcp_in_ip_encodes:
  assumes fa: "fa_pair pa ia pb ib fa" and gni: "numeric_name gni pa ia" "numeric_name gni pb ib"
    and seg: "5 \<le> tcp_doff (seg_header seg)" "tcp_doff (seg_header seg) < 16" "length (Buffer_str (seg_payload seg)) \<le> 65455"
  shows "\<exists>d k. wrap_tcp_in_ip gni fa seg = Inr (with_ports pa pb seg, d) \<and> dg_encodable d
    \<and> ip_src (dg_header d) = ia \<and> ip_dst (dg_header d) = ib \<and> ip_proto (dg_header d) = PROTO_TCP
    \<and> BufferList_concatenate (dg_payload d) = tcp_bytes ((seg_header (with_ports pa pb seg))\<lparr>tcp_cksum := k\<rparr>)
        @ Buffer_str (seg_payload seg)
    \<and> k = InternetChecksum_value (InternetChecksum_add
        (tcp_bytes ((seg_header (with_ports pa pb seg))\<lparr>tcp_cksum := 0\<rparr>) @ Buffer_str (seg_payload seg))
        (InternetChecksum_new (IPv4Header_pseudo_cksum (dg_header d))))"
proof -
  let ?seg = "with_ports pa pb seg" and ?pl = "Buffer_str (seg_payload seg)"
  define iph where "iph = IPv4Header_default\<lparr>ip_src := ia, ip_dst := ib,
    ip_len := ucast (ucast (ip_hlen IPv4Header_default) * 4 + ucast (tcp_doff (seg_header ?seg)) * 4 + Buffer_size (seg_payload ?seg) :: u64)\<rparr>"
  define k where "k = InternetChecksum_value (InternetChecksum_add (tcp_bytes ((seg_header ?seg)\<lparr>tcp_cksum := 0\<rparr>) @ ?pl)
      (InternetChecksum_new (IPv4Header_pseudo_cksum iph)))"
  let ?d = "\<lparr>dg_header = iph, dg_payload = [Buffer_of_string (tcp_bytes ((seg_header ?seg)\<lparr>tcp_cksum := k\<rparr>)), seg_payload seg]\<rparr>"
  have f: "seg_payload ?seg = seg_payload seg" "tcp_doff (seg_header ?seg) = tcp_doff (seg_header seg)"
    by (simp_all add: with_ports_def)
  have "TCPSegment_serialize (IPv4Header_pseudo_cksum iph) ?seg = Inr (dg_payload ?d)"
    using TCPSegment_serialize_eq[of ?seg k "IPv4Header_pseudo_cksum iph"] seg(1) f by (simp add: k_def)
  then have w: "wrap_tcp_in_ip gni fa seg = Inr (?seg, ?d)"
    using fa numeric_port[OF gni(1)] numeric_port[OF gni(2)]
    by (simp add: wrap_tcp_in_ip_def fa_pair_def Let_def with_ports_def[symmetric] iph_def[symmetric])
  have n: "unat (tcp_doff (seg_header seg)) < 16" using seg(2) by (simp add: word_less_nat_alt)
  let ?n = "20 + 4 * unat (tcp_doff (seg_header seg)) + length ?pl"
  have "ip_len iph = ucast (of_nat ?n :: u64)"
    by (simp add: iph_def f IPv4Header_default_def Buffer_size_def size_of_def mult.commute)
  moreover have "?n < 65536" using n seg(3) by simp
  ultimately have len: "unat (ip_len iph) = ?n" using unat_ucast16_of_nat by metis
  have "ip_encodable iph" by (simp add: ip_encodable_def iph_def IPv4Header_default_def)
  moreover have "length (tcp_bytes ((seg_header ?seg)\<lparr>tcp_cksum := k\<rparr>)) = 4 * unat (tcp_doff (seg_header seg))"
    using length_tcp_bytes[of "(seg_header ?seg)\<lparr>tcp_cksum := k\<rparr>"] seg(1) f by simp
  ultimately have "dg_encodable ?d" using len by (simp add: dg_encodable_def) (simp add: iph_def IPv4Header_default_def)
  then show ?thesis using w
    by (intro exI[of _ ?d] exI[of _ k]) (simp add: k_def, simp add: iph_def IPv4Header_default_def)
qed

text \<open>What \<^verbatim>\<open>getaddrinfo\<close> does with a dotted quad and a numeric port, as \<^verbatim>\<open>getaddrinfo(3)\<close> documents it.\<close>

definition numeric_lookup :: "getaddrinfo \<Rightarrow> u16 \<Rightarrow> u32 \<Rightarrow> bool" where
  "numeric_lookup gai port ip \<longleftrightarrow> gai (inet_ntoa ip) (decimal (unat port)) (make_hints (or AI_NUMERICHOST AI_NUMERICSERV) AF_INET)
     = Inr (Some (sockaddr_in port ip))"

lemma lookup_address: "numeric_lookup gai port ip \<Longrightarrow> Address_of_ip gai (inet_ntoa ip) port = Inr (ipv4_address port ip)"
  by (simp add: numeric_lookup_def Address_of_ip_def Address_resolve_def of_sockaddr_in)

text \<open>An adapter that waits for a SYN to its port.\<close>

definition fa_listening :: "getnameinfo \<Rightarrow> u16 \<Rightarrow> FdAdapterBase \<Rightarrow> bool" where
  "fa_listening gni port fa \<longleftrightarrow> fa_listen fa \<and> Address_port gni (fd_source (fa_cfg fa)) = Inr port"

lemma unwrap_accepts:
  assumes d: "ip_src (dg_header d) = ia" "ip_dst (dg_header d) = ib" "ip_proto (dg_header d) = PROTO_TCP" "dg_payload d = [b]"
    and p: "TCPSegment_parse b (IPv4Header_pseudo_cksum (dg_header d)) TCPSegment_default = (NoError, seg)"
      "tcp_sport (seg_header seg) = pa" "tcp_dport (seg_header seg) = pb"
    and gni: "numeric_name gni pa ia" "numeric_name gni pb ib"
  shows "fa_pair pb ib pa ia fa \<Longrightarrow> unwrap_tcp_in_ip gai gni d fa = Inr (Some seg, fa)"
    and "fa_listening gni pb fa \<Longrightarrow> numeric_lookup gai pa ia \<Longrightarrow> numeric_lookup gai pb ib \<Longrightarrow>
      tcp_syn (seg_header seg) \<Longrightarrow> \<not> tcp_rst (seg_header seg) \<Longrightarrow>
      \<exists>fa'. unwrap_tcp_in_ip gai gni d fa = Inr (Some seg, fa') \<and> fa_pair pb ib pa ia fa'"
  using d p numeric_port[OF gni(1)] numeric_port[OF gni(2)]
  by (simp_all add: unwrap_tcp_in_ip_def fa_pair_def fa_listening_def lookup_address)

section \<open>Properties\<close>

text \<open>
  C22. Segments survive the trip over a TUN device: what \<^verbatim>\<open>write\<close> puts on the device for a segment that
  fits in a datagram is read back by the peer's adapter as that segment, with the configured ports
  and a valid checksum; a listening adapter accepts a SYN for its port from anyone and is from then
  on configured for the sender of it.
\<close>

theorem tcp_over_tun_roundtrip:
  assumes "fa_pair pa ia pb ib fa" and "numeric_name gni pa ia" and "numeric_name gni pb ib"
    and "numeric_lookup gai pa ia" and "numeric_lookup gai pb ib"
    and "5 \<le> tcp_doff (seg_header seg)" and "tcp_doff (seg_header seg) < 16" and "length (Buffer_str (seg_payload seg)) \<le> 65455"
    and "fa_pair pb ib pa ia peer \<or> fa_listening gni pb peer \<and> tcp_syn (seg_header seg) \<and> \<not> tcp_rst (seg_header seg)"
  shows "\<exists>bl seg' k peer'. TCPOverIPv4OverTunFdAdapter_write gni fa seg = Inr bl
    \<and> TCPOverIPv4OverTunFdAdapter_read gai gni (BufferList_concatenate bl) peer = Inr (Some seg', peer')
    \<and> seg_header seg' = (seg_header seg)\<lparr>tcp_sport := pa, tcp_dport := pb, tcp_cksum := k\<rparr>
    \<and> Buffer_str (seg_payload seg') = Buffer_str (seg_payload seg) \<and> fa_pair pb ib pa ia peer'"
proof -
  let ?seg = "with_ports pa pb seg" and ?pl = "Buffer_str (seg_payload seg)"
  obtain d k where w: "wrap_tcp_in_ip gni fa seg = Inr (?seg, d)" "dg_encodable d"
    and h: "ip_src (dg_header d) = ia" "ip_dst (dg_header d) = ib" "ip_proto (dg_header d) = PROTO_TCP"
    and b: "BufferList_concatenate (dg_payload d) = tcp_bytes ((seg_header ?seg)\<lparr>tcp_cksum := k\<rparr>) @ ?pl"
    and k: "k = InternetChecksum_value (InternetChecksum_add (tcp_bytes ((seg_header ?seg)\<lparr>tcp_cksum := 0\<rparr>) @ ?pl)
        (InternetChecksum_new (IPv4Header_pseudo_cksum (dg_header d))))"
    using wrap_tcp_in_ip_encodes[OF assms(1-3,6-8)] by blast
  define c where "c = InternetChecksum_value (InternetChecksum_add (ip_bytes ((dg_header d)\<lparr>ip_cksum := 0\<rparr>)) (InternetChecksum_new 0))"
  let ?h = "(dg_header d)\<lparr>ip_cksum := c\<rparr>"
  have s: "IPv4Datagram_serialize d = Inr (Buffer_of_string (ip_bytes ?h) # dg_payload d)"
    by (rule IPv4Datagram_serialize_eq[OF w(2) c_def])
  have e: "ip_encodable ?h" "4 * unat (ip_hlen ?h) + length (BufferList_concatenate (dg_payload d)) = unat (ip_len ?h)"
    using w(2) by (simp_all add: dg_encodable_def ip_encodable_def)
  obtain nb where q: "IPv4Datagram_parse (Buffer_of_string (ip_bytes ?h @ BufferList_concatenate (dg_payload d))) IPv4Datagram_default
      = (NoError, \<lparr>dg_header = ?h, dg_payload = [nb]\<rparr>)"
    "Buffer_str nb = tcp_bytes ((seg_header ?seg)\<lparr>tcp_cksum := k\<rparr>) @ ?pl" "Buffer_inv nb"
    using IPv4Datagram_parse_encoded[OF e, of IPv4Datagram_default] b by metis
  have pc: "IPv4Header_pseudo_cksum ?h = IPv4Header_pseudo_cksum (dg_header d)"
    by (simp add: IPv4Header_pseudo_cksum_def IPv4Header_payload_length_def)
  have ws: "seg_payload ?seg = seg_payload seg" "tcp_doff (seg_header ?seg) = tcp_doff (seg_header seg)"
    by (simp_all add: with_ports_def)
  obtain seg' where seg': "TCPSegment_parse nb (IPv4Header_pseudo_cksum ?h) TCPSegment_default = (NoError, seg')"
    "seg_header seg' = (seg_header ?seg)\<lparr>tcp_cksum := k\<rparr>" "Buffer_str (seg_payload seg') = ?pl"
    using TCPSegment_parse_serialized[of ?seg "IPv4Header_pseudo_cksum (dg_header d)" k nb TCPSegment_default]
      assms(6-8) k q(2,3) pseudo_cksum_small ws unfolding pc by auto
  let ?d = "\<lparr>dg_header = ?h, dg_payload = [nb]\<rparr>"
  have "\<exists>peer'. unwrap_tcp_in_ip gai gni ?d peer = Inr (Some seg', peer') \<and> fa_pair pb ib pa ia peer'"
    using unwrap_accepts[of ?d ia ib nb seg' pa pb gni peer gai] h seg' assms(2-5,9)
    by (auto simp: with_ports_def)
  then show ?thesis using w(1) s q(1) seg'(2,3)
    by (auto simp: TCPOverIPv4OverTunFdAdapter_write_def TCPOverIPv4OverTunFdAdapter_read_def with_ports_def)
qed

text \<open>A client at 10.0.0.1:1000 sends its SYN to a server listening at 10.0.0.2:80.\<close>

definition example_gni :: getnameinfo where
  "example_gni addr = (if addr = sockaddr_in 1000 0x0a000001 then Inr (inet_ntoa 0x0a000001, decimal 1000)
     else if addr = sockaddr_in 80 0x0a000002 then Inr (inet_ntoa 0x0a000002, decimal 80) else Inl (-1))"

definition example_gai :: getaddrinfo where
  "example_gai node service hints = (if service = decimal 1000 then Inr (Some (sockaddr_in 1000 0x0a000001))
     else if service = decimal 80 then Inr (Some (sockaddr_in 80 0x0a000002)) else Inl (-2))"

definition example_config :: FdAdapterConfig where
  "example_config = \<lparr>fd_source = ipv4_address 1000 0x0a000001, fd_destination = ipv4_address 80 0x0a000002,
     fd_loss_rate_dn = 0, fd_loss_rate_up = 0\<rparr>"

definition example_client :: FdAdapterBase where
  "example_client = \<lparr>fa_cfg = example_config, fa_listen = False\<rparr>"

definition example_server :: FdAdapterBase where
  "example_server = \<lparr>fa_cfg = example_config\<lparr>fd_source := ipv4_address 80 0x0a000002\<rparr>, fa_listen = True\<rparr>"

definition example_SYN :: TCPSegment where
  "example_SYN = TCPSegment_default\<lparr>seg_header := (seg_header TCPSegment_default)\<lparr>tcp_syn := True\<rparr>\<rparr>"

lemma example_names: "numeric_name example_gni 1000 0x0a000001" "numeric_name example_gni 80 0x0a000002"
    "numeric_lookup example_gai 1000 0x0a000001" "numeric_lookup example_gai 80 0x0a000002"
  by code_simp+

theorem tcp_over_tun_roundtrip_witness:
  "\<exists>bl seg' k peer'. TCPOverIPv4OverTunFdAdapter_write example_gni example_client example_SYN = Inr bl
    \<and> TCPOverIPv4OverTunFdAdapter_read example_gai example_gni (BufferList_concatenate bl) example_server = Inr (Some seg', peer')
    \<and> seg_header seg' = (seg_header example_SYN)\<lparr>tcp_sport := 1000, tcp_dport := 80, tcp_cksum := k\<rparr>
    \<and> Buffer_str (seg_payload seg') = Buffer_str (seg_payload example_SYN) \<and> fa_pair 80 0x0a000002 1000 0x0a000001 peer'"
proof (rule tcp_over_tun_roundtrip[OF _ example_names])
  show "fa_pair 1000 0x0a000001 80 0x0a000002 example_client"
    by (simp add: fa_pair_def example_client_def example_config_def)
  have "fa_listening example_gni 80 example_server"
    using numeric_port[OF example_names(2)] by (simp add: fa_listening_def example_server_def)
  moreover have "tcp_syn (seg_header example_SYN)" "\<not> tcp_rst (seg_header example_SYN)"
    by (code_simp, code_simp)
  ultimately show "fa_pair 80 0x0a000002 1000 0x0a000001 example_server \<or> fa_listening example_gni 80 example_server
      \<and> tcp_syn (seg_header example_SYN) \<and> \<not> tcp_rst (seg_header example_SYN)" by blast
qed (simp_all add: example_SYN_def TCPSegment_default_def TCPHeader_default_def)

end
