(* ===== verification/Sponge_Socket.thy ===== *)
theory Sponge_Socket
  imports TCP_Over_IP TCP_Lifecycle TCP_Network
begin

text \<open>
  \<^verbatim>\<open>libsponge/tcp_helpers/tcp_sponge_socket.{hh,cc}\<close>: the thread that runs a \<^verbatim>\<open>TCPConnection\<close> between a
  local socket, at the other end of which the application reads and writes, and a datagram adapter.
  Four rules of an event loop move bytes and segments. The template parameter \<^verbatim>\<open>AdaptT\<close> is a record of
  operations, for which the adapters of \<open>TCP_Over_IP\<close> are given on top of their descriptors, and the
  lossy adapter of \<^verbatim>\<open>lossy_fd_adapter.hh\<close> on top of those. The owner's
  thread acts through the kernel, and through \<^verbatim>\<open>_abort\<close>, which is read from the kernel's state.
  Debugging output is modelled only where composing it can throw. Threads as such, and \<^verbatim>\<open>join\<close>, are not.
\<close>

section \<open>Adapters\<close>

record ('k, 'a) datagram_adapter =
  da_fd :: "'a \<Rightarrow> FileDescriptor"
  da_read :: "'k os \<times> 'a \<Rightarrow> (TCPSegment option \<times> 'k os \<times> 'a) result"
  da_write :: "TCPSegment \<Rightarrow> 'k os \<times> 'a \<Rightarrow> ('k os \<times> 'a) result"
  da_tick :: "u64 \<Rightarrow> 'k os \<times> 'a \<Rightarrow> ('k os \<times> 'a) result"
  da_config :: "'a \<Rightarrow> FdAdapterConfig"
  da_set_config :: "FdAdapterConfig \<Rightarrow> 'a \<Rightarrow> 'a"
  da_set_listening :: "bool \<Rightarrow> 'a \<Rightarrow> 'a"

text \<open>The default argument of \<^verbatim>\<open>FileDescriptor::read\<close>.\<close>

definition no_limit :: u64 where "no_limit = -1"

record fd_adapter =
  fa_base :: FdAdapterBase
  fa_fd :: FileDescriptor

definition base_config :: "FdAdapterConfig \<Rightarrow> FdAdapterBase \<Rightarrow> FdAdapterBase" where
  "base_config cfg fa = fa\<lparr>fa_cfg := cfg\<rparr>"

definition tun_adapter :: "('k, 'x) socket_calls_scheme \<Rightarrow> getaddrinfo \<Rightarrow> getnameinfo \<Rightarrow> ('k, fd_adapter) datagram_adapter" where
  "tun_adapter sys gai gni =
     \<lparr>da_fd = fa_fd,
      da_read = (\<lambda>(s, a). bind_result (FileDescriptor_read sys (fa_fd a) no_limit s) (\<lambda>(str, s).
        map_result (\<lambda>(seg, fa). (seg, s, a\<lparr>fa_base := fa\<rparr>)) (TCPOverIPv4OverTunFdAdapter_read gai gni str (fa_base a)))),
      da_write = (\<lambda>seg (s, a). bind_result (TCPOverIPv4OverTunFdAdapter_write gni (fa_base a) seg) (\<lambda>bl.
        map_result (\<lambda>(_, s). (s, a)) (FileDescriptor_write sys (fa_fd a) (BufferViewList_of_BufferList bl) True s))),
      da_tick = (\<lambda>_. Inr),
      da_config = (\<lambda>a. fa_cfg (fa_base a)),
      da_set_config = (\<lambda>cfg a. a\<lparr>fa_base := base_config cfg (fa_base a)\<rparr>),
      da_set_listening = (\<lambda>l a. a\<lparr>fa_base := FdAdapterBase_set_listening l (fa_base a)\<rparr>)\<rparr>"

definition udp_adapter :: "('k, 'x) socket_calls_scheme \<Rightarrow> getnameinfo \<Rightarrow> ('k, fd_adapter) datagram_adapter" where
  "udp_adapter sys gni =
     \<lparr>da_fd = fa_fd,
      da_read = (\<lambda>(s, a). map_result (\<lambda>(datagram, s).
        let (seg, fa) = TCPOverUDPSocketAdapter_read datagram (fa_base a) in (seg, s, a\<lparr>fa_base := fa\<rparr>))
          (UDPSocket_recv sys (fa_fd a) 65536 s)),
      da_write = (\<lambda>seg (s, a). bind_result (TCPOverUDPSocketAdapter_write gni (fa_base a) seg) (\<lambda>(destination, payload).
        map_result (\<lambda>s. (s, a)) (UDPSocket_sendto sys (fa_fd a) destination (BufferViewList_of_BufferList payload) s))),
      da_tick = (\<lambda>_. Inr),
      da_config = (\<lambda>a. fa_cfg (fa_base a)),
      da_set_config = (\<lambda>cfg a. a\<lparr>fa_base := base_config cfg (fa_base a)\<rparr>),
      da_set_listening = (\<lambda>l a. a\<lparr>fa_base := FdAdapterBase_set_listening l (fa_base a)\<rparr>)\<rparr>"

text \<open>Over Ethernet: the frames that the adapter queued for the TAP device are written to it, one by one.\<close>

primrec write_frames :: "('k, 'x) socket_calls_scheme \<Rightarrow> FileDescriptor \<Rightarrow> BufferList list \<Rightarrow> 'k os \<Rightarrow> 'k os result" where
  "write_frames sys h [] s = Inr s"
| "write_frames sys h (frame # frames) s =
     bind_result (FileDescriptor_write sys h (BufferViewList_of_BufferList frame) True s) (\<lambda>(_, s). write_frames sys h frames s)"

definition flush_tap :: "('k, 'x) socket_calls_scheme \<Rightarrow> 'k os \<Rightarrow> EthernetAdapter \<times> FileDescriptor
    \<Rightarrow> ('k os \<times> EthernetAdapter \<times> FileDescriptor) result" where
  "flush_tap sys s a = map_result (\<lambda>s. (s, (fst a)\<lparr>ea_tap := []\<rparr>, snd a)) (write_frames sys (snd a) (ea_tap (fst a)) s)"

definition ethernet_adapter ::
  "('k, 'x) socket_calls_scheme \<Rightarrow> getaddrinfo \<Rightarrow> getnameinfo \<Rightarrow> ('k, EthernetAdapter \<times> FileDescriptor) datagram_adapter" where
  "ethernet_adapter sys gai gni =
     \<lparr>da_fd = snd,
      da_read = (\<lambda>(s, a). bind_result (FileDescriptor_read sys (snd a) no_limit s) (\<lambda>(str, s).
        bind_result (EthernetAdapter_receive str (fst a)) (\<lambda>(ip_dgram, ea).
        bind_result (flush_tap sys s (ea, snd a)) (\<lambda>(s, a).
          map_result (\<lambda>(seg, ea). (seg, s, ea, snd a)) (EthernetAdapter_unwrap gai gni ip_dgram (fst a)))))),
      da_write = (\<lambda>seg (s, a). bind_result (EthernetAdapter_write gni seg (fst a)) (\<lambda>ea. flush_tap sys s (ea, snd a))),
      da_tick = (\<lambda>ms (s, a). bind_result (EthernetAdapter_tick ms (fst a)) (\<lambda>ea. flush_tap sys s (ea, snd a))),
      da_config = (\<lambda>a. fa_cfg (ea_base (fst a))),
      da_set_config = (\<lambda>cfg a. ((fst a)\<lparr>ea_base := base_config cfg (ea_base (fst a))\<rparr>, snd a)),
      da_set_listening = (\<lambda>l a. ((fst a)\<lparr>ea_base := FdAdapterBase_set_listening l (ea_base (fst a))\<rparr>, snd a))\<rparr>"

text \<open>
  \<^verbatim>\<open>LossyFdAdapter\<close>, around any adapter: \<open>rand\<close> is the random number generator, of which a number is drawn
  only if the loss rate is not zero.
\<close>

definition LossyFdAdapter_should_drop :: "('g \<Rightarrow> u32 \<times> 'g) \<Rightarrow> bool \<Rightarrow> FdAdapterConfig \<Rightarrow> 'g \<Rightarrow> bool \<times> 'g" where
  "LossyFdAdapter_should_drop rand uplink cfg g =
     (let loss = (if uplink then fd_loss_rate_up cfg else fd_loss_rate_dn cfg)
      in if loss = 0 then (False, g) else let (r, g) = rand g in (ucast r < loss, g))"

definition LossyFdAdapter_read :: "('g \<Rightarrow> u32 \<times> 'g) \<Rightarrow> ('k, 'a) datagram_adapter \<Rightarrow> 'k os \<times> 'a \<times> 'g
    \<Rightarrow> (TCPSegment option \<times> 'k os \<times> 'a \<times> 'g) result" where
  "LossyFdAdapter_read rand da = (\<lambda>(s, a, g). map_result (\<lambda>(ret, s, a).
     let (dropped, g) = LossyFdAdapter_should_drop rand False (da_config da a) g in (if dropped then None else ret, s, a, g))
       (da_read da (s, a)))"

definition LossyFdAdapter_write :: "('g \<Rightarrow> u32 \<times> 'g) \<Rightarrow> ('k, 'a) datagram_adapter \<Rightarrow> TCPSegment \<Rightarrow> 'k os \<times> 'a \<times> 'g
    \<Rightarrow> ('k os \<times> 'a \<times> 'g) result" where
  "LossyFdAdapter_write rand da seg = (\<lambda>(s, a, g).
     let (dropped, g) = LossyFdAdapter_should_drop rand True (da_config da a) g
     in if dropped then Inr (s, a, g) else map_result (\<lambda>(s, a). (s, a, g)) (da_write da seg (s, a)))"

definition lossy_adapter :: "('g \<Rightarrow> u32 \<times> 'g) \<Rightarrow> ('k, 'a) datagram_adapter \<Rightarrow> ('k, 'a \<times> 'g) datagram_adapter" where
  "lossy_adapter rand da =
     \<lparr>da_fd = (\<lambda>(a, g). da_fd da a),
      da_read = LossyFdAdapter_read rand da,
      da_write = LossyFdAdapter_write rand da,
      da_tick = (\<lambda>ms (s, a, g). map_result (\<lambda>(s, a). (s, a, g)) (da_tick da ms (s, a))),
      da_config = (\<lambda>(a, g). da_config da a),
      da_set_config = (\<lambda>cfg (a, g). (da_set_config da cfg a, g)),
      da_set_listening = (\<lambda>l (a, g). (da_set_listening da l a, g))\<rparr>"

section \<open>The socket\<close>

record 'a TCPSpongeSocket =
  so_owner :: FileDescriptor
  so_thread_data :: FileDescriptor
  so_adapter :: 'a
  so_tcp :: "TCPConnection option"
  so_inbound_shutdown :: bool
  so_outbound_shutdown :: bool
  so_fully_acked :: bool

type_synonym ('k, 'a) socket_world = "('k, 'a TCPSpongeSocket) world"

record 'k thread_env = "'k socket_calls" +
  sys_socketpair :: "int \<Rightarrow> int \<Rightarrow> 'k \<Rightarrow> (sysret \<times> int \<times> int) \<times> 'k"
  sys_timestamp_ms :: "'k \<Rightarrow> u64 \<times> 'k"
  env_abort :: "'k \<Rightarrow> bool"

definition TCP_TICK_MS :: int where "TCP_TICK_MS = 10"

text \<open>\<^verbatim>\<open>_tcp->\<close> without a value is undefined, \<^verbatim>\<open>_tcp.value()\<close> throws. The rules exist only while there is one.\<close>

definition deref_tcp :: "'a TCPSpongeSocket \<Rightarrow> TCPConnection result" where
  "deref_tcp so = (case so_tcp so of Some c \<Rightarrow> Inr c | None \<Rightarrow> Inl (Undefined_Behaviour ''optional::operator->''))"

definition value_tcp :: "'a TCPSpongeSocket \<Rightarrow> TCPConnection result" where
  "value_tcp so = (case so_tcp so of Some c \<Rightarrow> Inr c | None \<Rightarrow> Inl (Runtime_Error ''bad optional access''))"

definition tcp_holds :: "(TCPConnection \<Rightarrow> bool) \<Rightarrow> 'a TCPSpongeSocket \<Rightarrow> bool" where
  "tcp_holds P so = (case so_tcp so of Some c \<Rightarrow> P c | None \<Rightarrow> False)"

text \<open>The peer's address in a line of debugging output.\<close>

definition debug_peer :: "('k, 'a) datagram_adapter \<Rightarrow> getnameinfo \<Rightarrow> 'a TCPSpongeSocket \<Rightarrow> string result" where
  "debug_peer da gni so = Address_to_string gni (fd_destination (da_config da (so_adapter so)))"

section \<open>The four rules\<close>

text \<open>Rule 1: a datagram arrives; the second part is debugging output.\<close>

definition deliver_segment :: "TCPSegment option \<Rightarrow> 'a TCPSpongeSocket \<Rightarrow> 'a TCPSpongeSocket result" where
  "deliver_segment seg so =
     (case seg of None \<Rightarrow> Inr so
      | Some seg \<Rightarrow> bind_result (deref_tcp so) (\<lambda>tcp.
          map_result (\<lambda>tcp. so\<lparr>so_tcp := Some tcp\<rparr>) (TCPConnection_segment_received seg tcp)))"

definition note_fully_acked ::
  "('k, 'a) datagram_adapter \<Rightarrow> getnameinfo \<Rightarrow> ('k, 'a) socket_world \<Rightarrow> ('k, 'a) socket_world result" where
  "note_fully_acked da gni w =
     (if fw_eof (os_fds (fst w) (so_thread_data (snd w)))
      then bind_result (value_tcp (snd w)) (\<lambda>tcp.
        if TCPConnection_bytes_in_flight tcp = 0 \<and> \<not> so_fully_acked (snd w)
        then map_result (\<lambda>_. (fst w, (snd w)\<lparr>so_fully_acked := True\<rparr>)) (debug_peer da gni (snd w))
        else Inr w)
      else Inr w)"

definition datagram_in ::
  "('k, 'a) datagram_adapter \<Rightarrow> getnameinfo \<Rightarrow> ('k, 'a) socket_world \<Rightarrow> ('k, 'a) socket_world result" where
  "datagram_in da gni w =
     bind_result (da_read da (fst w, so_adapter (snd w))) (\<lambda>(seg, s, a).
     bind_result (deliver_segment seg ((snd w)\<lparr>so_adapter := a\<rparr>)) (\<lambda>so. note_fully_acked da gni (s, so)))"

text \<open>Rule 2: the application has written to its end of the local socket.\<close>

definition owner_in ::
  "('k, 'x) syscalls_scheme \<Rightarrow> ('k, 'a) datagram_adapter \<Rightarrow> getnameinfo \<Rightarrow> ('k, 'a) socket_world \<Rightarrow> ('k, 'a) socket_world result" where
  "owner_in sys da gni w =
     (let so = snd w
      in bind_result (deref_tcp so) (\<lambda>tcp.
         bind_result (FileDescriptor_read sys (so_thread_data so) (TCPConnection_remaining_outbound_capacity tcp) (fst w)) (\<lambda>(data, s).
           let (amount_written, tcp) = TCPConnection_write data tcp
           in if amount_written \<noteq> size_of data
              then Inl (Runtime_Error ''TCPConnection::write() accepted less than advertised length'')
              else if fw_eof (os_fds s (so_thread_data so))
              then let so = so\<lparr>so_tcp := Some (TCPConnection_end_input_stream tcp), so_outbound_shutdown := True\<rparr>
                   in map_result (\<lambda>_. (s, so)) (debug_peer da gni so)
              else Inr (s, so\<lparr>so_tcp := Some tcp\<rparr>))))"

definition owner_in_cancel :: "('k, 'a) socket_world \<Rightarrow> ('k, 'a) socket_world result" where
  "owner_in_cancel w =
     map_result (\<lambda>tcp. (fst w, (snd w)\<lparr>so_tcp := Some (TCPConnection_end_input_stream tcp), so_outbound_shutdown := True\<rparr>))
       (deref_tcp (snd w))"

text \<open>Rule 3: assembled bytes go to the application, as many as the socket takes.\<close>

definition TCPConnection_pop_inbound :: "u64 \<Rightarrow> TCPConnection \<Rightarrow> TCPConnection" where
  "TCPConnection_pop_inbound n c =
     (let r = cn_receiver c; ra = rx_reassembler r
      in c\<lparr>cn_receiver := r\<lparr>rx_reassembler := ra\<lparr>sr_output := ByteStream_pop_output n (sr_output ra)\<rparr>\<rparr>\<rparr>)"

definition owner_out ::
  "('k, 'x) socket_calls_scheme \<Rightarrow> ('k, 'a) datagram_adapter \<Rightarrow> getnameinfo \<Rightarrow> ('k, 'a) socket_world \<Rightarrow> ('k, 'a) socket_world result" where
  "owner_out sys da gni w =
     (let so = snd w
      in bind_result (deref_tcp so) (\<lambda>tcp.
           let inbound = TCPConnection_inbound_stream tcp;
               amount_to_write = min 65536 (ByteStream_buffer_size inbound);
               buffer = ByteStream_peek_output inbound amount_to_write
           in bind_result (FileDescriptor_write sys (so_thread_data so) (BufferViewList_of_string_view buffer) False (fst w))
             (\<lambda>(bytes_written, s).
               let tcp = TCPConnection_pop_inbound bytes_written tcp;
                   so = so\<lparr>so_tcp := Some tcp\<rparr>;
                   inbound = TCPConnection_inbound_stream tcp
               in if ByteStream_eof inbound \<or> ByteStream_get_error inbound
                  then bind_result (Socket_shutdown sys (so_thread_data so) SHUT_WR s) (\<lambda>s.
                    let so = so\<lparr>so_inbound_shutdown := True\<rparr> in map_result (\<lambda>_. (s, so)) (debug_peer da gni so))
                  else Inr (s, so))))"

text \<open>Rule 4: segments leave.\<close>

primrec send_segments :: "('k, 'a) datagram_adapter \<Rightarrow> TCPSegment list \<Rightarrow> 'k os \<times> 'a \<Rightarrow> ('k os \<times> 'a) result" where
  "send_segments da [] x = Inr x"
| "send_segments da (seg # segs) x = bind_result (da_write da seg x) (send_segments da segs)"

definition datagram_out :: "('k, 'a) datagram_adapter \<Rightarrow> ('k, 'a) socket_world \<Rightarrow> ('k, 'a) socket_world result" where
  "datagram_out da w =
     bind_result (deref_tcp (snd w)) (\<lambda>tcp.
     map_result (\<lambda>(s, a). (s, (snd w)\<lparr>so_adapter := a, so_tcp := Some (tcp\<lparr>cn_segments_out := []\<rparr>)\<rparr>))
       (send_segments da (cn_segments_out tcp) (fst w, so_adapter (snd w))))"

definition TCPSpongeSocket_rules ::
  "('k, 'x) socket_calls_scheme \<Rightarrow> ('k, 'a) datagram_adapter \<Rightarrow> getnameinfo \<Rightarrow> FileDescriptor \<Rightarrow> FileDescriptor
     \<Rightarrow> ('k, 'a TCPSpongeSocket) Rule list" where
  "TCPSpongeSocket_rules sys da gni adapter_fd thread_data =
     EventLoop_add_rule adapter_fd Direction_Out (datagram_out da)
       (\<lambda>w. tcp_holds (\<lambda>tcp. cn_segments_out tcp \<noteq> []) (snd w)) Inr
    (EventLoop_add_rule thread_data Direction_Out (owner_out sys da gni)
       (\<lambda>w. tcp_holds (\<lambda>tcp. let inbound = TCPConnection_inbound_stream tcp
          in \<not> ByteStream_buffer_empty inbound
             \<or> (ByteStream_eof inbound \<or> ByteStream_get_error inbound) \<and> \<not> so_inbound_shutdown (snd w)) (snd w)) Inr
    (EventLoop_add_rule thread_data Direction_In (owner_in sys da gni)
       (\<lambda>w. tcp_holds (\<lambda>tcp. TCPConnection_active tcp \<and> \<not> so_outbound_shutdown (snd w)
          \<and> TCPConnection_remaining_outbound_capacity tcp > 0) (snd w)) owner_in_cancel
    (EventLoop_add_rule adapter_fd Direction_In (datagram_in da gni)
       (\<lambda>w. tcp_holds TCPConnection_active (snd w)) Inr [])))"

section \<open>The loop of the TCP thread\<close>

definition tcp_tick ::
  "('k, 'x) thread_env_scheme \<Rightarrow> ('k, 'a) datagram_adapter \<Rightarrow> u64 \<Rightarrow> ('k, 'a) socket_world \<Rightarrow> (u64 \<times> ('k, 'a) socket_world) result" where
  "tcp_tick sys da base_time w =
     bind_result (value_tcp (snd w)) (\<lambda>tcp.
       if TCPConnection_active tcp
       then let (next_time, k) = sys_timestamp_ms sys (os_kernel (fst w)); s = (fst w)\<lparr>os_kernel := k\<rparr>
            in bind_result (TCPConnection_tick (next_time - base_time) tcp) (\<lambda>tcp.
               map_result (\<lambda>(s, a). (next_time, s, (snd w)\<lparr>so_tcp := Some tcp, so_adapter := a\<rparr>))
                 (da_tick da (next_time - base_time) (s, so_adapter (snd w))))
       else Inr (base_time, w))"

text \<open>One round of the loop: \<open>False\<close> is \<^verbatim>\<open>break\<close>.\<close>

definition tcp_round ::
  "('k, 'x) thread_env_scheme \<Rightarrow> ('k, 'a) datagram_adapter \<Rightarrow> u64 \<Rightarrow> ('k, 'a TCPSpongeSocket) Rule list \<Rightarrow> ('k, 'a) socket_world
     \<Rightarrow> (bool \<times> u64 \<times> ('k, 'a TCPSpongeSocket) Rule list \<times> ('k, 'a) socket_world) result" where
  "tcp_round sys da base_time rules w =
     bind_result (EventLoop_wait_next_event sys TCP_TICK_MS rules w) (\<lambda>(ret, rules, w).
       if ret = Exit \<or> env_abort sys (os_kernel (fst w)) then Inr (False, base_time, rules, w)
       else map_result (\<lambda>(base_time, w). (True, base_time, rules, w)) (tcp_tick sys da base_time w))"

partial_function (option) tcp_loop ::
  "('k, 'x) thread_env_scheme \<Rightarrow> ('k, 'a) datagram_adapter \<Rightarrow> ('a TCPSpongeSocket \<Rightarrow> bool) \<Rightarrow> u64
     \<Rightarrow> ('k, 'a TCPSpongeSocket) Rule list \<Rightarrow> ('k, 'a) socket_world
     \<Rightarrow> (('k, 'a TCPSpongeSocket) Rule list \<times> ('k, 'a) socket_world) result option" where
  "tcp_loop sys da condition base_time rules w =
     (if \<not> condition (snd w) then Some (Inr (rules, w))
      else case tcp_round sys da base_time rules w of
             Inl e \<Rightarrow> Some (Inl e)
           | Inr (continue, base_time, rules, w) \<Rightarrow>
               if continue then tcp_loop sys da condition base_time rules w else Some (Inr (rules, w)))"

definition TCPSpongeSocket_tcp_loop ::
  "('k, 'x) thread_env_scheme \<Rightarrow> ('k, 'a) datagram_adapter \<Rightarrow> ('a TCPSpongeSocket \<Rightarrow> bool)
     \<Rightarrow> ('k, 'a TCPSpongeSocket) Rule list \<Rightarrow> ('k, 'a) socket_world
     \<Rightarrow> (('k, 'a TCPSpongeSocket) Rule list \<times> ('k, 'a) socket_world) result option" where
  "TCPSpongeSocket_tcp_loop sys da condition rules w =
     (let (base_time, k) = sys_timestamp_ms sys (os_kernel (fst w))
      in tcp_loop sys da condition base_time rules ((fst w)\<lparr>os_kernel := k\<rparr>, snd w))"

section \<open>Opening and closing\<close>

text \<open>The constructor from a pair of local sockets, and the one that makes the pair.\<close>

definition TCPSpongeSocket_of_pair ::
  "('k, 'x) socket_calls_scheme \<Rightarrow> FileDescriptor \<Rightarrow> FileDescriptor \<Rightarrow> 'a \<Rightarrow> 'k os \<Rightarrow> ('k, 'a) socket_world result" where
  "TCPSpongeSocket_of_pair sys owner thread_data datagram_interface s =
     bind_result (LocalStreamSocket_new sys owner s) (\<lambda>s.
     bind_result (LocalStreamSocket_new sys thread_data s) (\<lambda>s.
     map_result (\<lambda>s. (s, \<lparr>so_owner = owner, so_thread_data = thread_data, so_adapter = datagram_interface, so_tcp = None,
                          so_inbound_shutdown = False, so_outbound_shutdown = False, so_fully_acked = False\<rparr>))
       (FileDescriptor_set_blocking sys thread_data False s)))"

definition socket_pair_helper ::
  "('k, 'x) thread_env_scheme \<Rightarrow> FileDescriptor \<Rightarrow> FileDescriptor \<Rightarrow> int \<Rightarrow> 'k os \<Rightarrow> 'k os result" where
  "socket_pair_helper sys h0 h1 type s =
     (let ((ret, fd0, fd1), k) = sys_socketpair sys AF_UNIX type (os_kernel s)
      in bind_result (SystemCall ''socketpair'' ret 0) (\<lambda>_.
         bind_result (FileDescriptor_new h0 fd0 (s\<lparr>os_kernel := k\<rparr>)) (FileDescriptor_new h1 fd1)))"

definition TCPSpongeSocket_new ::
  "('k, 'x) thread_env_scheme \<Rightarrow> FileDescriptor \<Rightarrow> FileDescriptor \<Rightarrow> 'a \<Rightarrow> 'k os \<Rightarrow> ('k, 'a) socket_world result" where
  "TCPSpongeSocket_new sys h0 h1 datagram_interface s =
     bind_result (socket_pair_helper sys h0 h1 SOCK_STREAM s) (TCPSpongeSocket_of_pair sys h0 h1 datagram_interface)"

definition TCPSpongeSocket_initialize_TCP ::
  "('k, 'x) socket_calls_scheme \<Rightarrow> ('k, 'a) datagram_adapter \<Rightarrow> getnameinfo \<Rightarrow> TCPConfig \<Rightarrow> u32 \<Rightarrow> 'a TCPSpongeSocket
     \<Rightarrow> ('k, 'a TCPSpongeSocket) Rule list \<times> 'a TCPSpongeSocket" where
  "TCPSpongeSocket_initialize_TCP sys da gni config random so =
     (TCPSpongeSocket_rules sys da gni (da_fd da (so_adapter so)) (so_thread_data so),
      so\<lparr>so_tcp := Some (TCPConnection_new config random)\<rparr>)"

text \<open>\<open>None\<close> is a loop that does not return: nothing answers, and nothing aborts it.\<close>

definition TCPSpongeSocket_connect ::
  "('k, 'x) thread_env_scheme \<Rightarrow> ('k, 'a) datagram_adapter \<Rightarrow> getnameinfo \<Rightarrow> TCPConfig \<Rightarrow> u32 \<Rightarrow> FdAdapterConfig
     \<Rightarrow> ('k, 'a) socket_world \<Rightarrow> (('k, 'a TCPSpongeSocket) Rule list \<times> ('k, 'a) socket_world) result option" where
  "TCPSpongeSocket_connect sys da gni c_tcp random c_ad w =
     (if so_tcp (snd w) \<noteq> None then Some (Inl (Runtime_Error ''connect() with TCPConnection already initialized''))
      else let (rules, so) = TCPSpongeSocket_initialize_TCP sys da gni c_tcp random (snd w);
               so = so\<lparr>so_adapter := da_set_config da c_ad (so_adapter so)\<rparr>
           in case bind_result (Address_to_string gni (fd_destination c_ad)) (\<lambda>_. deref_tcp so) of
                Inl e \<Rightarrow> Some (Inl e)
              | Inr tcp \<Rightarrow>
                  let tcp = TCPConnection_connect tcp;
                      expected_state = TCPState_of_State SYN_SENT
                  in if \<not> TCPState_eq (TCPConnection_state tcp) expected_state
                     then Some (Inl (Runtime_Error (''After TCPConnection::connect(), state was ''
                            @ TCPState_name (TCPConnection_state tcp) @ '' but expected '' @ TCPState_name expected_state)))
                     else map_option (\<lambda>r. bind_result r (\<lambda>x. map_result (\<lambda>_. x) (Address_to_string gni (fd_destination c_ad))))
                       (TCPSpongeSocket_tcp_loop sys da
                         (tcp_holds (\<lambda>tcp. TCPState_eq (TCPConnection_state tcp) (TCPState_of_State SYN_SENT)))
                         rules (fst w, so\<lparr>so_tcp := Some tcp\<rparr>)))"

definition TCPSpongeSocket_listen_and_accept ::
  "('k, 'x) thread_env_scheme \<Rightarrow> ('k, 'a) datagram_adapter \<Rightarrow> getnameinfo \<Rightarrow> TCPConfig \<Rightarrow> u32 \<Rightarrow> FdAdapterConfig
     \<Rightarrow> ('k, 'a) socket_world \<Rightarrow> (('k, 'a TCPSpongeSocket) Rule list \<times> ('k, 'a) socket_world) result option" where
  "TCPSpongeSocket_listen_and_accept sys da gni c_tcp random c_ad w =
     (if so_tcp (snd w) \<noteq> None then Some (Inl (Runtime_Error ''listen_and_accept() with TCPConnection already initialized''))
      else let (rules, so) = TCPSpongeSocket_initialize_TCP sys da gni c_tcp random (snd w);
               so = so\<lparr>so_adapter := da_set_listening da True (da_set_config da c_ad (so_adapter so))\<rparr>
           in map_option (\<lambda>r. bind_result r (\<lambda>(rules, w). map_result (\<lambda>_. (rules, w)) (debug_peer da gni (snd w))))
             (TCPSpongeSocket_tcp_loop sys da
               (tcp_holds (\<lambda>tcp. let s = TCPConnection_state tcp
                  in TCPState_eq s (TCPState_of_State LISTEN) \<or> TCPState_eq s (TCPState_of_State SYN_RCVD)
                     \<or> TCPState_eq s (TCPState_of_State SYN_SENT)))
               rules (fst w, so)))"

text \<open>\<^verbatim>\<open>_tcp.reset()\<close> runs the destructor; what it leaves behind is released with the connection.\<close>

definition TCPSpongeSocket_reset_tcp :: "'a TCPSpongeSocket \<Rightarrow> TCPConnection option \<times> 'a TCPSpongeSocket" where
  "TCPSpongeSocket_reset_tcp so = (map_option TCPConnection_destroy (so_tcp so), so\<lparr>so_tcp := None\<rparr>)"

text \<open>The thread that \<^verbatim>\<open>connect\<close> and \<^verbatim>\<open>listen_and_accept\<close> start; what it throws it rethrows.\<close>

definition TCPSpongeSocket_tcp_main ::
  "('k, 'x) thread_env_scheme \<Rightarrow> ('k, 'a) datagram_adapter \<Rightarrow> ('k, 'a TCPSpongeSocket) Rule list \<Rightarrow> ('k, 'a) socket_world
     \<Rightarrow> ('k, 'a) socket_world result option" where
  "TCPSpongeSocket_tcp_main sys da rules w =
     (if so_tcp (snd w) = None then Some (Inl (Runtime_Error ''no TCP''))
      else map_option (\<lambda>r. bind_result r (\<lambda>(rules, w).
             bind_result (Socket_shutdown sys (so_owner (snd w)) SHUT_RDWR (fst w)) (\<lambda>s.
             map_result (\<lambda>_. let (released, so) = TCPSpongeSocket_reset_tcp (snd w) in (s, so)) (value_tcp (snd w)))))
        (TCPSpongeSocket_tcp_loop sys da (\<lambda>_. True) rules w))"

definition TCPSpongeSocket_wait_until_closed :: "('k, 'x) socket_calls_scheme \<Rightarrow> ('k, 'a) socket_world \<Rightarrow> ('k, 'a) socket_world result" where
  "TCPSpongeSocket_wait_until_closed sys w =
     map_result (\<lambda>s. (s, snd w)) (Socket_shutdown sys (so_owner (snd w)) SHUT_RDWR (fst w))"

text \<open>
  The ready-made sockets: over the TUN device \<^verbatim>\<open>tun144\<close>, and over the TAP device \<^verbatim>\<open>tap10\<close> with a random
  private Ethernet address. \<open>port\<close> and \<open>noise\<close> are the random numbers drawn.
\<close>

definition multiplexer_config :: "getaddrinfo \<Rightarrow> string \<Rightarrow> u16 \<Rightarrow> Address \<Rightarrow> FdAdapterConfig result" where
  "multiplexer_config gai source_ip port address =
     bind_result (FdAdapterConfig_default gai) (\<lambda>cfg.
     map_result (\<lambda>source. cfg\<lparr>fd_source := source, fd_destination := address\<rparr>)
       (Address_of_host gai source_ip (decimal (unat port))))"

definition CS144TCPSocket_new ::
  "('k, 'x) thread_env_scheme \<Rightarrow> getaddrinfo \<Rightarrow> FileDescriptor \<Rightarrow> FileDescriptor \<Rightarrow> FileDescriptor \<Rightarrow> 'k os
     \<Rightarrow> ('k, fd_adapter) socket_world result" where
  "CS144TCPSocket_new sys gai h0 h1 tun s =
     bind_result (TunFD_new sys tun ''tun144'' s) (\<lambda>s.
     bind_result (FdAdapterConfig_default gai) (\<lambda>cfg.
       TCPSpongeSocket_new sys h0 h1 \<lparr>fa_base = \<lparr>fa_cfg = cfg, fa_listen = False\<rparr>, fa_fd = tun\<rparr> s))"

definition CS144TCPSocket_connect ::
  "('k, 'x) thread_env_scheme \<Rightarrow> getaddrinfo \<Rightarrow> getnameinfo \<Rightarrow> u16 \<Rightarrow> u32 \<Rightarrow> Address \<Rightarrow> ('k, fd_adapter) socket_world
     \<Rightarrow> (('k, fd_adapter TCPSpongeSocket) Rule list \<times> ('k, fd_adapter) socket_world) result option" where
  "CS144TCPSocket_connect sys gai gni port random address w =
     (case multiplexer_config gai ''169.254.144.9'' port address of
        Inl e \<Rightarrow> Some (Inl e)
      | Inr cfg \<Rightarrow> TCPSpongeSocket_connect sys (tun_adapter sys gai gni) gni (TCPConfig_default\<lparr>cfg_rt_timeout := 100\<rparr>) random cfg w)"

definition LOCAL_TAP_IP_ADDRESS :: string where "LOCAL_TAP_IP_ADDRESS = ''169.254.10.9''"
definition LOCAL_TAP_NEXT_HOP_ADDRESS :: string where "LOCAL_TAP_NEXT_HOP_ADDRESS = ''169.254.10.1''"

definition random_private_ethernet_address :: "u8 list \<Rightarrow> EthernetAddress" where
  "random_private_ethernet_address noise = noise[0 := and (or (noise ! 0) 0x02) 0xfe]"

definition FullStackSocket_new ::
  "('k, 'x) thread_env_scheme \<Rightarrow> getaddrinfo \<Rightarrow> getnameinfo \<Rightarrow> u8 list \<Rightarrow> FileDescriptor \<Rightarrow> FileDescriptor \<Rightarrow> FileDescriptor \<Rightarrow> 'k os
     \<Rightarrow> ('k, EthernetAdapter \<times> FileDescriptor) socket_world result" where
  "FullStackSocket_new sys gai gni noise h0 h1 tap s =
     bind_result (TapFD_new sys tap ''tap10'' s) (\<lambda>s.
     bind_result (Address_of_host gai LOCAL_TAP_IP_ADDRESS ''0'') (\<lambda>ip_address.
     bind_result (Address_of_host gai LOCAL_TAP_NEXT_HOP_ADDRESS ''0'') (\<lambda>next_hop.
     bind_result (FdAdapterConfig_default gai) (\<lambda>cfg.
     bind_result (EthernetAdapter_new gni \<lparr>fa_cfg = cfg, fa_listen = False\<rparr> (random_private_ethernet_address noise) ip_address next_hop) (\<lambda>ea.
     bind_result (flush_tap sys s (ea, tap)) (\<lambda>(s, a). TCPSpongeSocket_new sys h0 h1 a s))))))"

definition FullStackSocket_connect ::
  "('k, 'x) thread_env_scheme \<Rightarrow> getaddrinfo \<Rightarrow> getnameinfo \<Rightarrow> u16 \<Rightarrow> u32 \<Rightarrow> Address
     \<Rightarrow> ('k, EthernetAdapter \<times> FileDescriptor) socket_world
     \<Rightarrow> (('k, (EthernetAdapter \<times> FileDescriptor) TCPSpongeSocket) Rule list \<times> ('k, EthernetAdapter \<times> FileDescriptor) socket_world)
          result option" where
  "FullStackSocket_connect sys gai gni port random address w =
     (case multiplexer_config gai LOCAL_TAP_IP_ADDRESS port address of
        Inl e \<Rightarrow> Some (Inl e)
      | Inr cfg \<Rightarrow> TCPSpongeSocket_connect sys (ethernet_adapter sys gai gni) gni (TCPConfig_default\<lparr>cfg_rt_timeout := 100\<rparr>) random cfg w)"

end
