(* ===== verification/Datagram_Ports.thy ===== *)
theory Datagram_Ports
  imports Sponge_Socket
begin

text \<open>
  The contract between \<^verbatim>\<open>TCPSpongeSocket\<close> and the adapter it is instantiated with (locale
  \<open>datagram_port\<close>), and that the adapters over TUN, UDP and Ethernet, and the lossy ones, meet it.
\<close>

section \<open>The contract\<close>

text \<open>
  What the socket relies on of an adapter: its operations may throw but do not run into undefined
  behaviour, \<^verbatim>\<open>read\<close> reads its descriptor once, and the descriptor stays the same.
\<close>

locale datagram_port =
  fixes da :: "('k, 'a) datagram_adapter"
  assumes read_port: "sound (\<lambda>(seg, s', a'). da_fd da a' = da_fd da a
      \<and> fw_read_count (os_fds s' (da_fd da a)) = fw_read_count (os_fds s (da_fd da a)) + 1) (da_read da (s, a))"
    and write_port: "sound (\<lambda>(s', a'). da_fd da a' = da_fd da a) (da_write da seg (s, a))"
    and tick_port: "sound (\<lambda>(s', a'). da_fd da a' = da_fd da a) (da_tick da ms (s, a))"
    and config_port: "da_fd da (da_set_config da cfg a) = da_fd da a" "da_fd da (da_set_listening da l a) = da_fd da a"

section \<open>Operations without undefined behaviour\<close>

lemma BufferList_to_Buffer_sound [no_ub]: "sound (\<lambda>_. True) (BufferList_to_Buffer bl)"
  by (cases bl rule: BufferList_to_Buffer.cases) auto

lemma serialize_sound [no_ub]:
  "sound (\<lambda>_. True) (TCPSegment_serialize ck seg)" "sound (\<lambda>_. True) (IPv4Datagram_serialize d)"
  "sound (\<lambda>_. True) (ARPMessage_serialize m)"
  by (auto simp: TCPSegment_serialize_def TCPHeader_serialize_def IPv4Datagram_serialize_def IPv4Header_serialize_def
      ARPMessage_serialize_def Let_def intro!: no_ub)

lemma push_sound [no_ub]:
  "sound (\<lambda>_. True) (push_ARP_frame ip opcode ni)" "sound (\<lambda>_. True) (push_datagram_frame ip d ni)"
  by (auto simp: push_ARP_frame_def push_datagram_frame_def NetworkInterface_generate_ARPMessage_def
      NetworkInterface_generate_ARP_frame_def NetworkInterface_generate_datagram_frame_def intro!: no_ub)

lemma flush_pending_sound [no_ub]: "sound (\<lambda>_. True) (flush_pending ip ds ni)"
  by (induction ds arbitrary: ni) (auto intro!: no_ub)

lemma tick_pending_sound [no_ub]: "sound (\<lambda>_. True) (tick_pending ms es ni)"
  by (induction es arbitrary: ni) (auto intro!: no_ub)

lemma NetworkInterface_sound [no_ub]:
  "sound (\<lambda>_. True) (NetworkInterface_send_datagram d next_hop ni)" "sound (\<lambda>_. True) (NetworkInterface_recv_frame frame ni)"
  "sound (\<lambda>_. True) (NetworkInterface_tick ms ni)"
  by (auto simp: NetworkInterface_send_datagram_def NetworkInterface_recv_frame_def NetworkInterface_recv_ARP_def
      NetworkInterface_tick_def Let_def split_beta intro!: no_ub)

lemma wrap_tcp_in_ip_sound [no_ub]: "sound (\<lambda>_. True) (wrap_tcp_in_ip gni fa seg)"
  by (auto simp: wrap_tcp_in_ip_def Let_def intro!: no_ub)

lemma unwrap_tcp_in_ip_sound [no_ub]: "sound (\<lambda>_. True) (unwrap_tcp_in_ip gai gni d fa)"
  by (auto simp: unwrap_tcp_in_ip_def Let_def split_beta intro!: no_ub)

lemma TunFdAdapter_sound [no_ub]:
  "sound (\<lambda>_. True) (TCPOverIPv4OverTunFdAdapter_read gai gni d fa)" "sound (\<lambda>_. True) (TCPOverIPv4OverTunFdAdapter_write gni fa seg)"
  by (auto simp: TCPOverIPv4OverTunFdAdapter_read_def TCPOverIPv4OverTunFdAdapter_write_def split_beta intro!: no_ub)

lemma UDPSocketAdapter_sound [no_ub]: "sound (\<lambda>_. True) (TCPOverUDPSocketAdapter_write gni fa seg)"
  by (auto simp: TCPOverUDPSocketAdapter_write_def intro!: no_ub)

lemma EthernetAdapter_sound [no_ub]:
  "sound (\<lambda>_. True) (EthernetAdapter_receive d ea)" "sound (\<lambda>_. True) (EthernetAdapter_unwrap gai gni dgram ea)" "sound (\<lambda>_. True) (EthernetAdapter_write gni seg ea)"
  "sound (\<lambda>_. True) (EthernetAdapter_tick ms ea)"
  by (auto simp: EthernetAdapter_receive_def EthernetAdapter_unwrap_def EthernetAdapter_write_def EthernetAdapter_tick_def Let_def split_beta intro!: no_ub
      split: option.splits)

section \<open>The adapters meet the contract\<close>

lemma UDPSocket_recv_counts:
  "sound (\<lambda>(d, s'). fw_read_count (os_fds s' h) = fw_read_count (os_fds s h) + 1) (UDPSocket_recv sys h mtu s)"
  by (auto simp: UDPSocket_recv_def Let_def split_beta register_read_def update_fd_def intro!: sound_bind[OF SystemCall_sound]
      sound_bind[OF Address_sound(1)])

lemma write_keeps_reads:
  "sound (\<lambda>(n, s'). fw_read_count (os_fds s' h') = fw_read_count (os_fds s h')) (write_loop sys h write_all buffer t s)"
proof (induction sys h write_all buffer t s rule: write_loop.induct)
  case (1 sys h write_all buffer t s)
  obtain ret k where w: "sys_writev sys (fw_fd (os_fds s h)) (BufferViewList_as_iovecs buffer) (os_kernel s) = (ret, k)"
    by fastforce
  have r: "fw_read_count (os_fds (register_write h (s\<lparr>os_kernel := k\<rparr>)) h') = fw_read_count (os_fds s h')"
    by (simp add: register_write_def update_fd_def)
  note IH = 1[OF refl refl w[symmetric] refl]
  then show ?case
    unfolding write_loop.simps[of sys h write_all buffer t s] Let_def w split_conv
    by (intro sound_bind_eq[OF SystemCall_sound]) (simp add: r, intro impI sound_bind_eq, simp add: remove_prefix_sound, simp add: r IH)
qed

lemma flush_tap_keeps:
  "sound (\<lambda>(s', a'). snd a' = snd a \<and> fw_read_count (os_fds s' h') = fw_read_count (os_fds s h')) (flush_tap sys s a)"
proof -
  have "sound (\<lambda>s'. fw_read_count (os_fds s' h') = fw_read_count (os_fds s h')) (write_frames sys h frames s)" for h frames s
  proof (induction frames arbitrary: s)
    case (Cons frame frames)
    then show ?case
      unfolding write_frames.simps FileDescriptor_write_def by (auto intro!: sound_bind[OF write_keeps_reads] sound_weaken[OF Cons.IH])
  qed simp
  from this[of s "snd a" "ea_tap (fst a)"] show ?thesis unfolding flush_tap_def by (rule sound_map) simp
qed

interpretation tun: datagram_port "tun_adapter sys gai gni"
  for sys :: "('k, 'x) socket_calls_scheme" and gai gni
  by unfold_locales (auto simp: tun_adapter_def split_beta intro!: no_ub sound_bind[OF FileDescriptor_read_sound]
      sound_bind[OF TunFdAdapter_sound(2)] sound_map[OF TunFdAdapter_sound(1)] sound_map[OF FileDescriptor_sound(1)])

interpretation udp: datagram_port "udp_adapter sys gni"
  for sys :: "('k, 'x) socket_calls_scheme" and gni
  by unfold_locales (auto simp: udp_adapter_def split_beta Let_def intro!: sound_map[OF UDPSocket_recv_counts]
      sound_bind[OF UDPSocketAdapter_sound] sound_map[OF UDPSocket_sound(2)])

interpretation tap: datagram_port "ethernet_adapter sys gai gni"
  for sys :: "('k, 'x) socket_calls_scheme" and gai gni
proof unfold_locales
  fix s and a :: "EthernetAdapter \<times> FileDescriptor" and seg ms
  let ?da = "ethernet_adapter sys gai gni"
  have flush: "sound (\<lambda>(s', a'). da_fd ?da a' = da_fd ?da a) (flush_tap sys s (ea, snd a))" for ea
    by (rule sound_weaken[OF flush_tap_keeps]) (auto simp: ethernet_adapter_def)
  show "sound (\<lambda>(s', a'). da_fd ?da a' = da_fd ?da a) (da_write ?da seg (s, a))"
    "sound (\<lambda>(s', a'). da_fd ?da a' = da_fd ?da a) (da_tick ?da ms (s, a))"
    using flush by (auto simp: ethernet_adapter_def intro!: sound_bind[OF EthernetAdapter_sound(3)] sound_bind[OF EthernetAdapter_sound(4)])
  show "sound (\<lambda>(seg, s', a'). da_fd ?da a' = da_fd ?da a
      \<and> fw_read_count (os_fds s' (da_fd ?da a)) = fw_read_count (os_fds s (da_fd ?da a)) + 1) (da_read ?da (s, a))"
    by (auto simp: ethernet_adapter_def intro!: sound_bind[OF FileDescriptor_read_sound] sound_bind[OF EthernetAdapter_sound(1)]
        sound_bind[OF flush_tap_keeps[where h'="snd a"]] sound_map[OF EthernetAdapter_sound(2)])
qed (simp_all add: ethernet_adapter_def)

lemma lossy_port:
  assumes "datagram_port da"
  shows "datagram_port (lossy_adapter rand da)"
proof
  fix s a seg ms and g :: 'c
  show "sound (\<lambda>(seg, s', a'). da_fd (lossy_adapter rand da) a' = da_fd (lossy_adapter rand da) a \<and> 
      fw_read_count (os_fds s' (da_fd (lossy_adapter rand da) a)) = fw_read_count (os_fds s (da_fd (lossy_adapter rand da) a)) + 1)
    (da_read (lossy_adapter rand da) (s, a))"
    by (auto simp: lossy_adapter_def LossyFdAdapter_read_def split_beta Let_def intro!: sound_map[OF datagram_port.read_port[OF assms]])
  show "sound (\<lambda>(s', a'). da_fd (lossy_adapter rand da) a' = da_fd (lossy_adapter rand da) a) (da_write (lossy_adapter rand da) seg (s, a))"
    by (auto simp: lossy_adapter_def LossyFdAdapter_write_def split_beta Let_def intro!: sound_map[OF datagram_port.write_port[OF assms]])
  show "sound (\<lambda>(s', a'). da_fd (lossy_adapter rand da) a' = da_fd (lossy_adapter rand da) a) (da_tick (lossy_adapter rand da) ms (s, a))"
    by (auto simp: lossy_adapter_def split_beta intro!: sound_map[OF datagram_port.tick_port[OF assms]])
qed (simp_all add: lossy_adapter_def split_beta datagram_port.config_port[OF assms])

interpretation lossy_tun: datagram_port "lossy_adapter rand (tun_adapter sys gai gni)"
  for rand and sys :: "('k, 'x) socket_calls_scheme" and gai gni
  by (rule lossy_port) (rule tun.datagram_port_axioms)

interpretation lossy_udp: datagram_port "lossy_adapter rand (udp_adapter sys gni)"
  for rand and sys :: "('k, 'x) socket_calls_scheme" and gni
  by (rule lossy_port) (rule udp.datagram_port_axioms)

end
