(* ===== verification/Socket_Loop.thy ===== *)
theory Socket_Loop
  imports Datagram_Ports
begin

text \<open>
  The TCP thread of \<^verbatim>\<open>tcp_helpers/tcp_sponge_socket.cc\<close>: the four rules keep the connection consistent,
  whatever the kernel does and whatever segments arrive; no byte is lost or repeated between the
  local socket and the connection; and the loop ends once the connection is over and drained.
\<close>

section \<open>The outbound stream\<close>

lemma read_stream_inv: "ByteStream_inv b \<Longrightarrow> ByteStream_inv (snd (ByteStream_read n b))"
  by (simp add: read_eq pop_output_inv)

lemma fill_loop_stream: "ByteStream_inv (tx_stream s) \<Longrightarrow> ByteStream_inv (tx_stream (fill_loop n i k p syn fin s))"
  by (induction n arbitrary: i s) (simp_all add: Let_def fill_step_def split_beta read_stream_inv)

lemma fill_window_stream: "ByteStream_inv (tx_stream s) \<Longrightarrow> ByteStream_inv (tx_stream (TCPSender_fill_window s))"
  by (simp add: TCPSender_fill_window_def Let_def fill_loop_stream)

lemma ack_loop_stream: "tx_stream (ack_loop segs s) = tx_stream s"
  by (induction segs arbitrary: s) simp_all

lemma ack_received_stream:
  "ByteStream_inv (tx_stream s) \<Longrightarrow> ByteStream_inv (tx_stream (TCPSender_ack_received a win s))"
  by (simp add: TCPSender_ack_received_def Let_def ack_loop_stream ack_update_def fill_window_stream)

lemma sender_stream_frame:
  "tx_stream (TCPSender_send_empty_segment s) = tx_stream s"
  "TCPSender_tick ms s = Inr s' \<Longrightarrow> tx_stream s' = tx_stream s"
  by (auto simp: TCPSender_send_empty_segment_def TCPSender_tick_def Let_def split: if_splits list.splits)

lemma sender_stream_owner:
  assumes "ByteStream_inv (tx_stream s)"
  shows "ByteStream_inv (tx_stream (snd (TCPSender_write d s)))" "ByteStream_inv (tx_stream (TCPSender_end_input s))"
    "ByteStream_inv (tx_stream (TCPSender_set_error s))"
  using assms by (simp_all add: TCPSender_write_def TCPSender_end_input_def TCPSender_set_error_def split_beta write_inv
      end_input_inv set_error_inv)

definition cn_sound :: "TCPConnection \<Rightarrow> bool" where
  "cn_sound c \<longleftrightarrow> cn_safe c \<and> ByteStream_inv (tx_stream (cn_sender c))"

lemmas stream_kept = fill_window_stream ack_received_stream sender_stream_frame sender_stream_owner

lemma segment_received_sound:
  assumes "cn_sound c"
  shows "\<exists>c'. TCPConnection_segment_received seg c = Inr c' \<and> cn_sound c'"
proof -
  define c0 where "c0 = (if tcp_rst (seg_header seg)
    then TCPConnection_report (c\<lparr>cn_time_since_last_segment_received := 0\<rparr>)
    else c\<lparr>cn_time_since_last_segment_received := 0\<rparr>)"
  have c0: "ByteStream_inv (tx_stream (cn_sender c0))"
    using assms by (simp add: c0_def cn_sound_def TCPConnection_report_def stream_kept)
  obtain c' where c': "TCPConnection_segment_received seg c = Inr c'" "cn_safe c'"
    using segment_received_safe_cn assms unfolding cn_sound_def by blast
  have "ByteStream_inv (tx_stream (cn_sender c'))"
    using c'(1) c0 unfolding TCPConnection_segment_received_def Let_def c0_def[symmetric]
    by (auto simp: bind_result_Inr_iff stream_kept send_eq split: if_splits)
  with c' show ?thesis by (simp add: cn_sound_def)
qed

lemma tick_sound:
  assumes "cn_sound c"
  shows "\<exists>c'. TCPConnection_tick ms c = Inr c' \<and> cn_sound c'"
proof -
  obtain c' where c': "TCPConnection_tick ms c = Inr c'" "cn_safe c'"
    using tick_safe_cn assms unfolding cn_sound_def by blast
  have "ByteStream_inv (tx_stream (cn_sender c'))"
    using assms c'(1)
    by (auto simp: cn_sound_def TCPConnection_tick_def Let_def TCPConnection_report_def bind_result_Inr_iff stream_kept send_eq
        split: if_splits)
  with c' show ?thesis by (simp add: cn_sound_def)
qed

lemma pop_inbound_read: "TCPConnection_pop_inbound n c = snd (TCPConnection_read n c)"
  by (simp add: TCPConnection_pop_inbound_def TCPConnection_read_def TCPReceiver_read_def TCPReceiver_stream_out_def read_eq Let_def)

lemma owner_sound:
  assumes "cn_sound c"
  shows "cn_sound (snd (TCPConnection_write d c))" "cn_sound (TCPConnection_end_input_stream c)"
    "cn_sound (TCPConnection_connect c)" "cn_sound (c\<lparr>cn_segments_out := []\<rparr>)" "cn_sound (TCPConnection_pop_inbound n c)"
  using assms owner_safe_cn(1)[of c d] owner_safe_cn(2,3,4,6)[of c] owner_safe_cn(5)[of c n]
  by (auto simp: cn_sound_def TCPConnection_write_def TCPConnection_end_input_stream_def TCPConnection_connect_def
      TCPConnection_read_def split_beta stream_kept send_eq pop_inbound_read)

text \<open>The connection accepts everything that was read for it.\<close>

lemma write_accepts:
  assumes "cn_sound c" and "length d \<le> unat (TCPConnection_remaining_outbound_capacity c)"
  shows "fst (TCPConnection_write d c) = size_of d"
proof (cases "TCPConnection_active c")
  case True
  let ?b = "tx_stream (cn_sender c)"
  have b: "ByteStream_inv ?b" and l: "length d \<le> unat (ByteStream_remaining_capacity ?b)"
    using assms True by (simp_all add: cn_sound_def TCPConnection_remaining_outbound_capacity_def)
  then have f: "fits d" using unat64_bound[of "ByteStream_remaining_capacity ?b"] by (simp add: fits_def)
  have "unat (fst (ByteStream_write d ?b)) = unat (size_of d)"
    using write_count[OF b f] l unat_remaining_capacity[OF b] unat_size_of[OF f] by simp
  then show ?thesis using True by (simp add: TCPConnection_write_def TCPSender_write_def split_beta word_unat_eq_iff)
next
  case False
  then show ?thesis using assms(2)
    by (simp add: TCPConnection_write_def TCPConnection_remaining_outbound_capacity_def)
qed

section \<open>The rules keep the connection consistent\<close>

definition socket_inv :: "('k, 'a) datagram_adapter \<Rightarrow> FileDescriptor \<Rightarrow> FileDescriptor \<Rightarrow> ('k, 'a) socket_world \<Rightarrow> bool" where
  "socket_inv da adapter_fd thread_data w \<longleftrightarrow> da_fd da (so_adapter (snd w)) = adapter_fd \<and> so_thread_data (snd w) = thread_data
     \<and> (\<exists>c. so_tcp (snd w) = Some c \<and> cn_sound c)"

lemma socket_inv_tcp:
  "socket_inv da fd td w \<Longrightarrow> \<exists>c. deref_tcp (snd w) = Inr c \<and> value_tcp (snd w) = Inr c \<and> so_tcp (snd w) = Some c \<and> cn_sound c"
  by (auto simp: socket_inv_def deref_tcp_def value_tcp_def)

lemma debug_peer_sound [no_ub]: "sound (\<lambda>_. True) (debug_peer da gni so)"
  by (simp add: debug_peer_def no_ub)

lemma deliver_segment_sound:
  assumes "socket_inv da fd td (s, so)"
  shows "sound (\<lambda>so. socket_inv da fd td (s, so)) (deliver_segment seg so)"
proof (cases seg)
  case (Some sg)
  obtain c c' where "deref_tcp so = Inr c" "TCPConnection_segment_received sg c = Inr c'" "cn_sound c'"
    using socket_inv_tcp[OF assms] segment_received_sound[of _ sg] by fastforce
  then show ?thesis using Some assms by (simp add: deliver_segment_def socket_inv_def)
qed (simp add: deliver_segment_def assms)

lemma note_fully_acked_sound:
  "socket_inv da fd td w \<Longrightarrow> sound (\<lambda>w'. socket_inv da fd td w' \<and> fst w' = fst w) (note_fully_acked da gni w)"
  using socket_inv_tcp[of da fd td w] by (auto simp: note_fully_acked_def socket_inv_def intro!: sound_map[OF debug_peer_sound])

lemma owner_in_sound:
  assumes "socket_inv da fd td w"
  shows "sound (\<lambda>w'. socket_inv da fd td w' \<and> fw_read_count (os_fds (fst w') td) = fw_read_count (os_fds (fst w) td) + 1)
    (owner_in sys da gni w)"
proof -
  obtain c where c: "deref_tcp (snd w) = Inr c" "cn_sound c" and td: "so_thread_data (snd w) = td"
    using socket_inv_tcp[OF assms] assms by (auto simp: socket_inv_def)
  show ?thesis unfolding owner_in_def Let_def c(1) td bind_result_simps
  proof (rule sound_bind[OF FileDescriptor_read_sound], clarify)
    fix d :: bytes and s :: "'a os"
    assume "length d \<le> unat (TCPConnection_remaining_outbound_capacity c)"
      and n: "fw_read_count (os_fds s td) = fw_read_count (os_fds (fst w) td) + 1"
    from write_accepts[OF c(2) this(1)] obtain c' where w: "TCPConnection_write d c = (size_of d, c')"
      by (metis prod.collapse)
    then have "cn_sound c'" "cn_sound (TCPConnection_end_input_stream c')"
      using owner_sound(1)[OF c(2), of d] owner_sound(2)[of c'] by simp_all
    then show "sound (\<lambda>w'. socket_inv da fd td w' \<and> fw_read_count (os_fds (fst w') td) = fw_read_count (os_fds (fst w) td) + 1)
       (case TCPConnection_write d c of (amount_written, tcp) \<Rightarrow>
        if amount_written \<noteq> size_of d then Inl (Runtime_Error ''TCPConnection::write() accepted less than advertised length'')
        else if fw_eof (os_fds s td)
        then map_result (\<lambda>_. (s, (snd w)\<lparr>so_tcp := Some (TCPConnection_end_input_stream tcp), so_outbound_shutdown := True\<rparr>))
          (debug_peer da gni ((snd w)\<lparr>so_tcp := Some (TCPConnection_end_input_stream tcp), so_outbound_shutdown := True\<rparr>))
        else Inr (s, (snd w)\<lparr>so_tcp := Some tcp\<rparr>))"
      using assms n by (auto simp: w socket_inv_def intro!: sound_map[OF debug_peer_sound])
  qed
qed

lemma owner_in_cancel_sound: "socket_inv da fd td w \<Longrightarrow> sound (socket_inv da fd td) (owner_in_cancel w)"
  using socket_inv_tcp[of da fd td w] by (auto simp: owner_in_cancel_def socket_inv_def owner_sound)

lemma shutdown_write_counts:
  "sound (\<lambda>s'. fw_write_count (os_fds s' h) = fw_write_count (os_fds s h) + 1) (Socket_shutdown sys h SHUT_WR s)"
  by (auto simp: Socket_shutdown_def checked_def SHUT_RD_def SHUT_WR_def SHUT_RDWR_def Let_def split_beta register_write_def update_fd_def
      bind_result_map intro!: sound_bind[OF SystemCall_sound])

lemma owner_out_sound:
  assumes "socket_inv da fd td w"
  shows "sound (\<lambda>w'. socket_inv da fd td w' \<and> fw_write_count (os_fds (fst w') td) \<noteq> fw_write_count (os_fds (fst w) td))
    (owner_out sys da gni w)"
proof -
  obtain c where c: "deref_tcp (snd w) = Inr c" "cn_sound c" and td: "so_thread_data (snd w) = td"
    using socket_inv_tcp[OF assms] assms by (auto simp: socket_inv_def)
  show ?thesis unfolding owner_out_def Let_def c(1) td bind_result_simps using assms
    by (intro sound_bind[OF write_once_counts])
      (auto simp: td socket_inv_def owner_sound(5)[OF c(2)] add.assoc
        intro!: sound_bind[OF shutdown_write_counts] sound_map[OF debug_peer_sound])
qed

context datagram_port
begin

lemma datagram_in_sound:
  assumes "socket_inv da fd td w"
  shows "sound (\<lambda>w'. socket_inv da fd td w' \<and> fw_read_count (os_fds (fst w') fd) = fw_read_count (os_fds (fst w) fd) + 1)
    (datagram_in da gni w)"
  unfolding datagram_in_def
proof (rule sound_bind[OF read_port], clarify)
  fix seg a and s :: "'k os"
  assume a: "da_fd da a = da_fd da (so_adapter (snd w))"
    and n: "fw_read_count (os_fds s (da_fd da (so_adapter (snd w)))) = fw_read_count (os_fds (fst w) (da_fd da (so_adapter (snd w)))) + 1"
  then have inv: "socket_inv da fd td (s, (snd w)\<lparr>so_adapter := a\<rparr>)" using assms by (simp add: socket_inv_def)
  show "sound (\<lambda>w'. socket_inv da fd td w' \<and> fw_read_count (os_fds (fst w') fd) = fw_read_count (os_fds (fst w) fd) + 1)
    (bind_result (deliver_segment seg ((snd w)\<lparr>so_adapter := a\<rparr>)) (\<lambda>so. note_fully_acked da gni (s, so)))"
    by (rule sound_bind[OF deliver_segment_sound[OF inv] sound_weaken[OF note_fully_acked_sound]])
      (use n assms in \<open>auto simp: socket_inv_def\<close>)
qed

lemma send_segments_sound: "sound (\<lambda>(s', a'). da_fd da a' = da_fd da a) (send_segments da segs (s, a))"
proof (induction segs arbitrary: s a)
  case (Cons seg segs)
  then show ?case by (auto intro!: sound_bind[OF write_port] sound_weaken[OF Cons.IH])
qed simp

lemma datagram_out_sound:
  assumes "socket_inv da fd td w"
  shows "sound (\<lambda>w'. socket_inv da fd td w' \<and> \<not> tcp_holds (\<lambda>tcp. cn_segments_out tcp \<noteq> []) (snd w')) (datagram_out da w)"
  using socket_inv_tcp[OF assms] owner_sound(4) assms
  by (auto simp: datagram_out_def socket_inv_def tcp_holds_def intro!: sound_map[OF send_segments_sound])

lemmas rule_sound = datagram_in_sound owner_in_sound owner_out_sound datagram_out_sound

end

sublocale datagram_port \<subseteq> so: busy_free_client "socket_inv da fd td" "\<lambda>r. r \<in> set (TCPSpongeSocket_rules sys da gni fd td)"
  for sys :: "('k, 'x) socket_calls_scheme" and gni fd td
proof
  fix r and w :: "('k, 'a) socket_world"
  assume "r \<in> set (TCPSpongeSocket_rules sys da gni fd td)" and inv: "socket_inv da fd td w"
  then consider (1) "rl_callback r = datagram_in da gni" "rl_direction r = Direction_In" "rl_fd r = fd" "rl_cancel r = Inr"
    | (2) "rl_callback r = owner_in sys da gni" "rl_direction r = Direction_In" "rl_fd r = td" "rl_cancel r = owner_in_cancel"
    | (3) "rl_callback r = owner_out sys da gni" "rl_direction r = Direction_Out" "rl_fd r = td" "rl_cancel r = Inr"
    | (4) "rl_callback r = datagram_out da" "rl_interest r = (\<lambda>w. tcp_holds (\<lambda>tcp. cn_segments_out tcp \<noteq> []) (snd w))" "rl_cancel r = Inr"
    by (auto simp: TCPSpongeSocket_rules_def EventLoop_add_rule_def FileDescriptor_duplicate_def)
  then show "sound (socket_inv da fd td) (rl_callback r w)" "sound (socket_inv da fd td) (rl_cancel r w)"
    "sound (\<lambda>w'. Rule_service_count r w' \<noteq> Rule_service_count r w \<or> \<not> rl_interest r w') (rl_callback r w)"
    using inv by (cases; auto simp: Rule_service_count_def Rule_fd_def owner_in_cancel_sound intro: sound_weaken[OF rule_sound(1)]
      sound_weaken[OF rule_sound(2)] sound_weaken[OF rule_sound(3)] sound_weaken[OF rule_sound(4)])+
next
  show "socket_inv da fd td (s, c) \<Longrightarrow> socket_inv da fd td (s\<lparr>os_kernel := k\<rparr>, c)" for s c k by (simp add: socket_inv_def)
qed

section \<open>The loop\<close>

lemma new_sound: "cfg_recv_capacity cfg \<noteq> 0 \<Longrightarrow> cn_sound (TCPConnection_new cfg random)"
  by (simp add: cn_sound_def new_cn_safe) (simp add: TCPConnection_new_def TCPSender_new_def ByteStream_inv_new)

context datagram_port
begin

lemma tcp_tick_sound:
  assumes "socket_inv da fd td w"
  shows "sound (\<lambda>(t, w'). socket_inv da fd td w') (tcp_tick sys da base_time w)"
proof -
  obtain c where c: "value_tcp (snd w) = Inr c" "so_tcp (snd w) = Some c" "cn_sound c"
    using assms socket_inv_tcp by blast
  obtain t k where t: "sys_timestamp_ms sys (os_kernel (fst w)) = (t, k)" by fastforce
  obtain c' where c': "TCPConnection_tick (t - base_time) c = Inr c'" "cn_sound c'" using tick_sound[OF c(3)] by blast
  show ?thesis using assms c(3) c'(2)
    by (auto simp: tcp_tick_def c(1) t c'(1) socket_inv_def intro!: sound_map[OF tick_port])
qed

lemma tcp_round_sound:
  fixes sys :: "('k, 'x) thread_env_scheme"
  assumes "set rules \<subseteq> set (TCPSpongeSocket_rules sys da gni fd td)" and "socket_inv da fd td w"
  shows "sound (\<lambda>(continue, t, rules', w'). set rules' \<subseteq> set (TCPSpongeSocket_rules sys da gni fd td) \<and> socket_inv da fd td w')
    (tcp_round sys da base_time rules w)"
proof -
  let ?R = "set (TCPSpongeSocket_rules sys da gni fd td)"
  have "sound (\<lambda>(ret, rules', w'). set rules' \<subseteq> set rules \<and> socket_inv da fd td w') (EventLoop_wait_next_event sys TCP_TICK_MS rules w)"
    using assms by (intro so.wait_sound) auto
  then show ?thesis unfolding tcp_round_def
  proof (rule sound_bind, clarify)
    fix ret rules' s so
    assume r: "set rules' \<subseteq> set rules" and ok: "socket_inv da fd td (s, so)"
    show "sound (\<lambda>(continue, t, rules', w'). set rules' \<subseteq> ?R \<and> socket_inv da fd td w')
      (if ret = Exit \<or> env_abort sys (os_kernel (fst (s, so))) then Inr (False, base_time, rules', s, so)
       else map_result (\<lambda>(base_time, w). (True, base_time, rules', w)) (tcp_tick sys da base_time (s, so)))"
      using r ok assms(1) by (auto intro!: sound_map[OF tcp_tick_sound])
  qed
qed

lemma tcp_loop_sound:
  fixes sys :: "('k, 'x) thread_env_scheme"
  assumes ret: "tcp_loop sys da condition base_time rules w = Some r"
    and "set rules \<subseteq> set (TCPSpongeSocket_rules sys da gni fd td)" and "socket_inv da fd td w"
  shows "sound (\<lambda>(rules', w'). set rules' \<subseteq> set (TCPSpongeSocket_rules sys da gni fd td) \<and> socket_inv da fd td w') r"
proof -
  let ?R = "set (TCPSpongeSocket_rules sys da gni fd td)"
  let ?P = "\<lambda>s d (condition :: 'a TCPSpongeSocket \<Rightarrow> bool) (t :: u64) rules w. s = sys \<and> d = da \<and> set rules \<subseteq> ?R \<and> socket_inv da fd td w"
  let ?Q = "\<lambda>(rules', w'). set rules' \<subseteq> ?R \<and> socket_inv da fd td w'"
  have "?P s d condition base_time rules w \<longrightarrow> sound ?Q r"
    if "tcp_loop s d condition base_time rules w = Some r" for s d condition base_time rules w r
  proof (rule tcp_loop.raw_induct[where P="\<lambda>s d condition t rules w r. ?P s d condition t rules w \<longrightarrow> sound ?Q r", OF _ that],
      intro impI, elim conjE)
    fix f s d condition base_time rules w r
    assume IH: "\<And>s d condition t rules w r. f s d condition t rules w = Some r \<Longrightarrow> ?P s d condition t rules w \<longrightarrow> sound ?Q r"
      and eq: "(if \<not> condition (snd w) then Some (Inr (rules, w)) else case tcp_round s d base_time rules w of Inl e \<Rightarrow> Some (Inl e)
           | Inr (continue, base_time, rules, w) \<Rightarrow> if continue then f s d condition base_time rules w else Some (Inr (rules, w))) = Some r"
      and [simp]: "s = sys" "d = da" and sub: "set rules \<subseteq> ?R" and ok: "socket_inv da fd td w"
    note round = tcp_round_sound[OF sub ok, of base_time]
    show "sound ?Q r"
    proof (cases "tcp_round sys da base_time rules w")
      case (Inl e)
      then show ?thesis using eq round sub ok by (auto split: if_splits dest: sound_Inl)
    next
      case (Inr x)
      obtain continue t rules1 w1 where x: "x = (continue, t, rules1, w1)" by (metis surj_pair)
      then show ?thesis using eq round sub ok IH[of sys da condition t rules1 w1 r] by (auto simp: Inr split: if_splits)
    qed
  qed
  with assms show ?thesis by blast
qed

lemma thread_loop_sound:
  fixes sys :: "('k, 'x) thread_env_scheme"
  assumes "TCPSpongeSocket_tcp_loop sys da condition rules w = Some r"
    and "set rules \<subseteq> set (TCPSpongeSocket_rules sys da gni fd td)" and "socket_inv da fd td w"
  shows "sound (\<lambda>(rules', w'). set rules' \<subseteq> set (TCPSpongeSocket_rules sys da gni fd td) \<and> socket_inv da fd td w') r"
proof -
  obtain t k where t: "sys_timestamp_ms sys (os_kernel (fst w)) = (t, k)" by fastforce
  have "socket_inv da fd td ((fst w)\<lparr>os_kernel := k\<rparr>, snd w)" using assms(3) by (simp add: socket_inv_def)
  from tcp_loop_sound[OF _ assms(2) this] assms(1) t show ?thesis by (simp add: TCPSpongeSocket_tcp_loop_def)
qed

text \<open>From opening to the end of the thread.\<close>

lemma connect_sound:
  fixes sys :: "('k, 'x) thread_env_scheme"
  assumes "TCPSpongeSocket_connect sys da gni c_tcp random c_ad w = Some r" and "cfg_recv_capacity c_tcp \<noteq> 0"
    and "fd = da_fd da (so_adapter (snd w))" and "td = so_thread_data (snd w)"
  shows "sound (\<lambda>(rules, w'). set rules \<subseteq> set (TCPSpongeSocket_rules sys da gni fd td) \<and> socket_inv da fd td w') r"
proof -
  let ?Q = "\<lambda>(rules, w'). set rules \<subseteq> set (TCPSpongeSocket_rules sys da gni fd td) \<and> socket_inv da fd td w'"
  let ?so = "(snd w)\<lparr>so_adapter := da_set_config da c_ad (so_adapter (snd w)),
    so_tcp := Some (TCPConnection_connect (TCPConnection_new c_tcp random))\<rparr>"
  have loop: "sound ?Q x"
    if "TCPSpongeSocket_tcp_loop sys da cond (TCPSpongeSocket_rules sys da gni fd td) (fst w, ?so) = Some x" for cond x
    using owner_sound(3)[OF new_sound[OF assms(2)]] assms(3,4)
    by (intro thread_loop_sound[OF that]) (auto simp: socket_inv_def config_port)
  have "sound (\<lambda>_. True) (Address_to_string gni (fd_destination c_ad))" by (rule no_ub)
  then show ?thesis using assms(1) unfolding TCPSpongeSocket_connect_def TCPSpongeSocket_initialize_TCP_def
    by (cases "Address_to_string gni (fd_destination c_ad)")
      (auto simp: deref_tcp_def assms(3,4)[symmetric] Let_def split: if_splits dest: sound_Inl intro!: sound_bind[OF loop])
qed

lemma listen_sound:
  fixes sys :: "('k, 'x) thread_env_scheme"
  assumes "TCPSpongeSocket_listen_and_accept sys da gni c_tcp random c_ad w = Some r" and "cfg_recv_capacity c_tcp \<noteq> 0"
    and "fd = da_fd da (so_adapter (snd w))" and "td = so_thread_data (snd w)"
  shows "sound (\<lambda>(rules, w'). set rules \<subseteq> set (TCPSpongeSocket_rules sys da gni fd td) \<and> socket_inv da fd td w') r"
proof -
  let ?Q = "\<lambda>(rules, w'). set rules \<subseteq> set (TCPSpongeSocket_rules sys da gni fd td) \<and> socket_inv da fd td w'"
  let ?so = "(snd w)\<lparr>so_tcp := Some (TCPConnection_new c_tcp random),
    so_adapter := da_set_listening da True (da_set_config da c_ad (so_adapter (snd w)))\<rparr>"
  have loop: "sound ?Q x"
    if "TCPSpongeSocket_tcp_loop sys da cond (TCPSpongeSocket_rules sys da gni fd td) (fst w, ?so) = Some x" for cond x
    using new_sound[OF assms(2)] assms(3,4) by (intro thread_loop_sound[OF that]) (auto simp: socket_inv_def config_port)
  show ?thesis using assms(1) unfolding TCPSpongeSocket_listen_and_accept_def TCPSpongeSocket_initialize_TCP_def
    by (auto simp: assms(3,4)[symmetric] Let_def split: if_splits intro!: sound_bind[OF loop] sound_map[OF debug_peer_sound])
qed

lemma main_sound:
  fixes sys :: "('k, 'x) thread_env_scheme"
  assumes "TCPSpongeSocket_tcp_main sys da rules w = Some r"
    and "set rules \<subseteq> set (TCPSpongeSocket_rules sys da gni fd td)" and "socket_inv da fd td w"
  shows "sound (\<lambda>w'. so_tcp (snd w') = None) r"
proof -
  obtain x where x: "TCPSpongeSocket_tcp_loop sys da (\<lambda>_. True) rules w = Some x"
    and r: "r = bind_result x (\<lambda>(rules, w). bind_result (Socket_shutdown sys (so_owner (snd w)) SHUT_RDWR (fst w)) (\<lambda>s.
       map_result (\<lambda>_. (s, (snd w)\<lparr>so_tcp := None\<rparr>)) (value_tcp (snd w))))"
    using assms(1,3) by (auto simp: TCPSpongeSocket_tcp_main_def TCPSpongeSocket_reset_tcp_def socket_inv_def)
  show ?thesis unfolding r
    by (rule sound_bind[OF thread_loop_sound[OF x assms(2,3)]])
      (use socket_inv_tcp in \<open>fastforce intro!: sound_bind[OF Socket_sound(1)]\<close>)
qed

end

end
