(* ===== verification/Socket_Thread.thy ===== *)
theory Socket_Thread
  imports Socket_Loop
begin

text \<open>
  What the owner of a \<^verbatim>\<open>TCPSpongeSocket\<close> can rely on: its thread has no undefined behaviour and never
  waits busily, bytes pass between the local socket and the connection unchanged, the thread ends
  when the connection is over, and what happens to the connection if the socket is destroyed earlier.
\<close>

section \<open>Moving bytes\<close>

lemma inbound_inv: "cn_sound c \<Longrightarrow> ByteStream_inv (TCPConnection_inbound_stream c)"
  by (simp add: cn_sound_def cn_safe_def TCPReceiver_inv_def TCPConnection_inbound_stream_def TCPReceiver_stream_out_def
      StreamReassembler_inv_def)

lemma pop_inbound_stream:
  "TCPConnection_inbound_stream (TCPConnection_pop_inbound n c) = ByteStream_pop_output n (TCPConnection_inbound_stream c)"
  by (simp add: TCPConnection_pop_inbound_def TCPConnection_inbound_stream_def TCPReceiver_stream_out_def Let_def)

lemma owner_out_moves:
  assumes c: "cn_sound c" "so_tcp (snd w) = Some c"
    and out: "writev_honest sys (fw_fd (os_fds (fst w) (so_thread_data (snd w)))) out" "shutdown_silent sys out"
    and w': "owner_out sys da gni w = Inr w'"
  shows "\<exists>c'. so_tcp (snd w') = Some c' \<and>
    (let b = bs_buffer (TCPConnection_inbound_stream c); b' = bs_buffer (TCPConnection_inbound_stream c')
     in out (os_kernel (fst w')) @ b' = out (os_kernel (fst w)) @ b \<and> (b \<noteq> [] \<longrightarrow> length b' < length b))
    \<and> (so_inbound_shutdown (snd w') \<longleftrightarrow> so_inbound_shutdown (snd w)
        \<or> ByteStream_eof (TCPConnection_inbound_stream c') \<or> ByteStream_get_error (TCPConnection_inbound_stream c'))"
proof -
  let ?i = "TCPConnection_inbound_stream c" and ?td = "so_thread_data (snd w)"
  let ?buf = "ByteStream_peek_output ?i (min 65536 (ByteStream_buffer_size ?i))"
  have i: "ByteStream_inv ?i" by (rule inbound_inv[OF c(1)])
  have bs: "unat (ByteStream_buffer_size ?i) = length (bs_buffer ?i)" by (rule unat_buffer_size[OF i])
  then have pk: "?buf = take (min 65536 (length (bs_buffer ?i))) (bs_buffer ?i)"
    by (simp add: peek_output_eq[OF i] min_def word_le_nat_alt)
  obtain m s where m: "FileDescriptor_write sys ?td (BufferViewList_of_string_view ?buf) False (fst w) = Inr (m, s)"
    using w' by (auto simp: owner_out_def deref_tcp_def c(2) Let_def bind_result_Inr_iff)
  have "length (concat (BufferViewList_of_string_view ?buf)) < 2 ^ 63"
    using pk by (auto simp: BufferViewList_of_string_view_def min_def)
  from write_once_moves[OF out(1) this m] obtain n where
    wr: "m = of_nat n" "out (os_kernel s) = out (os_kernel (fst w)) @ take n ?buf" "n \<le> length ?buf" "?buf \<noteq> [] \<longrightarrow> 0 < n"
    by (auto simp: BufferViewList_of_string_view_def)
  let ?c = "TCPConnection_pop_inbound m c"
  have n: "unat (of_nat n :: u64) = n" using wr(3) pk by (intro unat_of_nat_lt) simp
  have b': "bs_buffer (TCPConnection_inbound_stream ?c) = drop n (bs_buffer ?i)"
    by (simp add: pop_inbound_stream pop_output_buffer[OF i] n wr(1))
  have tk: "take n ?buf = take n (bs_buffer ?i)" unfolding pk using wr(3)[unfolded pk] by (simp add: min_absorb1)
  have "so_tcp (snd w') = Some ?c" "out (os_kernel (fst w')) = out (os_kernel s)"
    "so_inbound_shutdown (snd w') \<longleftrightarrow> so_inbound_shutdown (snd w)
        \<or> ByteStream_eof (TCPConnection_inbound_stream ?c) \<or> ByteStream_get_error (TCPConnection_inbound_stream ?c)"
    using w' m shutdown_out[OF out(2), of "so_thread_data (snd w)" SHUT_WR s]
    by (auto simp: owner_out_def deref_tcp_def c(2) Let_def bind_result_Inr_iff map_result_Inr_iff split: if_splits)
  then show ?thesis using wr(2,4) tk b' pk by (auto simp: Let_def)
qed

lemma owner_in_moves:
  assumes c: "cn_sound c" "so_tcp (snd w) = Some c"
    and inp: "read_honest sys (fw_fd (os_fds (fst w) (so_thread_data (snd w)))) inp"
    and w': "owner_in sys da gni w = Inr w'"
  shows "\<exists>d c'. TCPConnection_write d c = (size_of d, c') \<and> inp (os_kernel (fst w)) = d @ inp (os_kernel (fst w'))
    \<and> (if fw_eof (os_fds (fst w') (so_thread_data (snd w)))
       then so_tcp (snd w') = Some (TCPConnection_end_input_stream c') \<and> so_outbound_shutdown (snd w')
       else so_tcp (snd w') = Some c' \<and> so_outbound_shutdown (snd w') = so_outbound_shutdown (snd w))"
proof -
  let ?td = "so_thread_data (snd w)" and ?cap = "TCPConnection_remaining_outbound_capacity c"
  obtain d s where d: "FileDescriptor_read sys ?td ?cap (fst w) = Inr (d, s)"
    using w' by (auto simp: owner_in_def deref_tcp_def c(2) Let_def bind_result_Inr_iff)
  have "length d \<le> unat ?cap" using FileDescriptor_read_sound[of ?cap ?td "fst w" sys] by (simp add: d)
  from write_accepts[OF c(1) this] obtain c' where "TCPConnection_write d c = (size_of d, c')" by (metis prod.collapse)
  then show ?thesis using w' read_moves[OF inp d]
    by (intro exI[of _ d] exI[of _ c']) (auto simp: owner_in_def deref_tcp_def c(2) Let_def d map_result_Inr_iff split: if_splits)
qed

section \<open>The end of the thread\<close>

text \<open>A connection that is over, and nothing left to hand to its owner or to the network.\<close>

definition drained :: "'a TCPSpongeSocket \<Rightarrow> bool" where
  "drained so \<longleftrightarrow> (\<exists>c. so_tcp so = Some c \<and> \<not> TCPConnection_active c \<and> cn_segments_out c = []
     \<and> ByteStream_buffer_empty (TCPConnection_inbound_stream c)) \<and> so_inbound_shutdown so"

lemma drained_idle:
  assumes "r \<in> set (TCPSpongeSocket_rules sys da gni fd td)" and "drained (snd w)"
  shows "\<not> rl_interest r w"
    and "\<exists>so. rl_cancel r w = Inr (fst w, so) \<and> drained so \<and> so_owner so = so_owner (snd w) \<and> so_adapter so = so_adapter (snd w)"
  using assms by (cases w; auto simp: TCPSpongeSocket_rules_def EventLoop_add_rule_def drained_def tcp_holds_def Let_def owner_in_cancel_def
      deref_tcp_def TCPConnection_end_input_stream_def)+

lemma drained_wait:
  assumes "set rules \<subseteq> set (TCPSpongeSocket_rules sys da gni fd td)" and "drained (snd w)"
  shows "\<exists>rules' so. EventLoop_wait_next_event sys' timeout_ms rules w = Inr (Exit, rules', fst w, so)
    \<and> drained so \<and> so_owner so = so_owner (snd w) \<and> so_adapter so = so_adapter (snd w)"
proof -
  let ?Q = "\<lambda>w'. fst w' = fst w \<and> drained (snd w') \<and> so_owner (snd w') = so_owner (snd w) \<and> so_adapter (snd w') = so_adapter (snd w)"
  have "\<exists>rules' w'. EventLoop_wait_next_event sys' timeout_ms rules w = Inr (Exit, rules', w') \<and> ?Q w'"
  proof (rule wait_idle)
    fix r w'
    assume r: "r \<in> set rules" and q: "?Q w'"
    from r assms(1) have "r \<in> set (TCPSpongeSocket_rules sys da gni fd td)" by blast
    from drained_idle[OF this, of w'] q show "\<not> rl_interest r w' \<and> (\<exists>w''. rl_cancel r w' = Inr w'' \<and> ?Q w'')" by fastforce
  qed (simp add: assms(2))
  then show ?thesis by (metis prod.collapse)
qed

context datagram_port
begin

lemma serves_by_callbacks:
  "set rules \<subseteq> set (TCPSpongeSocket_rules sys da gni fd td) \<Longrightarrow> socket_inv da fd td w \<Longrightarrow> serve_all rules w = run_callbacks rules w"
  by (rule so.serve_all_callbacks) auto

end

section \<open>An example\<close>

text \<open>
  A kernel whose state is what waits to be read and what was written, that moves a few bytes at a time,
  never has anything ready, and whose owner has set \<^verbatim>\<open>_abort\<close>.
\<close>

definition example_env :: "(bytes \<times> bytes) thread_env" where
  "example_env = \<lparr>sys_read = (\<lambda>fd n k. let d = take (min 4 (unat n)) (fst k) in (((int (length d), 0), d), (drop (length d) (fst k), snd k))),
     sys_writev = (\<lambda>fd iov k. let d = take 2 (concat (map fst iov)) in ((int (length d), 0), (fst k, snd k @ d))),
     sys_close = (\<lambda>fd k. ((0, 0), k)), sys_getfl = (\<lambda>fd k. ((0, 0), k)), sys_setfl = (\<lambda>fd flags k. ((0, 0), k)),
     sys_poll = (\<lambda>fds timeout k. (((0, 0), \<lambda>_. 0), k)),
     sys_socket = (\<lambda>domain type k. ((3, 0), k)), sys_getsockopt = (\<lambda>fd level option k. (((0, 0), 1, 4), k)),
     sys_setsockopt = (\<lambda>fd level option v k. ((0, 0), k)), sys_getsockname = (\<lambda>fd k. (((-1, 9), [], 0), k)),
     sys_getpeername = (\<lambda>fd k. (((-1, 9), [], 0), k)), sys_bind = (\<lambda>fd a k. ((0, 0), k)), sys_connect = (\<lambda>fd a k. ((0, 0), k)),
     sys_shutdown = (\<lambda>fd how k. ((0, 0), k)), sys_recvfrom = (\<lambda>fd n k. (((-1, 11), [], [], 0), k)),
     sys_sendmsg = (\<lambda>fd a iov k. ((0, 0), k)), sys_listen = (\<lambda>fd n k. ((0, 0), k)), sys_accept = (\<lambda>fd k. ((-1, 11), k)),
     sys_open = (\<lambda>path flags k. ((3, 0), k)), sys_tunsetiff = (\<lambda>fd name flags k. ((0, 0), k)),
     sys_socketpair = (\<lambda>domain type k. (((0, 0), 3, 4), k)), sys_timestamp_ms = (\<lambda>k. (0, k)), env_abort = (\<lambda>_. True)\<rparr>"

definition example_connection :: TCPConnection where
  "example_connection = TCPConnection_new TCPConfig_default 7"

definition example_adapter :: "(bytes \<times> bytes, fd_adapter) datagram_adapter" where
  "example_adapter = tun_adapter example_env example_gai example_gni"

definition example_socket :: "(bytes \<times> bytes, fd_adapter) socket_world" where
  "example_socket =
     (\<lparr>os_fds = (\<lambda>h. \<lparr>fw_fd = int h, fw_eof = False, fw_closed = False, fw_read_count = 0, fw_write_count = 0\<rparr>), os_kernel = ([1, 2, 3], [9])\<rparr>,
      \<lparr>so_owner = 0, so_thread_data = 3, so_adapter = \<lparr>fa_base = example_client, fa_fd = 2\<rparr>, so_tcp = Some example_connection,
       so_inbound_shutdown = False, so_outbound_shutdown = False, so_fully_acked = False\<rparr>)"

lemma example_sound: "cn_sound example_connection"
  unfolding example_connection_def by (rule new_sound) (simp add: TCPConfig_default_def DEFAULT_CAPACITY_def)

lemma example_active: "TCPConnection_active example_connection"
  by (simp add: example_connection_def TCPConnection_new_def TCPConnection_active_def TCPConnection_check_prereqs_def)

lemma example_inv: "socket_inv example_adapter 2 3 example_socket"
  using example_sound by (simp add: socket_inv_def example_adapter_def tun_adapter_def example_socket_def)

lemma example_honest:
  "writev_honest example_env fd snd" "read_honest example_env fd fst" "shutdown_silent example_env snd"
  by (auto simp: writev_honest_def read_honest_def shutdown_silent_def example_env_def Let_def BufferViewList_as_iovecs_def o_def min_def)

section \<open>Properties\<close>

text \<open>
  From \<^verbatim>\<open>connect\<close> or \<^verbatim>\<open>listen_and_accept\<close> on, whatever they are given and whatever the kernel does meanwhile: if they
  return, the connection is consistent, and when the thread that they start returns, it has released it.
\<close>

definition thread_safe :: "('k, 'x) thread_env_scheme \<Rightarrow> ('k, 'a) datagram_adapter \<Rightarrow> getnameinfo \<Rightarrow> bool" where
  "thread_safe sys da gni \<longleftrightarrow> (\<forall>c_tcp random c_ad w r. cfg_recv_capacity c_tcp \<noteq> 0
     \<longrightarrow> TCPSpongeSocket_connect sys da gni c_tcp random c_ad w = Some r
         \<or> TCPSpongeSocket_listen_and_accept sys da gni c_tcp random c_ad w = Some r
     \<longrightarrow> sound (\<lambda>(rules, s, so). (\<exists>c. so_tcp so = Some c \<and> cn_sound c)
           \<and> (\<forall>k r'. TCPSpongeSocket_tcp_main sys da rules (s\<lparr>os_kernel := k\<rparr>, so) = Some r' \<longrightarrow> sound (\<lambda>w'. so_tcp (snd w') = None) r')) r)"

lemma port_thread_safe:
  assumes "datagram_port da"
  shows "thread_safe sys da gni"
  unfolding thread_safe_def
proof (intro allI impI)
  fix c_tcp random c_ad w r
  assume cap: "cfg_recv_capacity c_tcp \<noteq> 0" and r: "TCPSpongeSocket_connect sys da gni c_tcp random c_ad w = Some r
    \<or> TCPSpongeSocket_listen_and_accept sys da gni c_tcp random c_ad w = Some r"
  let ?fd = "da_fd da (so_adapter (snd w))" and ?td = "so_thread_data (snd w)"
  have "sound (\<lambda>(rules, w'). set rules \<subseteq> set (TCPSpongeSocket_rules sys da gni ?fd ?td) \<and> socket_inv da ?fd ?td w') r"
    using r datagram_port.connect_sound[OF assms _ cap refl refl] datagram_port.listen_sound[OF assms _ cap refl refl] by blast
  then show "sound (\<lambda>(rules, s, so). (\<exists>c. so_tcp so = Some c \<and> cn_sound c)
      \<and> (\<forall>k r'. TCPSpongeSocket_tcp_main sys da rules (s\<lparr>os_kernel := k\<rparr>, so) = Some r' \<longrightarrow> sound (\<lambda>w'. so_tcp (snd w') = None) r')) r"
  proof (rule sound_weaken, clarify, intro conjI allI impI)
    fix rules s so k r'
    assume rules: "set rules \<subseteq> set (TCPSpongeSocket_rules sys da gni ?fd ?td)" and inv: "socket_inv da ?fd ?td (s, so)"
    from inv show "\<exists>c. so_tcp so = Some c \<and> cn_sound c" by (simp add: socket_inv_def)
    from inv have "socket_inv da ?fd ?td (s\<lparr>os_kernel := k\<rparr>, so)" by (simp add: socket_inv_def)
    then show "TCPSpongeSocket_tcp_main sys da rules (s\<lparr>os_kernel := k\<rparr>, so) = Some r' \<Longrightarrow> sound (\<lambda>w'. so_tcp (snd w') = None) r'"
      using datagram_port.main_sound[OF assms _ rules] by blast
  qed
qed

text \<open>
  C18. The thread of a socket over TUN, UDP or Ethernet, with or without artificial losses, reaches no
  undefined behaviour (an operation on a connection that does not exist, an access out of range, a
  missing entry of a queue), whatever segments arrive and whatever the system calls return; what
  \<^verbatim>\<open>connect\<close> and \<^verbatim>\<open>listen_and_accept\<close> leave behind is a consistent connection, and the thread that ends has released it.
\<close>

theorem socket_thread_safe:
  "thread_safe sys (tun_adapter sys gai gni) gni \<and> thread_safe sys (udp_adapter sys gni) gni
   \<and> thread_safe sys (ethernet_adapter sys gai gni) gni
   \<and> thread_safe sys (lossy_adapter rand (tun_adapter sys gai gni)) gni
   \<and> thread_safe sys (lossy_adapter rand (udp_adapter sys gni)) gni"
  by (intro conjI port_thread_safe tun.datagram_port_axioms udp.datagram_port_axioms tap.datagram_port_axioms
      lossy_tun.datagram_port_axioms lossy_udp.datagram_port_axioms)

text \<open>
  C24. The thread never trips the event loop's check for busy waiting: each of its rules reads or writes
  the descriptor it is registered for, or loses interest, so that serving a ready rule is running its callback.
\<close>

theorem socket_never_busy_waits:
  assumes "datagram_port da" and "set rules \<subseteq> set (TCPSpongeSocket_rules sys da gni fd td)" and "socket_inv da fd td w"
  shows "serve_all rules w = run_callbacks rules w"
  using assms(2,3) by (intro datagram_port.serves_by_callbacks[OF assms(1)])

theorem socket_never_busy_waits_witness:
  "let rules = TCPSpongeSocket_rules example_env example_adapter example_gni 2 3
   in length rules = 4 \<and> serve_all rules example_socket = run_callbacks rules example_socket"
  using socket_never_busy_waits[OF _ order_refl example_inv, of example_env example_gni]
  by (simp add: Let_def example_adapter_def tun.datagram_port_axioms TCPSpongeSocket_rules_def EventLoop_add_rule_def)

text \<open>
  C19. Bytes pass between the application's socket and the connection without loss or repetition: what
  is written to the local socket followed by what is left in the inbound stream is what there was
  before, and there is less left; what is read from the local socket is accepted in full as
  outbound data, and its end ends the outbound stream.
\<close>

theorem socket_moves_bytes:
  assumes "cn_sound c" and "so_tcp (snd w) = Some c"
    and "writev_honest sys (fw_fd (os_fds (fst w) (so_thread_data (snd w)))) out" and "shutdown_silent sys out"
    and "read_honest sys (fw_fd (os_fds (fst w) (so_thread_data (snd w)))) inp"
  shows "(owner_out sys da gni w = Inr w' \<longrightarrow> (\<exists>c'. so_tcp (snd w') = Some c' \<and>
      (let b = bs_buffer (TCPConnection_inbound_stream c); b' = bs_buffer (TCPConnection_inbound_stream c')
       in out (os_kernel (fst w')) @ b' = out (os_kernel (fst w)) @ b \<and> (b \<noteq> [] \<longrightarrow> length b' < length b))
      \<and> (so_inbound_shutdown (snd w') \<longleftrightarrow> so_inbound_shutdown (snd w)
          \<or> ByteStream_eof (TCPConnection_inbound_stream c') \<or> ByteStream_get_error (TCPConnection_inbound_stream c'))))
    \<and> (owner_in sys da gni w = Inr w' \<longrightarrow> (\<exists>d c'. TCPConnection_write d c = (size_of d, c')
      \<and> inp (os_kernel (fst w)) = d @ inp (os_kernel (fst w'))
      \<and> (if fw_eof (os_fds (fst w') (so_thread_data (snd w)))
         then so_tcp (snd w') = Some (TCPConnection_end_input_stream c') \<and> so_outbound_shutdown (snd w')
         else so_tcp (snd w') = Some c' \<and> so_outbound_shutdown (snd w') = so_outbound_shutdown (snd w))))"
  using owner_out_moves[OF assms(1-4)] owner_in_moves[OF assms(1,2,5)] by blast

theorem socket_moves_bytes_witness:
  "\<exists>w' d c'. owner_in example_env example_adapter example_gni example_socket = Inr w'
     \<and> TCPConnection_write d example_connection = (size_of d, c') \<and> d @ fst (os_kernel (fst w')) = [1, 2, 3]"
proof -
  have tcp: "so_tcp (snd example_socket) = Some example_connection" by (simp add: example_socket_def)
  have cap: "TCPConnection_remaining_outbound_capacity example_connection = 64000"
    by (simp add: TCPConnection_remaining_outbound_capacity_def example_active)
      (simp add: example_connection_def TCPConnection_new_def TCPSender_new_def ByteStream_new_def ByteStream_remaining_capacity_def
        ByteStream_buffer_size_def TCPConfig_default_def DEFAULT_CAPACITY_def)
  have m: "min BUFFER_SIZE 64000 = (64000 :: u64)" by (simp add: BUFFER_SIZE_def min_def)
  have r: "FileDescriptor_read example_env 3 (TCPConnection_remaining_outbound_capacity example_connection) (fst example_socket)
    = Inr ([1, 2, 3], register_read 3 ((fst example_socket)\<lparr>os_kernel := ([], [9])\<rparr>))"
    unfolding cap FileDescriptor_read_def m
    by (simp add: example_env_def example_socket_def SystemCall_def int_of_ssize_def signed_take_bit_int_eq_self)
  have "fst (TCPConnection_write [1, 2, 3] example_connection) = size_of [1, 2, 3 :: u8]"
    by (intro write_accepts[OF example_sound]) (simp add: cap)
  then obtain c' where c': "TCPConnection_write [1, 2, 3] example_connection = (size_of [1, 2, 3 :: u8], c')"
    by (metis prod.collapse)
  obtain w' where w': "owner_in example_env example_adapter example_gni example_socket = Inr w'"
    using r c' by (simp add: owner_in_def deref_tcp_def tcp) (simp add: example_socket_def register_read_def update_fd_def)
  from socket_moves_bytes[OF example_sound tcp example_honest(1,3,2), of example_adapter example_gni w'] w'
  show ?thesis by (auto simp: example_socket_def)
qed

text \<open>
  C25. The thread of a finished connection ends: once the connection is not active, its last segments are
  sent and the owner has been given all bytes and the end of the stream, \<^verbatim>\<open>_tcp_main\<close> returns without waiting
  any more; all it still does is to shut down the owner's socket and to release the connection.
\<close>

theorem socket_thread_ends:
  assumes "set rules \<subseteq> set (TCPSpongeSocket_rules sys da gni fd td)" and "drained (snd w)"
  shows "\<exists>so. TCPSpongeSocket_tcp_main sys da rules w =
      Some (map_result (\<lambda>s. (s, so)) (Socket_shutdown sys (so_owner (snd w)) SHUT_RDWR
        ((fst w)\<lparr>os_kernel := snd (sys_timestamp_ms sys (os_kernel (fst w)))\<rparr>)))
    \<and> so_tcp so = None \<and> so_adapter so = so_adapter (snd w)"
proof -
  let ?w = "((fst w)\<lparr>os_kernel := snd (sys_timestamp_ms sys (os_kernel (fst w)))\<rparr>, snd w)"
  have "drained (snd ?w)" using assms(2) by simp
  from drained_wait[OF assms(1) this, of sys TCP_TICK_MS] obtain rules' so where
    wait: "EventLoop_wait_next_event sys TCP_TICK_MS rules ?w = Inr (Exit, rules', fst ?w, so)"
      "drained so" "so_owner so = so_owner (snd w)" "so_adapter so = so_adapter (snd w)" by auto
  obtain c where "so_tcp so = Some c" "so_tcp (snd w) \<noteq> None" using wait(2) assms(2) by (auto simp: drained_def)
  then show ?thesis using wait
    by (intro exI[of _ "so\<lparr>so_tcp := None\<rparr>"])
      (auto simp: TCPSpongeSocket_tcp_main_def TCPSpongeSocket_tcp_loop_def split_beta tcp_loop.simps[of sys da "\<lambda>_. True"] tcp_round_def
        value_tcp_def TCPSpongeSocket_reset_tcp_def map_result_as_bind)
qed

theorem socket_thread_ends_witness:
  "\<exists>s so. TCPSpongeSocket_tcp_main example_env example_adapter (TCPSpongeSocket_rules example_env example_adapter example_gni 2 3)
      (fst example_socket, (snd example_socket)\<lparr>so_tcp := Some (example_connection\<lparr>cn_error := True\<rparr>), so_inbound_shutdown := True\<rparr>)
    = Some (Inr (s, so)) \<and> so_tcp so = None"
proof -
  let ?so = "(snd example_socket)\<lparr>so_tcp := Some (example_connection\<lparr>cn_error := True\<rparr>), so_inbound_shutdown := True\<rparr>"
  have "drained (snd (fst example_socket, ?so))"
    by (simp add: drained_def example_connection_def TCPConnection_new_def TCPConnection_active_def TCPConnection_inbound_stream_def
        TCPReceiver_new_def StreamReassembler_new_def TCPReceiver_stream_out_def ByteStream_new_def ByteStream_buffer_empty_def)
  from socket_thread_ends[OF order_refl this, of example_env example_adapter example_gni 2 3] show ?thesis
    by (auto simp: Socket_shutdown_def checked_def SystemCall_def example_env_def SHUT_RD_def SHUT_WR_def SHUT_RDWR_def)
qed

text \<open>
  A socket that is destroyed while its connection is active does not reset it at the peer: the thread
  notices \<^verbatim>\<open>_abort\<close>, leaves the loop and releases the connection. The destructor puts a segment with \<^verbatim>\<open>RST\<close> behind
  the others in the queue of the connection, which is released with it; the adapter is not called.
\<close>

lemma released_with_RST:
  assumes "so_tcp so = Some c" and "TCPConnection_active c" and "cn_safe c"
  shows "\<exists>released rst. TCPSpongeSocket_reset_tcp so = (Some released, so\<lparr>so_tcp := None\<rparr>)
    \<and> cn_segments_out released = cn_segments_out c @ [rst] \<and> tcp_rst (seg_header rst)"
  using assms(1) destroy_resets[OF assms(3,2)] by (auto simp: TCPSpongeSocket_reset_tcp_def)

end
