(* ===== verification/SHA256_Digest.thy ===== *)
theory SHA256_Digest
  imports Sponge_Prelude
begin

text \<open>
  The class \<^verbatim>\<open>SHA256\<close> of \<^verbatim>\<open>apps/lab7.cc\<close>, which labels frames in the debugging output. The model follows
  the class; \<open>sha256\<close> is the function of FIPS 180-4, section 6.2, with its padding, message
  schedule and rounds written as there.
\<close>

unbundle bit_operations_syntax

section \<open>The model\<close>

record SHA256 =
  sha_data :: "u8 list"
  sha_blockLen :: u8
  sha_bitLen :: u64
  sha_state :: "u32 list"

definition sha_K :: "u32 list" where
  "sha_K = concat [
     [0x428a2f98, 0x71374491, 0xb5c0fbcf, 0xe9b5dba5, 0x3956c25b, 0x59f111f1, 0x923f82a4, 0xab1c5ed5],
     [0xd807aa98, 0x12835b01, 0x243185be, 0x550c7dc3, 0x72be5d74, 0x80deb1fe, 0x9bdc06a7, 0xc19bf174],
     [0xe49b69c1, 0xefbe4786, 0x0fc19dc6, 0x240ca1cc, 0x2de92c6f, 0x4a7484aa, 0x5cb0a9dc, 0x76f988da],
     [0x983e5152, 0xa831c66d, 0xb00327c8, 0xbf597fc7, 0xc6e00bf3, 0xd5a79147, 0x06ca6351, 0x14292967],
     [0x27b70a85, 0x2e1b2138, 0x4d2c6dfc, 0x53380d13, 0x650a7354, 0x766a0abb, 0x81c2c92e, 0x92722c85],
     [0xa2bfe8a1, 0xa81a664b, 0xc24b8b70, 0xc76c51a3, 0xd192e819, 0xd6990624, 0xf40e3585, 0x106aa070],
     [0x19a4c116, 0x1e376c08, 0x2748774c, 0x34b0bcb5, 0x391c0cb3, 0x4ed8aa4a, 0x5b9cca4f, 0x682e6ff3],
     [0x748f82ee, 0x78a5636f, 0x84c87814, 0x8cc70208, 0x90befffa, 0xa4506ceb, 0xbef9a3f7, 0xc67178f2]]"

definition sha_ROT :: "u32 \<Rightarrow> nat \<Rightarrow> u32" where "sha_ROT x n = drop_bit n x OR push_bit (32 - n) x"
definition sha_CH :: "u32 \<Rightarrow> u32 \<Rightarrow> u32 \<Rightarrow> u32" where "sha_CH x y z = (x AND y) XOR (NOT x AND z)"
definition sha_EP0 :: "u32 \<Rightarrow> u32" where "sha_EP0 x = sha_ROT x 2 XOR sha_ROT x 13 XOR sha_ROT x 22"
definition sha_EP1 :: "u32 \<Rightarrow> u32" where "sha_EP1 x = sha_ROT x 6 XOR sha_ROT x 11 XOR sha_ROT x 25"
definition sha_MAJ :: "u32 \<Rightarrow> u32 \<Rightarrow> u32 \<Rightarrow> u32" where "sha_MAJ x y z = (x AND y) XOR (y AND z) XOR (z AND x)"
definition sha_SIG0 :: "u32 \<Rightarrow> u32" where "sha_SIG0 x = sha_ROT x 7 XOR sha_ROT x 18 XOR drop_bit 3 x"
definition sha_SIG1 :: "u32 \<Rightarrow> u32" where "sha_SIG1 x = sha_ROT x 17 XOR sha_ROT x 19 XOR drop_bit 10 x"

text \<open>\<^verbatim>\<open>_update\<close>: the message schedule \<^verbatim>\<open>c\<close>, of which the loops fill the first sixteen and the other entries, and the rounds on \<^verbatim>\<open>aux\<close>.\<close>

definition sha_word :: "u8 list \<Rightarrow> nat \<Rightarrow> u32" where
  "sha_word data i = push_bit 24 (ucast (data ! (4 * i))) OR push_bit 16 (ucast (data ! (4 * i + 1)))
     OR push_bit 8 (ucast (data ! (4 * i + 2))) OR ucast (data ! (4 * i + 3))"

primrec extend_schedule :: "nat \<Rightarrow> u32 list \<Rightarrow> u32 list" where
  "extend_schedule 0 c = c"
| "extend_schedule (Suc n) c =
     (let i = length c
      in extend_schedule n (c @ [sha_SIG1 (c ! (i - 2)) + c ! (i - 7) + sha_SIG0 (c ! (i - 15)) + c ! (i - 16)]))"

definition sha_round :: "u32 list \<Rightarrow> nat \<Rightarrow> u32 list \<Rightarrow> u32 list" where
  "sha_round c i aux =
     (let t1 = aux ! 7 + sha_EP1 (aux ! 4) + sha_CH (aux ! 4) (aux ! 5) (aux ! 6) + sha_K ! i + c ! i;
          t2 = sha_EP0 (aux ! 0) + sha_MAJ (aux ! 0) (aux ! 1) (aux ! 2)
      in [t1 + t2, aux ! 0, aux ! 1, aux ! 2, aux ! 3 + t1, aux ! 4, aux ! 5, aux ! 6])"

definition SHA256_update :: "SHA256 \<Rightarrow> SHA256" where
  "SHA256_update s =
     (let c = extend_schedule 48 (map (sha_word (sha_data s)) [0..<16]);
          aux = fold (sha_round c) [0..<64] (sha_state s)
      in s\<lparr>sha_state := map2 (+) (sha_state s) aux\<rparr>)"

text \<open>The constructor leaves \<^verbatim>\<open>_data\<close> uninitialized: \<open>garbage\<close> is what it holds.\<close>

definition sha_H0 :: "u32 list" where
  "sha_H0 = [0x6a09e667, 0xbb67ae85, 0x3c6ef372, 0xa54ff53a, 0x510e527f, 0x9b05688c, 0x1f83d9ab, 0x5be0cd19]"

definition SHA256_new :: "u8 list \<Rightarrow> SHA256" where
  "SHA256_new garbage = \<lparr>sha_data = garbage, sha_blockLen = 0, sha_bitLen = 0, sha_state = sha_H0\<rparr>"

text \<open>\<^verbatim>\<open>digest\<close>: the loop over the input, the padding, the length.\<close>

definition SHA256_absorb :: "u8 \<Rightarrow> SHA256 \<Rightarrow> SHA256" where
  "SHA256_absorb e s =
     (let s = s\<lparr>sha_data := (sha_data s)[unat (sha_blockLen s) := e], sha_blockLen := sha_blockLen s + 1\<rparr>
      in if sha_blockLen s = 64 then SHA256_update (s\<lparr>sha_bitLen := sha_bitLen s + 512, sha_blockLen := 0\<rparr>) else s)"

function pad_loop :: "u8 \<Rightarrow> u8 \<Rightarrow> u8 list \<Rightarrow> u8 list" where
  "pad_loop idx end_idx data = (if idx < end_idx then pad_loop (idx + 1) end_idx (data[unat idx := 0]) else data)"
  by pat_completeness auto
termination
proof (relation "measure (\<lambda>(idx, end_idx, data). unat (end_idx - idx))", goal_cases)
  case (2 idx end_idx data)
  then have z: "end_idx - idx \<noteq> 0" by auto
  have "unat (end_idx - (idx + 1)) = unat (end_idx - idx) - 1"
    unfolding diff_diff_eq[symmetric] by (rule unat_minus_one[OF z])
  moreover have "0 < unat (end_idx - idx)" using z by (simp add: unat_gt_0)
  ultimately show ?case by simp
qed simp

declare pad_loop.simps [simp del]

definition SHA256_pad :: "SHA256 \<Rightarrow> SHA256" where
  "SHA256_pad s =
     (let idx = sha_blockLen s; end_idx = (if sha_blockLen s < 56 then 56 else 64);
          s = s\<lparr>sha_data := pad_loop (idx + 1) end_idx ((sha_data s)[unat idx := 0x80])\<rparr>
      in if sha_blockLen s \<ge> 56
         then let s = SHA256_update s in s\<lparr>sha_data := replicate 56 0 @ drop 56 (sha_data s)\<rparr>
         else s)"

definition SHA256_length :: "SHA256 \<Rightarrow> SHA256" where
  "SHA256_length s =
     (let bitLen = sha_bitLen s + ucast (8 * ucast (sha_blockLen s) :: u32);
          d = sha_data s;
          d = d[63 := ucast bitLen]; d = d[62 := ucast (drop_bit 8 bitLen)]; d = d[61 := ucast (drop_bit 16 bitLen)];
          d = d[60 := ucast (drop_bit 24 bitLen)]; d = d[59 := ucast (drop_bit 32 bitLen)]; d = d[58 := ucast (drop_bit 40 bitLen)];
          d = d[57 := ucast (drop_bit 48 bitLen)]; d = d[56 := ucast (drop_bit 56 bitLen)]
      in s\<lparr>sha_bitLen := bitLen, sha_data := d\<rparr>)"

text \<open>The loops that write the hash: \<open>hash[i + 4 * j]\<close> is byte \<open>i\<close>, from the left, of word \<open>j\<close>.\<close>

definition sha_hash :: "u32 list \<Rightarrow> u8 list" where
  "sha_hash state = map (\<lambda>n. ucast (drop_bit (24 - 8 * (n mod 4)) (state ! (n div 4)) AND 0xFF)) [0..<32]"

definition SHA256_digest :: "u8 list \<Rightarrow> SHA256 \<Rightarrow> u8 list \<times> SHA256" where
  "SHA256_digest input s =
     (let s = SHA256_update (SHA256_length (SHA256_pad (fold SHA256_absorb input s))) in (sha_hash (sha_state s), s))"

text \<open>\<^verbatim>\<open>toString\<close>: the last \<open>len\<close> digits.\<close>

definition SHA256_toString :: "u8 list \<Rightarrow> u64 \<Rightarrow> string result" where
  "SHA256_toString hash len =
     (let s = concat (map (\<lambda>b. [hex_digit (unat b div 16), hex_digit (unat b mod 16)]) hash)
      in if size_of s - len > size_of s then Inl (Out_Of_Range ''basic_string::substr'') else Inr (drop (unat (size_of s - len)) s))"

section \<open>FIPS 180-4\<close>

text \<open>Section 5.1.1: a 1 bit, as many 0 bits as needed, and the length in bits as 64 bits. Section 6.2.2: schedule, rounds and hash values.\<close>

definition be64 :: "u64 \<Rightarrow> u8 list" where
  "be64 x = map (\<lambda>i. ucast (drop_bit (56 - 8 * i) x)) [0..<8]"

definition be32 :: "u32 \<Rightarrow> u8 list" where
  "be32 x = map (\<lambda>i. ucast (drop_bit (24 - 8 * i) x)) [0..<4]"

definition sha_padded :: "u8 list \<Rightarrow> u8 list" where
  "sha_padded m = m @ [0x80] @ replicate ((119 - length m mod 64) mod 64) 0 @ be64 (of_nat (8 * length m))"

fun schedule :: "(nat \<Rightarrow> u32) \<Rightarrow> nat \<Rightarrow> u32" where
  "schedule M t = (if t < 16 then M t
     else sha_SIG1 (schedule M (t - 2)) + schedule M (t - 7) + sha_SIG0 (schedule M (t - 15)) + schedule M (t - 16))"

declare schedule.simps [simp del]

fun compression :: "(nat \<Rightarrow> u32) \<Rightarrow> nat \<Rightarrow> u32 \<times> u32 \<times> u32 \<times> u32 \<times> u32 \<times> u32 \<times> u32 \<times> u32
    \<Rightarrow> u32 \<times> u32 \<times> u32 \<times> u32 \<times> u32 \<times> u32 \<times> u32 \<times> u32" where
  "compression W t (a, b, c, d, e, f, g, h) =
     (let T1 = h + sha_EP1 e + sha_CH e f g + sha_K ! t + W t;
          T2 = sha_EP0 a + ((a AND b) XOR (a AND c) XOR (b AND c))
      in (T1 + T2, a, b, c, d + T1, e, f, g))"

fun hash_block :: "u8 list \<Rightarrow> u32 \<times> u32 \<times> u32 \<times> u32 \<times> u32 \<times> u32 \<times> u32 \<times> u32
    \<Rightarrow> u32 \<times> u32 \<times> u32 \<times> u32 \<times> u32 \<times> u32 \<times> u32 \<times> u32" where
  "hash_block block (H0, H1, H2, H3, H4, H5, H6, H7) =
     (let (a, b, c, d, e, f, g, h) = fold (compression (schedule (sha_word block))) [0..<64] (H0, H1, H2, H3, H4, H5, H6, H7)
      in (H0 + a, H1 + b, H2 + c, H3 + d, H4 + e, H5 + f, H6 + g, H7 + h))"

fun hash_blocks :: "u8 list \<Rightarrow> u32 \<times> u32 \<times> u32 \<times> u32 \<times> u32 \<times> u32 \<times> u32 \<times> u32
    \<Rightarrow> u32 \<times> u32 \<times> u32 \<times> u32 \<times> u32 \<times> u32 \<times> u32 \<times> u32" where
  "hash_blocks m H = (if length m < 64 then H else hash_blocks (drop 64 m) (hash_block (take 64 m) H))"

declare hash_blocks.simps [simp del]

definition sha256 :: "u8 list \<Rightarrow> u8 list" where
  "sha256 m = (case hash_blocks (sha_padded m)
       (0x6a09e667, 0xbb67ae85, 0x3c6ef372, 0xa54ff53a, 0x510e527f, 0x9b05688c, 0x1f83d9ab, 0x5be0cd19) of
     (H0, H1, H2, H3, H4, H5, H6, H7) \<Rightarrow> be32 H0 @ be32 H1 @ be32 H2 @ be32 H3 @ be32 H4 @ be32 H5 @ be32 H6 @ be32 H7)"

section \<open>Schedule and rounds\<close>

lemma extend_schedule_spec:
  assumes "16 \<le> length c" and "\<forall>t < length c. c ! t = schedule M t"
  shows "length (extend_schedule n c) = length c + n \<and> (\<forall>t < length c + n. extend_schedule n c ! t = schedule M t)"
  using assms
proof (induction n arbitrary: c)
  case (Suc n)
  let ?i = "length c"
  let ?x = "sha_SIG1 (c ! (?i - 2)) + c ! (?i - 7) + sha_SIG0 (c ! (?i - 15)) + c ! (?i - 16)"
  have "?x = schedule M ?i" using Suc.prems by (subst schedule.simps) simp
  then have "\<forall>t < length (c @ [?x]). (c @ [?x]) ! t = schedule M t" using Suc.prems(2) by (auto simp: nth_append less_Suc_eq)
  from Suc.IH[OF _ this] Suc.prems(1) show ?case by (simp add: Let_def)
qed simp

fun state_list :: "u32 \<times> u32 \<times> u32 \<times> u32 \<times> u32 \<times> u32 \<times> u32 \<times> u32 \<Rightarrow> u32 list" where
  "state_list (a, b, c, d, e, f, g, h) = [a, b, c, d, e, f, g, h]"

lemma round_spec:
  assumes "c ! t = W t"
  shows "sha_round c t (state_list H) = state_list (compression W t H)"
proof -
  obtain a b d e f g h i where H: "H = (a, b, d, e, f, g, h, i)" by (metis surj_pair)
  have "sha_MAJ a b d = (a AND b) XOR (a AND d) XOR (b AND d)"
    by (simp add: sha_MAJ_def ac_simps)
  then show ?thesis using assms by (simp add: H sha_round_def Let_def ac_simps)
qed

lemma rounds_spec:
  assumes "\<forall>t \<in> set ts. c ! t = W t"
  shows "fold (sha_round c) ts (state_list H) = state_list (fold (compression W) ts H)"
  using assms by (induction ts arbitrary: H) (simp_all add: round_spec)

lemma map2_state: "map2 (+) (state_list H) (state_list G) = state_list (case (H, G) of
  ((H0, H1, H2, H3, H4, H5, H6, H7), (a, b, c, d, e, f, g, h)) \<Rightarrow> (H0 + a, H1 + b, H2 + c, H3 + d, H4 + e, H5 + f, H6 + g, H7 + h))"
  by (simp split: prod.splits)

lemma update_spec:
  assumes "sha_state s = state_list H"
  shows "SHA256_update s = s\<lparr>sha_state := state_list (hash_block (sha_data s) H)\<rparr>"
proof -
  let ?c = "extend_schedule 48 (map (sha_word (sha_data s)) [0..<16])" and ?W = "schedule (sha_word (sha_data s))"
  have "\<forall>t < 16. map (sha_word (sha_data s)) [0..<16] ! t = ?W t" by (subst schedule.simps) simp
  then have "\<forall>t \<in> set [0..<64]. ?c ! t = ?W t"
    using extend_schedule_spec[of "map (sha_word (sha_data s)) [0..<16]" "sha_word (sha_data s)" 48] by simp
  from rounds_spec[OF this, of H] show ?thesis
    by (cases H) (simp add: SHA256_update_def Let_def assms map2_state[simplified] split: prod.splits)
qed

section \<open>Blocks\<close>

lemma hash_blocks_short: "length m < 64 \<Longrightarrow> hash_blocks m H = H"
  by (subst hash_blocks.simps) simp

lemma hash_blocks_one: "length b = 64 \<Longrightarrow> hash_blocks b H = hash_block b H"
  by (subst hash_blocks.simps) (simp add: hash_blocks_short)

lemma hash_blocks_append: "length m = 64 * n \<Longrightarrow> hash_blocks (m @ x) H = hash_blocks x (hash_blocks m H)"
proof (induction n arbitrary: m H)
  case (Suc n)
  then have l: "64 \<le> length m" "length (drop 64 m) = 64 * n" by simp_all
  then have "hash_blocks (m @ x) H = hash_blocks (drop 64 m @ x) (hash_block (take 64 m) H)"
    by (subst hash_blocks.simps) simp
  moreover have "hash_blocks m H = hash_blocks (drop 64 m) (hash_block (take 64 m) H)"
    using l(1) by (subst hash_blocks.simps) simp
  ultimately show ?case using Suc.IH[OF l(2)] by simp
qed (simp add: hash_blocks_short)

text \<open>The whole blocks of a message, and the rest.\<close>

definition whole :: "u8 list \<Rightarrow> u8 list" where "whole m = take (64 * (length m div 64)) m"
definition rest :: "u8 list \<Rightarrow> u8 list" where "rest m = drop (64 * (length m div 64)) m"

lemma whole_rest: "m = whole m @ rest m" "length (whole m) = 64 * (length m div 64)" "length (rest m) = length m mod 64"
  by (simp_all add: whole_def rest_def minus_mult_div_eq_mod)

lemma hash_whole: "hash_blocks (m @ x) H = hash_blocks (rest m @ x) (hash_blocks m H)"
proof -
  have w: "hash_blocks (whole m @ y) H = hash_blocks y (hash_blocks (whole m) H)" for y
    by (rule hash_blocks_append[OF whole_rest(2)])
  have "hash_blocks m H = hash_blocks (whole m @ rest m) H" using whole_rest(1)[of m] by simp
  also have "... = hash_blocks (whole m) H" by (simp add: w hash_blocks_short whole_rest(3))
  finally have "hash_blocks m H = hash_blocks (whole m) H" .
  then show ?thesis using w[of "rest m @ x"] whole_rest(1)[of m] by (metis append.assoc)
qed

lemma hash_rest_short: "length m mod 64 + length x < 64 \<Longrightarrow> hash_blocks (m @ x) H = hash_blocks m H"
  unfolding hash_whole[of m x H] by (simp add: hash_blocks_short whole_rest(3))

lemma hash_rest_block: "length (rest m @ x) = 64 \<Longrightarrow> hash_blocks (m @ x @ y) H = hash_blocks y (hash_block (rest m @ x) (hash_blocks m H))"
  using hash_whole[of m "x @ y" H] hash_blocks_append[of "rest m @ x" 1 y] by (simp add: hash_blocks_one)

section \<open>Absorbing the input\<close>

abbreviation H_init :: "u32 \<times> u32 \<times> u32 \<times> u32 \<times> u32 \<times> u32 \<times> u32 \<times> u32" where
  "H_init \<equiv> (0x6a09e667, 0xbb67ae85, 0x3c6ef372, 0xa54ff53a, 0x510e527f, 0x9b05688c, 0x1f83d9ab, 0x5be0cd19)"

definition absorbed :: "u8 list \<Rightarrow> SHA256 \<Rightarrow> bool" where
  "absorbed m s \<longleftrightarrow> length (sha_data s) = 64 \<and> sha_blockLen s = of_nat (length m mod 64)
     \<and> take (length m mod 64) (sha_data s) = rest m
     \<and> sha_bitLen s = of_nat (512 * (length m div 64)) \<and> sha_state s = state_list (hash_blocks m H_init)"

lemma unat_mod64: "unat (of_nat (n mod 64) :: u8) = n mod 64"
  using mod_less_divisor[of 64 n] by (intro unat_of_nat_lt) simp

lemma absorb_step:
  assumes "absorbed m s"
  shows "absorbed (m @ [e]) (SHA256_absorb e s)"
proof -
  let ?r = "length m mod 64" and ?d = "(sha_data s)[length m mod 64 := e]"
  have s: "length (sha_data s) = 64" "sha_blockLen s = of_nat ?r" "take ?r (sha_data s) = rest m"
    "sha_bitLen s = of_nat (512 * (length m div 64))" "sha_state s = state_list (hash_blocks m H_init)"
    using assms by (simp_all add: absorbed_def)
  have r: "?r < 64" by simp
  have d: "take (Suc ?r) ?d = rest m @ [e]" using s(1,3) r by (simp add: take_Suc_conv_app_nth)
  have n: "sha_blockLen s + 1 = of_nat (Suc ?r)" by (simp add: s(2) add.commute)
  have "unat (of_nat (Suc ?r) :: u8) = Suc ?r" using r by (intro unat_of_nat_lt) simp
  then have full: "sha_blockLen s + 1 = 64 \<longleftrightarrow> ?r = 63" unfolding n by (simp add: word_unat_eq_iff)
  show ?thesis
  proof (cases "?r = 63")
    case True
    then have l: "Suc (length m) mod 64 = 0" "Suc (length m) div 64 = Suc (length m div 64)" by (simp_all add: mod_Suc div_Suc)
    have d: "?d = rest m @ [e]" using d s(1) True by simp
    then have "length (rest m @ [e]) = 64" using s(1) by (metis length_list_update)
    then have "hash_blocks (m @ [e]) H_init = hash_block ?d (hash_blocks m H_init)"
      using hash_rest_block[of m "[e]" "[]"] d by (simp add: hash_blocks_short)
    then show ?thesis using True full s l
      by (simp add: SHA256_absorb_def Let_def update_spec[of _ "hash_blocks m H_init"] unat_mod64 absorbed_def rest_def)
  next
    case False
    then have l: "Suc (length m) mod 64 = Suc ?r" "Suc (length m) div 64 = length m div 64" by (simp_all add: mod_Suc div_Suc)
    have "rest (m @ [e]) = rest m @ [e]" using l(2) by (simp add: rest_def)
    then show ?thesis using False full s l d n r hash_rest_short[of m "[e]"]
      by (simp add: SHA256_absorb_def Let_def unat_mod64 absorbed_def)
  qed
qed

lemma absorb_all:
  assumes "length garbage = 64"
  shows "absorbed m (fold SHA256_absorb m (SHA256_new garbage))"
proof (induction m rule: rev_induct)
  case Nil
  show ?case using assms by (simp add: absorbed_def SHA256_new_def rest_def hash_blocks_short sha_H0_def)
qed (simp add: absorb_step)

section \<open>Padding\<close>

lemma pad_loop_spec:
  "unat idx \<le> unat end_idx \<Longrightarrow> unat end_idx \<le> length d \<Longrightarrow>
    pad_loop idx end_idx d = take (unat idx) d @ replicate (unat end_idx - unat idx) 0 @ drop (unat end_idx) d"
proof (induction idx end_idx d rule: pad_loop.induct)
  case (1 idx end_idx d)
  show ?case
  proof (cases "idx < end_idx")
    case True
    then have u: "unat (idx + 1) = Suc (unat idx)" "unat idx < unat end_idx"
      using unat8_bound[of end_idx] by (auto simp: word_less_nat_alt intro: unat_add_lt[of idx 1, simplified])
    then have "take (Suc (unat idx)) (d[unat idx := 0]) = take (unat idx) d @ [0]"
      using 1(3) by (simp add: take_Suc_conv_app_nth)
    moreover have "unat end_idx - unat idx = Suc (unat end_idx - Suc (unat idx))" using u by simp
    ultimately show ?thesis using 1 True u by (subst pad_loop.simps) simp
  next
    case False
    then have "unat idx = unat end_idx" using 1(2) by (simp add: word_less_nat_alt)
    then show ?thesis using False by (subst pad_loop.simps) simp
  qed
qed

text \<open>What \<open>_data\<close> holds after the input \<open>m\<close>, up to the bytes that the length overwrites.\<close>

lemma pad_short:
  assumes "absorbed m s" and "length m mod 64 < 56"
  shows "\<exists>d. SHA256_pad s = s\<lparr>sha_data := d\<rparr> \<and> length d = 64
    \<and> take 56 d = rest m @ 0x80 # replicate (55 - length m mod 64) 0"
proof -
  let ?r = "length m mod 64" and ?d = "(sha_data s)[length m mod 64 := 0x80]"
  have s: "length (sha_data s) = 64" "sha_blockLen s = of_nat ?r" "take ?r (sha_data s) = rest m"
    using assms(1) by (simp_all add: absorbed_def)
  have i: "unat (of_nat ?r + 1 :: u8) = Suc ?r"
    using unat_add_lt[of "of_nat ?r :: u8" 1] assms(2) by (simp add: unat_mod64)
  have "take (Suc ?r) ?d = rest m @ [0x80]" using s assms(2) by (simp add: take_Suc_conv_app_nth)
  moreover have "pad_loop (of_nat ?r + 1) 56 ?d = take (Suc ?r) ?d @ replicate (55 - ?r) 0 @ drop 56 ?d"
    using pad_loop_spec[of "of_nat ?r + 1" 56 ?d] i s(1) assms(2) by simp
  moreover have "(of_nat ?r :: u8) < 56" "\<not> (56 :: u8) \<le> of_nat ?r"
    using assms(2) by (simp_all add: word_less_nat_alt word_le_nat_alt unat_mod64)
  moreover have "56 - ?r = Suc (55 - ?r)" using assms(2) by simp
  ultimately show ?thesis using s assms(2)
    by (intro exI[of _ "pad_loop (of_nat ?r + 1) 56 ?d"]) (simp add: SHA256_pad_def Let_def unat_mod64 whole_rest(3))
qed

lemma pad_long:
  assumes "absorbed m s" and "56 \<le> length m mod 64"
  shows "\<exists>d. SHA256_pad s = s\<lparr>sha_data := d, sha_state := state_list (hash_block (rest m @ 0x80 # replicate (63 - length m mod 64) 0) (hash_blocks m H_init))\<rparr>
    \<and> length d = 64 \<and> take 56 d = replicate 56 0"
proof -
  let ?r = "length m mod 64" and ?d = "(sha_data s)[length m mod 64 := 0x80]"
  have s: "length (sha_data s) = 64" "sha_blockLen s = of_nat ?r" "take ?r (sha_data s) = rest m"
    "sha_state s = state_list (hash_blocks m H_init)"
    using assms(1) by (simp_all add: absorbed_def)
  have r: "?r < 64" by simp
  then have i: "unat (of_nat ?r + 1 :: u8) = Suc ?r"
    using unat_add_lt[of "of_nat ?r :: u8" 1] by (simp add: unat_mod64)
  have t: "take (Suc ?r) ?d = rest m @ [0x80]" using s r by (simp add: take_Suc_conv_app_nth)
  have "pad_loop (of_nat ?r + 1) 64 ?d = rest m @ 0x80 # replicate (63 - ?r) 0"
    using pad_loop_spec[of "of_nat ?r + 1" 64 ?d] i s(1) r t by simp
  moreover have "\<not> (of_nat ?r :: u8) < 56" "(56 :: u8) \<le> of_nat ?r"
    using assms(2) by (simp_all add: word_less_nat_alt word_le_nat_alt unat_mod64)
  ultimately show ?thesis using s assms(2)
    by (intro exI[of _ "replicate 56 0 @ drop 56 (rest m) @ 0x80 # replicate (63 - ?r) 0"])
      (simp add: SHA256_pad_def Let_def unat_mod64 whole_rest(3) update_spec[of _ "hash_blocks m H_init"])
qed

lemma eight: "length xs = 8 \<Longrightarrow> \<exists>a b c d e f g h. xs = [a, b, c, d, e, f, g, h]"
  by (auto simp: numeral_eq_Suc length_Suc_conv)

lemma be64_list: "be64 x = [ucast (drop_bit 56 x), ucast (drop_bit 48 x), ucast (drop_bit 40 x), ucast (drop_bit 32 x),
    ucast (drop_bit 24 x), ucast (drop_bit 16 x), ucast (drop_bit 8 x), ucast x]"
  by (simp add: be64_def upt_rec)

lemma length_spec:
  assumes "length (sha_data s) = 64"
  shows "SHA256_length s = (let L = sha_bitLen s + ucast (8 * ucast (sha_blockLen s) :: u32)
    in s\<lparr>sha_bitLen := L, sha_data := take 56 (sha_data s) @ be64 L\<rparr>)"
proof -
  define u where "u = take 56 (sha_data s)"
  have u: "length u = 56" using assms by (simp add: u_def)
  obtain a b c d e f g h where "drop 56 (sha_data s) = [a, b, c, d, e, f, g, h]" using eight[of "drop 56 (sha_data s)"] assms by auto
  then have eq: "sha_data s = u @ [a, b, c, d, e, f, g, h]" unfolding u_def by (metis append_take_drop_id)
  show ?thesis unfolding SHA256_length_def Let_def u_def[symmetric] eq be64_list by (simp add: list_update_append u)
qed

section \<open>The digest\<close>

lemma mask_byte: "ucast ((x :: u32) AND 0xFF) = (ucast x :: u8)"
proof -
  have "x AND 0xFF = take_bit 8 x" by (simp add: take_bit_eq_mask mask_eq_exp_minus_1)
  then show ?thesis by (intro bit_word_eqI) (auto simp: bit_simps)
qed

lemma hash_spec: "sha_hash [H0, H1, H2, H3, H4, H5, H6, H7] =
    be32 H0 @ be32 H1 @ be32 H2 @ be32 H3 @ be32 H4 @ be32 H5 @ be32 H6 @ be32 H7"
  by (simp add: sha_hash_def be32_def upt_rec mask_byte)

lemma zero_count: "r < 56 \<Longrightarrow> (119 - r) mod 64 = 55 - r" "56 \<le> r \<Longrightarrow> r < 64 \<Longrightarrow> (119 - r) mod 64 = 63 - r + 56" for r :: nat
proof -
  assume "r < 56"
  then have eq: "119 - r = 55 - r + 64" by simp
  show "(119 - r) mod 64 = 55 - r" unfolding eq mod_add_self2 by (rule mod_less) simp
next
  assume "56 \<le> r" "r < 64"
  then show "(119 - r) mod 64 = 63 - r + 56" by simp
qed

lemma digest_blocks:
  assumes "absorbed m s"
  shows "sha_state (SHA256_update (SHA256_length (SHA256_pad s))) = state_list (hash_blocks (sha_padded m) H_init)"
proof -
  let ?r = "length m mod 64" and ?L = "of_nat (8 * length m) :: u64"
  have s: "sha_blockLen s = of_nat ?r" "sha_bitLen s = of_nat (512 * (length m div 64))" "sha_state s = state_list (hash_blocks m H_init)"
    using assms by (simp_all add: absorbed_def)
  have "(ucast (8 * ucast (of_nat ?r :: u8) :: u32) :: u64) = of_nat (8 * ?r)"
  proof -
    have "unat (8 * ucast (of_nat ?r :: u8) :: u32) = 8 * ?r"
      using mod_less_divisor[of 64 "length m"] by (simp add: unat_word_ariths unat_ucast_up unat_mod64)
    then show ?thesis by (intro unat_eq_of_nat) (simp add: unat_ucast_up)
  qed
  moreover have "512 * (length m div 64) + 8 * ?r = 8 * length m"
    using mult_div_mod_eq[of 64 "length m"] by linarith
  ultimately have L: "sha_bitLen s + ucast (8 * ucast (sha_blockLen s) :: u32) = ?L"
    unfolding s(1,2) by (metis of_nat_add)
  show ?thesis
  proof (cases "?r < 56")
    case True
    from pad_short[OF assms True] obtain d where d: "SHA256_pad s = s\<lparr>sha_data := d\<rparr>" "length d = 64"
      "take 56 d = rest m @ 0x80 # replicate (55 - ?r) 0" by blast
    have "hash_blocks (sha_padded m) H_init = hash_block (take 56 d @ be64 ?L) (hash_blocks m H_init)"
      using hash_rest_block[of m "0x80 # replicate (55 - ?r) 0 @ be64 ?L" "[]"] True
      by (simp add: sha_padded_def d(3) whole_rest(3) be64_list hash_blocks_short zero_count(1))
    then show ?thesis using d L s(3) by (simp add: length_spec Let_def update_spec[of _ "hash_blocks m H_init"])
  next
    case False
    let ?H = "hash_block (rest m @ 0x80 # replicate (63 - ?r) 0) (hash_blocks m H_init)"
    from pad_long[OF assms] False obtain d where d: "SHA256_pad s = s\<lparr>sha_data := d, sha_state := state_list ?H\<rparr>"
      "length d = 64" "take 56 d = replicate 56 0" by auto
    have z: "replicate ((119 - ?r) mod 64) (0 :: u8) = replicate (63 - ?r) 0 @ replicate 56 0"
      using zero_count(2)[of ?r] False mod_less_divisor[of 64 "length m"] by (simp only: replicate_add not_less)
    have "hash_blocks (sha_padded m) H_init = hash_blocks (replicate 56 0 @ be64 ?L) ?H"
      unfolding sha_padded_def z using hash_rest_block[of m "0x80 # replicate (63 - ?r) 0" "replicate 56 0 @ be64 ?L"] False
      by (simp add: whole_rest(3))
    then show ?thesis using d L by (simp add: length_spec Let_def update_spec[of _ ?H] hash_blocks_one be64_list)
  qed
qed

section \<open>Properties\<close>

text \<open>
  C21. The class computes SHA-256: \<^verbatim>\<open>digest\<close> of a new object is the hash that FIPS 180-4 defines, for every
  input, whatever its uninitialized buffer holds.
\<close>

theorem SHA256_digest_correct:
  assumes "length garbage = 64"
  shows "fst (SHA256_digest m (SHA256_new garbage)) = sha256 m"
proof -
  obtain H0 H1 H2 H3 H4 H5 H6 H7 where "hash_blocks (sha_padded m) H_init = (H0, H1, H2, H3, H4, H5, H6, H7)" by (metis surj_pair)
  then show ?thesis using digest_blocks[OF absorb_all[OF assms], of m]
    by (simp add: SHA256_digest_def Let_def sha256_def hash_spec)
qed

theorem SHA256_digest_correct_witness:
  "fst (SHA256_digest [97, 98, 99] (SHA256_new (replicate 64 0xAA))) = sha256 [97, 98, 99]"
  by (rule SHA256_digest_correct) simp

end
