(* ===== verification/Packet_Dump.thy ===== *)
theory Packet_Dump
  imports Sponge_Prelude
begin

text \<open>
  \<^verbatim>\<open>apps/udp_tcpdump.cc\<close>: where in a captured packet the UDP payload is. \<^verbatim>\<open>pcap\<close> hands over \<^verbatim>\<open>caplen\<close> bytes, which
  are the list \<open>pkt_data\<close>; a read beyond them is undefined behaviour. \<^verbatim>\<open>inet_ntop\<close>, of the C library, is a parameter.
\<close>

unbundle bit_operations_syntax

section \<open>The model\<close>

definition read_byte :: "bytes \<Rightarrow> int \<Rightarrow> u8 result" where
  "read_byte data i = (if 0 \<le> i \<and> i < int (length data) then Inr (data ! nat i) else Inl (Undefined_Behaviour ''read out of bounds''))"

definition read_bytes :: "bytes \<Rightarrow> int \<Rightarrow> nat \<Rightarrow> bytes result" where
  "read_bytes data i n =
     (if 0 \<le> i \<and> i + int n \<le> int (length data) then Inr (take n (drop (nat i) data)) else Inl (Undefined_Behaviour ''read out of bounds''))"

type_synonym inet_ntop = "int \<Rightarrow> bytes \<Rightarrow> string option"

definition AF_INET6 :: int where "AF_INET6 = 10"
definition AF_INET4 :: int where "AF_INET4 = 2"

definition inet4_addr :: "inet_ntop \<Rightarrow> bytes \<Rightarrow> int \<Rightarrow> string result" where
  "inet4_addr ntop data i = map_result (\<lambda>addr. case ntop AF_INET4 addr of None \<Rightarrow> ''unknown'' | Some s \<Rightarrow> s) (read_bytes data i 4)"

definition inet6_addr :: "inet_ntop \<Rightarrow> bytes \<Rightarrow> int \<Rightarrow> string result" where
  "inet6_addr ntop data i = map_result (\<lambda>addr. case ntop AF_INET6 addr of None \<Rightarrow> ''unknown'' | Some s \<Rightarrow> s) (read_bytes data i 16)"

text \<open>
  The loop over the extension headers of IPv6: the offset of the UDP header, or \<open>None\<close> for \<^verbatim>\<open>return -1\<close>.
\<close>

function ipv6_headers :: "int \<Rightarrow> bytes \<Rightarrow> u8 \<Rightarrow> int \<Rightarrow> int option result" where
  "ipv6_headers len data nxt data_offset =
     (if nxt = 0x11 then Inr (Some data_offset)
      else if nxt \<noteq> 0 \<and> nxt \<noteq> 43 \<and> nxt \<noteq> 60 then Inr None
      else bind_result (read_byte data data_offset) (\<lambda>nxt.
           bind_result (read_byte data (data_offset + 1)) (\<lambda>ext_len.
             let data_offset = data_offset + 8 * (1 + int (unat ext_len))
             in if len < data_offset + 2 then Inr None else ipv6_headers len data nxt data_offset)))"
  by pat_completeness auto
termination by (relation "measure (\<lambda>(len, data, nxt, data_offset). nat (len - data_offset))") (auto simp del: of_nat_unat)

declare ipv6_headers.simps [simp del]

text \<open>The addresses and the offset of the payload, or \<open>None\<close> for \<^verbatim>\<open>-1\<close>.\<close>

definition process_ipv4_ipv6 :: "inet_ntop \<Rightarrow> int \<Rightarrow> bytes \<Rightarrow> (int \<times> string \<times> string) option result" where
  "process_ipv4_ipv6 ntop len data =
     (if len < 1 then Inr None
      else bind_result (read_byte data 0) (\<lambda>b0.
        if b0 AND 0xf0 = 0x40
        then let data_offset = int (unat (b0 AND 0x0f)) * 4
             in if len < data_offset then Inr None
                else bind_result (read_byte data 9) (\<lambda>proto.
                  if proto \<noteq> 0x11 then Inr None
                  else bind_result (inet4_addr ntop data 12) (\<lambda>src_addr.
                       map_result (\<lambda>dst_addr. Some (data_offset + 8, src_addr, dst_addr)) (inet4_addr ntop data 16)))
        else if b0 AND 0xf0 = 0x60
        then if len < 42 then Inr None
             else bind_result (read_byte data 6) (\<lambda>nxt.
                  bind_result (ipv6_headers len data nxt 40) (\<lambda>r. case r of None \<Rightarrow> Inr None
                    | Some data_offset \<Rightarrow>
                        bind_result (inet6_addr ntop data 8) (\<lambda>src_addr.
                        map_result (\<lambda>dst_addr. Some (data_offset + 8, src_addr, dst_addr)) (inet6_addr ntop data 24))))
        else Inr None))"

text \<open>The types of link that \<^verbatim>\<open>main\<close> accepts, and the length of the link header; \<open>None\<close> is \<^verbatim>\<open>continue\<close>.\<close>

datatype link_type = DLT_RAW | DLT_NULL | DLT_EN10MB | DLT_LINUX_SLL | DLT_LINUX_SLL2

definition ether_type :: "bytes \<Rightarrow> int \<Rightarrow> u16 result" where
  "ether_type data i = bind_result (read_byte data i) (\<lambda>hi. map_result (\<lambda>lo. push_bit 8 (ucast hi) OR ucast lo) (read_byte data (i + 1)))"

definition typed_header :: "u64 \<Rightarrow> int \<Rightarrow> u64 \<Rightarrow> bytes \<Rightarrow> u64 option result" where
  "typed_header hdr_off i caplen data =
     (if caplen < hdr_off then Inr None
      else map_result (\<lambda>pt. if pt \<noteq> 0x0800 \<and> pt \<noteq> 0x86dd then None else Some hdr_off) (ether_type data i))"

definition link_header :: "link_type \<Rightarrow> u64 \<Rightarrow> bytes \<Rightarrow> u64 option result" where
  "link_header dl_type caplen data =
     (case dl_type of
        DLT_NULL \<Rightarrow> if caplen < 4 then Inr None
                    else map_result (\<lambda>pt. if pt \<noteq> 2 \<and> pt \<noteq> 24 \<and> pt \<noteq> 28 \<and> pt \<noteq> 30 then None else Some 4) (read_byte data 3)
      | DLT_EN10MB \<Rightarrow> typed_header 14 12 caplen data
      | DLT_LINUX_SLL \<Rightarrow> typed_header 16 14 caplen data
      | DLT_LINUX_SLL2 \<Rightarrow> typed_header 20 0 caplen data
      | DLT_RAW \<Rightarrow> Inr (Some 0))"

text \<open>
  A packet up to its payload: \<^verbatim>\<open>payload_len\<close> is computed as a \<^verbatim>\<open>size_t\<close>, and the payload is a \<^verbatim>\<open>string_view\<close> of that length.
  The constructor of \<^verbatim>\<open>string_view\<close> requires the range to be valid, so that one that leaves the capture is undefined
  behaviour, whatever becomes of the view afterwards.
\<close>

definition udp_payload :: "inet_ntop \<Rightarrow> link_type \<Rightarrow> bytes \<Rightarrow> (string \<times> string \<times> bytes) option result" where
  "udp_payload ntop dl_type pkt_data =
     (let caplen = size_of pkt_data
      in bind_result (link_header dl_type caplen pkt_data) (\<lambda>r. case r of None \<Rightarrow> Inr None
         | Some hdr_off \<Rightarrow>
             bind_result (process_ipv4_ipv6 ntop (sint (ucast (caplen - hdr_off) :: 32 word)) (drop (unat hdr_off) pkt_data)) (\<lambda>r. case r of None \<Rightarrow> Inr None
             | Some (start_off, src, dst) \<Rightarrow>
                 let payload_off = hdr_off + word_of_int start_off; payload_len = caplen - payload_off
                 in map_result (\<lambda>payload. Some (src, dst, payload)) (read_bytes pkt_data (uint payload_off) (unat payload_len)))))"

section \<open>Which captures are read beyond their end\<close>

text \<open>
  Where the UDP header of an IPv6 packet is, by RFC 8200: an extension header (hop-by-hop, routing or
  destination options) names the type of the next one in its first byte, and its own length, in units
  of eight bytes beyond the first eight, in its second.
\<close>

inductive udp_header :: "bytes \<Rightarrow> u8 \<Rightarrow> nat \<Rightarrow> nat \<Rightarrow> bool" for ip :: bytes where
  udp_here: "udp_header ip 0x11 off off"
| udp_later: "udp_header ip nxt off k"
    if "nxt \<in> {0, 43, 60}" and "next_off = off + 8 * (1 + unat (ip ! (off + 1)))" and "next_off + 2 \<le> length ip" and "udp_header ip (ip ! off) next_off k"

inductive_cases udp_header_cases: "udp_header ip nxt off k"

lemma udp_header_bounds: "udp_header ip nxt off k \<Longrightarrow> off + 2 \<le> length ip \<Longrightarrow> off \<le> k \<and> k + 2 \<le> length ip"
  by (induction rule: udp_header.induct) auto

lemma ipv6_headers_finds:
  "off + 2 \<le> length ip \<Longrightarrow> \<exists>r. ipv6_headers (int (length ip)) ip nxt (int off) = Inr (map_option int r) \<and> (\<forall>k. udp_header ip nxt off k \<longleftrightarrow> r = Some k)"
proof (induction "length ip - off" arbitrary: nxt off rule: less_induct)
  case less
  let ?nx = "off + 8 * (1 + unat (ip ! (off + 1)))"
  have b: "read_byte ip (int off) = Inr (ip ! off)" "read_byte ip (int off + 1) = Inr (ip ! (off + 1))"
    using less.prems by (simp_all add: read_byte_def nat_add_distrib)
  have e: "int off + 8 * (1 + int (unat (ip ! (off + 1)))) = int ?nx" by simp
  note u = ipv6_headers.simps[of "int (length ip)" ip nxt "int off", unfolded b bind_result_simps Let_def e]
  consider "nxt = 0x11" | "nxt \<noteq> 0x11" "nxt \<notin> {0, 43, 60}" | "nxt \<in> {0, 43, 60}" "length ip < ?nx + 2" | "nxt \<in> {0, 43, 60}" "?nx + 2 \<le> length ip"
    by linarith
  then show ?case
  proof cases
    case 1
    then have "udp_header ip nxt off k \<longleftrightarrow> k = off" for k by (auto intro: udp_here elim: udp_header_cases)
    then show ?thesis using 1 u by (intro exI[of _ "Some off"]) auto
  next
    case 2
    then have "\<not> udp_header ip nxt off k" for k by (auto elim: udp_header_cases)
    then show ?thesis using 2 u by (intro exI[of _ None]) auto
  next
    case 3
    then have "\<not> udp_header ip nxt off k" for k by (auto elim: udp_header_cases)
    then show ?thesis using 3 u by (intro exI[of _ None]) (auto simp del: of_nat_add of_nat_mult of_nat_unat)
  next
    case 4
    have "length ip - ?nx < length ip - off" using less.prems by (intro diff_less_mono2) simp_all
    from less.hyps[OF this 4(2), of "ip ! off"] obtain r where
      r: "ipv6_headers (int (length ip)) ip (ip ! off) (int ?nx) = Inr (map_option int r)" "\<And>k. udp_header ip (ip ! off) ?nx k \<longleftrightarrow> r = Some k" by blast
    have "udp_header ip nxt off k \<longleftrightarrow> r = Some k" for k using 4 r(2) by (auto intro: udp_later elim: udp_header_cases)
    moreover have "ipv6_headers (int (length ip)) ip nxt (int off) = Inr (map_option int r)"
      using 4 r(1) by (subst u) (auto simp del: of_nat_add of_nat_mult of_nat_unat)
    ultimately show ?thesis by blast
  qed
qed

text \<open>Where the UDP payload of a packet is, and the texts of its addresses. The upper half of the first byte is the version, the lower the length of an IPv4 header in words.\<close>

definition payload_at :: "bytes \<Rightarrow> nat \<Rightarrow> bool" where
  "payload_at ip off \<longleftrightarrow> ip \<noteq> [] \<and>
     (if hd ip AND 0xf0 = 0x40 then 4 * unat (hd ip AND 0x0f) \<le> length ip \<and> ip ! 9 = 0x11 \<and> off = 4 * unat (hd ip AND 0x0f) + 8
      else hd ip AND 0xf0 = 0x60 \<and> 42 \<le> length ip \<and> (\<exists>k. udp_header ip (ip ! 6) 40 k \<and> off = k + 8))"

definition addr_text :: "inet_ntop \<Rightarrow> int \<Rightarrow> bytes \<Rightarrow> string" where
  "addr_text ntop family addr = (case ntop family addr of None \<Rightarrow> ''unknown'' | Some s \<Rightarrow> s)"

definition endpoints :: "inet_ntop \<Rightarrow> bytes \<Rightarrow> string \<times> string" where
  "endpoints ntop ip =
     (if hd ip AND 0xf0 = 0x40 then (addr_text ntop AF_INET4 (take 4 (drop 12 ip)), addr_text ntop AF_INET4 (take 4 (drop 16 ip)))
      else (addr_text ntop AF_INET6 (take 16 (drop 8 ip)), addr_text ntop AF_INET6 (take 16 (drop 24 ip))))"

text \<open>A packet that claims to be IPv4 and is too short for the fields that are read.\<close>

definition short_ipv4 :: "bytes \<Rightarrow> bool" where
  "short_ipv4 ip \<longleftrightarrow> ip \<noteq> [] \<and> hd ip AND 0xf0 = 0x40 \<and> 4 * unat (hd ip AND 0x0f) \<le> length ip
     \<and> (length ip < 10 \<or> ip ! 9 = 0x11 \<and> length ip < 20)"

lemma process_short: "short_ipv4 ip \<Longrightarrow> process_ipv4_ipv6 ntop (int (length ip)) ip = Inl (Undefined_Behaviour ''read out of bounds'')"
  by (auto simp: process_ipv4_ipv6_def short_ipv4_def read_byte_def hd_conv_nth[symmetric] inet4_addr_def read_bytes_def Let_def Suc_le_eq
      simp del: of_nat_unat)

lemma process_ok:
  assumes "\<not> short_ipv4 ip"
  shows "payload_at ip off \<Longrightarrow> process_ipv4_ipv6 ntop (int (length ip)) ip = Inr (Some (int off, endpoints ntop ip)) \<and> 8 \<le> off \<and> off \<le> length ip + 8"
    and "\<forall>off. \<not> payload_at ip off \<Longrightarrow> process_ipv4_ipv6 ntop (int (length ip)) ip = Inr None"
proof -
  note d = process_ipv4_ipv6_def payload_at_def endpoints_def addr_text_def inet4_addr_def inet6_addr_def read_byte_def read_bytes_def
    hd_conv_nth[symmetric] Let_def Suc_le_eq
  have "(payload_at ip off \<longrightarrow> process_ipv4_ipv6 ntop (int (length ip)) ip = Inr (Some (int off, endpoints ntop ip)) \<and> 8 \<le> off \<and> off \<le> length ip + 8)
    \<and> ((\<forall>off. \<not> payload_at ip off) \<longrightarrow> process_ipv4_ipv6 ntop (int (length ip)) ip = Inr None)"
  proof (cases "ip = [] \<or> hd ip AND 0xf0 = 0x40 \<or> hd ip AND 0xf0 \<noteq> 0x60 \<or> length ip < 42")
    case True
    then show ?thesis using assms by (auto simp: d short_ipv4_def simp del: of_nat_unat)
  next
    case False
    then have v: "hd ip AND 0xf0 = 0x60" "42 \<le> length ip" "ip \<noteq> []" by auto
    obtain r where r: "ipv6_headers (int (length ip)) ip (ip ! 6) 40 = Inr (map_option int r)" "\<And>k. udp_header ip (ip ! 6) 40 k \<longleftrightarrow> r = Some k"
      using ipv6_headers_finds[of 40 ip "ip ! 6"] v(2) by auto
    have k: "40 \<le> k \<and> k + 2 \<le> length ip" if "r = Some k" for k using udp_header_bounds[of ip "ip ! 6" 40 k] r(2) v(2) that by simp
    show ?thesis using v r k by (cases r) (auto simp: d simp del: of_nat_unat)
  qed
  then show "payload_at ip off \<Longrightarrow> process_ipv4_ipv6 ntop (int (length ip)) ip = Inr (Some (int off, endpoints ntop ip)) \<and> 8 \<le> off \<and> off \<le> length ip + 8"
    "\<forall>off. \<not> payload_at ip off \<Longrightarrow> process_ipv4_ipv6 ntop (int (length ip)) ip = Inr None" by blast+
qed

lemma link_header_fits:
  assumes "link_header dl_type (size_of pkt_data) pkt_data = Inr (Some h)"
  shows "unat h \<le> length pkt_data"
proof -
  have "h \<le> size_of pkt_data"
    using assms by (auto simp: link_header_def typed_header_def map_result_Inr_iff split: link_type.splits if_splits)
  then show ?thesis using unat_size_of_le[of pkt_data] by (simp add: word_le_nat_alt)
qed

text \<open>The arithmetic on \<^verbatim>\<open>size_t\<close> and \<^verbatim>\<open>int\<close>.\<close>

lemma remaining_length:
  assumes "length pkt_data < 2 ^ 31" and "unat h \<le> length pkt_data"
  shows "sint (ucast (size_of pkt_data - h) :: 32 word) = int (length pkt_data - unat h)"
proof -
  have u: "unat (size_of pkt_data) = length pkt_data" using assms(1) by (intro unat_size_of) (simp add: fits_def)
  have "unat (size_of pkt_data - h) = length pkt_data - unat h" using u assms(2) by (simp add: unat_sub_le word_le_nat_alt)
  then have "size_of pkt_data - h = of_nat (length pkt_data - unat h)" by (rule unat_eq_of_nat)
  moreover have "take_bit 64 (length pkt_data - unat h) = length pkt_data - unat h"
    using assms(1) by (simp add: take_bit_nat_eq_self_iff)
  ultimately show ?thesis using assms(1)
    by (simp add: signed_ucast_eq signed_of_nat unsigned_of_nat signed_take_bit_int_eq_self)
qed

lemma payload_read:
  assumes "length pkt_data < 2 ^ 31" and "unat h \<le> length pkt_data" and "8 \<le> off" and "off \<le> int (length pkt_data - unat h) + 8"
  shows "read_bytes pkt_data (uint (h + word_of_int off)) (unat (size_of pkt_data - (h + word_of_int off))) =
    (if int (length pkt_data - unat h) < off then Inl (Undefined_Behaviour ''read out of bounds'') else Inr (drop (nat off) (drop (unat h) pkt_data)))"
proof -
  let ?n = "length pkt_data" and ?x = "h + word_of_int off"
  have u: "unat (size_of pkt_data) = ?n" using assms(1) by (intro unat_size_of) (simp add: fits_def)
  have o: "word_of_int off = (of_nat (nat off) :: u64)" using assms(3) by simp
  have b: "nat off \<le> ?n - unat h + 8" using assms(4) by linarith
  then have m: "unat (of_nat (nat off) :: u64) = nat off" using assms(1) by (intro unat_of_nat_lt) simp
  have x: "unat ?x = unat h + nat off"
    unfolding o using b assms(1,2) m unat_add_lt[of h "of_nat (nat off)"] by simp
  then have i: "uint ?x = int (unat h) + off" using assms(3) by (simp add: uint_nat del: of_nat_unat)
  show ?thesis
  proof (cases "int (?n - unat h) < off")
    case True
    then have "?n - unat h < nat off" by linarith
    then have "\<not> ?x \<le> size_of pkt_data" using x u by (simp add: word_le_nat_alt)
    then have "unat (size_of pkt_data - ?x) = ?n + 2 ^ 64 - unat ?x" using u by (simp add: unat_sub_if' word_le_nat_alt)
    then have "?n < unat ?x + unat (size_of pkt_data - ?x)" using u assms(1) unat64_bound[of ?x] by simp
    then show ?thesis using True x i assms(3) by (auto simp: read_bytes_def simp del: of_nat_unat)
  next
    case False
    then have "nat off \<le> ?n - unat h" by linarith
    then have "?x \<le> size_of pkt_data" using x u assms(2) by (simp add: word_le_nat_alt)
    then have "unat (size_of pkt_data - ?x) = ?n - (unat h + nat off)" using u x by (simp add: unat_sub_le)
    then show ?thesis using False x i assms(2,3) by (simp add: read_bytes_def nat_add_distrib add.commute del: of_nat_unat)
  qed
qed

section \<open>Properties\<close>

text \<open>
  C39. What is shown of a captured packet after its link header, exactly. If it holds the header fields that are read, and a
  UDP header is found, in IPv6 behind any chain of extension headers, the texts of the source and
  destination address are those of bytes 12 to 15 and 16 to 19 of an IPv4 header or 8 to 23 and 24 to
  39 of an IPv6 header, and the payload is everything after the UDP header. If there is no UDP header
  to be found, the packet is skipped. But a packet whose first byte claims IPv4 is read up to byte 20
  whatever its length, and one that ends inside its UDP header has a payload of almost \<open>2 ^ 64\<close> bytes.
\<close>

theorem udp_payload_reads:
  assumes "length pkt_data < 2 ^ 31" and "link_header dl_type (size_of pkt_data) pkt_data = Inr (Some h)"
  defines "ip \<equiv> drop (unat h) pkt_data"
  shows "(short_ipv4 ip \<longrightarrow> udp_payload ntop dl_type pkt_data = Inl (Undefined_Behaviour ''read out of bounds''))
    \<and> (\<not> short_ipv4 ip \<and> payload_at ip off \<longrightarrow> udp_payload ntop dl_type pkt_data =
        (if length ip < off then Inl (Undefined_Behaviour ''read out of bounds'')
         else Inr (Some (fst (endpoints ntop ip), snd (endpoints ntop ip), drop off ip))))
    \<and> (\<not> short_ipv4 ip \<and> (\<forall>off. \<not> payload_at ip off) \<longrightarrow> udp_payload ntop dl_type pkt_data = Inr None)"
proof (intro conjI impI)
  have h: "unat h \<le> length pkt_data" by (rule link_header_fits[OF assms(2)])
  have len: "sint (ucast (size_of pkt_data - h) :: 32 word) = int (length ip)"
    using remaining_length[OF assms(1) h] by (simp add: ip_def)
  note d = udp_payload_def assms(2) len ip_def[symmetric] Let_def
  show "udp_payload ntop dl_type pkt_data = Inl (Undefined_Behaviour ''read out of bounds'')" if "short_ipv4 ip"
    using process_short[OF that, of ntop] by (simp add: d)
  show "udp_payload ntop dl_type pkt_data = Inr None" if "\<not> short_ipv4 ip \<and> (\<forall>off. \<not> payload_at ip off)"
    using process_ok(2)[of ip ntop] that by (simp add: d)
  assume off: "\<not> short_ipv4 ip \<and> payload_at ip off"
  note p = process_ok(1)[OF conjunct1[OF off] conjunct2[OF off], of ntop]
  have l: "length ip = length pkt_data - unat h" by (simp add: ip_def)
  have "read_bytes pkt_data (uint (h + word_of_int (int off))) (unat (size_of pkt_data - (h + word_of_int (int off)))) =
    (if int (length ip) < int off then Inl (Undefined_Behaviour ''read out of bounds'') else Inr (drop (nat (int off)) ip))"
    unfolding l unfolding ip_def using p l by (intro payload_read[OF assms(1) h]) simp_all
  then show "udp_payload ntop dl_type pkt_data = (if length ip < off then Inl (Undefined_Behaviour ''read out of bounds'')
      else Inr (Some (fst (endpoints ntop ip), snd (endpoints ntop ip), drop off ip)))"
    using p by (simp add: d split_beta)
qed

text \<open>
  An IPv4 packet with two bytes of payload; an IPv6 packet with an extension header before the UDP header; one byte that
  claims to be IPv4; and an IPv4 header of which nothing follows.
\<close>

definition example_ntop :: inet_ntop where
  "example_ntop family addr = (if addr = [1, 2, 3, 4] then Some ''1.2.3.4'' else if addr = [5, 6, 7, 8] then Some ''5.6.7.8'' else None)"

definition example_ipv4 :: bytes where
  "example_ipv4 = [0x45, 0, 0, 30, 0, 0, 0, 0, 64, 0x11, 0, 0, 1, 2, 3, 4, 5, 6, 7, 8] @ replicate 8 0 @ [104, 105]"

definition example_ipv6 :: bytes where
  "example_ipv6 = [0x60, 0, 0, 0, 0, 18, 0, 64] @ replicate 32 1 @ [0x11, 0, 0, 0, 0, 0, 0, 0] @ replicate 8 0 @ [77]"

theorem udp_payload_reads_witness:
  "udp_payload example_ntop DLT_RAW example_ipv4 = Inr (Some (''1.2.3.4'', ''5.6.7.8'', [104, 105]))
   \<and> udp_payload example_ntop DLT_RAW example_ipv6 = Inr (Some (''unknown'', ''unknown'', [77]))
   \<and> udp_payload example_ntop DLT_RAW [0x40] = Inl (Undefined_Behaviour ''read out of bounds'')
   \<and> udp_payload example_ntop DLT_RAW ([0x45, 0, 0, 20, 0, 0, 0, 0, 64, 0x11] @ replicate 10 0) = Inl (Undefined_Behaviour ''read out of bounds'')"
proof (intro conjI)
  note d = link_header_def short_ipv4_def payload_at_def endpoints_def addr_text_def example_ntop_def
  have "hd example_ipv4 AND 0xf0 = 0x40" "4 * unat (hd example_ipv4 AND 0x0f) = 20" "example_ipv4 ! 9 = 0x11" "length example_ipv4 = 30"
    "endpoints example_ntop example_ipv4 = (''1.2.3.4'', ''5.6.7.8'')" "drop 28 example_ipv4 = [104, 105]" "example_ipv4 \<noteq> []"
    by code_simp+
  then show "udp_payload example_ntop DLT_RAW example_ipv4 = Inr (Some (''1.2.3.4'', ''5.6.7.8'', [104, 105]))"
    using udp_payload_reads[of example_ipv4 DLT_RAW 0 example_ntop 28] by (simp add: link_header_def short_ipv4_def payload_at_def)
  have v6: "hd example_ipv6 AND 0xf0 = 0x60" "example_ipv6 ! 6 = 0" "example_ipv6 ! 40 = 0x11" "example_ipv6 ! 41 = 0" "length example_ipv6 = 57"
    "drop 56 example_ipv6 = [77]" "example_ipv6 \<noteq> []" "take 16 (drop 8 example_ipv6) = replicate 16 1" "take 16 (drop 24 example_ipv6) = replicate 16 1"
    by (simp_all add: example_ipv6_def nth_append)
  have "length (replicate 16 (1 :: u8)) \<noteq> length [1, 2, 3, 4 :: u8]" "length (replicate 16 (1 :: u8)) \<noteq> length [5, 6, 7, 8 :: u8]" by simp_all
  then have "replicate 16 1 \<noteq> [1, 2, 3, 4 :: u8]" "replicate 16 1 \<noteq> [5, 6, 7, 8 :: u8]" by metis+
  with v6 have "endpoints example_ntop example_ipv6 = (''unknown'', ''unknown'')" by (simp add: d)
  moreover have "udp_header example_ipv6 0 40 48" by (rule udp_later[where next_off = 48]) (simp_all add: v6 udp_here)
  ultimately show "udp_payload example_ntop DLT_RAW example_ipv6 = Inr (Some (''unknown'', ''unknown'', [77]))"
    using v6 udp_payload_reads[of example_ipv6 DLT_RAW 0 example_ntop 56] by (simp add: link_header_def short_ipv4_def payload_at_def)
  show "udp_payload example_ntop DLT_RAW [0x40] = Inl (Undefined_Behaviour ''read out of bounds'')"
    using udp_payload_reads[of "[0x40]" DLT_RAW 0 example_ntop] by (simp add: d)
  show "udp_payload example_ntop DLT_RAW ([0x45, 0, 0, 20, 0, 0, 0, 0, 64, 0x11] @ replicate 10 0) = Inl (Undefined_Behaviour ''read out of bounds'')"
    using udp_payload_reads[of "[0x45, 0, 0, 20, 0, 0, 0, 0, 64, 0x11] @ replicate 10 0" DLT_RAW 0 example_ntop 28] by (simp add: d)
qed

end
