(* ===== verification/Stream_Copy.thy ===== *)
theory Stream_Copy
  imports Sockets Byte_Stream
begin

text \<open>
  \<^verbatim>\<open>apps/bidirectional_stream_copy.cc\<close>: the loop by which the programs connect a socket with the standard
  input and output. Two byte streams and four rules of an event loop: from the input into the outbound
  stream, from there into the socket, from the socket into the inbound stream, and from there to the output.
\<close>

section \<open>The model\<close>

definition max_copy_length :: u64 where "max_copy_length = 65536"
definition copy_buffer_size :: u64 where "copy_buffer_size = 1048576"

record stream_copy =
  sc_outbound :: ByteStream
  sc_inbound :: ByteStream
  sc_outbound_shutdown :: bool
  sc_inbound_shutdown :: bool

definition stream_copy_new :: stream_copy where
  "stream_copy_new = \<lparr>sc_outbound = ByteStream_new copy_buffer_size, sc_inbound = ByteStream_new copy_buffer_size,
     sc_outbound_shutdown = False, sc_inbound_shutdown = False\<rparr>"

type_synonym 'k copy_world = "('k, stream_copy) world"

text \<open>What the two rules that read do with their stream, and what the two rules that write do.\<close>

definition fill_from :: "('k, 'x) syscalls_scheme \<Rightarrow> FileDescriptor \<Rightarrow> ByteStream \<Rightarrow> 'k os \<Rightarrow> (ByteStream \<times> 'k os) result" where
  "fill_from sys h bs s =
     map_result (\<lambda>(data, s). let bs = snd (ByteStream_write data bs) in (if fw_eof (os_fds s h) then ByteStream_end_input bs else bs, s))
       (FileDescriptor_read sys h (ByteStream_remaining_capacity bs) s)"

definition drain_to :: "('k, 'x) syscalls_scheme \<Rightarrow> FileDescriptor \<Rightarrow> ByteStream \<Rightarrow> 'k os \<Rightarrow> (ByteStream \<times> 'k os) result" where
  "drain_to sys h bs s =
     (let bytes_to_write = min max_copy_length (ByteStream_buffer_size bs)
      in map_result (\<lambda>(bytes_written, s). (ByteStream_pop_output bytes_written bs, s))
           (FileDescriptor_write sys h (BufferViewList_of_string_view (ByteStream_peek_output bs bytes_to_write)) False s))"

text \<open>The callbacks of the four rules.\<close>

definition stdin_in :: "('k, 'x) socket_calls_scheme \<Rightarrow> FileDescriptor \<Rightarrow> 'k copy_world \<Rightarrow> 'k copy_world result" where
  "stdin_in sys input w =
     map_result (\<lambda>(bs, s). (s, (snd w)\<lparr>sc_outbound := bs\<rparr>)) (fill_from sys input (sc_outbound (snd w)) (fst w))"

definition socket_out :: "('k, 'x) socket_calls_scheme \<Rightarrow> FileDescriptor \<Rightarrow> 'k copy_world \<Rightarrow> 'k copy_world result" where
  "socket_out sys socket w =
     bind_result (drain_to sys socket (sc_outbound (snd w)) (fst w)) (\<lambda>(bs, s).
       let c = (snd w)\<lparr>sc_outbound := bs\<rparr>
       in if ByteStream_eof bs
          then map_result (\<lambda>s. (s, c\<lparr>sc_outbound_shutdown := True\<rparr>)) (Socket_shutdown sys socket SHUT_WR s)
          else Inr (s, c))"

definition socket_in :: "('k, 'x) socket_calls_scheme \<Rightarrow> FileDescriptor \<Rightarrow> 'k copy_world \<Rightarrow> 'k copy_world result" where
  "socket_in sys socket w =
     map_result (\<lambda>(bs, s). (s, (snd w)\<lparr>sc_inbound := bs\<rparr>)) (fill_from sys socket (sc_inbound (snd w)) (fst w))"

definition stdout_out :: "('k, 'x) socket_calls_scheme \<Rightarrow> FileDescriptor \<Rightarrow> 'k copy_world \<Rightarrow> 'k copy_world result" where
  "stdout_out sys output w =
     bind_result (drain_to sys output (sc_inbound (snd w)) (fst w)) (\<lambda>(bs, s).
       let c = (snd w)\<lparr>sc_inbound := bs\<rparr>
       in if ByteStream_eof bs
          then map_result (\<lambda>s. (s, c\<lparr>sc_inbound_shutdown := True\<rparr>)) (FDWrapper_close sys output s)
          else Inr (s, c))"

definition end_outbound :: "'k copy_world \<Rightarrow> 'k copy_world result" where
  "end_outbound w = Inr (fst w, (snd w)\<lparr>sc_outbound := ByteStream_end_input (sc_outbound (snd w))\<rparr>)"

definition end_inbound :: "'k copy_world \<Rightarrow> 'k copy_world result" where
  "end_inbound w = Inr (fst w, (snd w)\<lparr>sc_inbound := ByteStream_end_input (sc_inbound (snd w))\<rparr>)"

definition can_fill :: "ByteStream \<Rightarrow> ByteStream \<Rightarrow> bool" where
  "can_fill bs other \<longleftrightarrow> \<not> ByteStream_get_error bs \<and> ByteStream_remaining_capacity bs > 0 \<and> \<not> ByteStream_get_error other"

definition can_drain :: "ByteStream \<Rightarrow> bool \<Rightarrow> bool" where
  "can_drain bs shutdown \<longleftrightarrow> \<not> ByteStream_buffer_empty bs \<or> ByteStream_eof bs \<and> \<not> shutdown"

definition copy_rules ::
  "('k, 'x) socket_calls_scheme \<Rightarrow> FileDescriptor \<Rightarrow> FileDescriptor \<Rightarrow> FileDescriptor \<Rightarrow> ('k, stream_copy) Rule list" where
  "copy_rules sys socket input output =
     EventLoop_add_rule output Direction_Out (stdout_out sys output)
       (\<lambda>w. can_drain (sc_inbound (snd w)) (sc_inbound_shutdown (snd w))) end_inbound
    (EventLoop_add_rule socket Direction_In (socket_in sys socket)
       (\<lambda>w. can_fill (sc_inbound (snd w)) (sc_outbound (snd w))) end_inbound
    (EventLoop_add_rule socket Direction_Out (socket_out sys socket)
       (\<lambda>w. can_drain (sc_outbound (snd w)) (sc_outbound_shutdown (snd w))) end_outbound
    (EventLoop_add_rule input Direction_In (stdin_in sys input)
       (\<lambda>w. can_fill (sc_outbound (snd w)) (sc_inbound (snd w))) end_outbound [])))"

definition STDIN_FILENO :: int where "STDIN_FILENO = 0"
definition STDOUT_FILENO :: int where "STDOUT_FILENO = 1"

text \<open>\<open>input\<close> and \<open>output\<close> are the handles of the two descriptors that are made for the standard streams.\<close>

definition copy_setup ::
  "('k, 'x) socket_calls_scheme \<Rightarrow> FileDescriptor \<Rightarrow> FileDescriptor \<Rightarrow> FileDescriptor \<Rightarrow> 'k os \<Rightarrow> 'k copy_world result" where
  "copy_setup sys socket input output s =
     bind_result (FileDescriptor_new input STDIN_FILENO s) (\<lambda>s.
     bind_result (FileDescriptor_new output STDOUT_FILENO s) (\<lambda>s.
     bind_result (FileDescriptor_set_blocking sys socket False s) (\<lambda>s.
     bind_result (FileDescriptor_set_blocking sys input False s) (\<lambda>s.
     map_result (\<lambda>s. (s, stream_copy_new)) (FileDescriptor_set_blocking sys output False s)))))"

definition bidirectional_stream_copy ::
  "('k, 'x) socket_calls_scheme \<Rightarrow> FileDescriptor \<Rightarrow> FileDescriptor \<Rightarrow> FileDescriptor \<Rightarrow> 'k os \<Rightarrow> 'k copy_world result option" where
  "bidirectional_stream_copy sys socket input output s =
     (case copy_setup sys socket input output s of
        Inl e \<Rightarrow> Some (Inl e)
      | Inr w \<Rightarrow> map_option (map_result snd) (run_until_exit sys (-1) (copy_rules sys socket input output) w))"

section \<open>No undefined behaviour and no busy waiting\<close>

definition stdin_rule :: "('k, 'x) socket_calls_scheme \<Rightarrow> FileDescriptor \<Rightarrow> ('k, stream_copy) Rule" where
  "stdin_rule sys input = \<lparr>rl_fd = input, rl_direction = Direction_In, rl_callback = stdin_in sys input,
     rl_interest = (\<lambda>w. can_fill (sc_outbound (snd w)) (sc_inbound (snd w))), rl_cancel = end_outbound\<rparr>"

definition socket_out_rule :: "('k, 'x) socket_calls_scheme \<Rightarrow> FileDescriptor \<Rightarrow> ('k, stream_copy) Rule" where
  "socket_out_rule sys socket = \<lparr>rl_fd = socket, rl_direction = Direction_Out, rl_callback = socket_out sys socket,
     rl_interest = (\<lambda>w. can_drain (sc_outbound (snd w)) (sc_outbound_shutdown (snd w))), rl_cancel = end_outbound\<rparr>"

definition socket_in_rule :: "('k, 'x) socket_calls_scheme \<Rightarrow> FileDescriptor \<Rightarrow> ('k, stream_copy) Rule" where
  "socket_in_rule sys socket = \<lparr>rl_fd = socket, rl_direction = Direction_In, rl_callback = socket_in sys socket,
     rl_interest = (\<lambda>w. can_fill (sc_inbound (snd w)) (sc_outbound (snd w))), rl_cancel = end_inbound\<rparr>"

definition stdout_rule :: "('k, 'x) socket_calls_scheme \<Rightarrow> FileDescriptor \<Rightarrow> ('k, stream_copy) Rule" where
  "stdout_rule sys output = \<lparr>rl_fd = output, rl_direction = Direction_Out, rl_callback = stdout_out sys output,
     rl_interest = (\<lambda>w. can_drain (sc_inbound (snd w)) (sc_inbound_shutdown (snd w))), rl_cancel = end_inbound\<rparr>"

lemmas copy_rule_defs = stdin_rule_def socket_out_rule_def socket_in_rule_def stdout_rule_def

lemma copy_rules_eq:
  "copy_rules sys socket input output = [stdin_rule sys input, socket_out_rule sys socket, socket_in_rule sys socket, stdout_rule sys output]"
  by (simp add: copy_rules_def EventLoop_add_rule_def FileDescriptor_duplicate_def copy_rule_defs)

lemma fill_from_sound:
  "sound (\<lambda>(bs', s'). fw_read_count (os_fds s' h) = fw_read_count (os_fds s h) + 1) (fill_from sys h bs s)"
  unfolding fill_from_def by (rule sound_map[OF FileDescriptor_read_sound]) (auto simp: Let_def)

lemma drain_to_sound:
  "sound (\<lambda>(bs', s'). fw_write_count (os_fds s' h) = fw_write_count (os_fds s h) + 1) (drain_to sys h bs s)"
  unfolding drain_to_def Let_def by (rule sound_map[OF write_once_counts]) auto

lemma shutdown_WR_counts:
  "sound (\<lambda>s'. fw_write_count (os_fds s' h) = fw_write_count (os_fds s h) + 1) (Socket_shutdown sys h SHUT_WR s)"
  unfolding Socket_shutdown_def checked_def Let_def split_beta bind_result_map
  by (rule sound_bind[OF SystemCall_sound]) (simp add: SHUT_WR_def SHUT_RD_def register_write_def)

lemma close_counts:
  "sound (\<lambda>s'. fw_write_count (os_fds s' h) = fw_write_count (os_fds s h)) (FDWrapper_close sys h s)"
  unfolding FDWrapper_close_def Let_def split_beta by (rule sound_map[OF SystemCall_sound]) simp

lemma copy_callbacks_serve:
  assumes "r \<in> set (copy_rules sys socket input output)"
  shows "sound (\<lambda>w'. Rule_service_count r w' \<noteq> Rule_service_count r w) (rl_callback r w)"
proof -
  have "sound (\<lambda>w'. fw_read_count (os_fds (fst w') input) \<noteq> fw_read_count (os_fds (fst w) input)) (stdin_in sys input w)"
    "sound (\<lambda>w'. fw_read_count (os_fds (fst w') socket) \<noteq> fw_read_count (os_fds (fst w) socket)) (socket_in sys socket w)"
    unfolding stdin_in_def socket_in_def by (rule sound_map[OF fill_from_sound]; auto)+
  moreover have "sound (\<lambda>w'. fw_write_count (os_fds (fst w') socket) \<noteq> fw_write_count (os_fds (fst w) socket)) (socket_out sys socket w)"
    unfolding socket_out_def
    by (rule sound_bind[OF drain_to_sound]) (auto simp: Let_def add.assoc intro!: sound_map[OF shutdown_WR_counts])
  moreover have "sound (\<lambda>w'. fw_write_count (os_fds (fst w') output) \<noteq> fw_write_count (os_fds (fst w) output)) (stdout_out sys output w)"
    unfolding stdout_out_def
    by (rule sound_bind[OF drain_to_sound]) (auto simp: Let_def intro!: sound_map[OF close_counts])
  ultimately show ?thesis using assms by (auto simp: copy_rules_eq copy_rule_defs Rule_service_count_def Rule_fd_def)
qed

interpretation copier: busy_free_client "\<lambda>_. True" "\<lambda>r. r \<in> set (copy_rules sys socket input out)" for sys socket input out
proof
  fix r :: "('a, stream_copy) Rule" and w
  assume r: "r \<in> set (copy_rules sys socket input out)"
  show "sound (\<lambda>_. True) (rl_callback r w)" using copy_callbacks_serve[OF r] by (rule sound_weaken) simp
  show "sound (\<lambda>_. True) (rl_cancel r w)" using r by (auto simp: copy_rules_eq copy_rule_defs end_outbound_def end_inbound_def)
  show "sound (\<lambda>w'. Rule_service_count r w' \<noteq> Rule_service_count r w \<or> \<not> rl_interest r w') (rl_callback r w)"
    using copy_callbacks_serve[OF r] by (rule sound_weaken) simp
qed simp

lemma copy_setup_sound: "sound (\<lambda>_. True) (copy_setup sys socket input output s)"
  unfolding copy_setup_def by (intro no_ub)

text \<open>Whatever the kernel answers, the copy has no undefined behaviour, and its rules never wait busily.\<close>

lemma stream_copy_safe:
  "bidirectional_stream_copy sys socket input output s = Some r \<Longrightarrow> sound (\<lambda>_. True) r"
  "set rules \<subseteq> set (copy_rules sys socket input output) \<Longrightarrow> serve_all rules w = run_callbacks rules w"
proof -
  assume ret: "bidirectional_stream_copy sys socket input output s = Some r"
  show "sound (\<lambda>_. True) r"
  proof (cases "copy_setup sys socket input output s")
    case (Inl e)
    then show ?thesis using ret copy_setup_sound[of sys socket input "output" s] by (simp add: bidirectional_stream_copy_def)
  next
    case (Inr w)
    then obtain r' where "run_until_exit sys (-1) (copy_rules sys socket input output) w = Some r'" "r = map_result snd r'"
      using ret by (auto simp: bidirectional_stream_copy_def)
    then show ?thesis using copier.run_sound[of sys "-1" _ w r' sys socket input "output"] by (auto intro!: sound_map)
  qed
next
  assume "set rules \<subseteq> set (copy_rules sys socket input output)"
  then show "serve_all rules w = run_callbacks rules w" by (intro copier.serve_all_callbacks) auto
qed

section \<open>A copy comes to an end\<close>

text \<open>
  What is assumed of the kernel: \<open>inp k fd\<close> is what can still be read from \<open>fd\<close> and \<open>out k fd\<close> what was written
  to it. A \<^verbatim>\<open>read\<close> takes at least one byte unless there is none left, and then returns 0; \<^verbatim>\<open>writev\<close> takes at
  least one byte; the other calls succeed; and \<^verbatim>\<open>poll\<close> without a timeout returns when an event that was asked
  for is there, or when a descriptor from which everything was read hangs up.
\<close>

definition poll_finds :: "pollfd list \<Rightarrow> (nat \<Rightarrow> u16) \<Rightarrow> (int \<Rightarrow> bytes) \<Rightarrow> bool" where
  "poll_finds fds revents inp \<longleftrightarrow>
     (\<forall>i < length fds. and (revents i) (or POLLERR POLLNVAL) = 0
       \<and> (and (revents i) POLLHUP \<noteq> 0 \<and> pf_events (fds ! i) \<noteq> 0 \<and> and (revents i) (pf_events (fds ! i)) = 0
           \<longrightarrow> pf_events (fds ! i) = POLLIN \<and> inp (pf_fd (fds ! i)) = []))
     \<and> (\<exists>i < length fds. pf_events (fds ! i) \<noteq> 0 \<and> (and (revents i) (pf_events (fds ! i)) \<noteq> 0 \<or> and (revents i) POLLHUP \<noteq> 0))"

definition copy_kernel :: "('k, 'x) socket_calls_scheme \<Rightarrow> ('k \<Rightarrow> int \<Rightarrow> bytes) \<Rightarrow> ('k \<Rightarrow> int \<Rightarrow> bytes) \<Rightarrow> bool" where
  "copy_kernel sys inp out \<longleftrightarrow>
     (\<forall>fd count k. \<exists>n e k'. sys_read sys fd count k = (((int n, e), take n (inp k fd)), k') \<and> n \<le> unat count \<and> n \<le> length (inp k fd)
        \<and> (0 < count \<and> inp k fd \<noteq> [] \<longrightarrow> 0 < n) \<and> inp k' = (inp k)(fd := drop n (inp k fd)) \<and> out k' = out k)
   \<and> (\<forall>fd vs k. \<exists>n e k'. sys_writev sys fd (BufferViewList_as_iovecs vs) k = ((int n, e), k') \<and> n \<le> length (concat vs) \<and> n \<le> 0x7ffff000
        \<and> (concat vs \<noteq> [] \<longrightarrow> 0 < n) \<and> inp k' = inp k \<and> out k' = (out k)(fd := out k fd @ take n (concat vs)))
   \<and> (\<forall>fd k ret k'. (ret, k') \<in> {sys_close sys fd k, sys_shutdown sys fd SHUT_WR k, sys_getfl sys fd k} \<union> range (\<lambda>flags. sys_setfl sys fd flags k)
        \<longrightarrow> 0 \<le> fst ret \<and> inp k' = inp k \<and> out k' = out k)
   \<and> (\<forall>fds k. pf_events ` set fds \<subseteq> {0, POLLIN, POLLOUT} \<and> (\<exists>p \<in> set fds. pf_events p \<noteq> 0) \<longrightarrow>
        (\<exists>n e revents k'. sys_poll sys fds (-1) k = (((n, e), revents), k') \<and> 0 < n \<and> inp k' = inp k \<and> out k' = out k
           \<and> poll_finds fds revents (inp k)))"

lemma copy_kernelD:
  assumes "copy_kernel sys inp out"
  shows "\<exists>n e k'. sys_read sys fd count k = (((int n, e), take n (inp k fd)), k') \<and> n \<le> unat count \<and> n \<le> length (inp k fd)
        \<and> (0 < count \<and> inp k fd \<noteq> [] \<longrightarrow> 0 < n) \<and> inp k' = (inp k)(fd := drop n (inp k fd)) \<and> out k' = out k"
    and "\<exists>n e k'. sys_writev sys fd (BufferViewList_as_iovecs vs) k = ((int n, e), k') \<and> n \<le> length (concat vs) \<and> n \<le> 0x7ffff000
        \<and> (concat vs \<noteq> [] \<longrightarrow> 0 < n) \<and> inp k' = inp k \<and> out k' = (out k)(fd := out k fd @ take n (concat vs))"
    and "\<exists>n e k'. sys_close sys fd k = ((n, e), k') \<and> 0 \<le> n \<and> inp k' = inp k \<and> out k' = out k"
    and "\<exists>n e k'. sys_shutdown sys fd SHUT_WR k = ((n, e), k') \<and> 0 \<le> n \<and> inp k' = inp k \<and> out k' = out k"
    and "\<exists>n e k'. sys_getfl sys fd k = ((n, e), k') \<and> 0 \<le> n \<and> inp k' = inp k \<and> out k' = out k"
    and "\<exists>n e k'. sys_setfl sys fd flags k = ((n, e), k') \<and> 0 \<le> n \<and> inp k' = inp k \<and> out k' = out k"
proof -
  have ok: "\<exists>n e k'. call = ((n, e), k') \<and> 0 \<le> n \<and> inp k' = inp k \<and> out k' = out k"
    if "call \<in> {sys_close sys fd k, sys_shutdown sys fd SHUT_WR k, sys_getfl sys fd k} \<union> range (\<lambda>flags. sys_setfl sys fd flags k)"
    for call
    using assms that unfolding copy_kernel_def by (metis (no_types, lifting) fst_conv surj_pair)
  show "\<exists>n e k'. sys_close sys fd k = ((n, e), k') \<and> 0 \<le> n \<and> inp k' = inp k \<and> out k' = out k"
    "\<exists>n e k'. sys_shutdown sys fd SHUT_WR k = ((n, e), k') \<and> 0 \<le> n \<and> inp k' = inp k \<and> out k' = out k"
    "\<exists>n e k'. sys_getfl sys fd k = ((n, e), k') \<and> 0 \<le> n \<and> inp k' = inp k \<and> out k' = out k"
    "\<exists>n e k'. sys_setfl sys fd flags k = ((n, e), k') \<and> 0 \<le> n \<and> inp k' = inp k \<and> out k' = out k"
    by (rule ok, blast)+
qed (use assms in \<open>simp_all only: copy_kernel_def\<close>)

text \<open>One direction: from the descriptor \<open>src\<close> through a stream to the descriptor \<open>dst\<close>.\<close>

definition conveyed ::
  "('k \<Rightarrow> int \<Rightarrow> bytes) \<Rightarrow> ('k \<Rightarrow> int \<Rightarrow> bytes) \<Rightarrow> 'k \<Rightarrow> int \<Rightarrow> int \<Rightarrow> ByteStream \<Rightarrow> 'k \<Rightarrow> bool" where
  "conveyed inp out k0 src dst bs k \<longleftrightarrow> out k dst @ bs_buffer bs @ inp k src = out k0 dst @ inp k0 src
     \<and> ByteStream_inv bs \<and> bs_capacity bs = copy_buffer_size \<and> \<not> bs_error bs \<and> (bs_input_ended bs \<longrightarrow> inp k src = [])"

lemma end_input_simps [simp]:
  "bs_buffer (ByteStream_end_input bs) = bs_buffer bs" "bs_capacity (ByteStream_end_input bs) = bs_capacity bs"
  "bs_error (ByteStream_end_input bs) = bs_error bs" "bs_input_ended (ByteStream_end_input bs)"
  by (simp_all add: ByteStream_end_input_def)

lemma read_outcome:
  fixes s :: "'k os" and h :: FileDescriptor
  assumes "copy_kernel sys inp out"
  defines "fd \<equiv> fw_fd (os_fds s h)" and "k \<equiv> os_kernel s"
  shows "\<exists>n k'. FileDescriptor_read sys h limit s = Inr (take n (inp k fd), s\<lparr>os_kernel := k', os_fds := (os_fds s)(h :=
          (os_fds s h)\<lparr>fw_eof := fw_eof (os_fds s h) \<or> 0 < limit \<and> n = 0, fw_read_count := fw_read_count (os_fds s h) + 1\<rparr>)\<rparr>)
    \<and> n \<le> unat limit \<and> n \<le> length (inp k fd) \<and> (0 < limit \<and> inp k fd \<noteq> [] \<longrightarrow> 0 < n)
    \<and> inp k' = (inp k)(fd := drop n (inp k fd)) \<and> out k' = out k"
proof -
  let ?count = "min BUFFER_SIZE limit"
  obtain n e k' where r: "sys_read sys fd ?count k = (((int n, e), take n (inp k fd)), k')" "n \<le> unat ?count"
    "n \<le> length (inp k fd)" "0 < ?count \<and> inp k fd \<noteq> [] \<longrightarrow> 0 < n" "inp k' = (inp k)(fd := drop n (inp k fd))" "out k' = out k"
    using copy_kernelD(1)[OF assms(1)] by blast
  have c: "unat ?count \<le> unat limit" "unat ?count \<le> 1048576" "0 < limit \<Longrightarrow> 0 < ?count"
    by (simp_all add: min_def BUFFER_SIZE_def word_le_nat_alt word_less_nat_alt)
  have "int_of_ssize (int n, e) = (int n, e)" using r(2) c(2) by (intro ssize_small) auto
  moreover have "int n \<le> uint ?count" using r(2) by (simp add: uint_nat del: of_nat_unat)
  ultimately have "FileDescriptor_read sys h limit s = Inr (take n (inp k fd), s\<lparr>os_kernel := k', os_fds := (os_fds s)(h :=
      (os_fds s h)\<lparr>fw_eof := fw_eof (os_fds s h) \<or> 0 < limit \<and> n = 0, fw_read_count := fw_read_count (os_fds s h) + 1\<rparr>)\<rparr>)"
    using r(1,3) by (auto simp: FileDescriptor_read_def fd_def k_def Let_def SystemCall_def register_read_def update_fd_def)
  then show ?thesis using r c by (intro exI[of _ n] exI[of _ k']) auto
qed

lemma write_outcome:
  fixes s :: "'k os" and h :: FileDescriptor
  assumes "copy_kernel sys inp out" and "length data < 2 ^ 63"
  defines "fd \<equiv> fw_fd (os_fds s h)" and "k \<equiv> os_kernel s"
  shows "\<exists>n k'. FileDescriptor_write sys h (BufferViewList_of_string_view data) False s = Inr (of_nat n, register_write h (s\<lparr>os_kernel := k'\<rparr>))
    \<and> n \<le> length data \<and> (data \<noteq> [] \<longrightarrow> 0 < n) \<and> inp k' = inp k \<and> out k' = (out k)(fd := out k fd @ take n data)"
proof -
  let ?vs = "BufferViewList_of_string_view data"
  have vs: "concat ?vs = data" by (simp add: BufferViewList_of_string_view_def)
  obtain n e k' where w: "sys_writev sys fd (BufferViewList_as_iovecs ?vs) k = ((int n, e), k')" "n \<le> length data" "n \<le> 0x7ffff000"
    "data \<noteq> [] \<longrightarrow> 0 < n" "inp k' = inp k" "out k' = (out k)(fd := out k fd @ take n data)"
    using copy_kernelD(2)[OF assms(1), of fd ?vs k] unfolding vs by blast
  have "writev_takes sys fd (\<lambda>k. out k fd)"
    unfolding writev_takes_def using copy_kernelD(2)[OF assms(1), of fd] by (metis fun_upd_same)
  then obtain m s' where m: "FileDescriptor_write sys h ?vs False s = Inr (of_nat m, s')"
    using write_loop_complete[of sys s h "\<lambda>k. out k fd" ?vs False 0] assms(2) vs by (auto simp: FileDescriptor_write_def fd_def)
  have "int_of_ssize (int n, e) = (int n, e)" using w(3) by (intro ssize_small) auto
  then have "FileDescriptor_write sys h ?vs False s = Inr (of_nat n, register_write h (s\<lparr>os_kernel := k'\<rparr>))"
    using m w(1) unfolding FileDescriptor_write_def fd_def k_def
    by (subst (asm) write_loop.simps, subst write_loop.simps)
      (auto simp: Let_def SystemCall_def bind_result_Inr_iff split: if_splits)
  then show ?thesis using w by blast
qed

lemma take_drop_append: "take n xs @ drop n xs @ ys = xs @ ys"
  by (metis append.assoc append_take_drop_id)

lemma conveyed_frame:
  "conveyed inp out k0 src dst bs k \<Longrightarrow> inp k' src = inp k src \<Longrightarrow> out k' dst = out k dst \<Longrightarrow> conveyed inp out k0 src dst bs k'"
  by (simp add: conveyed_def)

lemma conveyed_end: "conveyed inp out k0 src dst bs k \<Longrightarrow> inp k src = [] \<Longrightarrow> conveyed inp out k0 src dst (ByteStream_end_input bs) k"
  by (simp add: conveyed_def end_input_inv)

lemma fill_conveys:
  fixes s :: "'k os" and h :: FileDescriptor
  assumes ck: "copy_kernel sys inp out" and cv: "conveyed inp out k0 (fw_fd (os_fds s h)) dst bs (os_kernel s)"
    and room: "0 < ByteStream_remaining_capacity bs" and eof: "\<not> fw_eof (os_fds s h)"
  defines "fd \<equiv> fw_fd (os_fds s h)" and "k \<equiv> os_kernel s"
  shows "\<exists>bs' k' e n. fill_from sys h bs s = Inr (bs', s\<lparr>os_kernel := k', os_fds := (os_fds s)(h :=
          (os_fds s h)\<lparr>fw_eof := e, fw_read_count := fw_read_count (os_fds s h) + 1\<rparr>)\<rparr>)
    \<and> conveyed inp out k0 fd dst bs' k' \<and> out k' = out k \<and> inp k' = (inp k)(fd := drop n (inp k fd))
    \<and> (e \<longrightarrow> bs_input_ended bs') \<and> (bs_input_ended bs \<longrightarrow> bs_input_ended bs') \<and> (bs_buffer bs \<noteq> [] \<longrightarrow> bs_buffer bs' \<noteq> [])
    \<and> 2 * length (drop n (inp k fd)) + length (bs_buffer bs') + of_bool (\<not> e) < 2 * length (inp k fd) + length (bs_buffer bs) + 1"
proof -
  let ?limit = "ByteStream_remaining_capacity bs"
  have inv: "ByteStream_inv bs" using cv by (simp add: conveyed_def)
  obtain n k' where r: "FileDescriptor_read sys h ?limit s = Inr (take n (inp k fd), s\<lparr>os_kernel := k', os_fds := (os_fds s)(h :=
          (os_fds s h)\<lparr>fw_eof := n = 0, fw_read_count := fw_read_count (os_fds s h) + 1\<rparr>)\<rparr>)"
    "n \<le> unat ?limit" "n \<le> length (inp k fd)" "inp k fd \<noteq> [] \<longrightarrow> 0 < n" "inp k' = (inp k)(fd := drop n (inp k fd))" "out k' = out k"
    using read_outcome[OF ck, of h ?limit s] room eof unfolding fd_def k_def by auto
  let ?d = "take n (inp k fd)"
  let ?bs = "snd (ByteStream_write ?d bs)"
  have len: "length ?d \<le> unat ?limit" using r(2) by simp
  then have "fits ?d" by (rule fits_le)
  then have "unat (fst (ByteStream_write ?d bs)) = length ?d"
    using write_count[OF inv, of ?d] len unat_remaining_capacity[OF inv] by simp
  then have buf: "bs_buffer ?bs = bs_buffer bs @ ?d" using r(3) by (simp add: write_buffer min_absorb2)
  have cv': "conveyed inp out k0 fd dst ?bs k'"
    using cv buf r(5,6) write_inv[OF inv] unfolding fd_def k_def by (simp add: conveyed_def)
  have "conveyed inp out k0 fd dst (if n = 0 then ByteStream_end_input ?bs else ?bs) k'"
    using conveyed_end[OF cv'] cv' r(4,5) by auto
  then show ?thesis
    using r(3,5,6) buf
    by (intro exI[of _ "if n = 0 then ByteStream_end_input ?bs else ?bs"] exI[of _ k'] exI[of _ "n = 0"] exI[of _ n])
      (auto simp: fill_from_def r(1) Let_def)
qed

lemma drain_conveys:
  fixes s :: "'k os" and h :: FileDescriptor
  assumes ck: "copy_kernel sys inp out" and cv: "conveyed inp out k0 src (fw_fd (os_fds s h)) bs (os_kernel s)"
  defines "fd \<equiv> fw_fd (os_fds s h)" and "k \<equiv> os_kernel s"
  shows "\<exists>bs' k' n d. drain_to sys h bs s = Inr (bs', register_write h (s\<lparr>os_kernel := k'\<rparr>)) \<and> conveyed inp out k0 src fd bs' k'
    \<and> bs_buffer bs' = drop n (bs_buffer bs) \<and> (bs_buffer bs \<noteq> [] \<longrightarrow> 0 < n) \<and> bs_input_ended bs' = bs_input_ended bs
    \<and> inp k' = inp k \<and> out k' = (out k)(fd := d)"
proof -
  let ?m = "min max_copy_length (ByteStream_buffer_size bs)"
  let ?data = "ByteStream_peek_output bs ?m"
  have inv: "ByteStream_inv bs" using cv by (simp add: conveyed_def)
  have m: "unat ?m = min 65536 (length (bs_buffer bs))"
    using unat_buffer_size[OF inv] by (simp add: min_def word_le_nat_alt max_copy_length_def)
  have data: "?data = take (min 65536 (length (bs_buffer bs))) (bs_buffer bs)" by (simp add: peek_output_eq[OF inv] m)
  then have "length ?data < 2 ^ 63" by auto
  from write_outcome[OF ck this, of h s] obtain n k' where w:
    "FileDescriptor_write sys h (BufferViewList_of_string_view ?data) False s = Inr (of_nat n, register_write h (s\<lparr>os_kernel := k'\<rparr>))"
    "n \<le> length ?data" "?data \<noteq> [] \<longrightarrow> 0 < n" "inp k' = inp k" "out k' = (out k)(fd := out k fd @ take n ?data)"
    unfolding fd_def k_def by blast
  let ?bs = "ByteStream_pop_output (of_nat n) bs"
  have n: "unat (of_nat n :: u64) = n" "take n ?data = take n (bs_buffer bs)"
    using w(2) unfolding data by (auto simp: unat_of_nat64 min_absorb1)
  have buf: "bs_buffer ?bs = drop n (bs_buffer bs)" by (simp add: pop_output_buffer[OF inv] n(1))
  have "conveyed inp out k0 src fd ?bs k'"
    using cv buf w(4,5) n(2) pop_output_inv[OF inv] unfolding fd_def k_def by (simp add: conveyed_def take_drop_append)
  then show ?thesis
    using w(1,3-5) buf data
    by (intro exI[of _ ?bs] exI[of _ k'] exI[of _ n] exI[of _ "out k fd @ take n ?data"]) (auto simp: drain_to_def Let_def)
qed

text \<open>What holds all the time, for the state \<open>k0\<close> of the kernel at the start and a socket with the number \<open>fs\<close>.\<close>

definition copy_state ::
  "('k, 'x) socket_calls_scheme \<Rightarrow> ('k \<Rightarrow> int \<Rightarrow> bytes) \<Rightarrow> ('k \<Rightarrow> int \<Rightarrow> bytes) \<Rightarrow> 'k \<Rightarrow> int
     \<Rightarrow> FileDescriptor \<Rightarrow> FileDescriptor \<Rightarrow> FileDescriptor \<Rightarrow> 'k copy_world \<Rightarrow> bool" where
  "copy_state sys inp out k0 fs socket input output w \<longleftrightarrow>
     (let s = fst w; c = snd w; k = os_kernel s; fd = os_fds s in
      copy_kernel sys inp out \<and> distinct [socket, input, output] \<and> distinct [fs, STDIN_FILENO, STDOUT_FILENO]
    \<and> fw_fd (fd socket) = fs \<and> fw_fd (fd input) = STDIN_FILENO \<and> fw_fd (fd output) = STDOUT_FILENO
    \<and> conveyed inp out k0 STDIN_FILENO fs (sc_outbound c) k \<and> conveyed inp out k0 fs STDOUT_FILENO (sc_inbound c) k
    \<and> \<not> fw_closed (fd input) \<and> \<not> fw_closed (fd socket) \<and> (fw_closed (fd output) \<longleftrightarrow> sc_inbound_shutdown c)
    \<and> (sc_outbound_shutdown c \<longrightarrow> ByteStream_eof (sc_outbound c)) \<and> (sc_inbound_shutdown c \<longrightarrow> ByteStream_eof (sc_inbound c))
    \<and> (fw_eof (fd input) \<longrightarrow> bs_input_ended (sc_outbound c)) \<and> (fw_eof (fd socket) \<longrightarrow> bs_input_ended (sc_inbound c)))"

definition copy_size :: "('k \<Rightarrow> int \<Rightarrow> bytes) \<Rightarrow> int \<Rightarrow> FileDescriptor \<Rightarrow> FileDescriptor \<Rightarrow> 'k copy_world \<Rightarrow> nat" where
  "copy_size inp fs socket input w =
     (let s = fst w; c = snd w; k = os_kernel s in
      2 * length (inp k STDIN_FILENO) + length (bs_buffer (sc_outbound c)) + of_bool (\<not> fw_eof (os_fds s input))
      + 2 * length (inp k fs) + length (bs_buffer (sc_inbound c)) + of_bool (\<not> fw_eof (os_fds s socket))
      + of_bool (\<not> sc_outbound_shutdown c) + of_bool (\<not> sc_inbound_shutdown c))"

text \<open>What never goes back.\<close>

definition copy_later :: "('k \<Rightarrow> int \<Rightarrow> bytes) \<Rightarrow> 'k copy_world \<Rightarrow> 'k copy_world \<Rightarrow> bool" where
  "copy_later inp w w' \<longleftrightarrow>
     (bs_input_ended (sc_outbound (snd w)) \<longrightarrow> bs_input_ended (sc_outbound (snd w')))
   \<and> (bs_input_ended (sc_inbound (snd w)) \<longrightarrow> bs_input_ended (sc_inbound (snd w')))
   \<and> (sc_inbound_shutdown (snd w) \<longrightarrow> sc_inbound_shutdown (snd w'))
   \<and> (\<forall>fd. inp (os_kernel (fst w)) fd = [] \<longrightarrow> inp (os_kernel (fst w')) fd = [])
   \<and> (\<forall>h. fw_fd (os_fds (fst w') h) = fw_fd (os_fds (fst w) h))"

lemma todo_simps:
  "todo w (stdin_rule sys input) \<longleftrightarrow> \<not> fw_eof (os_fds (fst w) input) \<and> \<not> fw_closed (os_fds (fst w) input)
     \<and> can_fill (sc_outbound (snd w)) (sc_inbound (snd w))"
  "todo w (socket_in_rule sys socket) \<longleftrightarrow> \<not> fw_eof (os_fds (fst w) socket) \<and> \<not> fw_closed (os_fds (fst w) socket)
     \<and> can_fill (sc_inbound (snd w)) (sc_outbound (snd w))"
  "todo w (socket_out_rule sys socket) \<longleftrightarrow> \<not> fw_closed (os_fds (fst w) socket) \<and> can_drain (sc_outbound (snd w)) (sc_outbound_shutdown (snd w))"
  "todo w (stdout_rule sys output) \<longleftrightarrow> \<not> fw_closed (os_fds (fst w) output) \<and> can_drain (sc_inbound (snd w)) (sc_inbound_shutdown (snd w))"
  by (auto simp: todo_def healthy_def Rule_fd_def copy_rule_defs)

lemma healthy_simps:
  "healthy w (stdin_rule sys input) \<longleftrightarrow> \<not> fw_eof (os_fds (fst w) input) \<and> \<not> fw_closed (os_fds (fst w) input)"
  "healthy w (socket_in_rule sys socket) \<longleftrightarrow> \<not> fw_eof (os_fds (fst w) socket) \<and> \<not> fw_closed (os_fds (fst w) socket)"
  "healthy w (socket_out_rule sys socket) \<longleftrightarrow> \<not> fw_closed (os_fds (fst w) socket)"
  "healthy w (stdout_rule sys output) \<longleftrightarrow> \<not> fw_closed (os_fds (fst w) output)"
  by (auto simp: healthy_def Rule_fd_def copy_rule_defs)

lemma conveyed_eof:
  assumes "conveyed inp out k0 src dst bs k" and "conveyed inp out k0 src dst bs' k'" and "out k' = out k" and "ByteStream_eof bs"
    and "bs_input_ended bs'" shows "ByteStream_eof bs'"
  using assms by (auto simp: conveyed_def ByteStream_accessors)

lemma can_drain_filled:
  "can_drain bs shut \<Longrightarrow> (bs_input_ended bs \<longrightarrow> bs_input_ended bs') \<Longrightarrow> (bs_buffer bs \<noteq> [] \<longrightarrow> bs_buffer bs' \<noteq> []) \<Longrightarrow> can_drain bs' shut"
  by (auto simp: can_drain_def ByteStream_accessors)

lemma can_fill_conveyed:
  "conveyed inp out k0 src dst bs k \<Longrightarrow> conveyed inp out k0 src' dst' other k \<Longrightarrow> can_fill bs other \<longleftrightarrow> length (bs_buffer bs) < unat copy_buffer_size"
  using unat_remaining_capacity[of bs] by (auto simp: can_fill_def conveyed_def ByteStream_accessors word_less_nat_alt)

lemma serve_stdin:
  assumes "copy_state sys inp out k0 fs socket input output w" and "todo w (stdin_rule sys input)"
  shows "\<exists>w'. stdin_in sys input w = Inr w' \<and> copy_state sys inp out k0 fs socket input output w'
    \<and> copy_size inp fs socket input w' < copy_size inp fs socket input w \<and> copy_later inp w w'
    \<and> (\<forall>r \<in> {socket_out_rule sys socket, socket_in_rule sys socket, stdout_rule sys output}. todo w r \<longrightarrow> todo w' r)"
proof -
  obtain s c where w: "w = (s, c)" by force
  let ?fd = "STDIN_FILENO" and ?bs = "sc_outbound c"
  note st = assms(1)[unfolded copy_state_def w Let_def fst_conv snd_conv]
  have "fw_fd (os_fds s input) = ?fd" using st by blast
  with fill_conveys[of sys inp out k0 s input fs ?bs] st assms(2) obtain bs' k' e n where f:
    "fill_from sys input ?bs s = Inr (bs', s\<lparr>os_kernel := k', os_fds := (os_fds s)(input :=
          (os_fds s input)\<lparr>fw_eof := e, fw_read_count := fw_read_count (os_fds s input) + 1\<rparr>)\<rparr>)"
    "conveyed inp out k0 ?fd fs bs' k'" "out k' = out (os_kernel s)" "inp k' = (inp (os_kernel s))(?fd := drop n (inp (os_kernel s) ?fd))"
    "e \<longrightarrow> bs_input_ended bs'" "bs_input_ended ?bs \<longrightarrow> bs_input_ended bs'" "bs_buffer ?bs \<noteq> [] \<longrightarrow> bs_buffer bs' \<noteq> []"
    "2 * length (drop n (inp (os_kernel s) ?fd)) + length (bs_buffer bs') + of_bool (\<not> e) < 2 * length (inp (os_kernel s) ?fd) + length (bs_buffer ?bs) + 1"
    by (auto simp: todo_simps w can_fill_def)
  let ?s = "s\<lparr>os_kernel := k', os_fds := (os_fds s)(input := (os_fds s input)\<lparr>fw_eof := e, fw_read_count := fw_read_count (os_fds s input) + 1\<rparr>)\<rparr>"
  let ?w = "(?s, c\<lparr>sc_outbound := bs'\<rparr>)"
  have cb: "stdin_in sys input w = Inr ?w" by (simp add: stdin_in_def w f(1))
  have other: "conveyed inp out k0 fs STDOUT_FILENO (sc_inbound c) k'"
    using conveyed_frame[of inp out k0 fs STDOUT_FILENO "sc_inbound c" "os_kernel s" k'] st f(3,4) by auto
  have eof: "sc_outbound_shutdown c \<longrightarrow> ByteStream_eof bs'"
    using conveyed_eof[OF _ f(2,3)] st f(6) by (auto simp: ByteStream_accessors)
  have st': "copy_state sys inp out k0 fs socket input output ?w" using st f(2,5,6) other eof by (auto simp: copy_state_def Let_def)
  have "copy_size inp fs socket input ?w < copy_size inp fs socket input w"
    using st f(4,8) assms(2) by (auto simp: copy_size_def Let_def w todo_simps)
  moreover have "copy_later inp w ?w" using f(4,6) by (auto simp: copy_later_def w)
  moreover have "can_fill (sc_inbound c) bs' \<longleftrightarrow> can_fill (sc_inbound c) ?bs"
    using can_fill_conveyed[OF other f(2)] can_fill_conveyed[of inp out k0 fs STDOUT_FILENO "sc_inbound c" "os_kernel s" ?fd fs ?bs] st by blast
  then have "\<forall>r \<in> {socket_out_rule sys socket, socket_in_rule sys socket, stdout_rule sys output}. todo w r \<longrightarrow> todo ?w r"
    using st can_drain_filled[OF _ f(6,7)] by (auto simp: w todo_simps)
  ultimately show ?thesis using cb st' by blast
qed

lemma serve_socket_in:
  assumes "copy_state sys inp out k0 fs socket input output w" and "todo w (socket_in_rule sys socket)"
  shows "\<exists>w'. socket_in sys socket w = Inr w' \<and> copy_state sys inp out k0 fs socket input output w'
    \<and> copy_size inp fs socket input w' < copy_size inp fs socket input w \<and> copy_later inp w w'
    \<and> (todo w (stdout_rule sys output) \<longrightarrow> todo w' (stdout_rule sys output))"
proof -
  obtain s c where w: "w = (s, c)" by force
  let ?bs = "sc_inbound c"
  note st = assms(1)[unfolded copy_state_def w Let_def fst_conv snd_conv]
  have "fw_fd (os_fds s socket) = fs" using st by blast
  with fill_conveys[of sys inp out k0 s socket STDOUT_FILENO ?bs] st assms(2) obtain bs' k' e n where f:
    "fill_from sys socket ?bs s = Inr (bs', s\<lparr>os_kernel := k', os_fds := (os_fds s)(socket :=
          (os_fds s socket)\<lparr>fw_eof := e, fw_read_count := fw_read_count (os_fds s socket) + 1\<rparr>)\<rparr>)"
    "conveyed inp out k0 fs STDOUT_FILENO bs' k'" "out k' = out (os_kernel s)" "inp k' = (inp (os_kernel s))(fs := drop n (inp (os_kernel s) fs))"
    "e \<longrightarrow> bs_input_ended bs'" "bs_input_ended ?bs \<longrightarrow> bs_input_ended bs'" "bs_buffer ?bs \<noteq> [] \<longrightarrow> bs_buffer bs' \<noteq> []"
    "2 * length (drop n (inp (os_kernel s) fs)) + length (bs_buffer bs') + of_bool (\<not> e) < 2 * length (inp (os_kernel s) fs) + length (bs_buffer ?bs) + 1"
    by (auto simp: todo_simps w can_fill_def)
  let ?s = "s\<lparr>os_kernel := k', os_fds := (os_fds s)(socket := (os_fds s socket)\<lparr>fw_eof := e, fw_read_count := fw_read_count (os_fds s socket) + 1\<rparr>)\<rparr>"
  let ?w = "(?s, c\<lparr>sc_inbound := bs'\<rparr>)"
  have cb: "socket_in sys socket w = Inr ?w" by (simp add: socket_in_def w f(1))
  have other: "conveyed inp out k0 STDIN_FILENO fs (sc_outbound c) k'"
    using conveyed_frame[of inp out k0 STDIN_FILENO fs "sc_outbound c" "os_kernel s" k'] st f(3,4) by auto
  have eof: "sc_inbound_shutdown c \<longrightarrow> ByteStream_eof bs'"
    using conveyed_eof[OF _ f(2,3)] st f(6) by (auto simp: ByteStream_accessors)
  have st': "copy_state sys inp out k0 fs socket input output ?w" using st f(2,5,6) other eof by (auto simp: copy_state_def Let_def)
  have "copy_size inp fs socket input ?w < copy_size inp fs socket input w"
    using st f(4,8) assms(2) by (auto simp: copy_size_def Let_def w todo_simps)
  moreover have "copy_later inp w ?w" using f(4,6) by (auto simp: copy_later_def w)
  moreover have "todo w (stdout_rule sys output) \<longrightarrow> todo ?w (stdout_rule sys output)"
    using st can_drain_filled[OF _ f(6,7)] by (auto simp: w todo_simps)
  ultimately show ?thesis using cb st' by blast
qed

lemma register_write_simps:
  "os_kernel (register_write h s) = os_kernel s"
  "os_fds (register_write h s) = (os_fds s)(h := (os_fds s h)\<lparr>fw_write_count := fw_write_count (os_fds s h) + 1\<rparr>)"
  by (simp_all add: register_write_def)

lemma can_drain_after:
  assumes "can_drain bs shut" and "bs_buffer bs' = drop n (bs_buffer bs)" and "bs_buffer bs \<noteq> [] \<longrightarrow> 0 < n"
    and "bs_input_ended bs' = bs_input_ended bs"
  shows "length (bs_buffer bs') + of_bool (\<not> (shut \<or> ByteStream_eof bs')) < length (bs_buffer bs) + of_bool (\<not> shut)"
  using assms by (cases "bs_buffer bs = []") (auto simp: can_drain_def ByteStream_accessors)

lemma shutdown_outcome:
  assumes "copy_kernel sys inp out"
  shows "\<exists>k'. Socket_shutdown sys h SHUT_WR s = Inr (register_write h (s\<lparr>os_kernel := k'\<rparr>)) \<and> inp k' = inp (os_kernel s) \<and> out k' = out (os_kernel s)"
  using copy_kernelD(4)[OF assms, of "fw_fd (os_fds s h)" "os_kernel s"]
  by (auto simp: Socket_shutdown_def checked_def SystemCall_def SHUT_RD_def SHUT_WR_def)

lemma close_outcome:
  assumes "copy_kernel sys inp out"
  shows "\<exists>k'. FDWrapper_close sys h s = Inr (update_fd h (\<lambda>w. w\<lparr>fw_eof := True, fw_closed := True\<rparr>) (s\<lparr>os_kernel := k'\<rparr>))
    \<and> inp k' = inp (os_kernel s) \<and> out k' = out (os_kernel s)"
  using copy_kernelD(3)[OF assms, of "fw_fd (os_fds s h)" "os_kernel s"] by (auto simp: FDWrapper_close_def SystemCall_def)

lemma serve_socket_out:
  assumes "copy_state sys inp out k0 fs socket input output w" and "todo w (socket_out_rule sys socket)"
  shows "\<exists>w'. socket_out sys socket w = Inr w' \<and> copy_state sys inp out k0 fs socket input output w'
    \<and> copy_size inp fs socket input w' < copy_size inp fs socket input w \<and> copy_later inp w w'
    \<and> (\<forall>r \<in> {socket_in_rule sys socket, stdout_rule sys output}. todo w r \<longrightarrow> todo w' r)"
proof -
  obtain s c where w: "w = (s, c)" by force
  let ?bs = "sc_outbound c"
  note st = assms(1)[unfolded copy_state_def w Let_def fst_conv snd_conv]
  have "fw_fd (os_fds s socket) = fs" using st by blast
  with drain_conveys[of sys inp out k0 STDIN_FILENO s socket ?bs] st obtain bs' k' n d where f:
    "drain_to sys socket ?bs s = Inr (bs', register_write socket (s\<lparr>os_kernel := k'\<rparr>))" "conveyed inp out k0 STDIN_FILENO fs bs' k'"
    "bs_buffer bs' = drop n (bs_buffer ?bs)" "bs_buffer ?bs \<noteq> [] \<longrightarrow> 0 < n" "bs_input_ended bs' = bs_input_ended ?bs"
    "inp k' = inp (os_kernel s)" "out k' = (out (os_kernel s))(fs := d)"
    by auto
  let ?s = "register_write socket (s\<lparr>os_kernel := k'\<rparr>)" and ?c = "c\<lparr>sc_outbound := bs', sc_outbound_shutdown := sc_outbound_shutdown c \<or> ByteStream_eof bs'\<rparr>"
  obtain k2 where sd: "Socket_shutdown sys socket SHUT_WR ?s = Inr (register_write socket (?s\<lparr>os_kernel := k2\<rparr>))"
    "inp k2 = inp k'" "out k2 = out k'"
    using shutdown_outcome[of sys inp out socket ?s] st by (auto simp: register_write_def)
  have "\<exists>s' m. socket_out sys socket w = Inr (s', ?c) \<and> inp (os_kernel s') = inp (os_kernel s) \<and> out (os_kernel s') = (out (os_kernel s))(fs := d)
      \<and> os_fds s' = (os_fds s)(socket := (os_fds s socket)\<lparr>fw_write_count := m\<rparr>)"
    using f(6,7) sd(2,3) by (cases "ByteStream_eof bs'") (auto simp: socket_out_def w f(1) sd(1) Let_def register_write_simps)
  then obtain s' m where cb: "socket_out sys socket w = Inr (s', ?c)" and k: "inp (os_kernel s') = inp (os_kernel s)"
    "out (os_kernel s') = (out (os_kernel s))(fs := d)" and fds: "os_fds s' = (os_fds s)(socket := (os_fds s socket)\<lparr>fw_write_count := m\<rparr>)"
    by blast
  have cv: "conveyed inp out k0 STDIN_FILENO fs bs' (os_kernel s')" "conveyed inp out k0 fs STDOUT_FILENO (sc_inbound c) (os_kernel s')"
    using conveyed_frame[OF f(2), of "os_kernel s'"] conveyed_frame[of inp out k0 fs STDOUT_FILENO "sc_inbound c" "os_kernel s" "os_kernel s'"]
      st k f(6,7) by auto
  have "sc_outbound_shutdown c \<longrightarrow> ByteStream_eof bs'" using st f(3,5) by (auto simp: ByteStream_accessors)
  then have st': "copy_state sys inp out k0 fs socket input output (s', ?c)"
    using st fds cv f(5) by (auto simp: copy_state_def Let_def)
  have "copy_size inp fs socket input (s', ?c) < copy_size inp fs socket input w"
    using can_drain_after[OF _ f(3-5), of "sc_outbound_shutdown c"] assms(2) fds st k(1) by (auto simp: copy_size_def Let_def todo_simps w)
  moreover have "copy_later inp w (s', ?c)" using f(5) fds k(1) by (auto simp: copy_later_def w)
  moreover have "can_fill (sc_inbound c) bs' \<longleftrightarrow> can_fill (sc_inbound c) ?bs"
    using can_fill_conveyed[OF cv(2,1)] can_fill_conveyed[of inp out k0 fs STDOUT_FILENO "sc_inbound c" "os_kernel s" STDIN_FILENO fs ?bs] st by blast
  then have "\<forall>r \<in> {socket_in_rule sys socket, stdout_rule sys output}. todo w r \<longrightarrow> todo (s', ?c) r"
    using st fds by (auto simp: todo_simps w)
  ultimately show ?thesis using cb st' by blast
qed

lemma serve_stdout:
  assumes "copy_state sys inp out k0 fs socket input output w" and "todo w (stdout_rule sys output)"
  shows "\<exists>w'. stdout_out sys output w = Inr w' \<and> copy_state sys inp out k0 fs socket input output w'
    \<and> copy_size inp fs socket input w' < copy_size inp fs socket input w \<and> copy_later inp w w'"
proof -
  obtain s c where w: "w = (s, c)" by force
  let ?bs = "sc_inbound c"
  note st = assms(1)[unfolded copy_state_def w Let_def fst_conv snd_conv]
  have "fw_fd (os_fds s output) = STDOUT_FILENO" using st by blast
  with drain_conveys[of sys inp out k0 fs s "output" ?bs] st obtain bs' k' n d where f:
    "drain_to sys output ?bs s = Inr (bs', register_write output (s\<lparr>os_kernel := k'\<rparr>))" "conveyed inp out k0 fs STDOUT_FILENO bs' k'"
    "bs_buffer bs' = drop n (bs_buffer ?bs)" "bs_buffer ?bs \<noteq> [] \<longrightarrow> 0 < n" "bs_input_ended bs' = bs_input_ended ?bs"
    "inp k' = inp (os_kernel s)" "out k' = (out (os_kernel s))(STDOUT_FILENO := d)"
    by auto
  let ?s = "register_write output (s\<lparr>os_kernel := k'\<rparr>)" and ?c = "c\<lparr>sc_inbound := bs', sc_inbound_shutdown := sc_inbound_shutdown c \<or> ByteStream_eof bs'\<rparr>"
  obtain k2 where cl: "FDWrapper_close sys output ?s = Inr (update_fd output (\<lambda>w. w\<lparr>fw_eof := True, fw_closed := True\<rparr>) (?s\<lparr>os_kernel := k2\<rparr>))"
    "inp k2 = inp k'" "out k2 = out k'"
    using close_outcome[of sys inp out "output" ?s] st by (auto simp: register_write_simps)
  have "\<exists>s' fw. stdout_out sys output w = Inr (s', ?c) \<and> inp (os_kernel s') = inp (os_kernel s)
      \<and> out (os_kernel s') = (out (os_kernel s))(STDOUT_FILENO := d) \<and> os_fds s' = (os_fds s)(output := fw)
      \<and> fw_fd fw = fw_fd (os_fds s output) \<and> (fw_closed fw \<longleftrightarrow> fw_closed (os_fds s output) \<or> ByteStream_eof bs')"
    using f(6,7) cl(2,3) by (cases "ByteStream_eof bs'") (auto simp: stdout_out_def w f(1) cl(1) Let_def register_write_simps)
  then obtain s' fw where cb: "stdout_out sys output w = Inr (s', ?c)" and k: "inp (os_kernel s') = inp (os_kernel s)"
    "out (os_kernel s') = (out (os_kernel s))(STDOUT_FILENO := d)" and fds: "os_fds s' = (os_fds s)(output := fw)"
    "fw_fd fw = fw_fd (os_fds s output)" "fw_closed fw \<longleftrightarrow> fw_closed (os_fds s output) \<or> ByteStream_eof bs'"
    by blast
  have cv: "conveyed inp out k0 fs STDOUT_FILENO bs' (os_kernel s')" "conveyed inp out k0 STDIN_FILENO fs (sc_outbound c) (os_kernel s')"
    using conveyed_frame[OF f(2), of "os_kernel s'"] conveyed_frame[of inp out k0 STDIN_FILENO fs "sc_outbound c" "os_kernel s" "os_kernel s'"]
      st k f(6,7) by auto
  have "sc_inbound_shutdown c \<longrightarrow> ByteStream_eof bs'" using st f(3,5) by (auto simp: ByteStream_accessors)
  then have st': "copy_state sys inp out k0 fs socket input output (s', ?c)"
    using st fds cv f(5) by (auto simp: copy_state_def Let_def)
  have "copy_size inp fs socket input (s', ?c) < copy_size inp fs socket input w"
    using can_drain_after[OF _ f(3-5), of "sc_inbound_shutdown c"] assms(2) fds st k(1) by (auto simp: copy_size_def Let_def todo_simps w)
  moreover have "copy_later inp w (s', ?c)" using f(5) fds k(1) by (auto simp: copy_later_def w)
  ultimately show ?thesis using cb st' by blast
qed

text \<open>The rules that are left, and what a rule that is gone has brought about.\<close>

definition copy_invar ::
  "('k, 'x) socket_calls_scheme \<Rightarrow> ('k \<Rightarrow> int \<Rightarrow> bytes) \<Rightarrow> ('k \<Rightarrow> int \<Rightarrow> bytes) \<Rightarrow> 'k \<Rightarrow> int
     \<Rightarrow> FileDescriptor \<Rightarrow> FileDescriptor \<Rightarrow> FileDescriptor \<Rightarrow> ('k, stream_copy) Rule list \<Rightarrow> 'k copy_world \<Rightarrow> bool" where
  "copy_invar sys inp out k0 fs socket input output rules w \<longleftrightarrow> copy_state sys inp out k0 fs socket input output w
     \<and> (\<exists>a b c. rules = (if a then [stdin_rule sys input] else []) @ [socket_out_rule sys socket]
           @ (if b then [socket_in_rule sys socket] else []) @ (if c then [stdout_rule sys output] else [])
         \<and> (a \<or> bs_input_ended (sc_outbound (snd w))) \<and> (b \<or> bs_input_ended (sc_inbound (snd w))) \<and> (c \<or> sc_inbound_shutdown (snd w)))"

definition copy_over :: "('k \<Rightarrow> int \<Rightarrow> bytes) \<Rightarrow> 'k copy_world \<Rightarrow> ('k, stream_copy) Rule \<Rightarrow> bool" where
  "copy_over inp w r \<longleftrightarrow> rl_direction r = Direction_In \<and> inp (os_kernel (fst w)) (fw_fd (Rule_fd r w)) = []"

lemma copy_later_over: "copy_later inp w w' \<Longrightarrow> copy_over inp w r \<Longrightarrow> copy_over inp w' r"
  by (auto simp: copy_later_def copy_over_def Rule_fd_def)

lemma copy_invar_later:
  "copy_invar sys inp out k0 fs socket input output rules w \<Longrightarrow> copy_state sys inp out k0 fs socket input output w' \<Longrightarrow> copy_later inp w w'
    \<Longrightarrow> copy_invar sys inp out k0 fs socket input output rules w'"
  unfolding copy_invar_def copy_later_def by blast

lemma copy_served:
  assumes inv: "copy_invar sys inp out k0 fs socket input output (pre @ r # post) w" and todo: "todo w r"
  shows "\<exists>w'. rl_callback r w = Inr w' \<and> copy_state sys inp out k0 fs socket input output w'
    \<and> copy_size inp fs socket input w' < copy_size inp fs socket input w \<and> copy_later inp w w'
    \<and> (\<forall>r' \<in> set post. todo w r' \<longrightarrow> todo w' r')"
proof -
  have st: "copy_state sys inp out k0 fs socket input output w" using inv by (simp add: copy_invar_def)
  obtain a b c where "pre @ r # post = (if a then [stdin_rule sys input] else []) @ [socket_out_rule sys socket]
      @ (if b then [socket_in_rule sys socket] else []) @ (if c then [stdout_rule sys output] else [])"
    using inv unfolding copy_invar_def by blast
  then consider "r = stdin_rule sys input" "set post \<subseteq> {socket_out_rule sys socket, socket_in_rule sys socket, stdout_rule sys output}"
    | "r = socket_out_rule sys socket" "set post \<subseteq> {socket_in_rule sys socket, stdout_rule sys output}"
    | "r = socket_in_rule sys socket" "set post \<subseteq> {stdout_rule sys output}" | "r = stdout_rule sys output" "set post \<subseteq> {}"
    by (auto simp: append_eq_Cons_conv Cons_eq_append_conv split: if_splits)
  then show ?thesis
  proof cases
    case 1
    then show ?thesis using serve_stdin[OF st] todo by (fastforce simp: stdin_rule_def)
  next
    case 2
    then show ?thesis using serve_socket_out[OF st] todo by (fastforce simp: socket_out_rule_def)
  next
    case 3
    then show ?thesis using serve_socket_in[OF st] todo by (fastforce simp: socket_in_rule_def)
  next
    case 4
    then show ?thesis using serve_stdout[OF st] todo by (fastforce simp: stdout_rule_def)
  qed
qed

lemma end_outbound_state:
  assumes st: "copy_state sys inp out k0 fs socket input output w" and fin: "inp (os_kernel (fst w)) STDIN_FILENO = []"
  defines "w' \<equiv> (fst w, (snd w)\<lparr>sc_outbound := ByteStream_end_input (sc_outbound (snd w))\<rparr>)"
  shows "copy_state sys inp out k0 fs socket input output w'" and "copy_size inp fs socket input w' = copy_size inp fs socket input w"
    and "copy_later inp w w'" and "bs_input_ended (sc_outbound (snd w'))" and "end_outbound w = Inr w'"
    and "\<And>r. r \<in> {socket_out_rule sys socket, socket_in_rule sys socket, stdout_rule sys output} \<Longrightarrow> todo w r \<Longrightarrow> todo w' r"
  using st fin conveyed_end[of inp out k0 STDIN_FILENO fs "sc_outbound (snd w)" "os_kernel (fst w)"]
  by (auto simp: copy_state_def copy_size_def copy_later_def w'_def Let_def end_outbound_def todo_simps can_fill_def ByteStream_accessors can_drain_def)

lemma end_inbound_state:
  assumes st: "copy_state sys inp out k0 fs socket input output w" and fin: "inp (os_kernel (fst w)) fs = []"
  defines "w' \<equiv> (fst w, (snd w)\<lparr>sc_inbound := ByteStream_end_input (sc_inbound (snd w))\<rparr>)"
  shows "copy_state sys inp out k0 fs socket input output w'" and "copy_size inp fs socket input w' = copy_size inp fs socket input w"
    and "copy_later inp w w'" and "bs_input_ended (sc_inbound (snd w'))" and "end_inbound w = Inr w'"
    and "todo w (stdout_rule sys output) \<Longrightarrow> todo w' (stdout_rule sys output)"
  using st fin conveyed_end[of inp out k0 fs STDOUT_FILENO "sc_inbound (snd w)" "os_kernel (fst w)"]
  by (auto simp: copy_state_def copy_size_def copy_later_def w'_def Let_def end_inbound_def todo_simps can_fill_def ByteStream_accessors can_drain_def)

lemma end_inbound_polls:
  "r \<in> {stdin_rule sys input, socket_out_rule sys socket, socket_in_rule sys socket} \<Longrightarrow>
    w' = (fst w, (snd w)\<lparr>sc_inbound := ByteStream_end_input (sc_inbound (snd w))\<rparr>) \<Longrightarrow>
    Rule_pollfd w' r = Rule_pollfd w r \<and> healthy w' r = healthy w r"
  by (auto simp: copy_rule_defs Rule_pollfd_def healthy_def Rule_fd_def can_fill_def ByteStream_accessors ByteStream_remaining_capacity_def)

lemma copy_cancelled:
  assumes inv: "copy_invar sys inp out k0 fs socket input output (pre @ r # post) w" and c: "\<not> healthy w r \<or> copy_over inp w r"
  shows "\<exists>w'. rl_cancel r w = Inr w' \<and> copy_invar sys inp out k0 fs socket input output (pre @ post) w'
    \<and> copy_size inp fs socket input w' \<le> copy_size inp fs socket input w
    \<and> (\<forall>r' \<in> set pre. Rule_pollfd w' r' = Rule_pollfd w r' \<and> healthy w' r' = healthy w r')
    \<and> (\<forall>r' \<in> set post. (todo w r' \<longrightarrow> todo w' r') \<and> (copy_over inp w r' \<longrightarrow> copy_over inp w' r'))"
proof -
  let ?r1 = "stdin_rule sys input" and ?r2 = "socket_out_rule sys socket" and ?r3 = "socket_in_rule sys socket" and ?r4 = "stdout_rule sys output"
  let ?k = "os_kernel (fst w)" and ?o = "sc_outbound (snd w)" and ?i = "sc_inbound (snd w)"
  have st: "copy_state sys inp out k0 fs socket input output w" using inv by (simp add: copy_invar_def)
  note st' = st[unfolded copy_state_def Let_def]
  have ended: "bs_input_ended ?o \<Longrightarrow> inp ?k STDIN_FILENO = []" "bs_input_ended ?i \<Longrightarrow> inp ?k fs = []"
    using st' by (auto simp: conveyed_def)
  obtain a b c where abc: "pre @ r # post = (if a then [?r1] else []) @ [?r2] @ (if b then [?r3] else []) @ (if c then [?r4] else [])"
    "a \<or> bs_input_ended ?o" "b \<or> bs_input_ended ?i" "c \<or> sc_inbound_shutdown (snd w)"
    using inv unfolding copy_invar_def by blast
  then consider (1) "pre = []" "r = ?r1" "post = [?r2] @ (if b then [?r3] else []) @ (if c then [?r4] else [])"
    | (2) "r = ?r2" | (3) "r = ?r3" "pre = (if a then [?r1] else []) @ [?r2]" "post = (if c then [?r4] else [])"
    | (4) "r = ?r4" "pre = (if a then [?r1] else []) @ [?r2] @ (if b then [?r3] else [])" "post = []"
    by (auto simp: append_eq_Cons_conv Cons_eq_append_conv split: if_splits)
  then show ?thesis
  proof cases
    case 1
    have "inp ?k STDIN_FILENO = []" using c 1(2) st' ended by (auto simp: healthy_def copy_over_def Rule_fd_def stdin_rule_def)
    note e = end_outbound_state[OF st this]
    have "rl_cancel r w = end_outbound w" by (simp add: 1(2) stdin_rule_def)
    moreover have "copy_invar sys inp out k0 fs socket input output (pre @ post)
        (fst w, (snd w)\<lparr>sc_outbound := ByteStream_end_input ?o\<rparr>)"
      unfolding copy_invar_def using e(1,4) 1(1,3) abc(3,4)
      by (intro conjI exI[of _ False] exI[of _ b] exI[of _ c]) simp_all
    ultimately show ?thesis using e(2,5,6) copy_later_over[OF e(3)] 1(1,3) by (auto simp del: split_paired_Ex)
  next
    case 2
    then show ?thesis using c st' by (auto simp: healthy_def copy_over_def Rule_fd_def socket_out_rule_def)
  next
    case 3
    have "inp ?k fs = []" using c 3(1) st' ended by (auto simp: healthy_def copy_over_def Rule_fd_def socket_in_rule_def)
    note e = end_inbound_state[OF st this]
    have "rl_cancel r w = end_inbound w" by (simp add: 3(1) socket_in_rule_def)
    moreover have "copy_invar sys inp out k0 fs socket input output (pre @ post)
        (fst w, (snd w)\<lparr>sc_inbound := ByteStream_end_input ?i\<rparr>)"
      unfolding copy_invar_def using e(1,4) 3 abc(2,4)
      by (intro conjI exI[of _ a] exI[of _ False] exI[of _ c]) simp_all
    ultimately show ?thesis using e(2,5,6) copy_later_over[OF e(3)] end_inbound_polls[of _ sys input socket _ w, OF _ refl] 3(2,3) by (auto simp del: split_paired_Ex)
  next
    case 4
    have "sc_inbound_shutdown (snd w)" using c 4(1) st' by (auto simp: healthy_def copy_over_def Rule_fd_def stdout_rule_def)
    then have "inp ?k fs = []" using st' ended by (auto simp: ByteStream_accessors)
    note e = end_inbound_state[OF st this]
    have "rl_cancel r w = end_inbound w" by (simp add: 4(1) stdout_rule_def)
    moreover have "copy_invar sys inp out k0 fs socket input output (pre @ post)
        (fst w, (snd w)\<lparr>sc_inbound := ByteStream_end_input ?i\<rparr>)"
      unfolding copy_invar_def using e(1,4) 4 abc(2,3) \<open>sc_inbound_shutdown (snd w)\<close>
      by (intro conjI exI[of _ a] exI[of _ b] exI[of _ False]) simp_all
    ultimately show ?thesis using e(2,5,6) copy_later_over[OF e(3)] end_inbound_polls[of _ sys input socket _ w, OF _ refl] 4(2,3) by (auto simp del: split_paired_Ex)
  qed
qed

lemma copy_state_kernel:
  "copy_state sys inp out k0 fs socket input output w \<Longrightarrow> inp k = inp (os_kernel (fst w)) \<Longrightarrow> out k = out (os_kernel (fst w)) \<Longrightarrow>
    copy_state sys inp out k0 fs socket input output ((fst w)\<lparr>os_kernel := k\<rparr>, snd w)"
  by (simp add: copy_state_def Let_def conveyed_def)

lemma copy_polled:
  assumes inv: "copy_invar sys inp out k0 fs socket input output rules w" and "\<exists>r \<in> set rules. rl_interest r w"
  shows "\<exists>n e revents k. sys_poll sys (map (Rule_pollfd w) rules) (-1) (os_kernel (fst w)) = (((n, e), revents), k) \<and> 0 < n
    \<and> (let w' = ((fst w)\<lparr>os_kernel := k\<rparr>, snd w)
       in copy_invar sys inp out k0 fs socket input output rules w' \<and> copy_size inp fs socket input w' \<le> copy_size inp fs socket input w
          \<and> (\<forall>r \<in> set rules. todo w r \<longrightarrow> todo w' r)
          \<and> (\<forall>i < length rules. and (revents i) (or POLLERR POLLNVAL) = 0 \<and> (event_over (revents i) w (rules ! i) \<longrightarrow> copy_over inp w' (rules ! i)))
          \<and> (\<exists>i < length rules. event_ready (revents i) w (rules ! i) \<or> event_over (revents i) w (rules ! i)))"
proof -
  have st: "copy_state sys inp out k0 fs socket input output w" and ck: "copy_kernel sys inp out" using inv by (auto simp: copy_invar_def copy_state_def Let_def)
  have ev: "pf_events (Rule_pollfd w r) = (if rl_interest r w then Direction_events (rl_direction r) else 0)"
    "Direction_events d \<noteq> 0" "Direction_events d = POLLIN \<longleftrightarrow> d = Direction_In" for r :: "('a, stream_copy) Rule" and d
    by (auto simp: Rule_pollfd_def Direction_events_def POLLIN_def POLLOUT_def split: Direction.split)
  let ?fds = "map (Rule_pollfd w) rules"
  have "pf_events ` set ?fds \<subseteq> {0, POLLIN, POLLOUT} \<and> (\<exists>p \<in> set ?fds. pf_events p \<noteq> 0)"
    using assms(2) by (auto simp: Rule_pollfd_def Direction_events_def POLLIN_def POLLOUT_def split: Direction.splits if_splits)
  then obtain n e revents k where p: "sys_poll sys ?fds (-1) (os_kernel (fst w)) = (((n, e), revents), k)" "0 < n"
    "inp k = inp (os_kernel (fst w))" "out k = out (os_kernel (fst w))" "poll_finds ?fds revents (inp (os_kernel (fst w)))"
    using ck unfolding copy_kernel_def by blast
  let ?w = "((fst w)\<lparr>os_kernel := k\<rparr>, snd w)"
  have later: "copy_later inp w ?w" "copy_size inp fs socket input ?w = copy_size inp fs socket input w"
    using p(3) by (simp_all add: copy_later_def copy_size_def Let_def)
  have "\<forall>r \<in> set rules. todo w r \<longrightarrow> todo ?w r" using inv by (auto simp: copy_invar_def todo_simps split: if_splits)
  moreover have "event_over (revents i) w (rules ! i) \<longrightarrow> copy_over inp ?w (rules ! i)" if "i < length rules" for i
    using p(3,5) that by (auto simp: poll_finds_def event_over_def event_ready_def copy_over_def ev Rule_fd_def Rule_pollfd_def)
  moreover have "\<exists>i < length rules. event_ready (revents i) w (rules ! i) \<or> event_over (revents i) w (rules ! i)"
    using p(5) by (auto simp: poll_finds_def event_over_def event_ready_def ev split: if_splits)
  ultimately show ?thesis
    using p(1,2,5) later copy_invar_later[OF inv copy_state_kernel[OF st p(3,4)] later(1)]
    by (intro exI[of _ n] exI[of _ e] exI[of _ revents] exI[of _ k]) (auto simp: Let_def poll_finds_def)
qed

interpretation copy_end: terminating_client sys "-1" "copy_invar sys inp out k0 fs socket input outp" "copy_over inp" "copy_size inp fs socket input"
  for sys inp out k0 fs socket input outp
proof
  fix pre :: "('a, stream_copy) Rule list" and r post w
  assume inv: "copy_invar sys inp out k0 fs socket input outp (pre @ r # post) w"
  then have r: "r \<in> set (copy_rules sys socket input outp)"
    by (auto simp: copy_invar_def copy_rules_eq append_eq_Cons_conv Cons_eq_append_conv split: if_splits)
  show "\<exists>w'. rl_callback r w = Inr w' \<and> copy_invar sys inp out k0 fs socket input outp (pre @ r # post) w'
      \<and> copy_size inp fs socket input w' < copy_size inp fs socket input w
      \<and> (Rule_service_count r w' \<noteq> Rule_service_count r w \<or> \<not> rl_interest r w')
      \<and> (\<forall>r' \<in> set post. (todo w r' \<longrightarrow> todo w' r') \<and> (copy_over inp w r' \<longrightarrow> copy_over inp w' r'))" if td: "todo w r"
  proof -
    obtain w' where w': "rl_callback r w = Inr w'" "copy_state sys inp out k0 fs socket input outp w'"
      "copy_size inp fs socket input w' < copy_size inp fs socket input w" "copy_later inp w w'" "\<forall>r' \<in> set post. todo w r' \<longrightarrow> todo w' r'"
      using copy_served[OF inv td] by blast
    then show ?thesis
      using copy_callbacks_serve[OF r, of w] copy_invar_later[OF inv w'(2,4)] copy_later_over[OF w'(4)] by auto
  qed
qed (rule copy_cancelled copy_polled, assumption+)+

text \<open>When no rule is left that wants anything, everything was copied.\<close>

lemma copy_finished:
  assumes "copy_invar sys inp out k0 fs socket input output rules w" and "\<forall>r \<in> set rules. healthy w r \<and> \<not> rl_interest r w"
  shows "let k = os_kernel (fst w) in inp k STDIN_FILENO = [] \<and> inp k fs = [] \<and> out k fs = out k0 fs @ inp k0 STDIN_FILENO
    \<and> out k STDOUT_FILENO = out k0 STDOUT_FILENO @ inp k0 fs
    \<and> sc_outbound_shutdown (snd w) \<and> fw_closed (os_fds (fst w) output)"
proof -
  let ?o = "sc_outbound (snd w)" and ?i = "sc_inbound (snd w)"
  note st = assms(1)[unfolded copy_invar_def copy_state_def Let_def]
  have idle: "\<not> todo w r" "healthy w r" if "r \<in> set rules" for r using assms(2) that by (auto simp: todo_def)
  have fill: "can_fill ?o ?i \<longleftrightarrow> length (bs_buffer ?o) < unat copy_buffer_size" "can_fill ?i ?o \<longleftrightarrow> length (bs_buffer ?i) < unat copy_buffer_size"
    using st by (meson can_fill_conveyed)+
  have o: "bs_buffer ?o = []" "bs_input_ended ?o \<longrightarrow> sc_outbound_shutdown (snd w)"
    using idle(1)[of "socket_out_rule sys socket"] st by (auto simp: todo_simps can_drain_def ByteStream_accessors)
  have o': "bs_input_ended ?o"
    using idle[of "stdin_rule sys input"] st fill(1) o(1)
    by (auto simp: todo_simps healthy_simps copy_buffer_size_def split: if_splits)
  have i: "fw_closed (os_fds (fst w) output)"
  proof (rule ccontr)
    assume "\<not> fw_closed (os_fds (fst w) output)"
    then have "stdout_rule sys output \<in> set rules" "\<not> sc_inbound_shutdown (snd w)" using st by (auto split: if_splits)
    from idle[OF this(1)] this(2) have b: "bs_buffer ?i = []" "\<not> bs_input_ended ?i"
      by (auto simp: todo_simps can_drain_def ByteStream_accessors healthy_simps)
    then show False
      using idle[of "socket_in_rule sys socket"] st fill(2)
      by (auto simp: todo_simps healthy_simps copy_buffer_size_def split: if_splits)
  qed
  then have "bs_buffer ?i = []" "bs_input_ended ?i" using st by (auto simp: ByteStream_accessors)
  then show ?thesis using o o' i st by (auto simp: conveyed_def Let_def)
qed

lemma copy_setup_ok:
  assumes "copy_kernel sys inp out" and "distinct [socket, input, output]" and "distinct [fw_fd (os_fds s socket), STDIN_FILENO, STDOUT_FILENO]"
    and "\<not> fw_closed (os_fds s socket)" and "\<not> fw_eof (os_fds s socket)"
  shows "\<exists>s'. copy_setup sys socket input output s = Inr (s', stream_copy_new)
    \<and> copy_invar sys inp out (os_kernel s) (fw_fd (os_fds s socket)) socket input output (copy_rules sys socket input output) (s', stream_copy_new)"
proof -
  have sb: "\<exists>k. FileDescriptor_set_blocking sys h False s = Inr (s\<lparr>os_kernel := k\<rparr>) \<and> inp k = inp (os_kernel s) \<and> out k = out (os_kernel s)"
    for h s
  proof -
    obtain n e k1 where "sys_getfl sys (fw_fd (os_fds s h)) (os_kernel s) = ((n, e), k1)" "0 \<le> n" "inp k1 = inp (os_kernel s)" "out k1 = out (os_kernel s)"
      using copy_kernelD(5)[OF assms(1)] by blast
    then show ?thesis
      using copy_kernelD(6)[OF assms(1), of "fw_fd (os_fds s h)" "or n O_NONBLOCK" k1]
      by (auto simp: FileDescriptor_set_blocking_def SystemCall_def)
  qed
  let ?new = "\<lambda>fd. \<lparr>fw_fd = fd, fw_eof = False, fw_closed = False, fw_read_count = 0, fw_write_count = 0\<rparr>"
  let ?s = "s\<lparr>os_fds := (os_fds s)(input := ?new STDIN_FILENO, output := ?new STDOUT_FILENO)\<rparr>"
  obtain k where k: "inp k = inp (os_kernel s)" "out k = out (os_kernel s)"
    "copy_setup sys socket input output s = Inr (?s\<lparr>os_kernel := k\<rparr>, stream_copy_new)"
  proof -
    obtain k1 where 1: "FileDescriptor_set_blocking sys socket False ?s = Inr (?s\<lparr>os_kernel := k1\<rparr>)" "inp k1 = inp (os_kernel s)" "out k1 = out (os_kernel s)"
      using sb[of socket ?s] by auto
    obtain k2 where 2: "FileDescriptor_set_blocking sys input False (?s\<lparr>os_kernel := k1\<rparr>) = Inr (?s\<lparr>os_kernel := k2\<rparr>)" "inp k2 = inp k1" "out k2 = out k1"
      using sb[of input "?s\<lparr>os_kernel := k1\<rparr>"] by auto
    obtain k3 where 3: "FileDescriptor_set_blocking sys output False (?s\<lparr>os_kernel := k2\<rparr>) = Inr (?s\<lparr>os_kernel := k3\<rparr>)" "inp k3 = inp k2" "out k3 = out k2"
      using sb[of "output" "?s\<lparr>os_kernel := k2\<rparr>"] by auto
    show thesis using 1 2 3
      by (intro that[of k3]) (auto simp: copy_setup_def FileDescriptor_new_def FDWrapper_new_def STDIN_FILENO_def STDOUT_FILENO_def)
  qed
  have "copy_state sys inp out (os_kernel s) (fw_fd (os_fds s socket)) socket input output (?s\<lparr>os_kernel := k\<rparr>, stream_copy_new)"
    using assms k(1,2)
    by (auto simp: copy_state_def Let_def stream_copy_new_def conveyed_def ByteStream_inv_new) (auto simp: ByteStream_new_def)
  then show ?thesis
    unfolding copy_invar_def copy_rules_eq k(3)
    by (intro exI[of _ "?s\<lparr>os_kernel := k\<rparr>"] conjI exI[of _ True]) auto
qed

section \<open>Properties\<close>

text \<open>
  C20. The copy comes to an end and is complete: with a kernel whose reads and writes make progress and whose
  \<^verbatim>\<open>poll\<close> finds what is ready, \<^verbatim>\<open>bidirectional_stream_copy\<close> returns normally after everything that could be
  read from the standard input was written to the socket and everything that could be read from the socket
  was written to the standard output, in order, and it has shut down the socket for writing and closed the
  output. Neither the order in which descriptors become ready nor the sizes of reads and writes matter.
\<close>

theorem stream_copy_complete:
  assumes "copy_kernel sys inp out" and "distinct [socket, input, output]" and "distinct [fw_fd (os_fds s socket), STDIN_FILENO, STDOUT_FILENO]"
    and "\<not> fw_closed (os_fds s socket)" and "\<not> fw_eof (os_fds s socket)"
  defines "fs \<equiv> fw_fd (os_fds s socket)"
  shows "\<exists>s' c. bidirectional_stream_copy sys socket input output s = Some (Inr (s', c))
    \<and> (let k = os_kernel s; k' = os_kernel s'
       in out k' fs = out k fs @ inp k STDIN_FILENO \<and> out k' STDOUT_FILENO = out k STDOUT_FILENO @ inp k fs
          \<and> inp k' STDIN_FILENO = [] \<and> inp k' fs = [] \<and> sc_outbound_shutdown c \<and> fw_closed (os_fds s' output))"
proof -
  obtain s1 where s1: "copy_setup sys socket input output s = Inr (s1, stream_copy_new)"
    "copy_invar sys inp out (os_kernel s) fs socket input output (copy_rules sys socket input output) (s1, stream_copy_new)"
    using copy_setup_ok[OF assms(1-5)] unfolding fs_def by blast
  obtain rules' s' c where r: "run_until_exit sys (-1) (copy_rules sys socket input output) (s1, stream_copy_new) = Some (Inr (rules', s', c))"
    "copy_invar sys inp out (os_kernel s) fs socket input output rules' (s', c)" "\<forall>r \<in> set rules'. healthy (s', c) r \<and> \<not> rl_interest r (s', c)"
    using copy_end.run_ends[OF s1(2)] by (metis surj_pair)
  have "bidirectional_stream_copy sys socket input output s = Some (Inr (s', c))"
    by (simp add: bidirectional_stream_copy_def s1(1) r(1))
  then show ?thesis using copy_finished[OF r(2,3)] by (auto simp: Let_def)
qed

text \<open>A kernel that keeps what is to be read and what was written by descriptor, and moves at most three bytes at a time.\<close>

definition mem_kernel :: "((int \<Rightarrow> bytes) \<times> (int \<Rightarrow> bytes)) socket_calls" where
  "mem_kernel = \<lparr>sys_read = (\<lambda>fd n k. let d = take (min 3 (unat n)) (fst k fd) in (((int (length d), 0), d), ((fst k)(fd := drop (length d) (fst k fd)), snd k))),
     sys_writev = (\<lambda>fd iov k. let d = take 3 (concat (map fst iov)) in ((int (length d), 0), (fst k, (snd k)(fd := snd k fd @ d)))),
     sys_close = (\<lambda>fd k. ((0, 0), k)), sys_getfl = (\<lambda>fd k. ((0, 0), k)), sys_setfl = (\<lambda>fd flags k. ((0, 0), k)),
     sys_poll = (\<lambda>fds timeout k. (((1, 0), \<lambda>i. if i < length fds then pf_events (fds ! i) else 0), k)),
     sys_socket = (\<lambda>domain type k. ((3, 0), k)), sys_getsockopt = (\<lambda>fd level option k. (((0, 0), 1, 4), k)),
     sys_setsockopt = (\<lambda>fd level option v k. ((0, 0), k)), sys_getsockname = (\<lambda>fd k. (((-1, 9), [], 0), k)),
     sys_getpeername = (\<lambda>fd k. (((-1, 9), [], 0), k)), sys_bind = (\<lambda>fd a k. ((0, 0), k)), sys_connect = (\<lambda>fd a k. ((0, 0), k)),
     sys_shutdown = (\<lambda>fd how k. ((0, 0), k)), sys_recvfrom = (\<lambda>fd n k. (((-1, 11), [], [], 0), k)),
     sys_sendmsg = (\<lambda>fd a iov k. ((0, 0), k)), sys_listen = (\<lambda>fd n k. ((0, 0), k)), sys_accept = (\<lambda>fd k. ((-1, 11), k)),
     sys_open = (\<lambda>path flags k. ((3, 0), k)), sys_tunsetiff = (\<lambda>fd name flags k. ((0, 0), k))\<rparr>"

lemma mem_kernel_copies: "copy_kernel mem_kernel fst snd"
  unfolding copy_kernel_def
proof (intro conjI allI impI)
  fix fd count and k :: "(int \<Rightarrow> bytes) \<times> (int \<Rightarrow> bytes)"
  show "\<exists>n e k'. sys_read mem_kernel fd count k = (((int n, e), take n (fst k fd)), k') \<and> n \<le> unat count \<and> n \<le> length (fst k fd)
      \<and> (0 < count \<and> fst k fd \<noteq> [] \<longrightarrow> 0 < n) \<and> fst k' = (fst k)(fd := drop n (fst k fd)) \<and> snd k' = snd k"
    by (intro exI[of _ "min 3 (min (unat count) (length (fst k fd)))"] exI[of _ 0]
        exI[of _ "((fst k)(fd := drop (min 3 (min (unat count) (length (fst k fd)))) (fst k fd)), snd k)"])
      (auto simp: mem_kernel_def Let_def min_def word_less_nat_alt)
next
  fix fd and vs :: BufferViewList and k :: "(int \<Rightarrow> bytes) \<times> (int \<Rightarrow> bytes)"
  show "\<exists>n e k'. sys_writev mem_kernel fd (BufferViewList_as_iovecs vs) k = ((int n, e), k') \<and> n \<le> length (concat vs) \<and> n \<le> 0x7ffff000
      \<and> (concat vs \<noteq> [] \<longrightarrow> 0 < n) \<and> fst k' = fst k \<and> snd k' = (snd k)(fd := snd k fd @ take n (concat vs))"
    by (intro exI[of _ "min 3 (length (concat vs))"] exI[of _ 0] exI[of _ "(fst k, (snd k)(fd := snd k fd @ take 3 (concat vs)))"])
      (auto simp: mem_kernel_def BufferViewList_as_iovecs_def Let_def o_def min_def)
next
  fix fds :: "pollfd list" and k :: "(int \<Rightarrow> bytes) \<times> (int \<Rightarrow> bytes)"
  assume ev: "pf_events ` set fds \<subseteq> {0, POLLIN, POLLOUT} \<and> (\<exists>p \<in> set fds. pf_events p \<noteq> 0)"
  then obtain i where i: "i < length fds" "pf_events (fds ! i) \<noteq> 0" by (metis in_set_conv_nth)
  have "pf_events (fds ! j) \<in> {0, POLLIN, POLLOUT}" if "j < length fds" for j using ev that by (meson image_subset_iff nth_mem)
  then have "poll_finds fds (\<lambda>i. if i < length fds then pf_events (fds ! i) else 0) (fst k)"
    unfolding poll_finds_def using i by (fastforce simp: POLLIN_def POLLOUT_def POLLERR_def POLLNVAL_def POLLHUP_def)
  then show "\<exists>n e revents k'. sys_poll mem_kernel fds (-1) k = (((n, e), revents), k') \<and> 0 < n \<and> fst k' = fst k \<and> snd k' = snd k
      \<and> poll_finds fds revents (fst k)"
    by (simp add: mem_kernel_def)
qed (auto simp: mem_kernel_def)

theorem stream_copy_complete_witness:
  "\<exists>s' c. bidirectional_stream_copy mem_kernel 5 6 7
      \<lparr>os_fds = (\<lambda>_. \<lparr>fw_fd = 4, fw_eof = False, fw_closed = False, fw_read_count = 0, fw_write_count = 0\<rparr>),
       os_kernel = ((\<lambda>_. [])(0 := [1, 2, 3, 4, 5], 4 := [9, 8]), \<lambda>_. [])\<rparr> = Some (Inr (s', c))
    \<and> snd (os_kernel s') 4 = [1, 2, 3, 4, 5] \<and> snd (os_kernel s') 1 = [9, 8]"
  using stream_copy_complete[OF mem_kernel_copies, of 5 6 7 "\<lparr>os_fds = (\<lambda>_. \<lparr>fw_fd = 4, fw_eof = False, fw_closed = False, fw_read_count = 0, fw_write_count = 0\<rparr>),
       os_kernel = ((\<lambda>_. [])(0 := [1, 2, 3, 4, 5], 4 := [9, 8]), \<lambda>_. [])\<rparr>"]
  by (auto simp: STDIN_FILENO_def STDOUT_FILENO_def Let_def)

end
