(* ===== verification/Text_Output.thy ===== *)
theory Text_Output
  imports Ethernet Address
begin

text \<open>
  The textual representations: \<^verbatim>\<open>to_string\<close> and \<^verbatim>\<open>summary\<close> of the headers in \<^verbatim>\<open>libsponge/tcp_helpers\<close>, and
  \<^verbatim>\<open>hexdump\<close> of \<^verbatim>\<open>libsponge/util/util.cc\<close> with the text it writes to \<^verbatim>\<open>cout\<close>. A stream that has been sent
  \<^verbatim>\<open>std::hex\<close> prints every later number in lower-case hexadecimal, without a prefix.
\<close>

section \<open>Formatted output\<close>

fun hexadecimal :: "nat \<Rightarrow> string" where
  "hexadecimal n = (if n < 16 then [hex_digit n] else hexadecimal (n div 16) @ [hex_digit (n mod 16)])"

declare hexadecimal.simps [simp del]

abbreviation hex_word :: "'a::len word \<Rightarrow> string" where
  "hex_word w \<equiv> hexadecimal (unat w)"

definition setw :: "nat \<Rightarrow> char \<Rightarrow> string \<Rightarrow> string" where
  "setw n fill s = replicate (n - length s) fill @ s"

definition boolalpha :: "bool \<Rightarrow> string" where
  "boolalpha b = (if b then ''true'' else ''false'')"

definition newline :: string where
  "newline = [CHR 0x0A]"

section \<open>Headers\<close>

primrec EthernetAddress_to_string :: "EthernetAddress \<Rightarrow> string" where
  "EthernetAddress_to_string [] = []"
| "EthernetAddress_to_string (byte # rest) =
     setw 2 (CHR ''0'') (hex_word byte) @ (if rest \<noteq> [] then '':'' else []) @ EthernetAddress_to_string rest"

definition EthernetHeader_to_string :: "EthernetHeader \<Rightarrow> string" where
  "EthernetHeader_to_string h =
     ''dst='' @ EthernetAddress_to_string (eth_dst h) @ '', src='' @ EthernetAddress_to_string (eth_src h) @ '', type=''
     @ (if eth_type h = TYPE_IPv4 then ''IPv4'' else if eth_type h = TYPE_ARP then ''ARP''
        else ''[unknown type '' @ hex_word (eth_type h) @ ''!]'')"

definition ARPMessage_to_string :: "ARPMessage \<Rightarrow> string" where
  "ARPMessage_to_string m =
     (let opcode_str = ''(unknown type)'';
          opcode_str = (if arp_opcode m = OPCODE_REQUEST then ''REQUEST'' else opcode_str);
          opcode_str = (if arp_opcode m = OPCODE_REPLY then ''REPLY'' else opcode_str)
      in ''opcode='' @ opcode_str @ '', sender='' @ EthernetAddress_to_string (arp_sender_ethernet_address m) @ ''/''
         @ inet_ntoa (arp_sender_ip_address m) @ '', target='' @ EthernetAddress_to_string (arp_target_ethernet_address m) @ ''/''
         @ inet_ntoa (arp_target_ip_address m))"

definition IPv4Header_to_string :: "IPv4Header \<Rightarrow> string" where
  "IPv4Header_to_string h =
     ''IP version: '' @ hex_word (ip_ver h) @ newline
     @ ''IP hdr len: '' @ hex_word (ip_hlen h) @ newline
     @ ''IP tos: '' @ hex_word (ip_tos h) @ newline
     @ ''IP dgram len: '' @ hex_word (ip_len h) @ newline
     @ ''IP id: '' @ hex_word (ip_id h) @ newline
     @ ''Flags: df: '' @ boolalpha (ip_df h) @ '' mf: '' @ boolalpha (ip_mf h) @ newline
     @ ''Offset: '' @ hex_word (ip_offset h) @ newline
     @ ''TTL: '' @ hex_word (ip_ttl h) @ newline
     @ ''Protocol: '' @ hex_word (ip_proto h) @ newline
     @ ''Checksum: '' @ hex_word (ip_cksum h) @ newline
     @ ''Src addr: '' @ hex_word (ip_src h) @ newline
     @ ''Dst addr: '' @ hex_word (ip_dst h) @ newline"

definition IPv4Header_summary :: "IPv4Header \<Rightarrow> string" where
  "IPv4Header_summary h =
     ''IPv'' @ hex_word (ip_ver h) @ '', '' @ ''len='' @ hex_word (ip_len h) @ '', ''
     @ ''protocol='' @ hex_word (ip_proto h) @ '', ''
     @ (if ip_ttl h \<ge> 10 then [] else ''ttl='' @ decimal (unat (ip_ttl h)) @ '', '')
     @ ''src='' @ inet_ntoa (ip_src h) @ '', '' @ ''dst='' @ inet_ntoa (ip_dst h)"

definition TCPHeader_to_string :: "TCPHeader \<Rightarrow> string" where
  "TCPHeader_to_string h =
     ''TCP source port: '' @ hex_word (tcp_sport h) @ newline
     @ ''TCP dest port: '' @ hex_word (tcp_dport h) @ newline
     @ ''TCP seqno: '' @ hex_word (raw_value (tcp_seqno h)) @ newline
     @ ''TCP ackno: '' @ hex_word (raw_value (tcp_ackno h)) @ newline
     @ ''TCP doff: '' @ hex_word (tcp_doff h) @ newline
     @ ''Flags: urg: '' @ boolalpha (tcp_urg h) @ '' ack: '' @ boolalpha (tcp_ack h) @ '' psh: '' @ boolalpha (tcp_psh h)
     @ '' rst: '' @ boolalpha (tcp_rst h) @ '' syn: '' @ boolalpha (tcp_syn h) @ '' fin: '' @ boolalpha (tcp_fin h) @ newline
     @ ''TCP winsize: '' @ hex_word (tcp_win h) @ newline
     @ ''TCP cksum: '' @ hex_word (tcp_cksum h) @ newline
     @ ''TCP uptr: '' @ hex_word (tcp_uptr h) @ newline"

definition TCPHeader_summary :: "TCPHeader \<Rightarrow> string" where
  "TCPHeader_summary h =
     ''Header(flags='' @ (if tcp_syn h then ''S'' else []) @ (if tcp_ack h then ''A'' else [])
     @ (if tcp_rst h then ''R'' else []) @ (if tcp_fin h then ''F'' else [])
     @ '',seqno='' @ decimal (unat (raw_value (tcp_seqno h))) @ '',ack='' @ decimal (unat (raw_value (tcp_ackno h)))
     @ '',win='' @ decimal (unat (tcp_win h)) @ '')''"

section \<open>hexdump\<close>

definition isprint :: "u8 \<Rightarrow> bool" where
  "isprint c \<longleftrightarrow> 0x20 \<le> c \<and> c \<le> 0x7e"

definition shown_char :: "u8 \<Rightarrow> char" where
  "shown_char c = (if isprint c then char_of (unat c) else CHR ''.'')"

text \<open>
  \<^verbatim>\<open>pchars\<close> is a stream whose content is a space and whose position is at the start, both when it is
  constructed and after \<^verbatim>\<open>str(" ")\<close>: the first character written replaces the space.
\<close>

record pchars =
  pc_content :: string
  pc_position :: nat

definition pchars_new :: pchars where
  "pchars_new = \<lparr>pc_content = '' '', pc_position = 0\<rparr>"

definition pchars_put :: "char \<Rightarrow> pchars \<Rightarrow> pchars" where
  "pchars_put c s = \<lparr>pc_content = take (pc_position s) (pc_content s) @ [c] @ drop (pc_position s + 1) (pc_content s),
                     pc_position = pc_position s + 1\<rparr>"

text \<open>The text written so far, \<^verbatim>\<open>pchars\<close> and \<^verbatim>\<open>printed\<close>; one turn of the loop for the byte \<open>d\<close>.\<close>

definition hexdump_step :: "string \<Rightarrow> u8 \<Rightarrow> string \<times> pchars \<times> nat \<Rightarrow> string \<times> pchars \<times> nat" where
  "hexdump_step indent_string d = (\<lambda>(out, pchars, printed).
     let (out, pchars) =
           (if printed mod 16 = 0
            then let (out, pchars) =
                       (if printed \<noteq> 0 then (out @ ''    '' @ pc_content pchars @ newline, pchars_new) else (out, pchars))
                 in (out @ indent_string @ setw 8 (CHR ''0'') (hexadecimal printed) @ '':    '', pchars)
            else if printed mod 2 = 0 then (out @ '' '', pchars)
            else (out, pchars))
     in (out @ setw 2 (CHR ''0'') (hex_word d), pchars_put (shown_char d) pchars, printed + 1))"

text \<open>\<^verbatim>\<open>printed\<close> is an \<^verbatim>\<open>int\<close>: counting more than \<open>2 ^ 31 - 1\<close> bytes overflows it.\<close>

definition hexdump :: "bytes \<Rightarrow> nat \<Rightarrow> string result" where
  "hexdump data indent =
     (if 2 ^ 31 \<le> length data then Inl (Undefined_Behaviour ''signed integer overflow'')
      else let indent_string = replicate indent (CHR '' '');
               (out, pchars, printed) = fold (hexdump_step indent_string) data ([], pchars_new, 0);
               print_rem = (16 - printed mod 16) mod 16
           in Inr (out @ replicate (2 * print_rem + print_rem div 2 + 4) (CHR '' '') @ pc_content pchars @ newline @ newline))"

section \<open>The layout of a dump\<close>

text \<open>A row: the offset, the bytes in pairs in a field of 39 characters, and the characters.\<close>

definition byte_pairs :: "bytes \<Rightarrow> string" where
  "byte_pairs row = concat (map (\<lambda>i. (if 0 < i \<and> i mod 2 = 0 then '' '' else []) @ setw 2 (CHR ''0'') (hex_word (row ! i))) [0..<length row])"

definition dump_start :: "nat \<Rightarrow> nat \<Rightarrow> bytes \<Rightarrow> string" where
  "dump_start indent i row = replicate indent (CHR '' '') @ setw 8 (CHR ''0'') (hexadecimal (16 * i)) @ '':    '' @ byte_pairs row"

definition dump_row :: "nat \<Rightarrow> bytes \<Rightarrow> nat \<Rightarrow> string" where
  "dump_row indent data i = (let row = take 16 (drop (16 * i) data)
     in dump_start indent i row @ replicate (39 - length (byte_pairs row)) (CHR '' '') @ ''    '' @ map shown_char row @ newline)"

lemma pchars_put_content:
  "pchars_put c \<lparr>pc_content = if s = [] then '' '' else s, pc_position = length s\<rparr> = \<lparr>pc_content = s @ [c], pc_position = Suc (length s)\<rparr>"
  by (simp add: pchars_put_def)

lemma hex_byte: "setw 2 (CHR ''0'') (hex_word (b :: u8)) = [hex_digit (unat b div 16), hex_digit (unat b mod 16)]"
proof -
  have "unat b div 16 < 16" using unat8_bound[of b] by simp
  then have "hexadecimal (unat b div 16) = [hex_digit (unat b div 16)]" by (subst hexadecimal.simps) simp
  moreover have "hex_digit 0 = CHR ''0''" by code_simp
  ultimately show ?thesis by (subst hexadecimal.simps) (auto simp: setw_def)
qed

lemma length_hex_byte: "length (setw 2 (CHR ''0'') (hex_word (b :: u8))) = 2"
  by (simp add: hex_byte)

lemma byte_pairs_Nil [simp]: "byte_pairs [] = []"
  by (simp add: byte_pairs_def)

lemma byte_pairs_snoc:
  "byte_pairs (row @ [b]) = byte_pairs row @ (if row \<noteq> [] \<and> length row mod 2 = 0 then '' '' else []) @ setw 2 (CHR ''0'') (hex_word b)"
  by (auto simp: byte_pairs_def nth_append intro!: arg_cong[where f = concat])

lemma length_byte_pairs: "length (byte_pairs row) = 2 * length row + (length row - 1) div 2"
proof (induction row rule: rev_induct)
  case (snoc b row)
  have "n \<noteq> 0 \<Longrightarrow> (n - 1) div 2 + (if n mod 2 = 0 then 1 else 0) = n div 2" for n :: nat
    by (cases n) (simp_all add: div_Suc)
  from this[of "length row"] show ?case using snoc
    by (cases "row = []") (simp_all add: byte_pairs_snoc byte_pairs_snoc[of "[]", simplified] length_hex_byte split: if_splits)
qed simp

text \<open>How a length splits into complete rows and the current one.\<close>

lemma row_split:
  assumes "0 < n" and "q = (n - 1) div 16"
  obtains r where "n = 16 * q + Suc r" "r < 16" "(n + 15) div 16 = Suc q"
    "n mod 16 = 0 \<Longrightarrow> n = 16 * Suc q" "n mod 16 \<noteq> 0 \<Longrightarrow> n div 16 = q"
proof -
  define r where "r = (n - 1) mod 16"
  have n: "n = 16 * q + Suc r" using div_mult_mod_eq[of "n - 1" 16] assms by (simp add: r_def mult.commute)
  have r: "r < 16" by (simp add: r_def)
  have "n mod 16 = Suc r mod 16" by (simp add: n mod_mult_self4[of 16 q "Suc r"] del: mod_mult_self4 add_Suc_right)
  then have "n mod 16 = 0 \<longleftrightarrow> r = 15" using r by (cases "r = 15") simp_all
  then show ?thesis using n r that[of r] by (cases "r = 15") simp_all
qed

text \<open>The state of the loop after the bytes \<open>p\<close>: all rows but the last are complete.\<close>

definition dump_state :: "nat \<Rightarrow> bytes \<Rightarrow> string \<times> pchars \<times> nat" where
  "dump_state indent p = (if p = [] then ([], pchars_new, 0) else
     let q = (length p - 1) div 16; row = drop (16 * q) p
     in (concat (map (dump_row indent p) [0..<q]) @ dump_start indent q row,
         \<lparr>pc_content = map shown_char row, pc_position = length row\<rparr>, length p))"

lemma dump_row_prefix: "16 * i + 16 \<le> length p \<Longrightarrow> dump_row indent (p @ x) i = dump_row indent p i"
  by (simp add: dump_row_def)

lemma dump_rows_prefix: "16 * q \<le> length p \<Longrightarrow> map (dump_row indent (p @ x)) [0..<q] = map (dump_row indent p) [0..<q]"
  by (simp add: dump_row_prefix)

lemma hexdump_step_state:
  "hexdump_step (replicate indent (CHR '' '')) b (dump_state indent p) = dump_state indent (p @ [b])"
proof (cases "p = []")
  case True
  then show ?thesis
    by (simp add: dump_state_def hexdump_step_def dump_start_def pchars_new_def pchars_put_def byte_pairs_snoc[of "[]", simplified])
next
  case p: False
  define q where "q = (length p - 1) div 16"
  define row where "row = drop (16 * q) p"
  have n: "0 < length p" using p by simp
  obtain k where k: "length p = 16 * q + Suc k" "k < 16" "(length p + 15) div 16 = Suc q"
    and full: "length p mod 16 = 0 \<Longrightarrow> length p = 16 * Suc q" and part: "length p mod 16 \<noteq> 0 \<Longrightarrow> length p div 16 = q"
    by (rule row_split[OF n q_def]) (rule that)
  have q: "16 * q < length p" "length p \<le> 16 * q + 16" using k by simp_all
  have st: "dump_state indent p = (concat (map (dump_row indent p) [0..<q]) @ dump_start indent q row,
      \<lparr>pc_content = map shown_char row, pc_position = length row\<rparr>, length p)"
    using p by (simp add: dump_state_def q_def row_def Let_def)
  have r: "row \<noteq> []" "length row = length p - 16 * q" using q by (simp_all add: row_def)
  show ?thesis
  proof (cases "length p mod 16 = 0")
    case True
    then have l: "length p = 16 * Suc q" by (rule full)
    then have "dump_row indent p q = dump_start indent q row @ ''    '' @ map shown_char row @ newline"
      by (simp add: dump_row_def Let_def row_def length_byte_pairs)
    moreover have "dump_state indent (p @ [b]) = (concat (map (dump_row indent p) [0..<Suc q]) @ dump_start indent (Suc q) [b],
        \<lparr>pc_content = [shown_char b], pc_position = 1\<rparr>, Suc (length p))"
      using l dump_rows_prefix[of "Suc q" p indent "[b]"] by (simp add: dump_state_def del: map_eq_conv upt_Suc)
    ultimately show ?thesis using True p l unfolding st
      by (simp add: hexdump_step_def pchars_new_def pchars_put_def dump_start_def byte_pairs_snoc[of "[]", simplified])
  next
    case False
    then have l: "length p div 16 = q" by (rule part)
    have d: "drop (16 * q) (p @ [b]) = row @ [b]" using q by (simp add: row_def)
    have e: "(length p mod 2 = 0) = (length row mod 2 = 0)" using r(2) k(1) by (simp flip: even_iff_mod_2_eq_zero)
    have "dump_state indent (p @ [b]) = (concat (map (dump_row indent p) [0..<q]) @ dump_start indent q (row @ [b]),
        \<lparr>pc_content = map shown_char row @ [shown_char b], pc_position = Suc (length row)\<rparr>, Suc (length p))"
      using l q(1) r(2) dump_rows_prefix[of q p indent "[b]"] unfolding dump_state_def by (simp add: d Let_def del: map_eq_conv drop_append)
    then show ?thesis using False p r(1) unfolding st
      by (simp add: hexdump_step_def e pchars_put_def dump_start_def byte_pairs_snoc)
  qed
qed

lemma hexdump_loop: "fold (hexdump_step (replicate indent (CHR '' ''))) data ([], pchars_new, 0) = dump_state indent data"
proof (induction data rule: rev_induct)
  case (snoc b data)
  then show ?case using hexdump_step_state by simp
qed (simp add: dump_state_def)

lemma dump_padding:
  assumes "0 < (k :: nat)" and "k \<le> 16"
  shows "2 * ((16 - k mod 16) mod 16) + (16 - k mod 16) mod 16 div 2 = 39 - (2 * k + (k - 1) div 2)"
proof -
  have "list_all (\<lambda>k. 2 * ((16 - k mod 16) mod 16) + (16 - k mod 16) mod 16 div 2 = 39 - (2 * k + (k - 1) div 2)) [1..<(17 :: nat)]"
    by code_simp
  then show ?thesis using assms by (simp add: list_all_iff)
qed

text \<open>
  C40. The layout of a hex dump: one row for every sixteen bytes, each with its offset, the bytes in
  pairs, padded to the same width, and the characters, the unprintable ones as dots; so the
  characters of all rows, the last one included, start in the same column.
\<close>

theorem hexdump_layout:
  assumes "data \<noteq> []" and "length data < 2 ^ 31"
  shows "hexdump data indent = Inr (concat (map (dump_row indent data) [0..<(length data + 15) div 16]) @ newline)"
proof -
  define q where "q = (length data - 1) div 16"
  define row where "row = drop (16 * q) data"
  have n: "0 < length data" using assms(1) by simp
  obtain k where "length data = 16 * q + Suc k" "k < 16" "(length data + 15) div 16 = Suc q" by (rule row_split[OF n q_def])
  then have q: "16 * q < length data" "length data \<le> 16 * q + 16" "(length data + 15) div 16 = Suc q" by simp_all
  have r: "length row = length data - 16 * q" "take 16 row = row" using q by (simp_all add: row_def)
  have "length data = length row + 16 * q" using r(1) q(1) by simp
  then have m: "length data mod 16 = length row mod 16" by simp
  have "0 < length row" "length row \<le> 16" using r(1) q by simp_all
  note pad = dump_padding[OF this]
  have four: "replicate (x + 4) (CHR '' '') = replicate x (CHR '' '') @ ''    ''" for x
    by (induction x) (simp_all add: eval_nat_numeral)
  have "dump_row indent data q = dump_start indent q row
      @ replicate (2 * ((16 - length data mod 16) mod 16) + (16 - length data mod 16) mod 16 div 2 + 4) (CHR '' '')
      @ map shown_char row @ newline"
    unfolding m pad four by (simp add: dump_row_def Let_def row_def[symmetric] r(2) length_byte_pairs)
  moreover have "dump_state indent data = (concat (map (dump_row indent data) [0..<q]) @ dump_start indent q row,
      \<lparr>pc_content = map shown_char row, pc_position = length row\<rparr>, length data)"
    using assms(1) by (simp add: dump_state_def q_def row_def Let_def)
  ultimately show ?thesis using assms(2) by (simp add: hexdump_def hexdump_loop q(3) Let_def)
qed

theorem hexdump_layout_witness:
  "hexdump [72, 105, 10] 2 = Inr (dump_row 2 [72, 105, 10] 0 @ newline)
   \<and> dump_row 2 [72, 105, 10] 0 = ''  00000000:    4869 0a'' @ replicate 36 (CHR '' '') @ ''Hi.'' @ newline"
proof
  show "hexdump [72, 105, 10] 2 = Inr (dump_row 2 [72, 105, 10] 0 @ newline)"
    using hexdump_layout[of "[72, 105, 10]" 2] by simp
  show "dump_row 2 [72, 105, 10] 0 = ''  00000000:    4869 0a'' @ replicate 36 (CHR '' '') @ ''Hi.'' @ newline"
    by code_simp
qed

text \<open>Ethernet addresses are told apart by their text.\<close>

lemma of_hex_digit: "d < 16 \<Longrightarrow> (of_char (hex_digit d) :: nat) = (if d < 10 then 48 + d else 87 + d)"
  by (simp add: hex_digit_def of_char_of)

lemma hex_digit_inj:
  assumes "hex_digit a = hex_digit b" and lt: "a < 16" "b < 16"
  shows "a = b"
proof -
  have "(of_char (hex_digit a) :: nat) = of_char (hex_digit b)" by (simp only: assms(1))
  then show ?thesis unfolding of_hex_digit[OF lt(1)] of_hex_digit[OF lt(2)] using lt by (auto split: if_splits)
qed

lemma EthernetAddress_text_inj:
  "EthernetAddress_to_string a = EthernetAddress_to_string b \<Longrightarrow> length a = length b \<Longrightarrow> a = b"
proof (induction a arbitrary: b)
  case (Cons x a)
  obtain y b' where b: "b = y # b'" using Cons.prems(2) by (cases b) auto
  have lt: "unat x div 16 < 16" "unat y div 16 < 16" using unat8_bound[of x] unat8_bound[of y] by simp_all
  have "hex_digit (unat x div 16) = hex_digit (unat y div 16)" "hex_digit (unat x mod 16) = hex_digit (unat y mod 16)"
    using Cons.prems(1) by (simp_all add: b hex_byte)
  note q = hex_digit_inj[OF this(1) lt] and r = hex_digit_inj[OF this(2) mod_less_divisor mod_less_divisor]
  have "unat x = unat x div 16 * 16 + unat x mod 16" by (rule div_mult_mod_eq[symmetric])
  also have "... = unat y" unfolding q r[OF zero_less_numeral zero_less_numeral] by (rule div_mult_mod_eq)
  finally have "x = y" by (simp only: word_unat_eq_iff)
  moreover have "EthernetAddress_to_string a = EthernetAddress_to_string b'" "length a = length b'"
    using Cons.prems by (auto simp: b hex_byte split: if_splits)
  ultimately show ?case using Cons.IH b by simp
qed simp

end
