(* ===== verification/Network_Simulator.thy ===== *)
theory Network_Simulator
  imports Router Text_Output
begin

text \<open>
  \<^verbatim>\<open>apps/network_simulator.cc\<close>: six hosts and a router with seven interfaces, the cables between them,
  and the test program that sends datagrams across and checks that each arrives where it should.
  The outputs of the random generator \<^verbatim>\<open>rd\<close> are a sequence; the order in which the \<^verbatim>\<open>unordered_map\<close> of
  hosts is iterated is an argument. What is written to \<^verbatim>\<open>cout\<close> and \<^verbatim>\<open>cerr\<close> is not modelled, apart from
  \<^verbatim>\<open>_next_hop.ip()\<close>, which can throw.
\<close>

section \<open>Random addresses\<close>

type_synonym rng = "nat \<Rightarrow> u32"

definition rd_next :: "rng \<Rightarrow> u32 \<times> rng" where
  "rd_next rd = (rd 0, \<lambda>n. rd (Suc n))"

text \<open>The loop over the bytes of an array: each is the low byte of an output.\<close>

primrec random_bytes :: "nat \<Rightarrow> rng \<Rightarrow> u8 list \<times> rng" where
  "random_bytes 0 rd = ([], rd)"
| "random_bytes (Suc n) rd =
     (let (r, rd) = rd_next rd; (bs, rd) = random_bytes n rd in (ucast r # bs, rd))"

definition random_host_ethernet_address :: "rng \<Rightarrow> EthernetAddress \<times> rng" where
  "random_host_ethernet_address rd =
     (let (addr, rd) = random_bytes 6 rd;
          addr = addr[0 := or (addr ! 0) 0x02];
          addr = addr[0 := and (addr ! 0) 0xfe]
      in (addr, rd))"

definition random_router_ethernet_address :: "rng \<Rightarrow> EthernetAddress \<times> rng" where
  "random_router_ethernet_address rd =
     (let (addr, rd) = random_bytes 6 rd in (addr[0 := 0x02, 1 := 0, 2 := 0], rd))"

definition sim_ip :: "getaddrinfo \<Rightarrow> string \<Rightarrow> u32 result" where
  "sim_ip getaddrinfo str = bind_result (Address_of_ip getaddrinfo str 0) Address_ipv4_numeric"

section \<open>Hosts\<close>

definition bytes_of_string :: "string \<Rightarrow> bytes" where
  "bytes_of_string s = map (\<lambda>c. of_nat (of_char c)) s"

definition string_of_bytes :: "bytes \<Rightarrow> string" where
  "string_of_bytes bs = map (\<lambda>b. char_of (unat b)) bs"

definition frame_summary :: "EthernetFrame \<Rightarrow> string result" where
  "frame_summary frame =
     (let ret = EthernetHeader_to_string (fr_header frame)
      in if eth_type (fr_header frame) = TYPE_IPv4
         then bind_result (BufferList_to_Buffer (fr_payload frame)) (\<lambda>payload.
           let (result, dgram) = IPv4Datagram_parse payload IPv4Datagram_default
           in Inr (ret @ (if result = NoError
                then '' '' @ IPv4Header_summary (dg_header dgram)
                  @ '' payload='' @ [CHR 0x22] @ string_of_bytes (BufferList_concatenate (dg_payload dgram)) @ [CHR 0x22]
                else '' (bad IPv4)'')))
         else if eth_type (fr_header frame) = TYPE_ARP
         then bind_result (BufferList_to_Buffer (fr_payload frame)) (\<lambda>payload.
           let (result, arp) = ARPMessage_parse payload ARPMessage_default
           in Inr (ret @ (if result = NoError then '' '' @ ARPMessage_to_string arp else '' (bad ARP)'')))
         else Inr ret)"

record Host =
  ho_name :: string
  ho_my_address :: Address
  ho_interface :: AsyncNetworkInterface
  ho_next_hop :: Address
  ho_expecting_to_receive :: "InternetDatagram list"

definition dgram_wire :: "InternetDatagram \<Rightarrow> bytes result" where
  "dgram_wire d = map_result BufferList_concatenate (IPv4Datagram_serialize d)"

primrec Host_expecting :: "InternetDatagram list \<Rightarrow> InternetDatagram \<Rightarrow> bool result" where
  "Host_expecting [] expected = Inr False"
| "Host_expecting (x # xs) expected =
     bind_result (dgram_wire x) (\<lambda>a. bind_result (dgram_wire expected) (\<lambda>b.
       if a = b then Inr True else Host_expecting xs expected))"

primrec Host_remove_expectation :: "InternetDatagram list \<Rightarrow> InternetDatagram \<Rightarrow> InternetDatagram list result" where
  "Host_remove_expectation [] expected = Inr []"
| "Host_remove_expectation (x # xs) expected =
     bind_result (dgram_wire x) (\<lambda>a. bind_result (dgram_wire expected) (\<lambda>b.
       if a = b then Inr xs else map_result ((#) x) (Host_remove_expectation xs expected)))"

definition Host_new :: "getnameinfo \<Rightarrow> string \<Rightarrow> Address \<Rightarrow> Address \<Rightarrow> rng \<Rightarrow> (Host \<times> rng) result" where
  "Host_new getnameinfo name my_address next_hop rd =
     (let (mac, rd) = random_host_ethernet_address rd
      in map_result (\<lambda>ni. (\<lparr>ho_name = name, ho_my_address = my_address, ho_interface = AsyncNetworkInterface_of ni,
           ho_next_hop = next_hop, ho_expecting_to_receive = []\<rparr>, rd)) (NetworkInterface_new getnameinfo mac my_address))"

definition Host_send_to :: "getnameinfo \<Rightarrow> Address \<Rightarrow> u8 \<Rightarrow> rng \<Rightarrow> Host \<Rightarrow> (InternetDatagram \<times> Host \<times> rng) result" where
  "Host_send_to getnameinfo destination ttl rd h =
     bind_result (Address_ipv4_numeric (ho_my_address h)) (\<lambda>src.
     bind_result (Address_ipv4_numeric destination) (\<lambda>dst.
       let (r, rd) = rd_next rd;
           header = IPv4Header_default\<lparr>ip_src := src, ip_dst := dst\<rparr>;
           payload = BufferList_of_string (bytes_of_string (''random payload: {'' @ decimal (unat r) @ ''}''));
           header = header\<lparr>ip_len := ucast (ucast (ip_hlen header) * 4 + BufferList_size payload), ip_ttl := ttl\<rparr>;
           dgram = \<lparr>dg_header = header, dg_payload = payload\<rparr>
       in bind_result (NetworkInterface_send_datagram dgram (ho_next_hop h) (ai_interface (ho_interface h))) (\<lambda>ni.
          bind_result (Address_ip getnameinfo (ho_next_hop h)) (\<lambda>_.
            Inr (dgram, h\<lparr>ho_interface := (ho_interface h)\<lparr>ai_interface := ni\<rparr>\<rparr>, rd)))))"

definition Host_expect :: "InternetDatagram \<Rightarrow> Host \<Rightarrow> Host" where
  "Host_expect expected h = h\<lparr>ho_expecting_to_receive := ho_expecting_to_receive h @ [expected]\<rparr>"

definition dgram_text :: "InternetDatagram \<Rightarrow> string" where
  "dgram_text d = IPv4Header_summary (dg_header d) @ '' payload='' @ [CHR 0x22]
     @ string_of_bytes (BufferList_concatenate (dg_payload d)) @ [CHR 0x22]"

text \<open>The loop of \<^verbatim>\<open>check\<close> over the queue of received datagrams gives what is still expected.\<close>

primrec check_received :: "string \<Rightarrow> InternetDatagram list \<Rightarrow> InternetDatagram list \<Rightarrow> InternetDatagram list result" where
  "check_received name [] expecting = Inr expecting"
| "check_received name (dgram # queue) expecting =
     bind_result (Host_expecting expecting dgram) (\<lambda>expected.
       if \<not> expected
       then Inl (Runtime_Error (''Host '' @ name @ '' received unexpected Internet datagram: '' @ dgram_text dgram))
       else bind_result (Host_remove_expectation expecting dgram) (check_received name queue))"

definition Host_check :: "Host \<Rightarrow> Host result" where
  "Host_check h =
     bind_result (check_received (ho_name h) (ai_datagrams_out (ho_interface h)) (ho_expecting_to_receive h)) (\<lambda>expecting.
       case expecting of
         [] \<Rightarrow> Inr (h\<lparr>ho_interface := (ho_interface h)\<lparr>ai_datagrams_out := []\<rparr>, ho_expecting_to_receive := []\<rparr>)
       | expected # _ \<Rightarrow> Inl (Runtime_Error (''Host '' @ ho_name h @ '' did NOT receive an expected Internet datagram: ''
                                 @ dgram_text expected)))"

section \<open>Cables\<close>

primrec clear_queues :: "'a list \<Rightarrow> 'a list \<Rightarrow> 'a list result" where
  "clear_queues [] queue2 = Inr queue2"
| "clear_queues (x # queue1) queue2 =
     (case queue2 of [] \<Rightarrow> Inl (Undefined_Behaviour ''pop of an empty queue'') | y # queue2 \<Rightarrow> clear_queues queue1 queue2)"

definition clear_frames :: "EthernetFrame list \<Rightarrow> AsyncNetworkInterface \<Rightarrow> AsyncNetworkInterface result" where
  "clear_frames frames x =
     map_result (\<lambda>q. x\<lparr>ai_interface := (ai_interface x)\<lparr>ni_frames_out := q\<rparr>\<rparr>)
       (clear_queues frames (ni_frames_out (ai_interface x)))"

primrec deliver :: "EthernetFrame list \<Rightarrow> AsyncNetworkInterface \<Rightarrow> AsyncNetworkInterface result" where
  "deliver [] dst = Inr dst"
| "deliver (frame # to_send) dst =
     (let frame = frame\<lparr>fr_payload := BufferList_of_string (BufferList_concatenate (fr_payload frame))\<rparr>
      in bind_result (frame_summary frame) (\<lambda>_.
         bind_result (AsyncNetworkInterface_recv_frame frame dst) (deliver to_send)))"

definition exchange_frames ::
  "AsyncNetworkInterface \<Rightarrow> AsyncNetworkInterface \<Rightarrow> (AsyncNetworkInterface \<times> AsyncNetworkInterface) result" where
  "exchange_frames x y =
     (let x_frames = ni_frames_out (ai_interface x); y_frames = ni_frames_out (ai_interface y)
      in bind_result (deliver x_frames y) (\<lambda>y.
         bind_result (deliver y_frames x) (\<lambda>x.
         bind_result (clear_frames x_frames x) (\<lambda>x.
         map_result (Pair x) (clear_frames y_frames y)))))"

definition exchange_frames_3 :: "AsyncNetworkInterface \<Rightarrow> AsyncNetworkInterface \<Rightarrow> AsyncNetworkInterface
    \<Rightarrow> (AsyncNetworkInterface \<times> AsyncNetworkInterface \<times> AsyncNetworkInterface) result" where
  "exchange_frames_3 x y z =
     (let x_frames = ni_frames_out (ai_interface x); y_frames = ni_frames_out (ai_interface y);
          z_frames = ni_frames_out (ai_interface z)
      in bind_result (deliver x_frames y) (\<lambda>y.
         bind_result (deliver x_frames z) (\<lambda>z.
         bind_result (deliver y_frames x) (\<lambda>x.
         bind_result (deliver y_frames z) (\<lambda>z.
         bind_result (deliver z_frames x) (\<lambda>x.
         bind_result (deliver z_frames y) (\<lambda>y.
         bind_result (clear_frames x_frames x) (\<lambda>x.
         bind_result (clear_frames y_frames y) (\<lambda>y.
         map_result (\<lambda>z. (x, y, z)) (clear_frames z_frames z))))))))))"

section \<open>The network\<close>

record Network =
  nw_router :: Router
  nw_default_id :: u64
  nw_eth0_id :: u64
  nw_eth1_id :: u64
  nw_eth2_id :: u64
  nw_uun3_id :: u64
  nw_hs4_id :: u64
  nw_mit5_id :: u64
  nw_hosts :: "string \<rightharpoonup> Host"

definition Network_host :: "string \<Rightarrow> Network \<Rightarrow> Host result" where
  "Network_host name N =
     (case nw_hosts N name of
        None \<Rightarrow> Inl (Runtime_Error (''unknown host: '' @ name))
      | Some h \<Rightarrow> if ho_name h \<noteq> name then Inl (Runtime_Error (''invalid host: '' @ name)) else Inr h)"

text \<open>Updates through the references that \<^verbatim>\<open>Router::interface\<close>, \<^verbatim>\<open>Network::host\<close> and \<^verbatim>\<open>Host::interface\<close> return.\<close>

definition put_interface :: "u64 \<Rightarrow> AsyncNetworkInterface \<Rightarrow> Network \<Rightarrow> Network" where
  "put_interface num ai N =
     N\<lparr>nw_router := (nw_router N)\<lparr>ro_interfaces := (ro_interfaces (nw_router N))[unat num := ai]\<rparr>\<rparr>"

definition put_host :: "string \<Rightarrow> Host \<Rightarrow> Network \<Rightarrow> Network" where
  "put_host name h N = N\<lparr>nw_hosts := (nw_hosts N)(name \<mapsto> h)\<rparr>"

text \<open>The constructor: the interfaces, the hosts and the routes.\<close>

definition new_interface :: "getaddrinfo \<Rightarrow> getnameinfo \<Rightarrow> string \<Rightarrow> rng \<times> Router \<Rightarrow> (u64 \<times> rng \<times> Router) result" where
  "new_interface getaddrinfo getnameinfo str = (\<lambda>(rd, router).
     let (mac, rd) = random_router_ethernet_address rd
     in bind_result (Address_of_ip getaddrinfo str 0) (\<lambda>a.
        map_result (\<lambda>ni. let (num, router) = Router_add_interface (AsyncNetworkInterface_of ni) router in (num, rd, router))
          (NetworkInterface_new getnameinfo mac a)))"

text \<open>\<^verbatim>\<open>insert\<close> does not replace an element.\<close>

definition insert_host :: "getaddrinfo \<Rightarrow> getnameinfo \<Rightarrow> string \<Rightarrow> string \<Rightarrow> string \<Rightarrow> rng \<times> Network \<Rightarrow> (rng \<times> Network) result" where
  "insert_host getaddrinfo getnameinfo name my_address next_hop = (\<lambda>(rd, N).
     bind_result (Address_of_ip getaddrinfo my_address 0) (\<lambda>my_address.
     bind_result (Address_of_ip getaddrinfo next_hop 0) (\<lambda>next_hop.
     map_result (\<lambda>(h, rd). (rd, if nw_hosts N name = None then put_host name h N else N))
       (Host_new getnameinfo name my_address next_hop rd))))"

definition network_route :: "getaddrinfo \<Rightarrow> getnameinfo \<Rightarrow> string \<Rightarrow> u8 \<Rightarrow> Address option \<Rightarrow> u64 \<Rightarrow> Network \<Rightarrow> Network result" where
  "network_route getaddrinfo getnameinfo prefix prefix_length next_hop num N =
     bind_result (sim_ip getaddrinfo prefix) (\<lambda>route_prefix.
       map_result (\<lambda>r. N\<lparr>nw_router := r\<rparr>) (Router_add_route getnameinfo route_prefix prefix_length next_hop num (nw_router N)))"

definition host_route :: "getaddrinfo \<Rightarrow> getnameinfo \<Rightarrow> string \<Rightarrow> u8 \<Rightarrow> string \<Rightarrow> u64 \<Rightarrow> Network \<Rightarrow> Network result" where
  "host_route getaddrinfo getnameinfo prefix prefix_length name num N =
     bind_result (Network_host name N) (\<lambda>h.
       network_route getaddrinfo getnameinfo prefix prefix_length (Some (ho_my_address h)) num N)"

definition Network_interfaces :: "getaddrinfo \<Rightarrow> getnameinfo \<Rightarrow> rng \<Rightarrow> (rng \<times> Network) result" where
  "Network_interfaces gai gni rd =
     bind_result (new_interface gai gni ''171.67.76.46'' (rd, Router_new)) (\<lambda>(default_id, s).
     bind_result (new_interface gai gni ''10.0.0.1'' s) (\<lambda>(eth0_id, s).
     bind_result (new_interface gai gni ''172.16.0.1'' s) (\<lambda>(eth1_id, s).
     bind_result (new_interface gai gni ''192.168.0.1'' s) (\<lambda>(eth2_id, s).
     bind_result (new_interface gai gni ''198.178.229.1'' s) (\<lambda>(uun3_id, s).
     bind_result (new_interface gai gni ''143.195.0.2'' s) (\<lambda>(hs4_id, s).
     bind_result (new_interface gai gni ''128.30.76.255'' s) (\<lambda>(mit5_id, rd, router).
       Inr (rd, \<lparr>nw_router = router, nw_default_id = default_id, nw_eth0_id = eth0_id, nw_eth1_id = eth1_id,
                 nw_eth2_id = eth2_id, nw_uun3_id = uun3_id, nw_hs4_id = hs4_id, nw_mit5_id = mit5_id,
                 nw_hosts = Map.empty\<rparr>))))))))"

definition Network_hosts :: "getaddrinfo \<Rightarrow> getnameinfo \<Rightarrow> rng \<times> Network \<Rightarrow> (rng \<times> Network) result" where
  "Network_hosts gai gni s =
     bind_result (insert_host gai gni ''applesauce'' ''10.0.0.2'' ''10.0.0.1'' s) (\<lambda>s.
     bind_result (insert_host gai gni ''default_router'' ''171.67.76.1'' ''0'' s) (\<lambda>s.
     bind_result (insert_host gai gni ''cherrypie'' ''192.168.0.2'' ''192.168.0.1'' s) (\<lambda>s.
     bind_result (insert_host gai gni ''hs_router'' ''143.195.0.1'' ''0'' s) (\<lambda>s.
     bind_result (insert_host gai gni ''dm42'' ''198.178.229.42'' ''198.178.229.1'' s) (\<lambda>s.
       insert_host gai gni ''dm43'' ''198.178.229.43'' ''198.178.229.1'' s)))))"

definition Network_routes :: "getaddrinfo \<Rightarrow> getnameinfo \<Rightarrow> Network \<Rightarrow> Network result" where
  "Network_routes gai gni N =
     bind_result (host_route gai gni ''0.0.0.0'' 0 ''default_router'' (nw_default_id N) N) (\<lambda>N.
     bind_result (network_route gai gni ''10.0.0.0'' 8 None (nw_eth0_id N) N) (\<lambda>N.
     bind_result (network_route gai gni ''172.16.0.0'' 16 None (nw_eth1_id N) N) (\<lambda>N.
     bind_result (network_route gai gni ''192.168.0.0'' 24 None (nw_eth2_id N) N) (\<lambda>N.
     bind_result (network_route gai gni ''198.178.229.0'' 24 None (nw_uun3_id N) N) (\<lambda>N.
     bind_result (host_route gai gni ''143.195.0.0'' 17 ''hs_router'' (nw_hs4_id N) N) (\<lambda>N.
     bind_result (host_route gai gni ''143.195.128.0'' 18 ''hs_router'' (nw_hs4_id N) N) (\<lambda>N.
     bind_result (host_route gai gni ''143.195.192.0'' 19 ''hs_router'' (nw_hs4_id N) N) (\<lambda>N.
     bind_result (Address_of_ip gai ''128.30.0.1'' 0) (\<lambda>a.
       network_route gai gni ''128.30.76.255'' 16 (Some a) (nw_mit5_id N) N)))))))))"

definition Network_new :: "getaddrinfo \<Rightarrow> getnameinfo \<Rightarrow> rng \<Rightarrow> (rng \<times> Network) result" where
  "Network_new gai gni rd =
     bind_result (Network_interfaces gai gni rd) (\<lambda>s. bind_result (Network_hosts gai gni s) (\<lambda>(rd, N).
       map_result (Pair rd) (Network_routes gai gni N)))"

text \<open>One call of \<^verbatim>\<open>exchange_frames\<close> on an interface of the router and one or two hosts.\<close>

definition connect_host :: "u64 \<Rightarrow> string \<Rightarrow> Network \<Rightarrow> Network result" where
  "connect_host num name N =
     bind_result (Router_interface num (nw_router N)) (\<lambda>x.
     bind_result (Network_host name N) (\<lambda>h.
     map_result (\<lambda>(x, y). put_host name (h\<lparr>ho_interface := y\<rparr>) (put_interface num x N))
       (exchange_frames x (ho_interface h))))"

definition connect_hosts :: "u64 \<Rightarrow> string \<Rightarrow> string \<Rightarrow> Network \<Rightarrow> Network result" where
  "connect_hosts num name1 name2 N =
     bind_result (Router_interface num (nw_router N)) (\<lambda>x.
     bind_result (Network_host name1 N) (\<lambda>h1.
     bind_result (Network_host name2 N) (\<lambda>h2.
     map_result (\<lambda>(x, y, z). put_host name2 (h2\<lparr>ho_interface := z\<rparr>)
                   (put_host name1 (h1\<lparr>ho_interface := y\<rparr>) (put_interface num x N)))
       (exchange_frames_3 x (ho_interface h1) (ho_interface h2)))))"

definition simulate_physical_connections :: "Network \<Rightarrow> Network result" where
  "simulate_physical_connections N =
     bind_result (connect_host (nw_default_id N) ''default_router'' N) (\<lambda>N.
     bind_result (connect_host (nw_eth0_id N) ''applesauce'' N) (\<lambda>N.
     bind_result (connect_host (nw_eth2_id N) ''cherrypie'' N) (\<lambda>N.
     bind_result (connect_host (nw_hs4_id N) ''hs_router'' N) (\<lambda>N.
       connect_hosts (nw_uun3_id N) ''dm42'' ''dm43'' N))))"

definition simulate_round :: "Network \<Rightarrow> Network result" where
  "simulate_round N =
     bind_result (Router_route (nw_router N)) (\<lambda>r. simulate_physical_connections (N\<lparr>nw_router := r\<rparr>))"

primrec simulate_rounds :: "nat \<Rightarrow> Network \<Rightarrow> Network result" where
  "simulate_rounds 0 N = Inr N"
| "simulate_rounds (Suc n) N = bind_result (simulate_round N) (simulate_rounds n)"

primrec check_hosts :: "string list \<Rightarrow> Network \<Rightarrow> Network result" where
  "check_hosts [] N = Inr N"
| "check_hosts (name # order) N =
     (case nw_hosts N name of
        None \<Rightarrow> check_hosts order N
      | Some h \<Rightarrow> bind_result (Host_check h) (\<lambda>h. check_hosts order (put_host name h N)))"

definition Network_simulate :: "string list \<Rightarrow> Network \<Rightarrow> Network result" where
  "Network_simulate order N = bind_result (simulate_rounds 256 N) (check_hosts order)"

section \<open>The test program\<close>

definition send_from :: "getnameinfo \<Rightarrow> string \<Rightarrow> Address \<Rightarrow> u8 \<Rightarrow> rng \<times> Network \<Rightarrow> (InternetDatagram \<times> rng \<times> Network) result" where
  "send_from gni name destination ttl = (\<lambda>(rd, N).
     bind_result (Network_host name N) (\<lambda>h.
     map_result (\<lambda>(dgram_sent, h, rd). (dgram_sent, rd, put_host name h N))
       (Host_send_to gni destination ttl rd h)))"

text \<open>Sending with the default time to live, lowering it in the copy, expecting the copy, and simulating.\<close>

definition test_delivery :: "getnameinfo \<Rightarrow> string list \<Rightarrow> string \<Rightarrow> Address \<Rightarrow> string \<Rightarrow> rng \<times> Network \<Rightarrow> (rng \<times> Network) result" where
  "test_delivery gni order sender destination receiver s =
     bind_result (send_from gni sender destination 64 s) (\<lambda>(dgram_sent, rd, N).
       let dgram_sent = dgram_sent\<lparr>dg_header := (dg_header dgram_sent)\<lparr>ip_ttl := ip_ttl (dg_header dgram_sent) - 1\<rparr>\<rparr>
       in bind_result (Network_host receiver N) (\<lambda>h.
          map_result (Pair rd) (Network_simulate order (put_host receiver (Host_expect dgram_sent h) N))))"

definition test_host :: "getnameinfo \<Rightarrow> string list \<Rightarrow> string \<Rightarrow> string \<Rightarrow> rng \<times> Network \<Rightarrow> (rng \<times> Network) result" where
  "test_host gni order sender receiver s =
     bind_result (Network_host receiver (snd s)) (\<lambda>h. test_delivery gni order sender (ho_my_address h) receiver s)"

definition test_address :: "getaddrinfo \<Rightarrow> getnameinfo \<Rightarrow> string list \<Rightarrow> string \<Rightarrow> string \<Rightarrow> string \<Rightarrow> rng \<times> Network \<Rightarrow> (rng \<times> Network) result" where
  "test_address gai gni order sender destination receiver s =
     bind_result (Address_of_ip gai destination 0) (\<lambda>a. test_delivery gni order sender a receiver s)"

definition test_ttl :: "getaddrinfo \<Rightarrow> getnameinfo \<Rightarrow> string list \<Rightarrow> string \<Rightarrow> string \<Rightarrow> u8 \<Rightarrow> rng \<times> Network \<Rightarrow> (rng \<times> Network) result" where
  "test_ttl gai gni order sender destination ttl s =
     bind_result (Address_of_ip gai destination 0) (\<lambda>a.
     bind_result (send_from gni sender a ttl s) (\<lambda>(_, rd, N). map_result (Pair rd) (Network_simulate order N)))"

definition network_simulator :: "getaddrinfo \<Rightarrow> getnameinfo \<Rightarrow> string list \<Rightarrow> rng \<Rightarrow> unit result" where
  "network_simulator gai gni order rd =
     bind_result (Network_new gai gni rd) (\<lambda>s.
     bind_result (test_host gni order ''applesauce'' ''cherrypie'' s) (\<lambda>s.
     bind_result (test_host gni order ''cherrypie'' ''applesauce'' s) (\<lambda>s.
     bind_result (test_address gai gni order ''applesauce'' ''1.2.3.4'' ''default_router'' s) (\<lambda>s.
     bind_result (test_address gai gni order ''applesauce'' ''143.195.131.17'' ''hs_router'' s) (\<lambda>s.
     bind_result (test_address gai gni order ''cherrypie'' ''143.195.193.52'' ''hs_router'' s) (\<lambda>s.
     bind_result (test_address gai gni order ''cherrypie'' ''143.195.223.255'' ''hs_router'' s) (\<lambda>s.
     bind_result (test_address gai gni order ''cherrypie'' ''143.195.224.0'' ''default_router'' s) (\<lambda>s.
     bind_result (test_host gni order ''dm42'' ''dm43'' s) (\<lambda>s.
     bind_result (test_ttl gai gni order ''applesauce'' ''1.2.3.4'' 1 s) (\<lambda>s.
     bind_result (test_ttl gai gni order ''applesauce'' ''1.2.3.4'' 0 s) (\<lambda>s. Inr ())))))))))))"

section \<open>The addresses\<close>

lemma length_random_bytes: "length (fst (random_bytes n rd)) = n"
  by (induction n arbitrary: rd) (simp_all add: rd_next_def split_beta)

text \<open>
  Whatever the generator yields, the first of the six bytes marks a private address of a single
  interface, so that no address is the broadcast address.
\<close>

lemma random_private:
  assumes "a = fst (random_host_ethernet_address rd) \<or> a = fst (random_router_ethernet_address rd)"
  shows "eth_address a \<and> \<not> bit (a ! 0) 0 \<and> bit (a ! 0) 1 \<and> a \<noteq> ETHERNET_BROADCAST"
proof -
  obtain b bs where b: "fst (random_bytes 6 rd) = b # bs" "length bs = 5"
    using length_random_bytes[of 6 rd] by (cases "fst (random_bytes 6 rd)") auto
  then have h: "a ! 0 = and (or b 2) 0xfe \<or> a ! 0 = 2" "length a = 6"
    using assms by (auto simp: random_host_ethernet_address_def random_router_ethernet_address_def split_beta Let_def)
  have "\<not> bit (0xfe :: u8) 0" "bit (0xfe :: u8) 1" "\<not> bit (2 :: u8) 0" "bit (2 :: u8) 1" by simp_all
  then have bits: "\<not> bit (a ! 0) 0" "bit (a ! 0) 1" using h(1) by (auto simp: bit_and_iff bit_or_iff)
  have "bit (ETHERNET_BROADCAST ! 0) 0" by (simp add: ETHERNET_BROADCAST_def)
  then have "a \<noteq> ETHERNET_BROADCAST" using bits(1) by metis
  then show ?thesis using bits h(2) by (simp add: eth_address_def)
qed

end
