(* ===== verification/Simulator_Cables.thy ===== *)
theory Simulator_Cables
  imports Network_Simulator
begin

text \<open>
  The cables of the network simulator. Frames that pass over a cable are traced from interface to
  interface: the ARP request, the reply and the datagram that waited for it. A round of the
  simulation in which a single node has frames to send hands them to the other end of its cable and
  changes nothing else.
\<close>

section \<open>Frames on a cable\<close>

abbreviation flat :: "EthernetFrame \<Rightarrow> EthernetFrame" where
  "flat f \<equiv> f\<lparr>fr_payload := BufferList_of_string (BufferList_concatenate (fr_payload f))\<rparr>"

lemma flat_payload [simp]: "fr_payload (flat f) = [Buffer_of_string (BufferList_concatenate (fr_payload f))]"
  by (simp add: BufferList_of_string_def BufferList_append_def BufferList_of_Buffer_def)

lemma flat_summary: "\<exists>s. frame_summary (flat f) = Inr s"
  by (simp add: frame_summary_def split_beta Let_def)

text \<open>An interface with nothing to send and nothing that waits.\<close>

definition calm_ni :: "u32 \<Rightarrow> EthernetAddress \<Rightarrow> NetworkInterface \<Rightarrow> bool" where
  "calm_ni ip mac ni \<longleftrightarrow> NetworkInterface_inv ni \<and> ni_ip ni = ip \<and> ni_ethernet_address ni = mac \<and> ni_frames_out ni = []
     \<and> ni_ARP_pending_ip_addresses ni = [] \<and> ni_ARP_pending_datagrams ni = []"

lemma calm_address:
  assumes "NetworkInterface_inv ni"
  shows "Address_ipv4_numeric (ni_ip_address ni) = Inr (ni_ip ni)" "ni_addressed ni" "eth_address (ni_ethernet_address ni)"
  using assms by (auto simp: NetworkInterface_inv_def ni_addressed_def ni_ip_def)

lemma arp_message_wf:
  assumes "NetworkInterface_inv ni" and "opcode = OPCODE_REQUEST \<or> opcode = OPCODE_REPLY"
  shows "arp_wf (arp_message ni ip opcode)"
proof -
  have "eth_address (case ni_mac ni ip of Some mac \<Rightarrow> mac | None \<Rightarrow> EthernetAddress_zero)"
    using assms(1) by (auto simp: ni_mac_def NetworkInterface_inv_def eth_address_def EthernetAddress_zero_def split: option.splits)
  then show ?thesis using assms(2) calm_address(3)[OF assms(1)]
    by (simp add: arp_wf_def arp_message_def ARPMessage_supported_def ARPMessage_default_def)
qed

lemma parse_flat_arp:
  assumes "NetworkInterface_inv ni" and "opcode = OPCODE_REQUEST \<or> opcode = OPCODE_REPLY"
  shows "ARPMessage_parse (Buffer_of_string (BufferList_concatenate (fr_payload (arp_frame ni ip opcode)))) m0
    = (NoError, arp_message ni ip opcode)"
proof (rule ARPMessage_parse_bytes[OF arp_message_wf[OF assms], of "[]"])
  show "Buffer_inv (Buffer_of_string (BufferList_concatenate (fr_payload (arp_frame ni ip opcode))))"
    using length_arp_bytes[OF arp_message_wf[OF assms], of ip]
    by (simp add: arp_frame_def BufferList_of_string_def BufferList_append_def BufferList_of_Buffer_def fits_def)
qed (simp_all add: arp_frame_def BufferList_of_string_def BufferList_append_def BufferList_of_Buffer_def)

text \<open>An ARP message between two interfaces, and one that is for a third.\<close>

lemma recv_arp:
  assumes "NetworkInterface_inv x" and "NetworkInterface_inv y" and "opcode = OPCODE_REQUEST \<or> opcode = OPCODE_REPLY"
    and "ni_mac x (ni_ip y) = None \<or> ni_mac x (ni_ip y) = Some (ni_ethernet_address y)"
  shows "NetworkInterface_recv_frame (flat (arp_frame x (ni_ip y) opcode)) y =
    map_result (Pair None) (NetworkInterface_recv_ARP (arp_message x (ni_ip y) opcode) y)"
proof -
  have h: "fr_header (arp_frame x (ni_ip y) opcode) = \<lparr>eth_dst = (case ni_mac x (ni_ip y) of Some mac \<Rightarrow> mac | None \<Rightarrow> ETHERNET_BROADCAST),
      eth_src = ni_ethernet_address x, eth_type = TYPE_ARP\<rparr>" by (simp add: arp_frame_def)
  have t: "arp_target_ip_address (arp_message x (ni_ip y) opcode) = ni_ip y" by (simp add: arp_message_def)
  show ?thesis using assms(4) calm_address(1)[OF assms(2)] parse_flat_arp[OF assms(1,3)] t
    by (auto simp: NetworkInterface_recv_frame_def h Let_def TYPE_ARP_def TYPE_IPv4_def)
qed

lemma ignore_other_ip:
  assumes "NetworkInterface_inv x" and "NetworkInterface_inv z" and "opcode = OPCODE_REQUEST \<or> opcode = OPCODE_REPLY"
    and "ip \<noteq> ni_ip z"
  shows "NetworkInterface_recv_frame (flat (arp_frame x ip opcode)) z = Inr (None, z)"
proof -
  have t: "arp_target_ip_address (arp_message x ip opcode) = ip" "eth_type (fr_header (arp_frame x ip opcode)) = TYPE_ARP"
    by (simp_all add: arp_message_def arp_frame_def)
  show ?thesis using assms(4) calm_address(1)[OF assms(2)] parse_flat_arp[OF assms(1,3), of ip] t
    by (simp add: NetworkInterface_recv_frame_def Let_def TYPE_ARP_def TYPE_IPv4_def)
qed

lemma ignore_other_mac:
  "eth_dst (fr_header f) \<noteq> ni_ethernet_address z \<Longrightarrow> eth_dst (fr_header f) \<noteq> ETHERNET_BROADCAST \<Longrightarrow>
    NetworkInterface_recv_frame (flat f) z = Inr (None, z)"
  by (simp add: NetworkInterface_recv_frame_def)

text \<open>The three steps of a resolution.\<close>

lemma request_arrives:
  assumes "NetworkInterface_inv x" and "NetworkInterface_inv y" and "ni_mac x (ni_ip y) = None"
    and "ni_frames_out y = []" "ni_ARP_pending_ip_addresses y = []" "ni_ARP_pending_datagrams y = []"
    and "y1 = y\<lparr>ni_ARP_table := (ni_ARP_table y)(ni_ip x \<mapsto> (ni_ethernet_address x, DEFAULT_ARP_TTL))\<rparr>"
  shows "NetworkInterface_recv_frame (flat (arp_frame x (ni_ip y) OPCODE_REQUEST)) y =
    Inr (None, y1\<lparr>ni_frames_out := [arp_frame y1 (ni_ip x) OPCODE_REPLY]\<rparr>)"
proof -
  have m: "ni_ethernet_address x = arp_sender_ethernet_address (arp_message x (ni_ip y) OPCODE_REQUEST)"
    "ni_ip x = arp_sender_ip_address (arp_message x (ni_ip y) OPCODE_REQUEST)"
    "arp_opcode (arp_message x (ni_ip y) OPCODE_REQUEST) = OPCODE_REQUEST"
    by (simp_all add: arp_message_def)
  show ?thesis unfolding recv_arp[OF assms(1,2) disjI1[OF refl] disjI1[OF assms(3)]] recv_ARP_eq[OF assms(2) m(1,2) assms(7)] m(3)
    using assms(4-7) by (cases y) simp
qed

lemma reply_arrives:
  assumes "NetworkInterface_inv x" and "NetworkInterface_inv y" and "ni_mac y (ni_ip x) = Some (ni_ethernet_address x)"
    and "ni_frames_out x = []" "ni_ARP_pending_ip_addresses x = [(ni_ip y, t)]" "ni_ARP_pending_datagrams x = [(ni_ip y, d)]"
  shows "NetworkInterface_recv_frame (flat (arp_frame y (ni_ip x) OPCODE_REPLY)) x =
    Inr (None, x\<lparr>ni_ARP_table := (ni_ARP_table x)(ni_ip y \<mapsto> (ni_ethernet_address y, DEFAULT_ARP_TTL)),
                  ni_ARP_pending_ip_addresses := [], ni_ARP_pending_datagrams := [],
                  ni_frames_out := [dg_frame x (ni_ethernet_address y) d]\<rparr>)"
proof -
  have m: "ni_ethernet_address y = arp_sender_ethernet_address (arp_message y (ni_ip x) OPCODE_REPLY)"
    "ni_ip y = arp_sender_ip_address (arp_message y (ni_ip x) OPCODE_REPLY)"
    "arp_opcode (arp_message y (ni_ip x) OPCODE_REPLY) \<noteq> OPCODE_REQUEST"
    by (simp_all add: arp_message_def OPCODE_REPLY_def OPCODE_REQUEST_def)
  show ?thesis unfolding recv_arp[OF assms(2,1) disjI2[OF refl] disjI2[OF assms(3)]] recv_ARP_eq[OF assms(1) m(1,2) refl]
    using assms(4-6) m(3) by simp
qed

text \<open>A datagram arrives with the same bytes on the wire.\<close>

definition same_datagram :: "InternetDatagram \<Rightarrow> InternetDatagram \<Rightarrow> bool" where
  "same_datagram d d' \<longleftrightarrow> (\<exists>k. dg_header d' = (dg_header d)\<lparr>ip_cksum := k\<rparr>)
     \<and> BufferList_concatenate (dg_payload d') = BufferList_concatenate (dg_payload d)"

lemma same_datagram_trans: "same_datagram a b \<Longrightarrow> same_datagram b c \<Longrightarrow> same_datagram a c"
  by (auto simp: same_datagram_def)

lemma same_encodable: "dg_encodable d \<Longrightarrow> same_datagram d d' \<Longrightarrow> dg_encodable d'"
  by (auto simp: same_datagram_def dg_encodable_def ip_encodable_def)

lemma encodable_serializable: "dg_encodable d \<Longrightarrow> serializable d"
  using IPv4Datagram_serialize_eq[OF _ refl] by (simp add: serializable_def)

lemma same_wire:
  assumes "dg_encodable d" and "same_datagram d d'"
  shows "dgram_wire d' = dgram_wire d" "\<exists>w. dgram_wire d = Inr w"
proof -
  obtain k where k: "dg_header d' = (dg_header d)\<lparr>ip_cksum := k\<rparr>" using assms(2) by (auto simp: same_datagram_def)
  have p: "BufferList_concatenate (dg_payload d') = BufferList_concatenate (dg_payload d)"
    using assms(2) by (simp add: same_datagram_def)
  show "dgram_wire d' = dgram_wire d" "\<exists>w. dgram_wire d = Inr w"
    using IPv4Datagram_serialize_eq[OF assms(1) refl] IPv4Datagram_serialize_eq[OF same_encodable[OF assms] refl] k p
    by (simp_all add: dgram_wire_def)
qed

lemma datagram_arrives:
  assumes "dg_encodable d" and "mac = ni_ethernet_address y"
  shows "\<exists>d'. NetworkInterface_recv_frame (flat (dg_frame x mac d)) y = Inr (Some d', y) \<and> same_datagram d d'"
proof -
  let ?h = "dg_header d" and ?pl = "BufferList_concatenate (dg_payload d)"
  define k where "k = InternetChecksum_value (InternetChecksum_add (ip_bytes (?h\<lparr>ip_cksum := 0\<rparr>)) (InternetChecksum_new 0))"
  have e: "ip_encodable (?h\<lparr>ip_cksum := k\<rparr>)" "4 * unat (ip_hlen (?h\<lparr>ip_cksum := k\<rparr>)) + length ?pl = unat (ip_len (?h\<lparr>ip_cksum := k\<rparr>))"
    using assms(1) by (simp_all add: dg_encodable_def ip_encodable_def)
  obtain q :: NetParser where q: "IPv4Datagram_parse (Buffer_of_string (ip_bytes (?h\<lparr>ip_cksum := k\<rparr>) @ ?pl)) IPv4Datagram_default
      = (NoError, \<lparr>dg_header = ?h\<lparr>ip_cksum := k\<rparr>, dg_payload = [np_buffer q]\<rparr>)" "Buffer_str (np_buffer q) = ?pl"
    using IPv4Datagram_parse_encoded[OF e, of IPv4Datagram_default] by blast
  have f: "BufferList_concatenate (fr_payload (dg_frame x mac d)) = ip_bytes (?h\<lparr>ip_cksum := k\<rparr>) @ ?pl"
    "fr_header (dg_frame x mac d) = \<lparr>eth_dst = mac, eth_src = ni_ethernet_address x, eth_type = TYPE_IPv4\<rparr>"
    using IPv4Datagram_serialize_eq[OF assms(1) k_def] by (simp_all add: dg_frame_def)
  have "NetworkInterface_recv_frame (flat (dg_frame x mac d)) y
      = Inr (Some \<lparr>dg_header = ?h\<lparr>ip_cksum := k\<rparr>, dg_payload = [np_buffer q]\<rparr>, y)"
    using q(1) by (simp add: NetworkInterface_recv_frame_def f Let_def assms(2)[symmetric] BufferList_of_string_def
        BufferList_append_def BufferList_of_Buffer_def)
  then show ?thesis using q(2) by (auto simp: same_datagram_def)
qed

section \<open>Exchanges\<close>

abbreviation frames_of :: "AsyncNetworkInterface \<Rightarrow> EthernetFrame list" where
  "frames_of ai \<equiv> ni_frames_out (ai_interface ai)"

definition sent :: "AsyncNetworkInterface \<Rightarrow> AsyncNetworkInterface" where
  "sent ai = ai\<lparr>ai_interface := (ai_interface ai)\<lparr>ni_frames_out := []\<rparr>\<rparr>"

lemma clear_all: "clear_queues q (q @ r) = Inr r"
  by (induction q) simp_all

lemma clear_frames_all: "clear_frames (frames_of x) x = Inr (sent x)"
  using clear_all[of "frames_of x" "[]"] by (simp add: clear_frames_def sent_def)

lemma clear_frames_none [simp]: "clear_frames [] x = Inr x"
  by (simp add: clear_frames_def)

text \<open>Cables on which one interface at most has frames, and a third one ignores them.\<close>

lemma exchange_idle: "frames_of x = [] \<Longrightarrow> frames_of y = [] \<Longrightarrow> exchange_frames x y = Inr (x, y)"
  by (simp add: exchange_frames_def)

lemma exchange_one:
  "frames_of y = [] \<Longrightarrow> deliver (frames_of x) y = Inr y' \<Longrightarrow> exchange_frames x y = Inr (sent x, y')"
  "frames_of y = [] \<Longrightarrow> deliver (frames_of x) y = Inr y' \<Longrightarrow> exchange_frames y x = Inr (y', sent x)"
  by (simp_all add: exchange_frames_def clear_frames_all)

lemma exchange3_idle:
  "frames_of x = [] \<Longrightarrow> frames_of y = [] \<Longrightarrow> frames_of z = [] \<Longrightarrow> exchange_frames_3 x y z = Inr (x, y, z)"
  by (simp add: exchange_frames_3_def)

lemma exchange3_one:
  assumes "frames_of y = []" and "frames_of z = []" and "deliver (frames_of x) y = Inr y'" and "deliver (frames_of x) z = Inr z"
  shows "exchange_frames_3 x y z = Inr (sent x, y', z)" "exchange_frames_3 x z y = Inr (sent x, z, y')"
    "exchange_frames_3 y x z = Inr (y', sent x, z)" "exchange_frames_3 y z x = Inr (y', z, sent x)"
  using assms by (simp_all add: exchange_frames_3_def clear_frames_all)

definition ignores :: "AsyncNetworkInterface \<Rightarrow> EthernetFrame \<Rightarrow> bool" where
  "ignores z f \<longleftrightarrow> NetworkInterface_recv_frame (flat f) (ai_interface z) = Inr (None, ai_interface z)"

lemma deliver_ignored: "\<forall>f \<in> set fs. ignores z f \<Longrightarrow> deliver fs z = Inr z"
proof (induction fs)
  case (Cons f fs)
  obtain s where "frame_summary (flat f) = Inr s" using flat_summary by blast
  then show ?case using Cons by (simp add: ignores_def AsyncNetworkInterface_recv_frame_def)
qed simp

lemma deliver_one:
  assumes "NetworkInterface_recv_frame (flat f) (ai_interface y) = Inr (r, ni)"
  shows "deliver [f] y = Inr (y\<lparr>ai_interface := ni, ai_datagrams_out := ai_datagrams_out y @ (case r of None \<Rightarrow> [] | Some d \<Rightarrow> [d])\<rparr>)"
proof -
  obtain s where "frame_summary (flat f) = Inr s" using flat_summary by blast
  then show ?thesis using assms by (cases r) (simp_all add: AsyncNetworkInterface_recv_frame_def)
qed

section \<open>The nodes of the network\<close>

text \<open>A node is an interface of the router or a host; \<open>cable\<close> is the interface of the router it is connected to.\<close>

type_synonym node = "nat + string"

definition host_names :: "string list" where
  "host_names = [''applesauce'', ''default_router'', ''cherrypie'', ''hs_router'', ''dm42'', ''dm43'']"

definition nodes :: "node set" where
  "nodes = Inl ` {..<7} \<union> Inr ` set host_names"

definition host_cable :: "(string \<times> nat) list" where
  "host_cable = [(''default_router'', 0), (''applesauce'', 1), (''cherrypie'', 3), (''dm42'', 4), (''dm43'', 4), (''hs_router'', 5)]"

fun cable :: "node \<Rightarrow> nat" where
  "cable (Inl i) = i"
| "cable (Inr name) = (case map_of host_cable name of Some i \<Rightarrow> i | None \<Rightarrow> 7)"

fun node_get :: "node \<Rightarrow> Network \<Rightarrow> AsyncNetworkInterface" where
  "node_get (Inl i) N = ro_interfaces (nw_router N) ! i"
| "node_get (Inr name) N = ho_interface (the (nw_hosts N name))"

fun node_put :: "node \<Rightarrow> AsyncNetworkInterface \<Rightarrow> Network \<Rightarrow> Network" where
  "node_put (Inl i) ai N = put_interface (of_nat i) ai N"
| "node_put (Inr name) ai N = put_host name ((the (nw_hosts N name))\<lparr>ho_interface := ai\<rparr>) N"

text \<open>The addresses of the program and the routing table it builds.\<close>

fun node_ip :: "node \<Rightarrow> u32" where
  "node_ip (Inl i) = [0xab434c2e, 0x0a000001, 0xac100001, 0xc0a80001, 0xc6b2e501, 0x8fc30002, 0x801e4cff] ! i"
| "node_ip (Inr name) = the (map_of [(''applesauce'', 0x0a000002), (''default_router'', 0xab434c01), (''cherrypie'', 0xc0a80002),
     (''hs_router'', 0x8fc30001), (''dm42'', 0xc6b2e52a), (''dm43'', 0xc6b2e52b)] name)"

definition host_hop :: "string \<Rightarrow> u32" where
  "host_hop name = (if name = ''default_router'' \<or> name = ''hs_router'' then 0 else node_ip (Inl (cable (Inr name))))"

definition sim_route :: "u32 \<Rightarrow> u8 \<Rightarrow> u32 option \<Rightarrow> u64 \<Rightarrow> RoutingTableEntry" where
  "sim_route p n hop i = \<lparr>rt_route_prefix = p, rt_prefix_length = n,
     rt_prefix_mask = (if n = 0 then 0 else push_bit (32 - unat n) (not 0)),
     rt_next_hop = map_option (ipv4_address 0) hop, rt_interface_num = i\<rparr>"

definition sim_table :: "RoutingTableEntry list" where
  "sim_table = [sim_route 0 0 (Some 0xab434c01) 0, sim_route 0x0a000000 8 None 1, sim_route 0xac100000 16 None 2,
     sim_route 0xc0a80000 24 None 3, sim_route 0xc6b2e500 24 None 4, sim_route 0x8fc30000 17 (Some 0x8fc30001) 5,
     sim_route 0x8fc38000 18 (Some 0x8fc30001) 5, sim_route 0x8fc3c000 19 (Some 0x8fc30001) 5,
     sim_route 0x801e4cff 16 (Some 0x801e0001) 6]"

definition net_wf :: "Network \<Rightarrow> bool" where
  "net_wf N \<longleftrightarrow> length (ro_interfaces (nw_router N)) = 7 \<and> ro_routingTable (nw_router N) = sim_table
     \<and> nw_default_id N = 0 \<and> nw_eth0_id N = 1 \<and> nw_eth1_id N = 2 \<and> nw_eth2_id N = 3 \<and> nw_uun3_id N = 4 \<and> nw_hs4_id N = 5
     \<and> nw_mit5_id N = 6 \<and> dom (nw_hosts N) = set host_names
     \<and> (\<forall>name h. nw_hosts N name = Some h \<longrightarrow> ho_name h = name \<and> ho_my_address h = ipv4_address 0 (node_ip (Inr name))
          \<and> ho_next_hop h = ipv4_address 0 (host_hop name))"

lemma node_cases:
  assumes "p \<in> nodes"
  obtains i where "p = Inl i" "i < 7" | name where "p = Inr name" "name \<in> set host_names"
  using assms by (auto simp: nodes_def)

lemma unat_small: "i < 7 \<Longrightarrow> unat (of_nat i :: u64) = i"
  by (rule unat_of_nat64) simp

lemma host_some:
  assumes "net_wf N" and "name \<in> set host_names"
  obtains h where "nw_hosts N name = Some h"
  using assms domD[of name "nw_hosts N"] by (auto simp: net_wf_def)

lemma node_put_same:
  assumes "net_wf N" and "p \<in> nodes" and "node_get p N = ai"
  shows "node_put p ai N = N"
  using assms(2)
proof (cases rule: node_cases)
  case (2 name)
  obtain h where "nw_hosts N name = Some h" using host_some[OF assms(1) 2(2)] .
  then show ?thesis using 2 assms(3) by (auto simp: put_host_def fun_upd_idem)
qed (use assms(3) in \<open>auto simp: put_interface_def unat_small\<close>)

lemma node_get_put:
  assumes "net_wf N" and "p \<in> nodes" and "q \<in> nodes"
  shows "node_get p (node_put q ai N) = (if p = q then ai else node_get p N)"
  using assms by (elim node_cases) (auto simp: put_interface_def put_host_def unat_small net_wf_def)

lemma node_put_wf:
  assumes "net_wf N" and "p \<in> nodes"
  shows "net_wf (node_put p ai N)"
  using assms(2)
proof (cases rule: node_cases)
  case (2 name)
  obtain h where "nw_hosts N name = Some h" using host_some[OF assms(1) 2(2)] .
  then show ?thesis using assms(1) 2 by (auto simp: net_wf_def put_host_def)
qed (use assms(1) in \<open>auto simp: net_wf_def put_interface_def\<close>)

section \<open>A round\<close>

abbreviation idle :: "Network \<Rightarrow> node \<Rightarrow> bool" where
  "idle N p \<equiv> frames_of (node_get p N) = []"

definition queues_empty :: "Network \<Rightarrow> bool" where
  "queues_empty N \<longleftrightarrow> (\<forall>i < 7. ai_datagrams_out (node_get (Inl i) N) = [])"

lemma Network_host_eq:
  assumes "net_wf N" and "name \<in> set host_names"
  shows "Network_host name N = Inr (the (nw_hosts N name))"
proof -
  obtain h where "nw_hosts N name = Some h" using host_some[OF assms] .
  then show ?thesis using assms(1) by (simp add: net_wf_def Network_host_def)
qed

lemma Router_interface_eq: "net_wf N \<Longrightarrow> i < 7 \<Longrightarrow> Router_interface (of_nat i) (nw_router N) = Inr (node_get (Inl i) N)"
  by (simp add: Router_interface_def unat_small net_wf_def)

lemma connect_host_eq:
  assumes "net_wf N" and "i < 7" and "name \<in> set host_names"
  shows "connect_host (of_nat i) name N = map_result (\<lambda>(x, y). node_put (Inr name) y (node_put (Inl i) x N))
    (exchange_frames (node_get (Inl i) N) (node_get (Inr name) N))"
  using assms by (simp add: connect_host_def Network_host_eq Router_interface_eq put_interface_def)

lemma connect_hosts_eq:
  assumes "net_wf N" and "i < 7" and "name1 \<in> set host_names" "name2 \<in> set host_names" "name1 \<noteq> name2"
  shows "connect_hosts (of_nat i) name1 name2 N =
    map_result (\<lambda>(x, y, z). node_put (Inr name2) z (node_put (Inr name1) y (node_put (Inl i) x N)))
      (exchange_frames_3 (node_get (Inl i) N) (node_get (Inr name1) N) (node_get (Inr name2) N))"
  using assms by (simp add: connect_hosts_def Network_host_eq Router_interface_eq put_interface_def put_host_def split_beta)

lemma nodesI: "i < 7 \<Longrightarrow> Inl i \<in> nodes" "name \<in> set host_names \<Longrightarrow> Inr name \<in> nodes"
  by (simp_all add: nodes_def)

declare node_get.simps [simp del] node_put.simps [simp del] cable.simps(2) [simp del] node_ip.simps [simp del]

lemma connect_host_idle:
  assumes "net_wf N" and "i < 7" and "name \<in> set host_names" and "idle N (Inl i)" and "idle N (Inr name)"
  shows "connect_host (of_nat i) name N = Inr N"
  using assms by (simp add: connect_host_eq exchange_idle node_put_same nodesI)

lemma connect_hosts_idle:
  assumes "net_wf N" and "i < 7" and "name1 \<in> set host_names" "name2 \<in> set host_names" "name1 \<noteq> name2"
    and "idle N (Inl i)" and "idle N (Inr name1)" and "idle N (Inr name2)"
  shows "connect_hosts (of_nat i) name1 name2 N = Inr N"
  using assms by (simp add: connect_hosts_eq exchange3_idle node_put_same nodesI)

lemma route_idle:
  assumes "\<forall>i \<in> set is. ai_datagrams_out (ro_interfaces r ! i) = []"
  shows "route_interfaces is r = Inr r"
  using assms by (induction "is") simp_all

lemma Router_route_idle: "net_wf N \<Longrightarrow> queues_empty N \<Longrightarrow> Router_route (nw_router N) = Inr (nw_router N)"
  unfolding Router_route_def by (rule route_idle) (simp add: queues_empty_def net_wf_def node_get.simps)

lemma node_put_comm:
  assumes "net_wf N" and "p \<in> nodes" and "q \<in> nodes" and "p \<noteq> q"
  shows "node_put p x (node_put q y N) = node_put q y (node_put p x N)"
  using assms
  by (elim node_cases) (auto simp: node_put.simps put_interface_def put_host_def unat_small list_update_swap fun_upd_twist)

text \<open>The two ends of a cable, when one of them has frames to send.\<close>

definition adjacent :: "node \<Rightarrow> node \<Rightarrow> bool" where
  "adjacent p q \<longleftrightarrow> (\<exists>(name, i) \<in> set host_cable. p = Inl i \<and> q = Inr name \<or> p = Inr name \<and> q = Inl i)"

lemma host_cable_nodes: "(name, i) \<in> set host_cable \<Longrightarrow> i < 7 \<and> name \<in> set host_names \<and> cable (Inr name) = i"
proof -
  have "list_all (\<lambda>(name, i). i < 7 \<and> name \<in> set host_names \<and> cable (Inr name) = i) host_cable" by code_simp
  then show "(name, i) \<in> set host_cable \<Longrightarrow> i < 7 \<and> name \<in> set host_names \<and> cable (Inr name) = i"
    by (fastforce simp: list_all_iff)
qed

lemma adjacent_nodes:
  assumes "adjacent p q"
  shows "p \<in> nodes" "q \<in> nodes" "cable q = cable p" "p \<noteq> q"
proof -
  obtain name i where e: "(name, i) \<in> set host_cable" "p = Inl i \<and> q = Inr name \<or> p = Inr name \<and> q = Inl i"
    using assms unfolding adjacent_def by blast
  from host_cable_nodes[OF e(1)] e(2) show "p \<in> nodes" "q \<in> nodes" "cable q = cable p" "p \<noteq> q"
    by (elim disjE conjE; simp add: nodes_def)+
qed

lemma adjacent_sym: "adjacent p q \<Longrightarrow> adjacent q p"
  by (auto simp: adjacent_def)

text \<open>What an exchange on one cable does when \<open>p\<close> has frames and \<open>q\<close> takes them.\<close>

definition handed :: "node \<Rightarrow> node \<Rightarrow> AsyncNetworkInterface \<Rightarrow> Network \<Rightarrow> Network" where
  "handed p q y N = node_put q y (node_put p (sent (node_get p N)) N)"

lemma handed_get:
  assumes "net_wf N" and "adjacent p q" and "r \<in> nodes"
  shows "node_get r (handed p q y N) = (if r = q then y else if r = p then sent (node_get p N) else node_get r N)"
  using assms adjacent_nodes[OF assms(2)] by (simp add: handed_def node_get_put node_put_wf)

lemma handed_wf: "net_wf N \<Longrightarrow> adjacent p q \<Longrightarrow> net_wf (handed p q y N)"
  using adjacent_nodes by (simp add: handed_def node_put_wf)

lemma connect_host_handed:
  assumes "net_wf N" and "i < 7" and "name \<in> set host_names" and "adjacent p q"
    and "{p, q} = {Inl i, Inr name}" and "idle N q" and "deliver (frames_of (node_get p N)) (node_get q N) = Inr y"
  shows "connect_host (of_nat i) name N = Inr (handed p q y N)"
proof -
  note ex = exchange_one[OF assms(6,7)]
  consider "p = Inl i" "q = Inr name" | "p = Inr name" "q = Inl i" using assms(5) by (auto simp: doubleton_eq_iff)
  then show ?thesis
  proof cases
    case 1
    show ?thesis unfolding connect_host_eq[OF assms(1-3)] using ex(1) 1 by (simp add: handed_def)
  next
    case 2
    have "node_put (Inr name) (sent (node_get p N)) (node_put (Inl i) y N) = handed p q y N"
      unfolding handed_def 2 by (rule node_put_comm[OF assms(1)]) (use assms(2,3) in \<open>auto simp: nodes_def\<close>)
    then show ?thesis unfolding connect_host_eq[OF assms(1-3)] using ex(2) 2 by (simp)
  qed
qed

lemma connect_hosts_handed:
  assumes "net_wf N" and "i < 7" and "name1 \<in> set host_names" "name2 \<in> set host_names" "name1 \<noteq> name2" and "adjacent p q"
    and "{p, q} = {Inl i, Inr name1} \<and> r = Inr name2 \<or> {p, q} = {Inl i, Inr name2} \<and> r = Inr name1"
    and "idle N q" and "idle N r" and "deliver (frames_of (node_get p N)) (node_get q N) = Inr y"
    and "deliver (frames_of (node_get p N)) (node_get r N) = Inr (node_get r N)"
  shows "connect_hosts (of_nat i) name1 name2 N = Inr (handed p q y N)"
proof -
  note ex = exchange3_one[OF assms(8-11)]
  have n: "Inl i \<in> nodes" "Inr name1 \<in> nodes" "Inr name2 \<in> nodes" using assms(2-4) by (simp_all add: nodes_def)
  note simps = handed_def node_put_wf node_put_same node_get_put n assms(1,5) assms(5)[symmetric]
  have c: "node_put (Inr name) z (node_put (Inl i) x N) = node_put (Inl i) x (node_put (Inr name) z N)" if "Inr name \<in> nodes" for name x z
    by (rule node_put_comm[OF assms(1) that n(1)]) simp
  consider "p = Inl i" "q = Inr name1" "r = Inr name2" | "p = Inr name1" "q = Inl i" "r = Inr name2"
    | "p = Inl i" "q = Inr name2" "r = Inr name1" | "p = Inr name2" "q = Inl i" "r = Inr name1"
    using assms(7) by (auto simp: doubleton_eq_iff)
  then show ?thesis
  proof cases
    case 1
    show ?thesis unfolding connect_hosts_eq[OF assms(1-5)] using ex(1) 1 by (simp add: simps)
  next
    case 2
    show ?thesis unfolding connect_hosts_eq[OF assms(1-5)] using ex(3) 2 c[OF n(2)] by (simp add: simps)
  next
    case 3
    show ?thesis unfolding connect_hosts_eq[OF assms(1-5)] using ex(2) 3 by (simp add: simps)
  next
    case 4
    show ?thesis unfolding connect_hosts_eq[OF assms(1-5)] using ex(4) 4 c[OF n(3)] by (simp add: simps)
  qed
qed

lemma physical_chain:
  assumes "net_wf N0" "connect_host (of_nat 0) ''default_router'' N0 = Inr N1"
    and "net_wf N1" "connect_host (of_nat 1) ''applesauce'' N1 = Inr N2"
    and "net_wf N2" "connect_host (of_nat 3) ''cherrypie'' N2 = Inr N3"
    and "net_wf N3" "connect_host (of_nat 5) ''hs_router'' N3 = Inr N4"
    and "net_wf N4" "connect_hosts (of_nat 4) ''dm42'' ''dm43'' N4 = Inr N5"
  shows "simulate_physical_connections N0 = Inr N5"
proof -
  have ids: "nw_default_id N = of_nat 0" "nw_eth0_id N = of_nat 1" "nw_eth2_id N = of_nat 3" "nw_hs4_id N = of_nat 5"
    "nw_uun3_id N = of_nat 4" if "net_wf N" for N using that by (simp_all add: net_wf_def)
  show ?thesis unfolding simulate_physical_connections_def
    by (simp only: ids[OF assms(1)] ids[OF assms(3)] ids[OF assms(5)] ids[OF assms(7)] ids[OF assms(9)] assms bind_result_simps)
qed

lemma cable_members:
  "(''default_router'', 0) \<in> set host_cable" "(''applesauce'', 1) \<in> set host_cable" "(''cherrypie'', 3) \<in> set host_cable"
  "(''hs_router'', 5) \<in> set host_cable" "(''dm42'', 4) \<in> set host_cable" "(''dm43'', 4) \<in> set host_cable"
  unfolding host_cable_def set_simps by (intro insertI1 insertI2)+

lemma host_distinct: "distinct host_names"
  by code_simp

lemma cable_cases:
  assumes "(name, i) \<in> set host_cable"
  obtains "name = ''default_router''" "i = 0" | "name = ''applesauce''" "i = 1" | "name = ''cherrypie''" "i = 3"
    | "name = ''hs_router''" "i = 5" | "name = ''dm42''" "i = 4" | "name = ''dm43''" "i = 4"
  using assms unfolding host_cable_def set_simps insert_iff empty_iff prod.inject
  by (elim disjE conjE FalseE) (rule that, assumption, assumption)+

lemma rounds_physical:
  assumes "net_wf N" and "queues_empty N"
  shows "simulate_round N = simulate_physical_connections N"
  using Router_route_idle[OF assms] by (simp add: simulate_round_def)

lemma physical_idle:
  assumes "net_wf N" and "\<And>r. r \<in> nodes \<Longrightarrow> idle N r"
  shows "simulate_physical_connections N = Inr N"
proof -
  have "connect_host (of_nat i) name N = Inr N" if "(name, i) \<in> set host_cable" for name i
    using host_cable_nodes[OF that] assms(1) by (intro connect_host_idle assms(2) nodesI) simp_all
  moreover have "connect_hosts (of_nat 4) ''dm42'' ''dm43'' N = Inr N"
    using host_cable_nodes[OF cable_members(5)] host_cable_nodes[OF cable_members(6)] assms(1)
    by (intro connect_hosts_idle assms(2) nodesI) simp_all
  ultimately show ?thesis using cable_members assms(1) by (intro physical_chain) blast+
qed

text \<open>One node has frames for another over their cable, and every other node is idle or ignores them.\<close>

definition one_sender :: "Network \<Rightarrow> node \<Rightarrow> node \<Rightarrow> AsyncNetworkInterface \<Rightarrow> bool" where
  "one_sender N p q y \<longleftrightarrow> net_wf N \<and> adjacent p q \<and> (\<forall>r \<in> nodes. r \<noteq> p \<longrightarrow> idle N r)
     \<and> (\<forall>r \<in> nodes. cable r = cable p \<and> r \<noteq> p \<and> r \<noteq> q \<longrightarrow> (\<forall>f \<in> set (frames_of (node_get p N)). ignores (node_get r N) f))
     \<and> deliver (frames_of (node_get p N)) (node_get q N) = Inr y"

lemma one_senderD:
  assumes "one_sender N p q y"
  shows "net_wf N" "adjacent p q" "r \<in> nodes \<Longrightarrow> r \<noteq> p \<Longrightarrow> idle N r" "deliver (frames_of (node_get p N)) (node_get q N) = Inr y"
    "r \<in> nodes \<Longrightarrow> cable r = cable p \<Longrightarrow> r \<noteq> p \<Longrightarrow> r \<noteq> q \<Longrightarrow> deliver (frames_of (node_get p N)) (node_get r N) = Inr (node_get r N)"
  using assms by (auto simp: one_sender_def intro: deliver_ignored)

lemma idle_before:
  assumes "one_sender N p q y" and "(name, i) \<in> set host_cable" and "p \<noteq> Inl i" "p \<noteq> Inr name"
  shows "connect_host (of_nat i) name N = Inr N"
  using host_cable_nodes[OF assms(2)] assms(3,4) by (intro connect_host_idle one_senderD[OF assms(1)] nodesI) auto

lemma idle_after:
  assumes "one_sender N p q y" and "(name, i) \<in> set host_cable" and "{p, q} \<inter> {Inl i, Inr name} = {}"
  shows "connect_host (of_nat i) name (handed p q y N) = Inr (handed p q y N)"
proof -
  note s = one_senderD[OF assms(1)]
  have "idle (handed p q y N) r" if "r \<in> nodes" "r \<noteq> p" "r \<noteq> q" for r
    unfolding handed_get[OF s(1,2) that(1)] using that s(3) by simp
  then show ?thesis using host_cable_nodes[OF assms(2)] assms(3)
    by (intro connect_host_idle handed_wf s(1,2)) (simp_all add: nodesI)
qed

lemma on_cable:
  assumes "one_sender N p q y" and "(name, i) \<in> set host_cable" and "{p, q} = {Inl i, Inr name}"
  shows "connect_host (of_nat i) name N = Inr (handed p q y N)"
  using host_cable_nodes[OF assms(2)] adjacent_nodes[OF one_senderD(2)[OF assms(1)]] assms(3)
  by (intro connect_host_handed one_senderD[OF assms(1)]) auto

lemma on_shared_cable:
  fixes r :: node
  assumes "one_sender N p q y" and "{p, q} = {Inl 4, Inr ''dm42''} \<and> r = Inr ''dm43'' \<or> {p, q} = {Inl 4, Inr ''dm43''} \<and> r = Inr ''dm42''"
  shows "connect_hosts (of_nat 4) ''dm42'' ''dm43'' N = Inr (handed p q y N)"
proof -
  note s = one_senderD[OF assms(1)] and m = host_cable_nodes[OF cable_members(5)] host_cable_nodes[OF cable_members(6)]
  have d: "''dm42'' \<noteq> ''dm43''" by simp
  have p: "p \<in> {Inl 4, Inr ''dm42'', Inr ''dm43''}" "q \<in> {Inl 4, Inr ''dm42'', Inr ''dm43''}" using assms(2) by blast+
  then have r: "r \<in> nodes" "cable r = cable p" "r \<noteq> p" "r \<noteq> q" using assms(2) m d by (auto simp: nodesI doubleton_eq_iff)
  show ?thesis using m d adjacent_nodes[OF s(2)]
    by (intro connect_hosts_handed[OF s(1) _ _ _ _ s(2) assms(2) s(3) s(3) s(4) s(5)] r) simp_all
qed

lemma physical_one_sender:
  assumes "one_sender N p q y"
  shows "simulate_physical_connections N = Inr (handed p q y N)"
proof -
  note s = one_senderD(1,2)[OF assms]
  note chain = physical_chain and wfs = s(1) handed_wf[OF s]
  note before = idle_before[OF assms] and after = idle_after[OF assms] and on = on_cable[OF assms] and shared = on_shared_cable[OF assms]
  have after4: "connect_hosts (of_nat 4) ''dm42'' ''dm43'' (handed p q y N) = Inr (handed p q y N)"
    if "{p, q} \<inter> {Inl 4, Inr ''dm42'', Inr ''dm43''} = {}"
  proof -
    have "idle (handed p q y N) r" if "r \<in> {Inl 4, Inr ''dm42'', Inr ''dm43''}" for r
    proof -
      have "r \<in> nodes" "r \<noteq> p" "r \<noteq> q"
        using that \<open>{p, q} \<inter> _ = {}\<close> host_cable_nodes[OF cable_members(5)] host_cable_nodes[OF cable_members(6)] by (auto intro: nodesI)
      then show ?thesis unfolding handed_get[OF s \<open>r \<in> nodes\<close>] using one_senderD(3)[OF assms] by simp
    qed
    then show ?thesis using host_cable_nodes[OF cable_members(5)] host_cable_nodes[OF cable_members(6)]
      by (intro connect_hosts_idle wfs) simp_all
  qed
  obtain name i where e: "(name, i) \<in> set host_cable" "{p, q} = {Inl i, Inr name}"
    using s(2) unfolding adjacent_def by blast
  then have pq: "p \<in> {Inl i, Inr name}" "q \<in> {Inl i, Inr name}" by blast+
  have off: "j \<noteq> i \<Longrightarrow> p \<noteq> Inl j" "s \<noteq> name \<Longrightarrow> p \<noteq> Inr s" "j \<noteq> i \<Longrightarrow> s \<noteq> name \<Longrightarrow> {p, q} \<inter> {Inl j, Inr s} = {}" for j s
    using pq by blast+
  have off4: "{p, q} \<inter> {Inl 4, Inr ''dm42'', Inr ''dm43''} = {}" if "4 \<noteq> i" "''dm42'' \<noteq> name" "''dm43'' \<noteq> name" using pq that by blast
  note b1 = before[OF cable_members(1) off(1,2)] and b2 = before[OF cable_members(2) off(1,2)] and b3 = before[OF cable_members(3) off(1,2)]
    and b4 = before[OF cable_members(4) off(1,2)]
  note a2 = after[OF cable_members(2) off(3)] and a3 = after[OF cable_members(3) off(3)] and a4 = after[OF cable_members(4) off(3)]
    and a5 = after4[OF off4]
  from e(1) show ?thesis
  proof (cases rule: cable_cases)
    case 1
    show ?thesis by (rule chain[OF wfs(1) on[OF e[unfolded 1]] wfs(2) a2 wfs(2) a3 wfs(2) a4 wfs(2) a5]) (simp_all add: 1)
  next
    case 2
    show ?thesis by (rule chain[OF wfs(1) b1 wfs(1) on[OF e[unfolded 2]] wfs(2) a3 wfs(2) a4 wfs(2) a5]) (simp_all add: 2)
  next
    case 3
    show ?thesis by (rule chain[OF wfs(1) b1 wfs(1) b2 wfs(1) on[OF e[unfolded 3]] wfs(2) a4 wfs(2) a5]) (simp_all add: 3)
  next
    case 4
    show ?thesis by (rule chain[OF wfs(1) b1 wfs(1) b2 wfs(1) b3 wfs(1) on[OF e[unfolded 4]] wfs(2) a5]) (simp_all add: 4)
  next
    case 5
    note sh = shared[OF disjI1[OF conjI[OF e(2)[unfolded 5] refl]]]
    show ?thesis by (rule chain[OF wfs(1) b1 wfs(1) b2 wfs(1) b3 wfs(1) b4 wfs(1) sh]) (simp_all add: 5)
  next
    case 6
    note sh = shared[OF disjI2[OF conjI[OF e(2)[unfolded 6] refl]]]
    show ?thesis by (rule chain[OF wfs(1) b1 wfs(1) b2 wfs(1) b3 wfs(1) b4 wfs(1) sh]) (simp_all add: 6)
  qed
qed

end
