(* ===== verification/Simulator_Run.thy ===== *)
theory Simulator_Run
  imports Simulator_Cables
begin

text \<open>
  The run of the network simulator. A datagram for a neighbour whose Ethernet address is not known
  takes three rounds (ARP request, reply, datagram), otherwise one. Two such hops with the router
  between them carry a datagram from host to host; they leave every queue empty and every learned
  address true, so that the next test starts from a state of the same kind.
\<close>

section \<open>Two nodes of a network\<close>

definition pair_net :: "node \<Rightarrow> AsyncNetworkInterface \<Rightarrow> node \<Rightarrow> AsyncNetworkInterface \<Rightarrow> Network \<Rightarrow> Network" where
  "pair_net p x q y N = node_put q y (node_put p x N)"

lemma node_put_put:
  assumes "net_wf N" and "p \<in> nodes"
  shows "node_put p x (node_put p y N) = node_put p x N"
  using assms by (elim node_cases) (auto simp: node_put.simps put_interface_def put_host_def unat_small)

lemma pair_net_swap: "net_wf N \<Longrightarrow> adjacent p q \<Longrightarrow> pair_net p x q y N = pair_net q y p x N"
  using adjacent_nodes[of p q] by (simp add: pair_net_def node_put_comm)

lemma pair_net_wf: "net_wf N \<Longrightarrow> adjacent p q \<Longrightarrow> net_wf (pair_net p x q y N)"
  using adjacent_nodes by (simp add: pair_net_def node_put_wf)

lemma pair_net_get:
  assumes "net_wf N" and "adjacent p q" and "r \<in> nodes"
  shows "node_get r (pair_net p x q y N) = (if r = q then y else if r = p then x else node_get r N)"
  using assms adjacent_nodes[OF assms(2)] by (simp add: pair_net_def node_get_put node_put_wf)

lemma pair_net_put:
  assumes "net_wf N" and "adjacent p q"
  shows "node_put q y' (pair_net p x q y N) = pair_net p x q y' N"
  using assms adjacent_nodes[OF assms(2)] by (simp add: pair_net_def node_put_put node_put_wf)

lemma handed_pair_net:
  assumes "net_wf N" and "adjacent p q"
  shows "handed p q y' (pair_net p x q y N) = pair_net p (sent x) q y' N"
proof -
  note n = adjacent_nodes[OF assms(2)]
  have g: "node_get p (pair_net p x q y N) = x" using n(4) by (simp add: pair_net_get[OF assms n(1)])
  have "node_put p (sent x) (pair_net q y p x N) = pair_net p (sent x) q y N"
    unfolding pair_net_put[OF assms(1) adjacent_sym[OF assms(2)]] by (rule pair_net_swap[OF assms(1) adjacent_sym[OF assms(2)]])
  then have "node_put p (sent x) (pair_net p x q y N) = pair_net p (sent x) q y N" unfolding pair_net_swap[OF assms, of x y] .
  then show ?thesis by (simp only: handed_def g pair_net_put[OF assms])
qed

section \<open>Calm networks\<close>

text \<open>
  Nothing is under way, and whatever a node knows of the addresses on its cable is true; \<open>M\<close> gives
  the Ethernet addresses of the nodes.
\<close>

definition calm_net :: "(node \<Rightarrow> EthernetAddress) \<Rightarrow> Network \<Rightarrow> bool" where
  "calm_net M N \<longleftrightarrow> net_wf N
     \<and> (\<forall>p \<in> nodes. calm_ni (node_ip p) (M p) (ai_interface (node_get p N)) \<and> ai_datagrams_out (node_get p N) = [])
     \<and> (\<forall>p \<in> nodes. \<forall>q \<in> nodes. cable p = cable q \<and> p \<noteq> q \<longrightarrow>
          ni_mac (ai_interface (node_get p N)) (node_ip q) = None \<or> ni_mac (ai_interface (node_get p N)) (node_ip q) = Some (M q))"

text \<open>The Ethernet addresses on the shared cable differ, and none is the broadcast address.\<close>

definition macs_ok :: "(node \<Rightarrow> EthernetAddress) \<Rightarrow> bool" where
  "macs_ok M \<longleftrightarrow> (\<forall>p \<in> nodes. M p \<noteq> ETHERNET_BROADCAST)
     \<and> distinct [M (Inl 4), M (Inr ''dm42''), M (Inr ''dm43'')]"

definition node_list :: "node list" where
  "node_list = map Inl [0..<7] @ map Inr host_names"

lemma set_node_list: "set node_list = nodes"
  by (auto simp: node_list_def nodes_def)

lemma node_ip_differ: "p \<in> nodes \<Longrightarrow> q \<in> nodes \<Longrightarrow> cable p = cable q \<Longrightarrow> p \<noteq> q \<Longrightarrow> node_ip p \<noteq> node_ip q"
proof -
  have "list_all (\<lambda>p. list_all (\<lambda>q. cable p = cable q \<and> p \<noteq> q \<longrightarrow> node_ip p \<noteq> node_ip q) node_list) node_list" by code_simp
  then show "p \<in> nodes \<Longrightarrow> q \<in> nodes \<Longrightarrow> cable p = cable q \<Longrightarrow> p \<noteq> q \<Longrightarrow> node_ip p \<noteq> node_ip q"
    by (simp add: list_all_iff set_node_list)
qed

lemma three_on_cable:
  assumes "p \<in> nodes" "q \<in> nodes" "r \<in> nodes" "cable q = cable p" "cable r = cable p" "p \<noteq> q" "r \<noteq> p" "r \<noteq> q"
  shows "p \<in> {Inl 4, Inr ''dm42'', Inr ''dm43''}"
proof -
  have "list_all (\<lambda>p. length (filter (\<lambda>q. cable q = cable p) node_list) \<le> 2 \<or> p \<in> set [Inl 4, Inr ''dm42'', Inr ''dm43'']) node_list"
    by code_simp
  moreover have "\<not> length (filter (\<lambda>q. cable q = cable p) node_list) \<le> 2"
  proof -
    have "{p, q, r} \<subseteq> set (filter (\<lambda>q. cable q = cable p) node_list)" using assms by (auto simp: set_node_list)
    then have "card {p, q, r} \<le> length (filter (\<lambda>q. cable q = cable p) node_list)"
      by (meson List.finite_set card_length card_mono order_trans)
    then show ?thesis using assms(6-8) by (simp add: card_insert_if)
  qed
  ultimately show ?thesis using assms(1) unfolding list_all_iff set_node_list by auto
qed

lemma bystander_mac:
  assumes "macs_ok M" and "adjacent p q" and "r \<in> nodes" "cable r = cable p" "r \<noteq> p" "r \<noteq> q"
  shows "M r \<noteq> M p" "M r \<noteq> M q"
proof -
  note n = adjacent_nodes[OF assms(2)]
  let ?S = "{Inl 4, Inr ''dm42'', Inr ''dm43''} :: node set"
  have "p \<in> ?S" "q \<in> ?S" "r \<in> ?S"
    using three_on_cable[of p q r] three_on_cable[of q p r] three_on_cable[of r p q] n assms(3-6) by metis+
  moreover have "M a \<noteq> M b" if "a \<in> ?S" "b \<in> ?S" "a \<noteq> b" for a b
    using that assms(1) unfolding macs_ok_def by auto
  ultimately show "M r \<noteq> M p" "M r \<noteq> M q" using assms(5,6) by blast+
qed

section \<open>A hop\<close>

lemma calm_netD:
  assumes "calm_net M N"
  shows "net_wf N" "p \<in> nodes \<Longrightarrow> calm_ni (node_ip p) (M p) (ai_interface (node_get p N))"
    "p \<in> nodes \<Longrightarrow> ai_datagrams_out (node_get p N) = []" "p \<in> nodes \<Longrightarrow> idle N p"
    "adjacent p q \<Longrightarrow> ni_mac (ai_interface (node_get p N)) (node_ip q) = None \<or> ni_mac (ai_interface (node_get p N)) (node_ip q) = Some (M q)"
  using assms adjacent_nodes[of p q] unfolding calm_net_def calm_ni_def by metis+

text \<open>A round between two nodes of a calm network.\<close>

lemma pair_round:
  assumes "calm_net M N" and "adjacent p q" and "ai_datagrams_out x = []" "ai_datagrams_out y = []" "frames_of y = []"
    and "\<And>r f. r \<in> nodes \<Longrightarrow> cable r = cable p \<Longrightarrow> r \<noteq> p \<Longrightarrow> r \<noteq> q \<Longrightarrow> f \<in> set (frames_of x) \<Longrightarrow> ignores (node_get r N) f"
    and "deliver (frames_of x) y = Inr y'"
  shows "simulate_rounds (Suc m) (pair_net p x q y N) = simulate_rounds m (pair_net p (sent x) q y' N)"
proof -
  note c = calm_netD[OF assms(1)]
  note n = adjacent_nodes[OF assms(2)] and get = pair_net_get[OF c(1) assms(2)]
  have "one_sender (pair_net p x q y N) p q y'"
    unfolding one_sender_def using pair_net_wf[OF c(1) assms(2)] n assms(2,5,6,7) c(4) by (simp add: get)
  moreover have "queues_empty (pair_net p x q y N)"
    unfolding queues_empty_def using assms(3,4) c(3) by (simp add: get nodesI)
  ultimately have "simulate_round (pair_net p x q y N) = Inr (pair_net p (sent x) q y' N)"
    using physical_one_sender rounds_physical pair_net_wf[OF c(1) assms(2)] handed_pair_net[OF c(1) assms(2)] by metis
  then show ?thesis by simp
qed

lemma ni_mac_update [simp]: "ni_mac (ni\<lparr>ni_ARP_table := t(ip \<mapsto> (mac, ttl))\<rparr>) = (map_option fst \<circ> t)(ip \<mapsto> mac)"
  by (auto simp: ni_mac_def fun_eq_iff)

lemma calm_pair:
  assumes "calm_net M N" and "adjacent p q"
    and "calm_ni (node_ip p) (M p) (ai_interface x)" "ai_datagrams_out x = []"
    and "calm_ni (node_ip q) (M q) (ai_interface y)" "ai_datagrams_out y = []"
    and "ni_mac (ai_interface x) = (ni_mac (ai_interface (node_get p N)))(node_ip q \<mapsto> M q)"
    and "ni_mac (ai_interface y) = (ni_mac (ai_interface (node_get q N)))(node_ip p \<mapsto> M p)"
  shows "calm_net M (pair_net p x q y N)"
proof -
  note c = calm_netD[OF assms(1)]
  note n = adjacent_nodes[OF assms(2)] and get = pair_net_get[OF c(1) assms(2)]
  have "ni_mac (ai_interface (node_get a (pair_net p x q y N))) (node_ip b) \<in> {None, Some (M b)}"
    if ab: "a \<in> nodes" "b \<in> nodes" "cable a = cable b" "a \<noteq> b" for a b
  proof -
    have old: "ni_mac (ai_interface (node_get a N)) (node_ip b) \<in> {None, Some (M b)}"
      using assms(1) ab unfolding calm_net_def by blast
    have "node_ip b = node_ip q \<longleftrightarrow> b = q" if "a = p" using node_ip_differ[OF ab(2) n(2)] ab(3) that n(3) by metis
    moreover have "node_ip b = node_ip p \<longleftrightarrow> b = p" if "a = q" using node_ip_differ[OF ab(2) n(1)] ab(3) that n(3) by metis
    ultimately show ?thesis using old assms(7,8) n(4) by (auto simp: get[OF ab(1)])
  qed
  then show ?thesis using assms(3-6) c pair_net_wf[OF c(1) assms(2)] unfolding calm_net_def by (auto simp: get)
qed

text \<open>What the steps of a resolution do to the interfaces at the two ends of a cable.\<close>

definition learned :: "u32 \<Rightarrow> EthernetAddress \<Rightarrow> NetworkInterface \<Rightarrow> NetworkInterface" where
  "learned ip mac ni = ni\<lparr>ni_ARP_table := (ni_ARP_table ni)(ip \<mapsto> (mac, DEFAULT_ARP_TTL))\<rparr>"

lemma calm_learned: "calm_ni ip mac ni \<Longrightarrow> eth_address m \<Longrightarrow> calm_ni ip mac (learned i m ni)"
  by (auto simp: calm_ni_def learned_def NetworkInterface_inv_def ni_addressed_def ni_ip_def DEFAULT_ARP_TTL_def)

lemma ni_mac_learned [simp]: "ni_mac (learned ip mac ni) = (ni_mac ni)(ip \<mapsto> mac)"
  by (auto simp: learned_def ni_mac_def fun_eq_iff)

lemma calm_eth: "calm_ni ip mac ni \<Longrightarrow> eth_address mac"
  using calm_address(3)[of ni] by (simp add: calm_ni_def)

definition asking :: "u32 \<Rightarrow> InternetDatagram \<Rightarrow> NetworkInterface \<Rightarrow> NetworkInterface" where
  "asking ip d ni = ni\<lparr>ni_ARP_pending_datagrams := [(ip, d)], ni_ARP_pending_ip_addresses := [(ip, DEFAULT_ARP_TIMEOUT)]\<rparr>"

lemma asking_inv:
  assumes "calm_ni ip mac ni" and "serializable d" and "ni_mac ni i = None"
  shows "NetworkInterface_inv (asking i d ni)" "ni_ip (asking i d ni) = ip" "ni_ethernet_address (asking i d ni) = mac"
    "ni_mac (asking i d ni) = ni_mac ni" "arp_frame (asking i d ni) = arp_frame ni" "dg_frame (asking i d ni) = dg_frame ni"
  using assms by (auto simp: calm_ni_def asking_def NetworkInterface_inv_def ni_addressed_def ni_ip_def ni_mac_def
      DEFAULT_ARP_TIMEOUT_def arp_frame_def arp_message_def dg_frame_def fun_eq_iff)

lemma send_calm:
  assumes "calm_ni ip mac ni" and "serializable d" and "Address_ipv4_numeric a = Inr i" and "NetworkInterface_send_datagram d a ni = Inr ni'"
  shows "ni_mac ni i = Some m \<Longrightarrow> ni' = ni\<lparr>ni_frames_out := [dg_frame ni m d]\<rparr>"
    "ni_mac ni i = None \<Longrightarrow> ni' = (asking i d ni)\<lparr>ni_frames_out := [arp_frame ni i OPCODE_REQUEST]\<rparr>"
proof -
  have c: "ni_frames_out ni = []" "ni_ARP_pending_ip_addresses ni = []" "ni_ARP_pending_datagrams ni = []" "ni_addressed ni"
    using assms(1) by (simp_all add: calm_ni_def NetworkInterface_inv_def)
  show "ni_mac ni i = Some m \<Longrightarrow> ni' = ni\<lparr>ni_frames_out := [dg_frame ni m d]\<rparr>"
    using send_known[OF assms(3) _ assms(2)] assms(4) c(1) by simp
  have f: "arp_frame (ni\<lparr>ni_ARP_pending_datagrams := u\<rparr>) = arp_frame ni" for u
    by (simp add: arp_frame_def arp_message_def ni_mac_def ni_ip_def fun_eq_iff)
  show "ni_mac ni i = None \<Longrightarrow> ni' = (asking i d ni)\<lparr>ni_frames_out := [arp_frame ni i OPCODE_REQUEST]\<rparr>"
    using send_unknown[OF assms(3) _ c(4), of d] assms(4) c(1-3) by (simp add: Let_def asking_def f)
qed

text \<open>The interfaces of the other nodes on the cable ignore all of it.\<close>

lemma bystander_ignores:
  assumes "calm_net M N" "macs_ok M" "adjacent p q" and "r \<in> nodes" "cable r = cable p" "r \<noteq> p" "r \<noteq> q"
  shows "ignores (node_get r N) (dg_frame x (M q) d)"
    and "NetworkInterface_inv x \<Longrightarrow> opcode = OPCODE_REQUEST \<or> opcode = OPCODE_REPLY \<Longrightarrow> ignores (node_get r N) (arp_frame x (node_ip q) opcode)"
proof -
  have c: "calm_ni (node_ip r) (M r) (ai_interface (node_get r N))" by (rule calm_netD(2)[OF assms(1,4)])
  have "M q \<noteq> ETHERNET_BROADCAST" using assms(2) adjacent_nodes(2)[OF assms(3)] by (simp add: macs_ok_def)
  then show "ignores (node_get r N) (dg_frame x (M q) d)"
    using c bystander_mac(2)[OF assms(2-7)] unfolding ignores_def
    by (intro ignore_other_mac) (simp_all add: dg_frame_def calm_ni_def)
  have "node_ip q \<noteq> node_ip r"
    using node_ip_differ[OF adjacent_nodes(2)[OF assms(3)] assms(4)] adjacent_nodes(3)[OF assms(3)] assms(5,7) by metis
  then show "NetworkInterface_inv x \<Longrightarrow> opcode = OPCODE_REQUEST \<or> opcode = OPCODE_REPLY \<Longrightarrow>
      ignores (node_get r N) (arp_frame x (node_ip q) opcode)"
    using c unfolding ignores_def by (intro ignore_other_ip) (simp_all add: calm_ni_def)
qed

lemma hop_known:
  assumes "calm_net M N" "macs_ok M" "adjacent p q" "dg_encodable d"
    and "x = node_get p N" and "x1 = x\<lparr>ai_interface := (ai_interface x)\<lparr>ni_frames_out := [dg_frame (ai_interface x) (M q) d]\<rparr>\<rparr>"
  shows "\<exists>d'. same_datagram d d' \<and> (\<forall>m. simulate_rounds (Suc m) (node_put p x1 N)
    = simulate_rounds m (node_put q ((node_get q N)\<lparr>ai_datagrams_out := [d']\<rparr>) N))"
proof -
  note c = calm_netD[OF assms(1)] and n = adjacent_nodes[OF assms(3)]
  let ?y = "node_get q N"
  have y: "M q = ni_ethernet_address (ai_interface ?y)" using c(2)[OF n(2)] by (simp add: calm_ni_def)
  obtain d' where d': "NetworkInterface_recv_frame (flat (dg_frame (ai_interface x) (M q) d)) (ai_interface ?y) = Inr (Some d', ai_interface ?y)"
    "same_datagram d d'" using datagram_arrives[OF assms(4) y] by blast
  have s: "frames_of x1 = [dg_frame (ai_interface x) (M q) d]" "sent x1 = x" "ai_datagrams_out x1 = []"
    using c(3,4)[OF n(1)] by (simp_all add: assms(5,6) sent_def)
  have "deliver (frames_of x1) ?y = Inr (?y\<lparr>ai_datagrams_out := [d']\<rparr>)"
    using deliver_one[OF d'(1)] c(3)[OF n(2)] by (simp add: s(1))
  from pair_round[OF assms(1,3) s(3) c(3)[OF n(2)] c(4)[OF n(2)] _ this]
  have "simulate_rounds (Suc m) (pair_net p x1 q ?y N) = simulate_rounds m (pair_net p x q (?y\<lparr>ai_datagrams_out := [d']\<rparr>) N)" for m
    using bystander_ignores(1)[OF assms(1-3)] s(1,2) by fastforce
  moreover have "pair_net p x1 q ?y N = node_put p x1 N"
    unfolding pair_net_swap[OF c(1) assms(3)] by (simp add: pair_net_def node_put_same c(1) n(2))
  moreover have "pair_net p x q y' N = node_put q y' N" for y' using assms(5) by (simp add: pair_net_def node_put_same c(1) n(1))
  ultimately show ?thesis using d'(2) by auto
qed

lemma frames_idle [simp]: "ni_frames_out ni = [] \<Longrightarrow> ni\<lparr>ni_frames_out := []\<rparr> = ni"
  by (cases ni) simp

lemma deliver_ARP:
  assumes "NetworkInterface_recv_frame (flat f) (ai_interface y) = Inr (None, ni)" and "ai_datagrams_out y = []"
  shows "deliver [f] y = Inr (y\<lparr>ai_interface := ni\<rparr>)"
  using deliver_one[OF assms(1)] assms(2) by (cases y) simp

lemma request_step:
  assumes "calm_ni ipx mx nx" "calm_ni ipy my (ai_interface y)" "ni_mac nx ipy = None" "ai_datagrams_out y = []"
    and "l = learned ipx mx (ai_interface y)"
  shows "deliver [arp_frame nx ipy OPCODE_REQUEST] y = Inr (y\<lparr>ai_interface := l\<lparr>ni_frames_out := [arp_frame l ipx OPCODE_REPLY]\<rparr>\<rparr>)"
  using request_arrives[of nx "ai_interface y", OF _ _ _ _ _ _ refl] assms(1-3,5)
  by (intro deliver_ARP[OF _ assms(4)]) (simp add: calm_ni_def learned_def)

lemma reply_step:
  assumes "calm_ni ipx mx nx" "calm_ni ipy my ny" "ni_mac nx ipy = None" "serializable d" "ai_datagrams_out x = []"
    and "l = learned ipx mx ny"
  shows "deliver [arp_frame l ipx OPCODE_REPLY] (x\<lparr>ai_interface := asking ipy d nx\<rparr>)
    = Inr (x\<lparr>ai_interface := (learned ipy my nx)\<lparr>ni_frames_out := [dg_frame nx my d]\<rparr>\<rparr>)"
proof -
  note a = asking_inv[OF assms(1,4,3)]
  from calm_learned[OF assms(2) calm_eth[OF assms(1)]] have l: "NetworkInterface_inv l" "ni_ip l = ipy" "ni_ethernet_address l = my" "ni_mac l ipx = Some mx"
    by (simp_all add: assms(6) calm_ni_def)
  have f: "ni_frames_out (asking ipy d nx) = []" "ni_ARP_pending_ip_addresses (asking ipy d nx) = [(ni_ip l, DEFAULT_ARP_TIMEOUT)]"
    "ni_ARP_pending_datagrams (asking ipy d nx) = [(ni_ip l, d)]" "ni_ARP_table (asking ipy d nx) = ni_ARP_table nx"
    using assms(1) l(2) by (simp_all add: asking_def calm_ni_def)
  have e: "(asking ipy d nx)\<lparr>ni_ARP_table := u, ni_ARP_pending_ip_addresses := [], ni_ARP_pending_datagrams := [], ni_frames_out := v\<rparr>
      = nx\<lparr>ni_ARP_table := u, ni_frames_out := v\<rparr>" for u v
    using assms(1) by (cases nx) (simp add: asking_def calm_ni_def)
  have "ni_mac l (ni_ip (asking ipy d nx)) = Some (ni_ethernet_address (asking ipy d nx))" by (simp add: a(2,3) l(4))
  from reply_arrives[OF a(1) l(1) this f(1-3)] have "NetworkInterface_recv_frame (flat (arp_frame l ipx OPCODE_REPLY)) (asking ipy d nx)
      = Inr (None, (learned ipy my nx)\<lparr>ni_frames_out := [dg_frame nx my d]\<rparr>)"
    unfolding e a(2,6) f(4) l(2,3) by (simp add: learned_def)
  from deliver_ARP[of _ "x\<lparr>ai_interface := asking ipy d nx\<rparr>"] this assms(5) show ?thesis by simp
qed

text \<open>The exchange of request and reply leaves both ends knowing each other, and the datagram on its way.\<close>

lemma resolve_rounds:
  assumes "calm_net M N" "macs_ok M" "adjacent p q" "serializable d"
    and x: "x = node_get p N" "nx = ai_interface x" and y: "y = node_get q N" "l = learned (node_ip p) (M p) (ai_interface y)"
    and un: "ni_mac nx (node_ip q) = None"
  shows "simulate_rounds (Suc (Suc m))
      (node_put p (x\<lparr>ai_interface := (asking (node_ip q) d nx)\<lparr>ni_frames_out := [arp_frame nx (node_ip q) OPCODE_REQUEST]\<rparr>\<rparr>) N)
    = simulate_rounds m (pair_net p (x\<lparr>ai_interface := (learned (node_ip q) (M q) nx)\<lparr>ni_frames_out := [dg_frame nx (M q) d]\<rparr>\<rparr>)
        q (y\<lparr>ai_interface := l\<rparr>) N)"
proof -
  note c = calm_netD[OF assms(1)] and n = adjacent_nodes[OF assms(3)] and adj' = adjacent_sym[OF assms(3)]
  define a where "a = asking (node_ip q) d nx"
  have cx: "calm_ni (node_ip p) (M p) nx" and cy: "calm_ni (node_ip q) (M q) (ai_interface y)"
    using c(2)[OF n(1)] c(2)[OF n(2)] by (simp_all add: x y)
  have q: "ai_datagrams_out x = []" "ai_datagrams_out y = []" "frames_of y = []" "ni_frames_out nx = []" "NetworkInterface_inv nx"
    using c(3,4)[OF n(1)] c(3,4)[OF n(2)] cx by (simp_all add: x y calm_ni_def)
  have il: "NetworkInterface_inv l" "ni_frames_out l = []"
    using calm_learned[OF cy calm_eth[OF cx]] by (simp_all add: y(2) calm_ni_def)
  let ?X1 = "x\<lparr>ai_interface := a\<lparr>ni_frames_out := [arp_frame nx (node_ip q) OPCODE_REQUEST]\<rparr>\<rparr>"
  let ?Y1 = "y\<lparr>ai_interface := l\<lparr>ni_frames_out := [arp_frame l (node_ip p) OPCODE_REPLY]\<rparr>\<rparr>"
  let ?X2 = "x\<lparr>ai_interface := (learned (node_ip q) (M q) nx)\<lparr>ni_frames_out := [dg_frame nx (M q) d]\<rparr>\<rparr>"
  have s: "sent ?X1 = x\<lparr>ai_interface := a\<rparr>" "sent ?Y1 = y\<lparr>ai_interface := l\<rparr>" "ni_frames_out a = []"
    using q(4) il(2) by (simp_all add: sent_def a_def asking_def)
  have r1: "simulate_rounds (Suc (Suc m)) (pair_net p ?X1 q y N) = simulate_rounds (Suc m) (pair_net p (x\<lparr>ai_interface := a\<rparr>) q ?Y1 N)"
    unfolding s(1)[symmetric]
    by (rule pair_round[OF assms(1,3)]) (use q bystander_ignores(2)[OF assms(1-3)] request_step[OF cx cy un q(2) y(2)] in auto)
  have r2: "simulate_rounds (Suc m) (pair_net q ?Y1 p (x\<lparr>ai_interface := a\<rparr>) N) = simulate_rounds m (pair_net q (y\<lparr>ai_interface := l\<rparr>) p ?X2 N)"
    unfolding s(2)[symmetric]
    by (rule pair_round[OF assms(1) adj'])
      (use q s(3) il(1) bystander_ignores(2)[OF assms(1,2) adj'] reply_step[OF cx cy un assms(4) q(1) y(2)] in \<open>auto simp: a_def\<close>)
  have "pair_net p ?X1 q y N = node_put p ?X1 N"
    unfolding pair_net_swap[OF c(1) assms(3)] by (simp add: pair_net_def node_put_same c(1) n(2) y(1))
  then show ?thesis using r1 r2 pair_net_swap[OF c(1) assms(3)] by (simp add: a_def)
qed

text \<open>What the hosts expect is not touched by the rounds.\<close>

definition expects :: "Network \<Rightarrow> string \<Rightarrow> InternetDatagram list option" where
  "expects N = (\<lambda>name. map_option ho_expecting_to_receive (nw_hosts N name))"

lemma expects_put: "net_wf N \<Longrightarrow> p \<in> nodes \<Longrightarrow> expects (node_put p x N) = expects N"
proof (erule node_cases)
  fix name assume wf: "net_wf N" and p: "p = Inr name" "name \<in> set host_names"
  obtain h where "nw_hosts N name = Some h" using host_some[OF wf p(2)] .
  then show ?thesis by (simp add: p expects_def node_put.simps put_host_def fun_eq_iff)
qed (simp add: expects_def node_put.simps put_interface_def)

lemma expects_pair: "net_wf N \<Longrightarrow> adjacent p q \<Longrightarrow> expects (pair_net p x q y N) = expects N"
  using adjacent_nodes[of p q] by (simp add: pair_net_def expects_put node_put_wf)

definition got :: "node \<Rightarrow> InternetDatagram \<Rightarrow> Network \<Rightarrow> Network" where
  "got q d N = node_put q ((node_get q N)\<lparr>ai_datagrams_out := [d]\<rparr>) N"

lemma hop:
  assumes "calm_net M N" "macs_ok M" "adjacent p q" "dg_encodable d"
    and "NetworkInterface_send_datagram d a (ai_interface (node_get p N)) = Inr ni" "Address_ipv4_numeric a = Inr (node_ip q)"
  shows "\<exists>k N2 d'. 0 < k \<and> k \<le> 3 \<and> same_datagram d d' \<and> calm_net M N2 \<and> expects N2 = expects N
    \<and> (\<forall>m. simulate_rounds (k + m) (node_put p ((node_get p N)\<lparr>ai_interface := ni\<rparr>) N) = simulate_rounds m (got q d' N2))"
proof -
  note c = calm_netD[OF assms(1)] and n = adjacent_nodes[OF assms(3)] and ser = encodable_serializable[OF assms(4)]
  let ?x = "node_get p N" and ?y = "node_get q N"
  note snd = send_calm[OF c(2)[OF n(1)] ser assms(6,5)]
  show ?thesis
  proof (cases "ni_mac (ai_interface ?x) (node_ip q)")
    case (Some m)
    then have "m = M q" using c(5)[OF assms(3)] by simp
    with snd(1)[OF Some] hop_known[OF assms(1-4) refl refl] assms(1) show ?thesis
      by (intro exI[of _ 1] exI[of _ N]) (auto simp: got_def)
  next
    case None
    let ?lx = "learned (node_ip q) (M q) (ai_interface ?x)" and ?ly = "learned (node_ip p) (M p) (ai_interface ?y)"
    let ?N2 = "pair_net p (?x\<lparr>ai_interface := ?lx\<rparr>) q (?y\<lparr>ai_interface := ?ly\<rparr>) N"
    have eth: "eth_address (M p)" "eth_address (M q)"
      using calm_eth c(2)[OF n(1)] c(2)[OF n(2)] by blast+
    have calm: "calm_net M ?N2"
      by (rule calm_pair[OF assms(1,3)]) (simp_all add: c(2,3) n(1,2) eth calm_learned)
    have g: "node_get p ?N2 = ?x\<lparr>ai_interface := ?lx\<rparr>" using n(4) by (simp add: pair_net_get[OF c(1) assms(3) n(1)])
    have f: "dg_frame ?lx = dg_frame (ai_interface ?x)" by (simp add: learned_def dg_frame_def fun_eq_iff)
    let ?X2 = "?x\<lparr>ai_interface := ?lx\<lparr>ni_frames_out := [dg_frame (ai_interface ?x) (M q) d]\<rparr>\<rparr>"
    have "node_put p ?X2 ?N2 = pair_net p ?X2 q (?y\<lparr>ai_interface := ?ly\<rparr>) N"
      using pair_net_put[OF c(1) adjacent_sym[OF assms(3)]] pair_net_swap[OF c(1) assms(3)] by simp
    with hop_known[OF calm assms(2,3,4) g[symmetric] refl] obtain d' where d': "same_datagram d d'"
      "\<And>m. simulate_rounds (Suc m) (pair_net p ?X2 q (?y\<lparr>ai_interface := ?ly\<rparr>) N) = simulate_rounds m (got q d' ?N2)"
      by (auto simp: got_def f)
    with resolve_rounds[OF assms(1-3) ser refl refl refl refl None] snd(2)[OF None] calm expects_pair[OF c(1) assms(3)]
    show ?thesis by (intro exI[of _ 3] exI[of _ ?N2] exI[of _ d']) (simp add: numeral_3_eq_3)
  qed
qed

lemma idle_rounds:
  assumes "net_wf N" "queues_empty N" "\<And>r. r \<in> nodes \<Longrightarrow> idle N r"
  shows "simulate_rounds m N = Inr N"
  using physical_idle[OF assms(1,3)] rounds_physical[OF assms(1,2)] by (induction m) simp_all

section \<open>The router\<close>

lemma route_interfaces_append: "route_interfaces (is @ js) r = bind_result (route_interfaces is r) (route_interfaces js)"
proof (induction "is" arbitrary: r)
  case (Cons i "is")
  then show ?case by (cases "route_queue i (ai_datagrams_out (ro_interfaces r ! i)) r") simp_all
qed simp

text \<open>A router with one datagram in one queue forwards it and is done.\<close>

lemma route_one_queue:
  assumes "i < length (ro_interfaces r)" and "ai_datagrams_out (ro_interfaces r ! i) = [d]"
    and "\<forall>j < length (ro_interfaces r). j \<noteq> i \<longrightarrow> ai_datagrams_out (ro_interfaces r ! j) = []"
    and "Router_route_one_datagram d r = Inr r1" and "ro_queues r1 = ro_queues r"
  shows "Router_route r = Inr (r1\<lparr>ro_interfaces := (ro_interfaces r1)[i := (ro_interfaces r1 ! i)\<lparr>ai_datagrams_out := []\<rparr>]\<rparr>)"
proof -
  let ?n = "length (ro_interfaces r)"
  let ?r2 = "r1\<lparr>ro_interfaces := (ro_interfaces r1)[i := (ro_interfaces r1 ! i)\<lparr>ai_datagrams_out := []\<rparr>]\<rparr>"
  have l: "length (ro_interfaces r1) = ?n" using arg_cong[OF assms(5), of length] by (simp add: ro_queues_def)
  have q: "ai_datagrams_out (ro_interfaces r1 ! j) = ai_datagrams_out (ro_interfaces r ! j)" if "j < ?n" for j
    using arg_cong[OF assms(5), of "\<lambda>qs. qs ! j"] that l by (simp add: ro_queues_def)
  have u: "[0..<?n] = [0..<i] @ i # [Suc i..<?n]" using assms(1) by (metis upt_conv_Cons upt_add_eq_append le_add_diff_inverse less_imp_le zero_le)
  have "route_interfaces [0..<i] r = Inr r" using assms(1,3) by (intro route_idle) auto
  moreover have "route_interfaces [Suc i..<?n] ?r2 = Inr ?r2" using assms(1,3) q l by (intro route_idle) auto
  ultimately show ?thesis using assms(2,4) by (simp add: Router_route_def u route_interfaces_append)
qed

lemma sim_table_ok: "e \<in> set sim_table \<Longrightarrow> rt_ok 7 e"
proof -
  have "list_all (\<lambda>e. prefix_mask (rt_prefix_length e) = Inr (rt_prefix_mask e) \<and> unat (rt_interface_num e) < 7) sim_table" by code_simp
  moreover have "\<exists>ip. Address_ipv4_numeric a = Inr ip" if "e \<in> set sim_table" "rt_next_hop e = Some a" for a
    using that by (auto simp: sim_table_def sim_route_def)
  ultimately show "e \<in> set sim_table \<Longrightarrow> rt_ok 7 e" by (simp add: rt_ok_def list_all_iff)
qed

lemma queue_idle: "ai_datagrams_out ai = [] \<Longrightarrow> ai\<lparr>ai_datagrams_out := []\<rparr> = ai"
  by (cases ai) simp

text \<open>The state of the router when one of its interfaces has received a datagram.\<close>

lemma got_router:
  assumes "calm_net M N" and "i < 7" and "r = nw_router (got (Inl i) d N)" and "ifs = ro_interfaces (nw_router N)"
  shows "r = (nw_router N)\<lparr>ro_interfaces := ifs[i := (ifs ! i)\<lparr>ai_datagrams_out := [d]\<rparr>]\<rparr>"
    "length ifs = 7" "ro_routingTable r = sim_table" "Router_inv r" "j < 7 \<Longrightarrow> ai_datagrams_out (ifs ! j) = []"
    "j < 7 \<Longrightarrow> j \<noteq> i \<Longrightarrow> ai_datagrams_out (ro_interfaces r ! j) = []" "ai_datagrams_out (ro_interfaces r ! i) = [d]"
    "j < 7 \<Longrightarrow> ai_interface (ro_interfaces r ! j) = ai_interface (ifs ! j)"
proof -
  note c = calm_netD[OF assms(1)]
  show r: "r = (nw_router N)\<lparr>ro_interfaces := ifs[i := (ifs ! i)\<lparr>ai_datagrams_out := [d]\<rparr>]\<rparr>"
    by (simp add: assms(2-4) got_def node_put.simps node_get.simps put_interface_def unat_small)
  show l: "length ifs = 7" and t: "ro_routingTable r = sim_table" using c(1) by (simp_all add: r assms(4) net_wf_def)
  show q: "ai_datagrams_out (ifs ! j) = []" if "j < 7" for j
    using c(3)[OF nodesI(1)[OF that]] by (simp add: assms(4) node_get.simps)
  show "ai_datagrams_out (ro_interfaces r ! j) = []" if "j < 7" "j \<noteq> i" for j using q[OF that(1)] that by (simp add: r)
  show "ai_datagrams_out (ro_interfaces r ! i) = [d]" using l assms(2) by (simp add: r)
  show f: "ai_interface (ro_interfaces r ! j) = ai_interface (ifs ! j)" if "j < 7" for j
    using that l by (cases "j = i") (simp_all add: r)
  have "NetworkInterface_inv (ai_interface (ifs ! j))" if "j < 7" for j
    using c(2)[OF nodesI(1)[OF that]] by (simp add: assms(4) node_get.simps calm_ni_def)
  then have "NetworkInterface_inv (ai_interface ai)" if "ai \<in> set (ro_interfaces r)" for ai
    using that f l by (auto simp: in_set_conv_nth r)
  moreover have "length (ro_interfaces r) = 7" by (simp add: r l)
  ultimately show "Router_inv r" using sim_table_ok by (simp add: Router_inv_def t)
qed

lemma round_routed:
  assumes "calm_net M N" and "i < 7" and "Router_route (nw_router (got (Inl i) d N)) = Inr (nw_router N4)" and "N4 = N\<lparr>nw_router := r\<rparr>"
    and "net_wf N4" "queues_empty N4"
  shows "simulate_rounds (Suc m) (got (Inl i) d N) = simulate_rounds (Suc m) N4"
proof -
  have "(got (Inl i) d N)\<lparr>nw_router := nw_router N4\<rparr> = N4"
    by (simp add: assms(4) got_def node_put.simps put_interface_def)
  then have "simulate_round (got (Inl i) d N) = simulate_round N4"
    using rounds_physical[OF assms(5,6)] assms(3) by (simp add: simulate_round_def)
  then show ?thesis by simp
qed

lemma calm_queues: "calm_net M N \<Longrightarrow> queues_empty N"
  using calm_netD(3) nodesI(1) by (simp add: queues_empty_def)

lemma router_drops:
  assumes "calm_net M N" and "i < 7" and "ip_ttl (dg_header d) \<le> 1"
  shows "simulate_rounds (Suc m) (got (Inl i) d N) = simulate_rounds (Suc m) N"
proof -
  note g = got_router[OF assms(1,2) refl[of "nw_router (got (Inl i) d N)"] refl]
  have "Router_route (nw_router (got (Inl i) d N)) = Inr (nw_router N)"
    using route_one_queue[OF _ g(7) _ route_one_drop refl] g(1,2) g(5)[OF assms(2)] g(6) assms(2,3) by (simp add: queue_idle)
  from round_routed[OF assms(1,2) this, of "nw_router N"] show ?thesis using calm_netD(1)[OF assms(1)] calm_queues[OF assms(1)] by simp
qed

text \<open>Where the routing table sends a destination: to a neighbour of one of the router's interfaces.\<close>

definition routes_to :: "u32 \<Rightarrow> nat \<Rightarrow> node \<Rightarrow> bool" where
  "routes_to dst j q \<longleftrightarrow> (let t = Router_match dst sim_table; e = sim_table ! t
     in t < length sim_table \<and> unat (rt_interface_num e) = j \<and> adjacent (Inl j) q
        \<and> Address_ipv4_numeric (rt_hop dst e) = Inr (node_ip q))"

lemma router_forwards:
  assumes "calm_net M N" and "i < 7" and "serializable d" and "1 < ip_ttl (dg_header d)" and "routes_to (ip_dst (dg_header d)) j q"
    and "d1 = d\<lparr>dg_header := (dg_header d)\<lparr>ip_ttl := ip_ttl (dg_header d) - 1\<rparr>\<rparr>"
  shows "\<exists>a ni. NetworkInterface_send_datagram d1 a (ai_interface (node_get (Inl j) N)) = Inr ni
    \<and> Address_ipv4_numeric a = Inr (node_ip q)
    \<and> (\<forall>m. simulate_rounds (Suc m) (got (Inl i) d N)
          = simulate_rounds (Suc m) (node_put (Inl j) ((node_get (Inl j) N)\<lparr>ai_interface := ni\<rparr>) N))"
proof -
  let ?r = "nw_router (got (Inl i) d N)" and ?ifs = "ro_interfaces (nw_router N)"
  note g = got_router[OF assms(1,2) refl[of "nw_router (got (Inl i) d N)"] refl]
  define t where "t = Router_match (ip_dst (dg_header d)) sim_table"
  have t: "t < length sim_table" "unat (rt_interface_num (sim_table ! t)) = j" "adjacent (Inl j) q"
    "Address_ipv4_numeric (rt_hop (ip_dst (dg_header d)) (sim_table ! t)) = Inr (node_ip q)"
    using assms(5) by (simp_all add: routes_to_def Let_def t_def)
  have j: "j < 7" using adjacent_nodes(1)[OF t(3)] by (auto simp: nodes_def)
  obtain ni where ni: "NetworkInterface_send_datagram d1 (rt_hop (ip_dst (dg_header d)) (sim_table ! t)) (ai_interface (ro_interfaces ?r ! j)) = Inr ni"
    "Router_route_one_datagram d ?r = Inr (?r\<lparr>ro_interfaces := (ro_interfaces ?r)[j := (ro_interfaces ?r ! j)\<lparr>ai_interface := ni\<rparr>]\<rparr>)"
    using route_one_eq[OF g(4) assms(3,4) _ _ refl refl, of t] t g(3) unfolding assms(6) by (auto simp: t_def)
  have l: "length (ro_interfaces ?r) = 7" using g(1,2) by simp
  let ?r1 = "?r\<lparr>ro_interfaces := (ro_interfaces ?r)[j := (ro_interfaces ?r ! j)\<lparr>ai_interface := ni\<rparr>]\<rparr>"
  let ?N4 = "node_put (Inl j) ((node_get (Inl j) N)\<lparr>ai_interface := ni\<rparr>) N"
  have N4: "?N4 = N\<lparr>nw_router := (nw_router N)\<lparr>ro_interfaces := ?ifs[j := (?ifs ! j)\<lparr>ai_interface := ni\<rparr>]\<rparr>\<rparr>"
    using j by (simp add: node_put.simps node_get.simps put_interface_def unat_small)
  have "Router_route ?r = Inr (?r1\<lparr>ro_interfaces := (ro_interfaces ?r1)[i := (ro_interfaces ?r1 ! i)\<lparr>ai_datagrams_out := []\<rparr>]\<rparr>)"
    using l assms(2) j g(6) queues_update[of j "ro_interfaces ?r" ni]
    by (intro route_one_queue[OF _ g(7) _ ni(2)]) (simp_all add: ro_queues_def)
  also have "(ro_interfaces ?r1)[i := (ro_interfaces ?r1 ! i)\<lparr>ai_datagrams_out := []\<rparr>] = ?ifs[j := (?ifs ! j)\<lparr>ai_interface := ni\<rparr>]"
    using g(1,2) g(5)[OF assms(2)] assms(2) j
    by (intro nth_equalityI) (auto simp: nth_list_update queue_idle)
  finally have "Router_route ?r = Inr (nw_router ?N4)" by (simp add: N4 g(1))
  moreover have "net_wf ?N4" by (rule node_put_wf[OF calm_netD(1)[OF assms(1)] nodesI(1)[OF j]])
  moreover have "queues_empty ?N4"
    using calm_netD(3)[OF assms(1)] node_get_put[OF calm_netD(1)[OF assms(1)] _ nodesI(1)[OF j]] j by (simp add: queues_empty_def nodesI)
  ultimately have "simulate_rounds (Suc m) (got (Inl i) d N) = simulate_rounds (Suc m) ?N4" for m
    by (rule round_routed[OF assms(1,2) _ N4])
  moreover have "ai_interface (ro_interfaces ?r ! j) = ai_interface (node_get (Inl j) N)" using g(8)[OF j] by (simp add: node_get.simps)
  ultimately show ?thesis using ni(1) t(4) by auto
qed

section \<open>From host to host\<close>

lemma got_idle:
  assumes "calm_net M N" and "q \<in> nodes"
  shows "net_wf (got q d N)" "\<And>r. r \<in> nodes \<Longrightarrow> idle (got q d N) r" "q = Inr name \<Longrightarrow> queues_empty (got q d N)"
proof -
  note c = calm_netD[OF assms(1)] and get = node_get_put[OF calm_netD(1)[OF assms(1)] _ assms(2)]
  show "net_wf (got q d N)" unfolding got_def by (rule node_put_wf[OF c(1) assms(2)])
  show "idle (got q d N) r" if "r \<in> nodes" for r unfolding got_def using c(4) that assms(2) by (simp add: get)
  show "queues_empty (got q d N)" if "q = Inr name"
  proof -
    have "Inl j \<noteq> q" for j using that by simp
    then show ?thesis unfolding got_def queues_empty_def using c(3) by (simp add: get nodesI)
  qed
qed

lemma same_hop_datagram:
  assumes "same_datagram d e"
  shows "same_datagram (d\<lparr>dg_header := (dg_header d)\<lparr>ip_ttl := ip_ttl (dg_header d) - 1\<rparr>\<rparr>)
    (e\<lparr>dg_header := (dg_header e)\<lparr>ip_ttl := ip_ttl (dg_header e) - 1\<rparr>\<rparr>)"
proof -
  obtain k where "dg_header e = (dg_header d)\<lparr>ip_cksum := k\<rparr>" using assms by (auto simp: same_datagram_def)
  then have "(dg_header e)\<lparr>ip_ttl := ip_ttl (dg_header e) - 1\<rparr> = (dg_header d)\<lparr>ip_ttl := ip_ttl (dg_header d) - 1, ip_cksum := k\<rparr>"
    by (cases "dg_header d") simp
  then show ?thesis using assms by (auto simp: same_datagram_def)
qed

lemma rounds_deliver:
  assumes "calm_net M N" "macs_ok M" "adjacent p (Inl i)" "dg_encodable d" and "1 < ip_ttl (dg_header d)"
    and "NetworkInterface_send_datagram d a (ai_interface (node_get p N)) = Inr ni" "Address_ipv4_numeric a = Inr (node_ip (Inl i))"
    and "routes_to (ip_dst (dg_header d)) j (Inr name)" and "d1 = d\<lparr>dg_header := (dg_header d)\<lparr>ip_ttl := ip_ttl (dg_header d) - 1\<rparr>\<rparr>"
  shows "\<exists>N' d'. same_datagram d1 d' \<and> calm_net M N' \<and> expects N' = expects N
    \<and> simulate_rounds 256 (node_put p ((node_get p N)\<lparr>ai_interface := ni\<rparr>) N) = Inr (got (Inr name) d' N')"
proof -
  have i: "i < 7" using adjacent_nodes(2)[OF assms(3)] by (auto simp: nodes_def)
  obtain k N2 d2 where k: "0 < k" "k \<le> 3" and d2: "same_datagram d d2" and N2: "calm_net M N2" "expects N2 = expects N"
    and r1: "\<And>m. simulate_rounds (k + m) (node_put p ((node_get p N)\<lparr>ai_interface := ni\<rparr>) N) = simulate_rounds m (got (Inl i) d2 N2)"
    using hop[OF assms(1-4,6,7)] by blast
  let ?d3 = "d2\<lparr>dg_header := (dg_header d2)\<lparr>ip_ttl := ip_ttl (dg_header d2) - 1\<rparr>\<rparr>"
  have h: "ip_ttl (dg_header d2) = ip_ttl (dg_header d)" "ip_dst (dg_header d2) = ip_dst (dg_header d)"
    using d2 by (auto simp: same_datagram_def)
  have s1: "same_datagram d1 ?d3" unfolding assms(9) by (rule same_hop_datagram[OF d2])
  have e: "dg_encodable d2" by (rule same_encodable[OF assms(4) d2])
  then have e3: "dg_encodable ?d3" by (simp add: dg_encodable_def ip_encodable_def)
  obtain a2 ni2 where a2: "NetworkInterface_send_datagram ?d3 a2 (ai_interface (node_get (Inl j) N2)) = Inr ni2"
      "Address_ipv4_numeric a2 = Inr (node_ip (Inr name))"
    and r2: "\<And>m. simulate_rounds (Suc m) (got (Inl i) d2 N2)
          = simulate_rounds (Suc m) (node_put (Inl j) ((node_get (Inl j) N2)\<lparr>ai_interface := ni2\<rparr>) N2)"
    using router_forwards[OF N2(1) i encodable_serializable[OF e] _ _ refl, of j "Inr name"] assms(5,8) h by auto
  have adj: "adjacent (Inl j) (Inr name)" using assms(8) by (simp add: routes_to_def Let_def)
  obtain l N3 d4 where l: "0 < l" "l \<le> 3" and d4: "same_datagram ?d3 d4" and N3: "calm_net M N3" "expects N3 = expects N2"
    and r3: "\<And>m. simulate_rounds (l + m) (node_put (Inl j) ((node_get (Inl j) N2)\<lparr>ai_interface := ni2\<rparr>) N2) = simulate_rounds m (got (Inr name) d4 N3)"
    using hop[OF N2(1) assms(2) adj e3 a2] by blast
  note g = got_idle[OF N3(1) adjacent_nodes(2)[OF adj]]
  have u: "256 - k = Suc (255 - k)" using k by simp
  have "simulate_rounds 256 (node_put p ((node_get p N)\<lparr>ai_interface := ni\<rparr>) N) = simulate_rounds (256 - k) (got (Inl i) d2 N2)"
    using r1[of "256 - k"] k by simp
  also have "... = simulate_rounds (256 - k) (node_put (Inl j) ((node_get (Inl j) N2)\<lparr>ai_interface := ni2\<rparr>) N2)"
    unfolding u by (rule r2)
  also have "... = simulate_rounds (256 - k - l) (got (Inr name) d4 N3)" using r3[of "256 - k - l"] k l by simp
  also have "... = Inr (got (Inr name) d4 N3)" by (rule idle_rounds[OF g(1) g(3)[OF refl] g(2)])
  finally show ?thesis using same_datagram_trans[OF s1 d4] N3 N2(2) by auto
qed

lemma rounds_expire:
  assumes "calm_net M N" "macs_ok M" "adjacent p (Inl i)" "dg_encodable d" and "ip_ttl (dg_header d) \<le> 1"
    and "NetworkInterface_send_datagram d a (ai_interface (node_get p N)) = Inr ni" "Address_ipv4_numeric a = Inr (node_ip (Inl i))"
  shows "\<exists>N'. calm_net M N' \<and> expects N' = expects N
    \<and> simulate_rounds 256 (node_put p ((node_get p N)\<lparr>ai_interface := ni\<rparr>) N) = Inr N'"
proof -
  have i: "i < 7" using adjacent_nodes(2)[OF assms(3)] by (auto simp: nodes_def)
  obtain k N2 d2 where k: "0 < k" "k \<le> 3" and d2: "same_datagram d d2" and N2: "calm_net M N2" "expects N2 = expects N"
    and r1: "\<And>m. simulate_rounds (k + m) (node_put p ((node_get p N)\<lparr>ai_interface := ni\<rparr>) N) = simulate_rounds m (got (Inl i) d2 N2)"
    using hop[OF assms(1-4,6,7)] by blast
  have "ip_ttl (dg_header d2) \<le> 1" using d2 assms(5) by (auto simp: same_datagram_def)
  have u: "256 - k = Suc (255 - k)" using k by simp
  have "simulate_rounds (256 - k) (got (Inl i) d2 N2) = simulate_rounds (256 - k) N2"
    unfolding u by (rule router_drops[OF N2(1) i \<open>ip_ttl (dg_header d2) \<le> 1\<close>])
  also have "... = Inr N2" using calm_netD[OF N2(1)] by (intro idle_rounds calm_queues[OF N2(1)]) simp_all
  finally show ?thesis using r1[of "256 - k"] k N2 by auto
qed

end
