(* ===== verification/Simulator_Test.thy ===== *)
theory Simulator_Test
  imports Simulator_Run
begin

text \<open>
  The test program of the network simulator: every test starts from a calm network in which no host
  expects anything and ends in such a network, the constructor makes one, and so the program runs to
  its end. What it takes is that numeric addresses are resolved as documented and that the three
  random Ethernet addresses on the shared cable differ.
\<close>

section \<open>Checking the hosts\<close>

definition checked :: "Host \<Rightarrow> Host" where
  "checked h = h\<lparr>ho_interface := (ho_interface h)\<lparr>ai_datagrams_out := []\<rparr>, ho_expecting_to_receive := []\<rparr>"

lemma check_quiet: "ai_datagrams_out (ho_interface h) = [] \<Longrightarrow> ho_expecting_to_receive h = [] \<Longrightarrow> Host_check h = Inr (checked h)"
  by (simp add: Host_check_def checked_def)

lemma check_expected:
  assumes "ai_datagrams_out (ho_interface h) = [d]" and "ho_expecting_to_receive h = [e]" and "dg_encodable e" "same_datagram e d"
  shows "Host_check h = Inr (checked h)"
proof -
  obtain w where "dgram_wire e = Inr w" "dgram_wire d = Inr w" using same_wire[OF assms(3,4)] by auto
  then show ?thesis using assms(1,2) by (simp add: Host_check_def checked_def)
qed

lemma check_hosts_eq:
  assumes "distinct order" and "\<And>name h. name \<in> set order \<Longrightarrow> nw_hosts N name = Some h \<Longrightarrow> Host_check h = Inr (checked h)"
  shows "check_hosts order N = Inr (N\<lparr>nw_hosts := \<lambda>name. if name \<in> set order then map_option checked (nw_hosts N name) else nw_hosts N name\<rparr>)"
  using assms
proof (induction order arbitrary: N)
  case (Cons name order)
  show ?case
  proof (cases "nw_hosts N name")
    case None
    then have "(\<lambda>n. if n \<in> set (name # order) then map_option checked (nw_hosts N n) else nw_hosts N n)
        = (\<lambda>n. if n \<in> set order then map_option checked (nw_hosts N n) else nw_hosts N n)" by (auto simp: fun_eq_iff)
    moreover have "check_hosts order N = Inr (N\<lparr>nw_hosts := \<lambda>n. if n \<in> set order then map_option checked (nw_hosts N n) else nw_hosts N n\<rparr>)"
      using Cons.prems by (intro Cons.IH) auto
    ultimately show ?thesis using None by simp
  next
    case (Some h)
    let ?N = "put_host name (checked h) N"
    have "(\<lambda>n. if n \<in> set (name # order) then map_option checked (nw_hosts N n) else nw_hosts N n)
        = (\<lambda>n. if n \<in> set order then map_option checked (nw_hosts ?N n) else nw_hosts ?N n)"
      using Some Cons.prems(1) by (auto simp: fun_eq_iff put_host_def)
    moreover have "check_hosts order ?N = Inr (?N\<lparr>nw_hosts := \<lambda>n. if n \<in> set order then map_option checked (nw_hosts ?N n) else nw_hosts ?N n\<rparr>)"
      using Cons.prems by (intro Cons.IH) (auto simp: put_host_def split: if_splits)
    ultimately show ?thesis using Some Cons.prems(2)[of name h] by (simp add: put_host_def)
  qed
qed simp

section \<open>One test\<close>

definition ready :: "(node \<Rightarrow> EthernetAddress) \<Rightarrow> Network \<Rightarrow> bool" where
  "ready M N \<longleftrightarrow> calm_net M N \<and> (\<forall>name \<in> set host_names. expects N name = Some [])"

lemma calm_cong:
  assumes "calm_net M N" and "net_wf N'" and "\<And>p. p \<in> nodes \<Longrightarrow> node_get p N' = node_get p N"
  shows "calm_net M N'"
  using assms unfolding calm_net_def by simp

lemma checked_ready:
  assumes "calm_net M N" and "net_wf N1"
    and "\<And>p. p \<in> nodes \<Longrightarrow> (node_get p N1)\<lparr>ai_datagrams_out := []\<rparr> = node_get p N" and "queues_empty N1"
    and "N2 = N1\<lparr>nw_hosts := \<lambda>name. if name \<in> set host_names then map_option checked (nw_hosts N1 name) else nw_hosts N1 name\<rparr>"
  shows "ready M N2"
proof -
  have h: "\<exists>h. nw_hosts N1 name = Some h \<and> nw_hosts N2 name = Some (checked h)" if "name \<in> set host_names" for name
    by (rule host_some[OF assms(2) that]) (simp add: assms(5) that)
  have d: "dom (nw_hosts N2) = dom (nw_hosts N1)" by (auto simp: assms(5) split: if_splits)
  have "net_wf N2" using assms(2) d unfolding net_wf_def by (auto simp: assms(5) checked_def split: if_splits)
  moreover have "node_get p N2 = node_get p N" if "p \<in> nodes" for p
    using that
  proof (cases rule: node_cases)
    case (1 i)
    have "ai_datagrams_out (node_get p N1) = []" using assms(4) 1 by (simp add: queues_empty_def)
    then have "node_get p N1 = node_get p N" using assms(3)[OF that] by (simp add: queue_idle)
    then show ?thesis using 1 by (simp add: node_get.simps assms(5))
  next
    case (2 name)
    then show ?thesis using h[OF 2(2)] assms(3)[OF that] by (auto simp: node_get.simps checked_def)
  qed
  ultimately have "calm_net M N2" by (rule calm_cong[OF assms(1)])
  then show ?thesis using h by (fastforce simp: ready_def expects_def checked_def)
qed

text \<open>The datagrams that \<^verbatim>\<open>send_to\<close> makes.\<close>

lemma length_decimal: "n < 10 ^ Suc k \<Longrightarrow> length (decimal n) \<le> Suc k"
proof (induction k arbitrary: n)
  case (Suc k)
  then have "n div 10 < 10 ^ Suc k" by (simp add: less_mult_imp_div_less mult.commute)
  then show ?case using Suc.IH by (subst decimal.simps) simp
qed (simp add: decimal.simps)

definition test_datagram :: "u32 \<Rightarrow> u32 \<Rightarrow> u8 \<Rightarrow> u32 \<Rightarrow> InternetDatagram" where
  "test_datagram src dst ttl r =
     (let payload = BufferList_of_string (bytes_of_string (''random payload: {'' @ decimal (unat r) @ ''}''))
      in \<lparr>dg_header = IPv4Header_default\<lparr>ip_src := src, ip_dst := dst, ip_len := ucast (20 + BufferList_size payload :: u64), ip_ttl := ttl\<rparr>,
          dg_payload = payload\<rparr>)"

lemma test_datagram_encodable: "dg_encodable (test_datagram src dst ttl r)"
proof -
  let ?s = "bytes_of_string (''random payload: {'' @ decimal (unat r) @ ''}'')"
  have "unat r < 10 ^ Suc 9" using unat32_bound[of r] by simp
  then have "length ?s \<le> 28" using length_decimal[of "unat r" 9] by (simp add: bytes_of_string_def)
  then have "unat (ucast (20 + size_of ?s :: u64) :: u16) = 20 + length ?s"
    by (simp add: unsigned_ucast_eq size_of_def take_bit_nat_eq_self_iff unat_word_ariths unat_of_nat64 take_bit_eq_mod)
  then show ?thesis
    by (simp add: test_datagram_def dg_encodable_def ip_encodable_def IPv4Header_default_def Let_def BufferList_size_eq BufferList_of_string_def
        BufferList_append_def BufferList_of_Buffer_def)
qed

lemma send_to_eq:
  assumes "ho_my_address h = ipv4_address 0 src" "ho_next_hop h = ipv4_address 0 hop" "numeric_name gni 0 hop"
    and "d = test_datagram src dst ttl (rd 0)"
    and "NetworkInterface_send_datagram d (ipv4_address 0 hop) (ai_interface (ho_interface h)) = Inr ni"
  shows "Host_send_to gni (ipv4_address 0 dst) ttl rd h =
    Inr (d, h\<lparr>ho_interface := (ho_interface h)\<lparr>ai_interface := ni\<rparr>\<rparr>, \<lambda>n. rd (Suc n))"
  using assms(5) unfolding assms(4)
  by (simp add: Host_send_to_def rd_next_def Let_def assms(1,2) Address_ip_def numeric_ip_port[OF assms(3)] test_datagram_def
      IPv4Header_default_def)

text \<open>The hosts that send, and the router's interface that is their next hop.\<close>

definition sends_via :: "string \<Rightarrow> nat \<Rightarrow> bool" where
  "sends_via name i \<longleftrightarrow> (name, i) \<in> set host_cable \<and> host_hop name = node_ip (Inl i)"

lemma send_from_eq:
  assumes "calm_net M N" and "sends_via A i" and "numeric_name gni 0 (host_hop A)"
    and "d = test_datagram (node_ip (Inr A)) dst ttl (rd 0)"
  shows "\<exists>ni. NetworkInterface_send_datagram d (ipv4_address 0 (host_hop A)) (ai_interface (node_get (Inr A) N)) = Inr ni
    \<and> send_from gni A (ipv4_address 0 dst) ttl (rd, N)
        = Inr (d, (\<lambda>n. rd (Suc n)), node_put (Inr A) ((node_get (Inr A) N)\<lparr>ai_interface := ni\<rparr>) N)"
proof -
  note c = calm_netD[OF assms(1)]
  have A: "A \<in> set host_names" using assms(2) host_cable_nodes by (auto simp: sends_via_def)
  obtain h where h: "nw_hosts N A = Some h" using host_some[OF c(1) A] .
  then have a: "ho_my_address h = ipv4_address 0 (node_ip (Inr A))" "ho_next_hop h = ipv4_address 0 (host_hop A)"
    using c(1) by (auto simp: net_wf_def)
  have inv: "NetworkInterface_inv (ai_interface (node_get (Inr A) N))" using c(2)[OF nodesI(2)[OF A]] by (simp add: calm_ni_def)
  have "serializable d" unfolding assms(4) by (rule encodable_serializable[OF test_datagram_encodable])
  from send_datagram_inv[OF inv this ipv4_numeric_address] obtain ni where
    ni: "NetworkInterface_send_datagram d (ipv4_address 0 (host_hop A)) (ai_interface (node_get (Inr A) N)) = Inr ni" by blast
  then have "NetworkInterface_send_datagram d (ipv4_address 0 (host_hop A)) (ai_interface (ho_interface h)) = Inr ni"
    using h by (simp add: node_get.simps)
  from send_to_eq[where rd = rd, OF a assms(3,4) this] show ?thesis using ni h Network_host_eq[OF c(1) A]
    by (auto simp: send_from_def node_put.simps node_get.simps)
qed

lemma put_host_calm:
  assumes "calm_net M N" and "B \<in> set host_names" and "h = the (nw_hosts N B)"
  shows "calm_net M (put_host B (Host_expect e h) N)" "p \<in> nodes \<Longrightarrow> node_get p (put_host B (Host_expect e h) N) = node_get p N"
    "expects (put_host B (Host_expect e h) N) = (expects N)(B \<mapsto> ho_expecting_to_receive h @ [e])"
proof -
  let ?N = "put_host B (Host_expect e h) N"
  note wf = calm_netD(1)[OF assms(1)]
  obtain k where k: "nw_hosts N B = Some k" using host_some[OF wf assms(2)] .
  show get: "node_get p ?N = node_get p N" if "p \<in> nodes" for p
    using that by (cases rule: node_cases) (auto simp: node_get.simps put_host_def Host_expect_def assms(3))
  have "net_wf ?N" using wf k by (auto simp: net_wf_def put_host_def Host_expect_def assms(3))
  from calm_cong[OF assms(1) this get] show "calm_net M ?N" .
  show "expects ?N = (expects N)(B \<mapsto> ho_expecting_to_receive h @ [e])"
    by (auto simp: expects_def put_host_def Host_expect_def fun_eq_iff)
qed

lemma put_host_swap:
  assumes "A \<noteq> B"
  shows "put_host B h (node_put (Inr A) x N) = node_put (Inr A) x (put_host B h N)"
  using assms by (simp add: node_put.simps put_host_def fun_upd_twist)

lemma delivery_checked:
  assumes "calm_net M N" and "B \<in> set host_names" and "distinct order" "set order = set host_names"
    and "expects N B = Some [e]" and "\<And>name. name \<in> set host_names \<Longrightarrow> name \<noteq> B \<Longrightarrow> expects N name = Some []"
    and "dg_encodable e" "same_datagram e d"
  shows "\<exists>N'. check_hosts order (got (Inr B) d N) = Inr N' \<and> ready M N'"
proof -
  note c = calm_netD[OF assms(1)] and B = nodesI(2)[OF assms(2)]
  let ?N = "got (Inr B) d N"
  note g = got_idle[OF assms(1) B]
  have ex: "expects ?N = expects N" unfolding got_def by (rule expects_put[OF c(1) B])
  have get: "node_get p ?N = (if p = Inr B then (node_get p N)\<lparr>ai_datagrams_out := [d]\<rparr> else node_get p N)" if "p \<in> nodes" for p
    unfolding got_def using node_get_put[OF c(1) that B] by simp
  have "Host_check h = Inr (checked h)" if n: "name \<in> set host_names" and h: "nw_hosts ?N name = Some h" for name h
  proof -
    have i: "ho_interface h = node_get (Inr name) ?N" using h by (simp add: node_get.simps)
    have "expects N name = Some (ho_expecting_to_receive h)" unfolding ex[symmetric] by (simp add: expects_def h)
    then have e: "ho_expecting_to_receive h = (if name = B then [e] else [])" using assms(5) assms(6)[OF n] by auto
    show ?thesis
    proof (cases "name = B")
      case True
      then show ?thesis using i e get[OF B] assms(7,8) by (intro check_expected) simp_all
    next
      case False
      then show ?thesis using i e get[OF nodesI(2)[OF n]] c(3)[OF nodesI(2)[OF n]] by (intro check_quiet) simp_all
    qed
  qed
  then have "check_hosts order ?N = Inr (?N\<lparr>nw_hosts := \<lambda>name. if name \<in> set host_names then map_option checked (nw_hosts ?N name) else nw_hosts ?N name\<rparr>)"
    using check_hosts_eq[OF assms(3), of ?N] assms(4) by simp
  moreover have "(node_get p ?N)\<lparr>ai_datagrams_out := []\<rparr> = node_get p N" if "p \<in> nodes" for p
    using get[OF that] c(3)[OF that] by (simp add: queue_idle)
  ultimately show ?thesis using checked_ready[OF assms(1) g(1) _ g(3)[OF refl] refl] by blast
qed

lemma test_delivery_ready:
  assumes "ready M N" "macs_ok M" and "distinct order" "set order = set host_names"
    and "sends_via A i" "numeric_name gni 0 (host_hop A)" and "routes_to dst j (Inr B)" "A \<noteq> B"
  shows "\<exists>N'. test_delivery gni order A (ipv4_address 0 dst) B (rd, N) = Inr ((\<lambda>n. rd (Suc n)), N') \<and> ready M N'"
proof -
  have calm: "calm_net M N" using assms(1) by (simp add: ready_def)
  note c = calm_netD[OF calm]
  have B: "B \<in> set host_names" using assms(7) adjacent_nodes(2)[of "Inl j" "Inr B"] by (auto simp: routes_to_def Let_def nodes_def)
  have A: "Inr A \<in> nodes" "adjacent (Inr A) (Inl i)"
    using assms(5) host_cable_nodes nodesI(2) by (auto simp: sends_via_def adjacent_def)
  define d where "d = test_datagram (node_ip (Inr A)) dst 64 (rd 0)"
  define e where "e = d\<lparr>dg_header := (dg_header d)\<lparr>ip_ttl := ip_ttl (dg_header d) - 1\<rparr>\<rparr>"
  have hd: "ip_ttl (dg_header d) = 64" "ip_dst (dg_header d) = dst" by (simp_all add: d_def test_datagram_def Let_def)
  have enc: "dg_encodable d" "dg_encodable e" using test_datagram_encodable[of "node_ip (Inr A)" dst 64 "rd 0"]
    by (simp_all add: d_def e_def dg_encodable_def ip_encodable_def)
  obtain ni where ni: "NetworkInterface_send_datagram d (ipv4_address 0 (host_hop A)) (ai_interface (node_get (Inr A) N)) = Inr ni"
    and s: "send_from gni A (ipv4_address 0 dst) 64 (rd, N) = Inr (d, (\<lambda>n. rd (Suc n)), node_put (Inr A) ((node_get (Inr A) N)\<lparr>ai_interface := ni\<rparr>) N)"
    using send_from_eq[where rd = rd, OF calm assms(5,6) d_def] by blast
  let ?N1 = "node_put (Inr A) ((node_get (Inr A) N)\<lparr>ai_interface := ni\<rparr>) N"
  define h where "h = the (nw_hosts N B)"
  let ?Ne = "put_host B (Host_expect e h) N"
  note pe = put_host_calm[OF calm B h_def]
  have h1: "Network_host B ?N1 = Inr h"
    using Network_host_eq[OF node_put_wf[OF c(1) A(1)] B] assms(8) by (simp add: h_def node_put.simps put_host_def)
  have "Address_ipv4_numeric (ipv4_address 0 (host_hop A)) = Inr (node_ip (Inl i))" using assms(5) by (simp add: sends_via_def)
  from rounds_deliver[OF pe(1)[of e] assms(2) A(2) enc(1) _ _ this _ e_def, where ni = ni and j = j and name = B] obtain N' d' where
    N': "same_datagram e d'" "calm_net M N'" "expects N' = expects ?Ne"
      "simulate_rounds 256 (node_put (Inr A) ((node_get (Inr A) N)\<lparr>ai_interface := ni\<rparr>) ?Ne) = Inr (got (Inr B) d' N')"
    using ni pe(2)[OF A(1)] hd assms(7) by auto
  have "ho_expecting_to_receive h = []" using assms(1) B by (auto simp: ready_def expects_def h_def)
  then have ex: "expects N' B = Some [e]" "\<And>name. name \<in> set host_names \<Longrightarrow> name \<noteq> B \<Longrightarrow> expects N' name = Some []"
    using N'(3) pe(3)[of e] assms(1) by (simp_all add: ready_def)
  obtain N'' where "check_hosts order (got (Inr B) d' N') = Inr N''" "ready M N''"
    using delivery_checked[OF N'(2) B assms(3,4) ex enc(2) N'(1)] by blast
  then show ?thesis using s h1 N'(4)
    by (simp add: test_delivery_def Network_simulate_def put_host_swap[OF assms(8)] flip: e_def)
qed

lemma quiet_checked:
  assumes "calm_net M N" and "distinct order" "set order = set host_names" and "\<And>name. name \<in> set host_names \<Longrightarrow> expects N name = Some []"
  shows "\<exists>N'. check_hosts order N = Inr N' \<and> ready M N'"
proof -
  note c = calm_netD[OF assms(1)]
  have "Host_check h = Inr (checked h)" if n: "name \<in> set host_names" and h: "nw_hosts N name = Some h" for name h
    using c(3)[OF nodesI(2)[OF n]] assms(4)[OF n] h by (intro check_quiet) (simp_all add: node_get.simps expects_def)
  then have "check_hosts order N = Inr (N\<lparr>nw_hosts := \<lambda>name. if name \<in> set host_names then map_option checked (nw_hosts N name) else nw_hosts N name\<rparr>)"
    using check_hosts_eq[OF assms(2), of N] assms(3) by simp
  moreover have "(node_get p N)\<lparr>ai_datagrams_out := []\<rparr> = node_get p N" if "p \<in> nodes" for p using c(3)[OF that] by (rule queue_idle)
  ultimately show ?thesis using checked_ready[OF assms(1) c(1) _ calm_queues[OF assms(1)] refl] by blast
qed

lemma test_ttl_ready:
  assumes "ready M N" "macs_ok M" and "distinct order" "set order = set host_names"
    and "sends_via A i" "numeric_name gni 0 (host_hop A)" and "ttl \<le> 1" and "Address_of_ip gai str 0 = Inr (ipv4_address 0 dst)"
  shows "\<exists>N'. test_ttl gai gni order A str ttl (rd, N) = Inr ((\<lambda>n. rd (Suc n)), N') \<and> ready M N'"
proof -
  have calm: "calm_net M N" using assms(1) by (simp add: ready_def)
  have A: "adjacent (Inr A) (Inl i)" using assms(5) by (auto simp: sends_via_def adjacent_def)
  define d where "d = test_datagram (node_ip (Inr A)) dst ttl (rd 0)"
  have d: "ip_ttl (dg_header d) \<le> 1" "dg_encodable d"
    using assms(7) test_datagram_encodable by (simp_all add: d_def test_datagram_def Let_def)
  obtain ni where ni: "NetworkInterface_send_datagram d (ipv4_address 0 (host_hop A)) (ai_interface (node_get (Inr A) N)) = Inr ni"
    and s: "send_from gni A (ipv4_address 0 dst) ttl (rd, N) = Inr (d, (\<lambda>n. rd (Suc n)), node_put (Inr A) ((node_get (Inr A) N)\<lparr>ai_interface := ni\<rparr>) N)"
    using send_from_eq[where rd = rd, OF calm assms(5,6) d_def] by blast
  have "Address_ipv4_numeric (ipv4_address 0 (host_hop A)) = Inr (node_ip (Inl i))" using assms(5) by (simp add: sends_via_def)
  from rounds_expire[OF calm assms(2) A d(2,1) ni this] obtain N' where N': "calm_net M N'" "expects N' = expects N"
    "simulate_rounds 256 (node_put (Inr A) ((node_get (Inr A) N)\<lparr>ai_interface := ni\<rparr>) N) = Inr N'" by blast
  obtain N'' where "check_hosts order N' = Inr N''" "ready M N''"
    using quiet_checked[OF N'(1) assms(3,4)] N'(2) assms(1) by (auto simp: ready_def)
  then show ?thesis using s N'(3) assms(8) by (simp add: test_ttl_def Network_simulate_def)
qed

section \<open>The constructor\<close>

text \<open>The addresses that the program names, and what they stand for.\<close>

definition sim_names :: "(string \<times> u32) list" where
  "sim_names = [(''171.67.76.46'', 0xab434c2e), (''10.0.0.1'', 0x0a000001), (''172.16.0.1'', 0xac100001),
    (''192.168.0.1'', 0xc0a80001), (''198.178.229.1'', 0xc6b2e501), (''143.195.0.2'', 0x8fc30002), (''128.30.76.255'', 0x801e4cff),
    (''10.0.0.2'', 0x0a000002), (''171.67.76.1'', 0xab434c01), (''192.168.0.2'', 0xc0a80002), (''143.195.0.1'', 0x8fc30001),
    (''198.178.229.42'', 0xc6b2e52a), (''198.178.229.43'', 0xc6b2e52b), (''0.0.0.0'', 0), (''10.0.0.0'', 0x0a000000),
    (''172.16.0.0'', 0xac100000), (''192.168.0.0'', 0xc0a80000), (''198.178.229.0'', 0xc6b2e500), (''143.195.0.0'', 0x8fc30000),
    (''143.195.128.0'', 0x8fc38000), (''143.195.192.0'', 0x8fc3c000), (''128.30.0.1'', 0x801e0001), (''1.2.3.4'', 0x01020304),
    (''143.195.131.17'', 0x8fc38311), (''143.195.193.52'', 0x8fc3c134), (''143.195.223.255'', 0x8fc3dfff),
    (''143.195.224.0'', 0x8fc3e000), (''0'', 0)]"

lemma sim_names_dotted: "list_all (\<lambda>(str, ip). str = inet_ntoa ip) (butlast sim_names)"
  by code_simp

text \<open>
  What \<^verbatim>\<open>getaddrinfo(3)\<close> documents of addresses in numbers-and-dots notation, and \<^verbatim>\<open>getnameinfo(3)\<close> of printing addresses
  in that notation, for the addresses of the program.
\<close>

definition resolves :: "getaddrinfo \<Rightarrow> bool" where
  "resolves gai \<longleftrightarrow> (\<forall>(str, ip) \<in> set sim_names.
     gai str (decimal 0) (make_hints (or AI_NUMERICHOST AI_NUMERICSERV) AF_INET) = Inr (Some (sockaddr_in 0 ip)))"

definition prints :: "getnameinfo \<Rightarrow> bool" where
  "prints gni \<longleftrightarrow> (\<forall>(str, ip) \<in> set sim_names. numeric_name gni 0 ip)"

lemma resolved:
  assumes "resolves gai"
  shows "list_all (\<lambda>(str, ip). Address_of_ip gai str 0 = Inr (ipv4_address 0 ip)) sim_names"
  using assms by (auto simp: resolves_def list_all_iff Address_of_ip_def Address_resolve_def of_sockaddr_in)

lemma printed:
  assumes "prints gni"
  shows "list_all (\<lambda>(str, ip). Address_ip gni (ipv4_address 0 ip) = Inr (inet_ntoa ip)) sim_names"
  using assms by (auto simp: prints_def list_all_iff Address_ip_def numeric_ip_port)

definition later :: "nat \<Rightarrow> rng \<Rightarrow> rng" where
  "later k rd = (\<lambda>n. rd (n + k))"

lemma later_simps [simp]: "later 0 rd = rd" "later j (later k rd) = later (j + k) rd"
  by (simp_all add: later_def add.assoc)

lemma random_bytes_rest: "snd (random_bytes n rd) = later n rd"
  by (induction n arbitrary: rd) (simp_all add: rd_next_def split_beta later_def)

lemma random_rest:
  "snd (random_host_ethernet_address rd) = later 6 rd" "snd (random_router_ethernet_address rd) = later 6 rd"
  by (simp_all add: random_host_ethernet_address_def random_router_ethernet_address_def random_bytes_rest split_beta)

text \<open>The Ethernet addresses: six outputs of the generator for each interface of the router, then for each host.\<close>

fun sim_macs :: "rng \<Rightarrow> node \<Rightarrow> EthernetAddress" where
  "sim_macs rd (Inl i) = fst (random_router_ethernet_address (later (6 * i) rd))"
| "sim_macs rd (Inr name) = fst (random_host_ethernet_address (later (42 + 6 * the (map_of (zip host_names [0..<6]) name)) rd))"

definition fresh :: "EthernetAddress \<Rightarrow> u32 \<Rightarrow> AsyncNetworkInterface" where
  "fresh mac ip = AsyncNetworkInterface_of (NetworkInterface_init mac (ipv4_address 0 ip))"

definition fresh_host :: "string \<Rightarrow> u32 \<Rightarrow> u32 \<Rightarrow> EthernetAddress \<Rightarrow> Host" where
  "fresh_host name ip hop mac = \<lparr>ho_name = name, ho_my_address = ipv4_address 0 ip, ho_interface = fresh mac ip,
     ho_next_hop = ipv4_address 0 hop, ho_expecting_to_receive = []\<rparr>"

lemma new_interface_eq:
  assumes "Address_of_ip gai str 0 = Inr (ipv4_address 0 ip)" and "Address_ip gni (ipv4_address 0 ip) = Inr x"
  shows "new_interface gai gni str (rd, r) = Inr (size_of (ro_interfaces r), later 6 rd,
    r\<lparr>ro_interfaces := ro_interfaces r @ [fresh (fst (random_router_ethernet_address rd)) ip]\<rparr>)"
  using random_rest(2)[of rd] assms
  by (simp add: new_interface_def NetworkInterface_new_def split_beta Router_add_interface_def fresh_def Let_def size_of_def)

lemma insert_host_eq:
  assumes "Address_of_ip gai a 0 = Inr (ipv4_address 0 ip)" "Address_of_ip gai b 0 = Inr (ipv4_address 0 hop)" "nw_hosts N name = None"
    and "Address_ip gni (ipv4_address 0 ip) = Inr x"
  shows "insert_host gai gni name a b (rd, N) = Inr (later 6 rd, put_host name (fresh_host name ip hop (fst (random_host_ethernet_address rd))) N)"
  using random_rest(1)[of rd] assms
  by (simp add: insert_host_def Host_new_def NetworkInterface_new_def split_beta fresh_host_def fresh_def Let_def)

lemma network_route_eq:
  assumes "Address_of_ip gai str 0 = Inr (ipv4_address 0 ip)" and "n \<le> 32" and "Address_ip gni (ipv4_address 0 ip) = Inr x"
    and "case hop of None \<Rightarrow> True | Some h \<Rightarrow> \<exists>y. Address_ip gni (ipv4_address 0 h) = Inr y"
  shows "network_route gai gni str n (map_option (ipv4_address 0) hop) i N =
    Inr (N\<lparr>nw_router := (nw_router N)\<lparr>ro_routingTable := ro_routingTable (nw_router N) @ [sim_route ip n hop i]\<rparr>\<rparr>)"
  using assms by (cases hop) (auto simp: network_route_def sim_ip_def Router_add_route_def prefix_mask_def sim_route_def)

lemma host_route_eq:
  assumes "Address_of_ip gai str 0 = Inr (ipv4_address 0 ip)" and "n \<le> 32" and "Network_host name N = Inr h" "ho_my_address h = ipv4_address 0 hop"
    and "Address_ip gni (ipv4_address 0 ip) = Inr x" "Address_ip gni (ipv4_address 0 hop) = Inr y"
  shows "host_route gai gni str n name i N =
    Inr (N\<lparr>nw_router := (nw_router N)\<lparr>ro_routingTable := ro_routingTable (nw_router N) @ [sim_route ip n (Some hop) i]\<rparr>\<rparr>)"
  using assms(3,4,6) network_route_eq[OF assms(1,2,5), of "Some hop"] by (simp add: host_route_def)

definition bare_network :: "rng \<Rightarrow> RoutingTableEntry list \<Rightarrow> (string \<rightharpoonup> Host) \<Rightarrow> Network" where
  "bare_network rd table hosts = \<lparr>nw_router = \<lparr>ro_interfaces = map (\<lambda>i. fresh (sim_macs rd (Inl i)) (node_ip (Inl i))) [0..<7],
       ro_routingTable = table\<rparr>,
     nw_default_id = 0, nw_eth0_id = 1, nw_eth1_id = 2, nw_eth2_id = 3, nw_uun3_id = 4, nw_hs4_id = 5, nw_mit5_id = 6, nw_hosts = hosts\<rparr>"

lemma host_hop_values:
  "host_hop ''applesauce'' = 0x0a000001" "host_hop ''default_router'' = 0" "host_hop ''cherrypie'' = 0xc0a80001"
  "host_hop ''hs_router'' = 0" "host_hop ''dm42'' = 0xc6b2e501" "host_hop ''dm43'' = 0xc6b2e501"
  by code_simp+

lemma Network_interfaces_eq:
  assumes "resolves gai" "prints gni"
  shows "Network_interfaces gai gni rd = Inr (later 42 rd, bare_network rd [] Map.empty)"
proof -
  have u: "[0..<7] = [0, 1, 2, 3, 4, 5, 6 :: nat]" by code_simp
  show ?thesis using resolved[OF assms(1)] printed[OF assms(2)]
    by (simp add: sim_names_def Network_interfaces_def new_interface_eq bare_network_def Router_new_def size_of_def u node_ip.simps)
qed

lemma Network_hosts_eq:
  assumes "resolves gai" "prints gni"
  shows "\<exists>hosts. Network_hosts gai gni (later 42 rd, bare_network rd [] Map.empty) = Inr (later 78 rd, bare_network rd [] hosts)
    \<and> dom hosts = set host_names
    \<and> (\<forall>name \<in> set host_names. hosts name = Some (fresh_host name (node_ip (Inr name)) (host_hop name) (sim_macs rd (Inr name))))"
proof -
  define mk where "mk name = fresh_host name (node_ip (Inr name)) (host_hop name) (sim_macs rd (Inr name))" for name
  let ?hosts = "Map.empty(''applesauce'' \<mapsto> mk ''applesauce'', ''default_router'' \<mapsto> mk ''default_router'', ''cherrypie'' \<mapsto> mk ''cherrypie'',
    ''hs_router'' \<mapsto> mk ''hs_router'', ''dm42'' \<mapsto> mk ''dm42'', ''dm43'' \<mapsto> mk ''dm43'')"
  have ips: "node_ip (Inr ''applesauce'') = 0x0a000002" "node_ip (Inr ''default_router'') = 0xab434c01" "node_ip (Inr ''cherrypie'') = 0xc0a80002"
    "node_ip (Inr ''hs_router'') = 0x8fc30001" "node_ip (Inr ''dm42'') = 0xc6b2e52a" "node_ip (Inr ''dm43'') = 0xc6b2e52b"
    by code_simp+
  have idx: "map_of (zip host_names [0..<6]) ''applesauce'' = Some 0" "map_of (zip host_names [0..<6]) ''default_router'' = Some 1"
    "map_of (zip host_names [0..<6]) ''cherrypie'' = Some 2" "map_of (zip host_names [0..<6]) ''hs_router'' = Some 3"
    "map_of (zip host_names [0..<6]) ''dm42'' = Some 4" "map_of (zip host_names [0..<6]) ''dm43'' = Some 5"
    by code_simp+
  have "Network_hosts gai gni (later 42 rd, bare_network rd [] Map.empty) = Inr (later 78 rd, bare_network rd [] ?hosts)"
    using resolved[OF assms(1)] printed[OF assms(2)]
    by (simp add: sim_names_def Network_hosts_def insert_host_eq bare_network_def put_host_def mk_def ips host_hop_values idx)
  moreover have "dom ?hosts = set host_names" "\<forall>name \<in> set host_names. ?hosts name = Some (mk name)"
    by (auto simp: host_names_def)
  ultimately show ?thesis unfolding mk_def by blast
qed

lemma Network_routes_eq:
  assumes "resolves gai" "prints gni"
    and "hosts ''default_router'' = Some (fresh_host ''default_router'' 0xab434c01 a m)" "hosts ''hs_router'' = Some (fresh_host ''hs_router'' 0x8fc30001 b n)"
  shows "Network_routes gai gni (bare_network rd [] hosts) = Inr (bare_network rd sim_table hosts)"
proof -
  have h: "Network_host ''default_router'' (bare_network rd t hosts) = Inr (fresh_host ''default_router'' 0xab434c01 a m)"
    "Network_host ''hs_router'' (bare_network rd t hosts) = Inr (fresh_host ''hs_router'' 0x8fc30001 b n)" for t
    using assms(3,4) by (simp_all add: Network_host_def bare_network_def fresh_host_def)
  have r: "(bare_network rd t hosts)\<lparr>nw_router := (nw_router (bare_network rd t hosts))\<lparr>ro_routingTable := u\<rparr>\<rparr> = bare_network rd u hosts"
    "ro_routingTable (nw_router (bare_network rd t hosts)) = t" for t u
    by (simp_all add: bare_network_def)
  have ids: "nw_default_id (bare_network rd t hosts) = 0" "nw_eth0_id (bare_network rd t hosts) = 1" "nw_eth1_id (bare_network rd t hosts) = 2"
    "nw_eth2_id (bare_network rd t hosts) = 3" "nw_uun3_id (bare_network rd t hosts) = 4" "nw_hs4_id (bare_network rd t hosts) = 5"
    "nw_mit5_id (bare_network rd t hosts) = 6" for t by (simp_all add: bare_network_def)
  have m: "ho_my_address (fresh_host x ip y z) = ipv4_address 0 ip" for x ip y z by (simp add: fresh_host_def)
  note direct = network_route_eq[where hop = None, simplified] and via = network_route_eq[where hop = "Some hop" for hop, simplified]
  show ?thesis using resolved[OF assms(1)] printed[OF assms(2)]
    by (simp add: sim_names_def Network_routes_def host_route_eq[OF _ _ h(1) m] host_route_eq[OF _ _ h(2) m] direct via ids r sim_table_def)
qed

lemma sim_macs_private: "eth_address (sim_macs rd p) \<and> sim_macs rd p \<noteq> ETHERNET_BROADCAST"
proof (cases p)
  case (Inl i)
  then show ?thesis using random_private[OF disjI2[OF refl]] by simp
next
  case (Inr name)
  then show ?thesis using random_private[OF disjI1[OF refl]] by simp
qed

lemma fresh_calm: "eth_address mac \<Longrightarrow> calm_ni ip mac (ai_interface (fresh mac ip))" "ai_datagrams_out (fresh mac ip) = []"
    "ni_mac (ai_interface (fresh mac ip)) x = None"
  using new_ni_inv[of mac "ipv4_address 0 ip"]
  by (simp_all add: fresh_def AsyncNetworkInterface_of_def calm_ni_def NetworkInterface_init_def ni_ip_def ni_mac_def)

lemma Network_new_ready:
  assumes "resolves gai" "prints gni"
  shows "\<exists>N. Network_new gai gni rd = Inr (later 78 rd, N) \<and> ready (sim_macs rd) N"
proof -
  let ?mk = "\<lambda>name. fresh_host name (node_ip (Inr name)) (host_hop name) (sim_macs rd (Inr name))"
  obtain hosts where hosts: "Network_hosts gai gni (later 42 rd, bare_network rd [] Map.empty) = Inr (later 78 rd, bare_network rd [] hosts)"
    "dom hosts = set host_names" and mk: "\<And>name. name \<in> set host_names \<Longrightarrow> hosts name = Some (?mk name)"
    using Network_hosts_eq[OF assms] by blast
  have "''default_router'' \<in> set host_names" "''hs_router'' \<in> set host_names" "node_ip (Inr ''default_router'') = 0xab434c01"
    "node_ip (Inr ''hs_router'') = 0x8fc30001" by (simp_all add: host_names_def node_ip.simps)
  with mk[of "''default_router''"] mk[of "''hs_router''"] Network_routes_eq[OF assms]
  have "Network_routes gai gni (bare_network rd [] hosts) = Inr (bare_network rd sim_table hosts)" by simp
  then have new: "Network_new gai gni rd = Inr (later 78 rd, bare_network rd sim_table hosts)"
    using Network_interfaces_eq[OF assms] hosts(1) by (simp add: Network_new_def)
  let ?N = "bare_network rd sim_table hosts"
  have get: "node_get p ?N = fresh (sim_macs rd p) (node_ip p)" if "p \<in> nodes" for p
    using that by (cases rule: node_cases) (simp_all add: node_get.simps bare_network_def mk fresh_host_def)
  have "ho_name h = name \<and> ho_my_address h = ipv4_address 0 (node_ip (Inr name)) \<and> ho_next_hop h = ipv4_address 0 (host_hop name)"
    if "hosts name = Some h" for name h
    using that mk[of name] domI[of hosts name h] hosts(2) by (simp add: fresh_host_def)
  then have "net_wf ?N" using hosts(2) by (simp add: net_wf_def bare_network_def)
  then have "calm_net (sim_macs rd) ?N" using fresh_calm sim_macs_private by (simp add: calm_net_def get)
  then show ?thesis using new mk by (auto simp: ready_def expects_def bare_network_def fresh_host_def)
qed

section \<open>The whole program\<close>

lemma senders: "sends_via ''applesauce'' 1" "sends_via ''cherrypie'' 3" "sends_via ''dm42'' 4"
  by code_simp+

lemma destinations:
  "routes_to (node_ip (Inr ''cherrypie'')) 3 (Inr ''cherrypie'')" "routes_to (node_ip (Inr ''applesauce'')) 1 (Inr ''applesauce'')"
  "routes_to 0x01020304 0 (Inr ''default_router'')" "routes_to 0x8fc38311 5 (Inr ''hs_router'')" "routes_to 0x8fc3c134 5 (Inr ''hs_router'')"
  "routes_to 0x8fc3dfff 5 (Inr ''hs_router'')" "routes_to 0x8fc3e000 0 (Inr ''default_router'')" "routes_to (node_ip (Inr ''dm43'')) 4 (Inr ''dm43'')"
  by code_simp+

text \<open>The route to the network of \<^verbatim>\<open>mit5\<close> has bits below its prefix length, so that no destination takes it.\<close>

lemma mit5_unreachable: "\<not> rt_matches dst (sim_table ! 8)"
proof
  assume "rt_matches dst (sim_table ! 8)"
  then have e: "and dst (not (mask 16)) = (0x801e4cff :: u32)" by (simp add: rt_matches_def sim_table_def sim_route_def)
  show False using arg_cong[OF e, of "\<lambda>w. bit w 0"] by (simp add: bit_and_iff bit_not_iff bit_mask_iff)
qed

text \<open>A test of the program runs to its end in every network that is ready, and leaves it ready.\<close>

definition passes :: "(node \<Rightarrow> EthernetAddress) \<Rightarrow> (rng \<times> Network \<Rightarrow> (rng \<times> Network) result) \<Rightarrow> bool" where
  "passes M f \<longleftrightarrow> (\<forall>rd N. ready M N \<longrightarrow> (\<exists>rd' N'. f (rd, N) = Inr (rd', N') \<and> ready M N'))"

lemma passes_then:
  assumes "ready M (snd s)" "passes M f" and "\<And>s. ready M (snd s) \<Longrightarrow> g s = Inr ()"
  shows "bind_result (f s) g = Inr ()"
proof -
  obtain rd' N' where "f s = Inr (rd', N')" "ready M N'" using assms(1,2) unfolding passes_def by (metis prod.collapse)
  then show ?thesis using assms(3) by (simp add: bind_result_def)
qed

lemma test_host_passes:
  assumes "macs_ok M" "distinct order" "set order = set host_names" and "sends_via A i" "numeric_name gni 0 (host_hop A)"
    and "routes_to (node_ip (Inr B)) j (Inr B)" "A \<noteq> B" and "B \<in> set host_names"
  shows "passes M (test_host gni order A B)"
  unfolding passes_def
proof (intro allI impI)
  fix rd N assume r: "ready M N"
  then have wf: "net_wf N" unfolding ready_def by (rule conjunct1[THEN calm_netD(1)])
  obtain h where h: "nw_hosts N B = Some h" by (rule host_some[OF wf assms(8)])
  then have "ho_name h = B" "ho_my_address h = ipv4_address 0 (node_ip (Inr B))" using wf by (simp_all add: net_wf_def)
  then have "test_host gni order A B (rd, N) = test_delivery gni order A (ipv4_address 0 (node_ip (Inr B))) B (rd, N)"
    using h by (simp add: test_host_def Network_host_def)
  then show "\<exists>rd' N'. test_host gni order A B (rd, N) = Inr (rd', N') \<and> ready M N'"
    using test_delivery_ready[OF r assms(1-7), of rd] by metis
qed

lemma test_address_passes:
  assumes "macs_ok M" "distinct order" "set order = set host_names" and "sends_via A i" "numeric_name gni 0 (host_hop A)"
    and "routes_to dst j (Inr B)" "A \<noteq> B" and "Address_of_ip gai str 0 = Inr (ipv4_address 0 dst)"
  shows "passes M (test_address gai gni order A str B)"
  unfolding passes_def
proof (intro allI impI)
  fix rd N assume r: "ready M N"
  have "test_address gai gni order A str B (rd, N) = test_delivery gni order A (ipv4_address 0 dst) B (rd, N)"
    using assms(8) by (simp add: test_address_def)
  then show "\<exists>rd' N'. test_address gai gni order A str B (rd, N) = Inr (rd', N') \<and> ready M N'"
    using test_delivery_ready[OF r assms(1-7), of rd] by metis
qed

lemma test_ttl_passes:
  assumes "macs_ok M" "distinct order" "set order = set host_names" and "sends_via A i" "numeric_name gni 0 (host_hop A)"
    and "ttl \<le> 1" and "Address_of_ip gai str 0 = Inr (ipv4_address 0 dst)"
  shows "passes M (test_ttl gai gni order A str ttl)"
  unfolding passes_def using test_ttl_ready[OF _ assms] by metis

text \<open>
  C13. The network simulator succeeds. When \<^verbatim>\<open>getaddrinfo\<close> and \<^verbatim>\<open>getnameinfo\<close> convert numeric addresses as
  documented and the Ethernet addresses on the shared cable differ, the program runs to its end
  without an exception, whatever else the random generator yields and in whatever order the hosts
  are checked: every datagram sent across the router arrives, once, unchanged except for its time to
  live, at the host that the routing table determines and at no other, and those with an expired
  time to live arrive nowhere.
\<close>

theorem network_simulator_succeeds:
  assumes "resolves gai" and "prints gni"
    and "distinct order" "set order = set host_names"
    and "distinct [sim_macs rd (Inl 4), sim_macs rd (Inr ''dm42''), sim_macs rd (Inr ''dm43'')]"
  shows "network_simulator gai gni order rd = Inr ()"
proof -
  let ?M = "sim_macs rd"
  have m: "macs_ok ?M" using assms(5) sim_macs_private by (simp add: macs_ok_def)
  have gn: "numeric_name gni 0 (host_hop ''applesauce'')" "numeric_name gni 0 (host_hop ''cherrypie'')" "numeric_name gni 0 (host_hop ''dm42'')"
    using assms(2) by (simp_all add: prints_def sim_names_def host_hop_values)
  have B: "''cherrypie'' \<in> set host_names" "''applesauce'' \<in> set host_names" "''dm43'' \<in> set host_names" by (simp_all add: host_names_def)
  have lk: "Address_of_ip gai ''1.2.3.4'' 0 = Inr (ipv4_address 0 0x01020304)"
    "Address_of_ip gai ''143.195.131.17'' 0 = Inr (ipv4_address 0 0x8fc38311)" "Address_of_ip gai ''143.195.193.52'' 0 = Inr (ipv4_address 0 0x8fc3c134)"
    "Address_of_ip gai ''143.195.223.255'' 0 = Inr (ipv4_address 0 0x8fc3dfff)" "Address_of_ip gai ''143.195.224.0'' 0 = Inr (ipv4_address 0 0x8fc3e000)"
    using resolved[OF assms(1)] by (simp_all add: sim_names_def)
  note hst = test_host_passes[OF m assms(3,4)] and adr = test_address_passes[OF m assms(3,4)] and ttl = test_ttl_passes[OF m assms(3,4)]
  note tests = hst[OF senders(1) gn(1) destinations(1) _ B(1)] hst[OF senders(2) gn(2) destinations(2) _ B(2)]
    adr[OF senders(1) gn(1) destinations(3) _ lk(1)] adr[OF senders(1) gn(1) destinations(4) _ lk(2)]
    adr[OF senders(2) gn(2) destinations(5) _ lk(3)] adr[OF senders(2) gn(2) destinations(6) _ lk(4)] adr[OF senders(2) gn(2) destinations(7) _ lk(5)]
    hst[OF senders(3) gn(3) destinations(8) _ B(3)] ttl[OF senders(1) gn(1) _ lk(1)]
  obtain N where "Network_new gai gni rd = Inr (later 78 rd, N)" "ready ?M N" using Network_new_ready[OF assms(1,2)] by blast
  then show ?thesis unfolding network_simulator_def
    by (auto simp: bind_result_def[of "Inr _"] intro!: passes_then[where M = ?M] tests)
qed

definition sim_gai :: getaddrinfo where
  "sim_gai node service hints = (case map_of sim_names node of Some ip \<Rightarrow> Inr (Some (sockaddr_in 0 ip)) | None \<Rightarrow> Inl (- 2))"

definition sim_gni :: getnameinfo where
  "sim_gni addr = Inr (inet_ntoa (int_of_bytes (take 4 (drop 4 addr))), decimal 0)"

lemma sim_gai_resolves: "resolves sim_gai"
proof -
  have "distinct (map fst sim_names)" by code_simp
  then show ?thesis by (auto simp: resolves_def sim_gai_def)
qed

lemma sim_gni_prints: "prints sim_gni"
proof -
  have "numeric_name sim_gni 0 ip" for ip by (simp add: numeric_name_def sim_gni_def sockaddr_in_def wire_put_eq)
  then show ?thesis by (auto simp: prints_def)
qed

theorem network_simulator_succeeds_witness: "network_simulator sim_gai sim_gni host_names of_nat = Inr ()"
proof (rule network_simulator_succeeds[OF sim_gai_resolves sim_gni_prints])
  show "distinct host_names" by code_simp
  show "distinct [sim_macs of_nat (Inl 4), sim_macs of_nat (Inr ''dm42''), sim_macs of_nat (Inr ''dm43'')]" by code_simp
qed (rule refl)

end
