(* ===== verification/Spec2Isabelle.thy ===== *)
theory Spec2Isabelle
  imports TCP_Handshake TCP_Network Router Socket_Thread SHA256_Digest Packet_Dump Stream_Copy Simulator_Test
begin

text \<open>
  \<^bold>\<open>Sponge: a user-space TCP/IP stack\<close>

  The program under \<^verbatim>\<open>src/libsponge\<close> is a TCP/IP stack in C++. A \<^verbatim>\<open>TCPConnection\<close> couples a
  \<^verbatim>\<open>TCPSender\<close>, which cuts the bytes the application writes into segments and retransmits them, and
  a \<^verbatim>\<open>TCPReceiver\<close>, which puts the peer's segments in order with a \<^verbatim>\<open>StreamReassembler\<close>; both keep
  their bytes in a \<^verbatim>\<open>ByteStream\<close> and number them with \<^verbatim>\<open>WrappingInt32\<close>. Adapters carry the segments in
  UDP payloads, in IPv4 datagrams on a TUN device, or in Ethernet frames on a TAP device; a
  \<^verbatim>\<open>NetworkInterface\<close> finds Ethernet addresses by ARP, and a \<^verbatim>\<open>Router\<close> forwards datagrams between
  interfaces. A \<^verbatim>\<open>TCPSpongeSocket\<close> runs a connection in a thread, an \<^verbatim>\<open>EventLoop\<close> over file descriptors,
  between the bytes of its owner and the datagrams of an adapter. The programs under \<^verbatim>\<open>src/apps\<close> use
  these parts.

  \<^bold>\<open>Conventions\<close> (\<open>Sponge_Prelude\<close>). Integers have the width of the C++ type and wrap: \<open>u8\<close> to \<open>u64\<close>
  are words, \<^verbatim>\<open>size_t\<close> is \<open>u64\<close>. A class is a record, a method a function from the object to the
  result and the new object. What a call can do other than return is a value of \<open>exn\<close>: an exception
  with its text, or \<open>Undefined_Behaviour\<close> for a read out of range, \<^verbatim>\<open>front()\<close> of an empty queue or a bad
  shift; an operation that can do it returns \<open>exn + 'a\<close>. A container that exists has fewer than
  \<open>2 ^ 64\<close> elements (\<open>fits\<close>). Loops are recursion on the list they consume or have a termination
  proof; the two loops that may run forever, \<open>tcp_loop\<close> and \<open>run_until_exit\<close>, are partial functions to
  \<open>option\<close>, and where they end is proved as such. No definition uses fuel. The locales
  \<open>invariant_system\<close> and \<open>safe_machine\<close> state what it takes for a component never to fail; they are
  interpreted on the reassembler (\<open>sr\<close>), the receiver (\<open>rx\<close>), the connection (\<open>cn\<close>, \<open>silent\<close>) and the
  network interface (\<open>ni\<close>). The locales \<open>event_client\<close>, \<open>busy_free_client\<close> and \<open>terminating_client\<close> are the
  contract between the event loop and its rules, \<open>datagram_port\<close> that between a socket and its adapter.

  \<^bold>\<open>The theories\<close>, from the bottom up:

    \<^item> \<open>Wrapping_Integers\<close> (\<^verbatim>\<open>wrapping_integers.{hh,cc}\<close>): \<open>unwrap\<close> finds the closest absolute sequence
      number and inverts \<open>wrap\<close>.
    \<^item> \<open>Byte_Stream\<close> (\<^verbatim>\<open>byte_stream.{hh,cc}\<close>): the stream is a bounded queue (locale \<open>bounded_fifo\<close>); a
      write after the end of the input is accepted.
    \<^item> \<open>Stream_Reassembler\<close> (\<^verbatim>\<open>stream_reassembler.{hh,cc}\<close>): no push reaches undefined behaviour;
      \<^verbatim>\<open>push_substring\<close> refines the addition of positions to a set; excerpts of one string come out
      as a prefix of it; an early empty end marker ends the stream too soon.
    \<^item> \<open>Net_Buffer\<close>, \<open>Net_Parser\<close>, \<open>Internet_Checksum\<close> (\<^verbatim>\<open>util/buffer\<close>, \<^verbatim>\<open>util/parser\<close>, \<^verbatim>\<open>util/util\<close>):
      a buffer list is the string it concatenates to (locale \<open>discardable\<close>); integers written are
      read back (locale \<open>wire_int\<close>, interpreted for 8, 16 and 32 bits); the checksum loop
      terminates, computes the ones'-complement sum, and a filled-in checksum verifies.
    \<^item> \<open>TCP_Header\<close>, \<open>IPv4\<close>, \<open>Ethernet\<close> (\<^verbatim>\<open>tcp_helpers/tcp_header\<close>, \<^verbatim>\<open>tcp_segment\<close>, \<^verbatim>\<open>ipv4_header\<close>,
      \<^verbatim>\<open>ipv4_datagram\<close>, \<^verbatim>\<open>ethernet_header\<close>, \<^verbatim>\<open>ethernet_frame\<close>, \<^verbatim>\<open>arp_message\<close>): serialize and parse are
      inverse, and what the parsers accept that they should not.
    \<^item> \<open>Stream_Segments\<close>: what it means that a segment belongs to a byte stream; the contract between
      the two ends.
    \<^item> \<open>TCP_Receiver\<close> (\<^verbatim>\<open>tcp_receiver.{hh,cc}\<close>): never fails, its window is right, and from segments of
      a stream it delivers a prefix of the stream.
    \<^item> \<open>TCP_Sender\<close>, \<open>TCP_Sender_Session\<close> (\<^verbatim>\<open>tcp_sender.{hh,cc}\<close>, \<^verbatim>\<open>tcp_helpers/tcp_config.hh\<close>): the
      segments that \<^verbatim>\<open>fill_window\<close> sends are those of \<open>window_segments\<close>, cut from what fits in the window; an
      acknowledgment drops exactly the segments that end (\<open>seg_end\<close>) at or before it; everything sent
      belongs to the stream; the oldest segment is retransmitted at the tick at which the timeout is
      reached and not before; the window estimate underflows when the peer shrinks its window.
    \<^item> \<open>TCP_State\<close>, \<open>TCP_Connection\<close>, \<open>TCP_Lifecycle\<close>, \<open>TCP_Handshake\<close>, \<open>TCP_Network\<close>
      (\<^verbatim>\<open>tcp_helpers/tcp_state\<close>, \<^verbatim>\<open>tcp_connection.{hh,cc}\<close>): a connection never fails, acknowledges,
      lingers and stops, aborts with RST; three segments open a connection; and two connections
      over a network that loses, repeats and reorders deliver to each reader a prefix of what the
      other side wrote.
    \<^item> \<open>Address\<close> (\<^verbatim>\<open>util/address.{hh,cc}\<close>): socket addresses as bytes. \<^verbatim>\<open>getaddrinfo\<close> and \<^verbatim>\<open>getnameinfo\<close>
      are parameters; \<open>numeric_name\<close> and \<open>numeric_lookup\<close> are what their manual pages say of numeric
      addresses.
    \<^item> \<open>Network_Interface\<close>, \<open>Router\<close> (\<^verbatim>\<open>network_interface.{hh,cc}\<close>, \<^verbatim>\<open>router.{hh,cc}\<close>): datagrams wait for
      address resolution and leave in order, entries expire on time, the longest matching prefix
      decides, every queue is emptied, and a datagram with a wrong version stops the router.
    \<^item> \<open>TCP_Over_IP\<close> (\<^verbatim>\<open>tcp_helpers/tcp_over_ip\<close>, \<^verbatim>\<open>fd_adapter\<close>, \<^verbatim>\<open>tuntap_adapter\<close>, \<^verbatim>\<open>lossy_fd_adapter\<close>):
      a segment survives wrapping into a datagram, the wire, and unwrapping at the peer.
    \<^item> \<open>File_Descriptor\<close>, \<open>Event_Loop\<close>, \<open>Sockets\<close> (\<^verbatim>\<open>util/file_descriptor\<close>, \<^verbatim>\<open>util/eventloop\<close>, \<^verbatim>\<open>util/socket\<close>,
      \<^verbatim>\<open>util/tun\<close>): the kernel is a record of system calls over an abstract state; a write of everything
      ends and writes everything, one turn of the event loop has the documented outcomes, and a client
      whose rules make progress ends.
    \<^item> \<open>Sponge_Socket\<close>, \<open>Datagram_Ports\<close>, \<open>Socket_Loop\<close>, \<open>Socket_Thread\<close> (\<^verbatim>\<open>tcp_helpers/tcp_sponge_socket\<close>): the
      socket's thread has no undefined behaviour, moves the bytes between owner and connection without
      loss, never spins and ends when the connection does; a destroyed socket sends no RST.
    \<^item> \<open>Text_Output\<close> (\<^verbatim>\<open>to_string\<close> and \<^verbatim>\<open>summary\<close> in \<^verbatim>\<open>tcp_helpers\<close>, \<^verbatim>\<open>hexdump\<close> in \<^verbatim>\<open>util/util.cc\<close>): the layout of a hex
      dump, and that Ethernet addresses are told apart by their text.
    \<^item> \<open>SHA256_Digest\<close> (\<^verbatim>\<open>apps/lab7.cc\<close>, class \<^verbatim>\<open>SHA256\<close>): it computes SHA-256 as FIPS 180-4 defines it.
    \<^item> \<open>Packet_Dump\<close> (\<^verbatim>\<open>apps/udp_tcpdump.cc\<close>): which addresses and which payload are shown of a captured packet,
      behind which extension headers, and when memory beyond its end is read.
    \<^item> \<open>Stream_Copy\<close> (\<^verbatim>\<open>apps/bidirectional_stream_copy.cc\<close>): everything is copied in both directions, and the
      loop ends.
    \<^item> \<open>Network_Simulator\<close>, \<open>Simulator_Cables\<close>, \<open>Simulator_Run\<close>, \<open>Simulator_Test\<close> (\<^verbatim>\<open>apps/network_simulator.cc\<close>):
      the hosts, the cables, the network and the test program. The random Ethernet addresses are
      private and unicast; a hop over a cable takes one round, or three when the address has to be
      resolved first; a datagram crosses the router within the 256 rounds of a test (at most six
      are needed) or expires there; every test leaves the network ready for the next one, and so
      the program runs to its end. The hypotheses are that numeric addresses convert as
      documented (\<open>resolves\<close>, \<open>prints\<close>) and that the Ethernet addresses on the shared cable
      differ.

  \<^bold>\<open>Not modelled.\<close> Threads and \<^verbatim>\<open>join\<close>: a socket's thread is the function it runs, its owner the other end
  of its stream socket. Reference counts of descriptors and buffers, which are not observable except
  that closing is an operation of its own. What is written to \<^verbatim>\<open>cerr\<close> and \<^verbatim>\<open>cout\<close>, apart from \<^verbatim>\<open>hexdump\<close> and from
  conversions in it that can throw. The command lines of \<^verbatim>\<open>tcp_ipv4\<close>, \<^verbatim>\<open>tcp_udp\<close>, \<^verbatim>\<open>tcp_ip_ethernet\<close>, \<^verbatim>\<open>tcp_native\<close>,
  \<^verbatim>\<open>webget\<close> and \<^verbatim>\<open>tun\<close>, which only call modelled parts; \<^verbatim>\<open>tcp_benchmark\<close>, which measures time; \<^verbatim>\<open>bouncer\<close>; the
  threads of \<^verbatim>\<open>lab7\<close>; the pcap library; the clock, the entropy source and the name service, whose answers
  are arguments.
\<close>

end
